(* ===== verification/Prelude.thy ===== *)
theory Prelude
  imports Main "HOL-Library.AList" "HOL-Library.Sublist"
begin

text \<open>
  Shared ground of the development: the model of Go's \<^verbatim>\<open>error\<close> values, the result type
  \<open>go_error + 'a\<close> that every fallible function returns, the collections of simplification
  rules the component theories extend, generic facts on lists, and three interfaces that several
  components share: print/parse pairs (\<open>codec\<close>), machines with an invariant
  (\<open>transition_system\<close>) and maps of limited size (\<open>bounded_cache\<close>).
\<close>

section \<open>Rule collections\<close>

named_theorems go_string_simps \<open>equations of the string functions of the Go library\<close>
named_theorems io_simps \<open>unfolding rules of the operating-system calls\<close>
named_theorems frame_intros \<open>rules that show that a command stays inside its frame\<close>

section \<open>Go errors\<close>

text \<open>
  The error numbers the code distinguishes.  \<open>EIO\<close> stands for every failure the code only
  passes on, \<open>ECANCELED\<close> for \<^verbatim>\<open>context.Canceled\<close>, \<open>ETIMEDOUT\<close> for an exceeded deadline and
  \<open>ECLOSED\<close> for \<^verbatim>\<open>net.ErrClosed\<close>.
\<close>

datatype errno = ENOENT | EEXIST | EPERM | EIO | ENOTDIR | EWOULDBLOCK | ENOTSUP | EBADF
  | ECONNREFUSED | ECANCELED | ETIMEDOUT | ECLOSED | EADDRINUSE

text \<open>
  An \<^verbatim>\<open>error\<close> is an operating-system error, a text made by \<^verbatim>\<open>errors.New\<close> or
  \<^verbatim>\<open>fmt.Errorf\<close> without \<^verbatim>\<open>%w\<close>, a text wrapped around another error
  (\<^verbatim>\<open>%w\<close>), or a join (\<^verbatim>\<open>errors.Join\<close>).
\<close>

datatype go_error =
    Os errno
  | New string
  | Wrapf string go_error
  | Join "go_error list"

type_synonym 'a res = "go_error + 'a"

text \<open>\<^verbatim>\<open>errors.Is\<close> walks the chain of wrapped and joined errors.\<close>

fun error_is :: "go_error \<Rightarrow> go_error \<Rightarrow> bool" where
  "error_is (Os n) t = (Os n = t)"
| "error_is (New s) t = (New s = t)"
| "error_is (Wrapf s e) t = (Wrapf s e = t \<or> error_is e t)"
| "error_is (Join es) t = (Join es = t \<or> (\<exists>e \<in> set es. error_is e t))"

text \<open>The text of an error (\<^verbatim>\<open>Error()\<close>); a wrapped error follows its message and a colon.\<close>

fun errno_text :: "errno \<Rightarrow> string" where
  "errno_text ENOENT = ''no such file or directory''"
| "errno_text EEXIST = ''file exists''"
| "errno_text EPERM = ''operation not permitted''"
| "errno_text EIO = ''input/output error''"
| "errno_text ENOTDIR = ''not a directory''"
| "errno_text EWOULDBLOCK = ''resource temporarily unavailable''"
| "errno_text ENOTSUP = ''operation not supported''"
| "errno_text EBADF = ''bad file descriptor''"
| "errno_text ECONNREFUSED = ''connection refused''"
| "errno_text ECANCELED = ''context canceled''"
| "errno_text ETIMEDOUT = ''i/o timeout''"
| "errno_text ECLOSED = ''use of closed network connection''"
| "errno_text EADDRINUSE = ''address already in use''"

fun lines_text :: "string list \<Rightarrow> string" where
  "lines_text [] = []"
| "lines_text [x] = x"
| "lines_text (x # xs) = x @ [CHR 0x0A] @ lines_text xs"

fun error_text :: "go_error \<Rightarrow> string" where
  "error_text (Os n) = errno_text n"
| "error_text (New s) = s"
| "error_text (Wrapf s e) = s @ '': '' @ error_text e"
| "error_text (Join es) = lines_text (map error_text es)"

definition is_ok :: "'a res \<Rightarrow> bool" where
  "is_ok r = (case r of Inl _ \<Rightarrow> False | Inr _ \<Rightarrow> True)"

lemma is_ok_simps [simp]: "is_ok (Inr x)" "\<not> is_ok (Inl e)"
  by (simp_all add: is_ok_def)

text \<open>Times and durations are nanoseconds.\<close>

definition second :: int where "second = 1000000000"

section \<open>Lists\<close>

lemma map_of_filter_key:
  "map_of (filter (\<lambda>p. P (fst p)) xs) k = (if P k then map_of xs k else None)"
  by (induction xs) auto

lemma list_all_dropWhile: "list_all P xs \<Longrightarrow> list_all P (dropWhile Q xs)"
  by (induction xs) auto

lemma last_in_tail: "xs \<noteq> [] \<Longrightarrow> last xs \<in> set xs"
  by (rule last_in_set)

section \<open>Print and parse\<close>

text \<open>
  A printer and a parser that are inverse to each other on the texts the parser accepts: the
  text of a value is unique, so comparing texts is comparing values.
\<close>

locale codec =
  fixes print_val :: "'a \<Rightarrow> string"
    and parse_val :: "string \<Rightarrow> 'a option"
  assumes parse_print: "parse_val (print_val x) = Some x"
    and print_parse: "parse_val s = Some x \<Longrightarrow> print_val x = s"
begin

lemma print_inject: "print_val x = print_val y \<longleftrightarrow> x = y"
  by (metis option.inject parse_print)

lemma parse_iff: "parse_val s = Some x \<longleftrightarrow> s = print_val x"
  using parse_print print_parse by auto

lemma same_text_iff: "parse_val s = Some y \<Longrightarrow> print_val x = s \<longleftrightarrow> x = y"
  by (metis option.inject parse_print print_parse)

end

section \<open>Machines with an invariant\<close>

text \<open>
  States are reached from an initial state by steps; an invariant that holds initially and is
  kept by every step holds in every reachable state.
\<close>

inductive reach :: "('s \<Rightarrow> bool) \<Rightarrow> ('s \<Rightarrow> 's \<Rightarrow> bool) \<Rightarrow> 's \<Rightarrow> bool" for init step where
  reach_init: "init s \<Longrightarrow> reach init step s"
| reach_step: "reach init step s \<Longrightarrow> step s t \<Longrightarrow> reach init step t"

locale transition_system =
  fixes init :: "'s \<Rightarrow> bool"
    and step :: "'s \<Rightarrow> 's \<Rightarrow> bool"
    and inv :: "'s \<Rightarrow> bool"
  assumes inv_init: "init s \<Longrightarrow> inv s"
    and inv_step: "inv s \<Longrightarrow> step s t \<Longrightarrow> inv t"
begin

lemma inv_reach: "reach init step s \<Longrightarrow> inv s"
  by (induction rule: reach.induct) (auto intro: inv_init inv_step)

lemma inv_steps: "step\<^sup>*\<^sup>* s t \<Longrightarrow> inv s \<Longrightarrow> inv t"
  by (induction rule: rtranclp_induct) (auto intro: inv_step)

end

section \<open>Bounded caches\<close>

text \<open>
  A map of limited size: putting an entry into a full map first deletes one entry, whichever
  the iteration over the map yields first (the argument \<open>victim\<close>).
\<close>

definition drop_nth :: "nat \<Rightarrow> 'a list \<Rightarrow> 'a list" where
  "drop_nth i xs = take i xs @ drop (Suc i) xs"

definition put_bounded :: "nat \<Rightarrow> nat \<Rightarrow> 'k \<Rightarrow> 'v \<Rightarrow> ('k \<times> 'v) list \<Rightarrow> ('k \<times> 'v) list" where
  "put_bounded cap victim k v xs =
     AList.update k v (if length xs \<ge> cap then drop_nth (victim mod length xs) xs else xs)"

locale bounded_cache =
  fixes cap :: nat
    and put :: "nat \<Rightarrow> 'k \<Rightarrow> 'v \<Rightarrow> 'c \<Rightarrow> 'c"
    and get :: "'c \<Rightarrow> 'k \<Rightarrow> 'v option"
    and size_of :: "'c \<Rightarrow> nat"
    and good :: "'c \<Rightarrow> bool"
  assumes get_put: "get (put i k v c) k = Some v"
    and get_put_other: "good c \<Longrightarrow> k' \<noteq> k \<Longrightarrow> get (put i k v c) k' = Some v' \<Longrightarrow> get c k' = Some v'"
    and size_put: "size_of c \<le> cap \<Longrightarrow> size_of (put i k v c) \<le> cap"
    and good_put: "good c \<Longrightarrow> good (put i k v c)"
begin

lemma put_all: "good c \<Longrightarrow> (\<And>k v. get c k = Some v \<Longrightarrow> P k v) \<Longrightarrow> P k0 v0 \<Longrightarrow> get (put i k0 v0 c) k = Some v \<Longrightarrow> P k v"
  using get_put get_put_other by (metis option.inject)

lemma puts_bounded: "size_of c \<le> cap \<Longrightarrow> size_of (fold (\<lambda>(i, k, v). put i k v) es c) \<le> cap"
  by (induction es arbitrary: c) (auto intro: size_put)

end

lemma set_drop_nth: "set (drop_nth i xs) \<subseteq> set xs"
  by (auto simp: drop_nth_def dest: in_set_takeD in_set_dropD)

lemma length_drop_nth: "i < length xs \<Longrightarrow> length (drop_nth i xs) = length xs - 1"
  by (simp add: drop_nth_def)

lemma distinct_drop_nth: "distinct (map fst xs) \<Longrightarrow> distinct (map fst (drop_nth i xs))"
  using set_take_disj_set_drop_if_distinct [of "map fst xs" i "Suc i"]
  by (simp add: drop_nth_def take_map [symmetric] drop_map [symmetric])

lemma length_update_le: "length (AList.update k v xs) \<le> Suc (length xs)"
  by (induction xs) auto

lemma length_put_bounded:
  assumes "0 < cap"
  shows "length (put_bounded cap i k v xs) \<le> max cap (length xs)"
proof (cases "length xs \<ge> cap")
  case True
  with assms have "i mod length xs < length xs" by (intro mod_less_divisor) auto
  from length_drop_nth [OF this] True assms show ?thesis
    using length_update_le [of k v "drop_nth (i mod length xs) xs"] by (simp add: put_bounded_def)
next
  case False
  with length_update_le [of k v xs] show ?thesis by (simp add: put_bounded_def)
qed

interpretation alist_cache: bounded_cache "Suc n" "put_bounded (Suc n)" map_of length "\<lambda>c. distinct (map fst c)" for n
proof
  show "map_of (put_bounded (Suc n) i k v c) k = Some v" for i k v c
    by (simp add: put_bounded_def update_conv')
  show "map_of c k' = Some v'" if "distinct (map fst c)" "k' \<noteq> k" "map_of (put_bounded (Suc n) i k v c) k' = Some v'" for c k' k i v v'
  proof -
    from that have "(k', v') \<in> set c"
      using set_drop_nth [of "i mod length c" c] by (auto simp: put_bounded_def update_conv' split: if_splits dest!: map_of_SomeD)
    with that(1) show ?thesis by simp
  qed
  show "length (put_bounded (Suc n) i k v c) \<le> Suc n" if "length c \<le> Suc n" for c i k v
    using length_put_bounded [of "Suc n" i k v c] that by simp
  show "distinct (map fst (put_bounded (Suc n) i k v c))" if "distinct (map fst c)" for i k v c
    using that distinct_drop_nth [OF that] by (simp add: put_bounded_def distinct_update)
qed

end
