(* ===== verification/GoStrings.thy ===== *)
theory GoStrings
  imports Prelude
begin

text \<open>
  The functions of Go's \<^verbatim>\<open>strings\<close>, \<^verbatim>\<open>bytes\<close> and \<^verbatim>\<open>strconv\<close>
  packages that the program calls.  A Go string or byte slice is a \<open>string\<close>: one
  \<open>char\<close> per byte.  \<^verbatim>\<open>ToLower\<close>, \<^verbatim>\<open>TrimSpace\<close> and \<^verbatim>\<open>Fields\<close> are
  modelled on the ASCII range: a byte from 128 on is neither a letter with a lower case nor
  white space here.
\<close>

section \<open>Characters\<close>

definition code :: "char \<Rightarrow> nat" where
  "code c = of_char c"

lemma code_inject [simp]: "code a = code b \<longleftrightarrow> a = b"
  by (simp add: code_def)

lemma code_char_of [simp]: "n < 256 \<Longrightarrow> code (char_of n) = n"
  by (simp add: code_def)

lemma char_of_code [simp]: "char_of (code c) = c"
  by (simp add: code_def)

definition is_digit :: "char \<Rightarrow> bool" where
  "is_digit c = (48 \<le> code c \<and> code c \<le> 57)"

definition is_lower :: "char \<Rightarrow> bool" where
  "is_lower c = (97 \<le> code c \<and> code c \<le> 122)"

definition lower_char :: "char \<Rightarrow> char" where
  "lower_char c = (if 65 \<le> code c \<and> code c \<le> 90 then char_of (code c + 32) else c)"

definition is_space :: "char \<Rightarrow> bool" where
  "is_space c = ((9 \<le> code c \<and> code c \<le> 13) \<or> code c = 32)"

abbreviation newline :: char where
  "newline \<equiv> CHR 0x0A"

definition to_lower :: "string \<Rightarrow> string" where
  "to_lower s = map lower_char s"

lemma lower_char_idem [simp]: "lower_char (lower_char c) = lower_char c"
  by (simp add: lower_char_def)

lemma lower_char_id: "\<not> (65 \<le> code c \<and> code c \<le> 90) \<Longrightarrow> lower_char c = c"
  by (simp only: lower_char_def if_False)

lemma to_lower_idem [simp]: "to_lower (to_lower s) = to_lower s"
  by (simp add: to_lower_def)

lemma to_lower_append [simp]: "to_lower (s @ t) = to_lower s @ to_lower t"
  by (simp add: to_lower_def)

lemma to_lower_Nil [simp]: "to_lower [] = []" and
  length_to_lower [simp]: "length (to_lower s) = length s" and
  to_lower_eq_Nil [simp]: "to_lower s = [] \<longleftrightarrow> s = []"
  by (simp_all add: to_lower_def)

text \<open>Digits and lower-case letters by code, to evaluate concrete texts.\<close>

lemma char_evals:
  "char_of (48 :: nat) = CHR ''0''" "char_of (49 :: nat) = CHR ''1''" "char_of (50 :: nat) = CHR ''2''" "char_of (51 :: nat) = CHR ''3''"
  "char_of (52 :: nat) = CHR ''4''" "char_of (53 :: nat) = CHR ''5''" "char_of (54 :: nat) = CHR ''6''" "char_of (55 :: nat) = CHR ''7''"
  "char_of (56 :: nat) = CHR ''8''" "char_of (57 :: nat) = CHR ''9''" "char_of (97 :: nat) = CHR ''a''" "char_of (98 :: nat) = CHR ''b''"
  "char_of (99 :: nat) = CHR ''c''" "char_of (100 :: nat) = CHR ''d''" "char_of (101 :: nat) = CHR ''e''" "char_of (102 :: nat) = CHR ''f''"
  "char_of (103 :: nat) = CHR ''g''" "char_of (104 :: nat) = CHR ''h''" "char_of (105 :: nat) = CHR ''i''" "char_of (106 :: nat) = CHR ''j''"
  "char_of (107 :: nat) = CHR ''k''" "char_of (108 :: nat) = CHR ''l''" "char_of (109 :: nat) = CHR ''m''" "char_of (110 :: nat) = CHR ''n''"
  "char_of (111 :: nat) = CHR ''o''" "char_of (112 :: nat) = CHR ''p''" "char_of (113 :: nat) = CHR ''q''" "char_of (114 :: nat) = CHR ''r''"
  "char_of (115 :: nat) = CHR ''s''" "char_of (116 :: nat) = CHR ''t''" "char_of (117 :: nat) = CHR ''u''" "char_of (118 :: nat) = CHR ''v''"
  "char_of (119 :: nat) = CHR ''w''" "char_of (120 :: nat) = CHR ''x''" "char_of (121 :: nat) = CHR ''y''" "char_of (122 :: nat) = CHR ''z''"
  by (simp_all add: char_of_def bit_0)

section \<open>Prefixes, suffixes, substrings\<close>

abbreviation has_prefix :: "string \<Rightarrow> string \<Rightarrow> bool" where
  "has_prefix s p \<equiv> prefix p s"

abbreviation has_suffix :: "string \<Rightarrow> string \<Rightarrow> bool" where
  "has_suffix s p \<equiv> suffix p s"

abbreviation contains_str :: "string \<Rightarrow> string \<Rightarrow> bool" where
  "contains_str s p \<equiv> sublist p s"

definition trim_prefix :: "string \<Rightarrow> string \<Rightarrow> string" where
  "trim_prefix s p = (if has_prefix s p then drop (length p) s else s)"

definition trim_suffix :: "string \<Rightarrow> string \<Rightarrow> string" where
  "trim_suffix s p = (if has_suffix s p then take (length s - length p) s else s)"

definition trim_space :: "string \<Rightarrow> string" where
  "trim_space s = rev (dropWhile is_space (rev (dropWhile is_space s)))"

text \<open>\<^verbatim>\<open>strings.Trim(s, cutset)\<close>.\<close>

definition trim_set :: "string \<Rightarrow> string \<Rightarrow> string" where
  "trim_set s cs = rev (dropWhile (\<lambda>c. c \<in> set cs) (rev (dropWhile (\<lambda>c. c \<in> set cs) s)))"

definition contains_any :: "string \<Rightarrow> string \<Rightarrow> bool" where
  "contains_any s cs = list_ex (\<lambda>c. c \<in> set cs) s"

lemma trim_suffix_dot: "trim_suffix s ''.'' = (if s \<noteq> [] \<and> last s = CHR ''.'' then butlast s else s)"
proof (cases s rule: rev_cases)
  case Nil
  then show ?thesis by (simp add: trim_suffix_def)
next
  case (snoc ys y)
  then show ?thesis
    by (auto simp: trim_suffix_def suffix_def butlast_append)
qed

lemma trim_space_hd: "\<not> is_space x \<Longrightarrow> \<exists>t. trim_space (x # s) = x # t"
  by (simp add: trim_space_def dropWhile_append3)

lemma trim_space_snoc: "is_space x \<Longrightarrow> trim_space (s @ [x]) = trim_space s"
proof -
  assume x: "is_space x"
  show ?thesis
  proof (cases "\<forall>y \<in> set s. is_space y")
    case True
    with x have e: "dropWhile is_space (s @ [x]) = []" "dropWhile is_space s = []" by auto
    show ?thesis unfolding trim_space_def e ..
  next
    case False
    then obtain y where "y \<in> set s" "\<not> is_space y" by blast
    then have "dropWhile is_space (s @ [x]) = dropWhile is_space s @ [x]" by (rule dropWhile_append1)
    with x show ?thesis by (simp add: trim_space_def)
  qed
qed

lemma set_trim_space: "set (trim_space s) \<subseteq> set s"
  by (auto simp: trim_space_def dest!: set_dropWhileD)

section \<open>Splitting\<close>

text \<open>\<open>split_by P s\<close> cuts before every character with \<open>P\<close> and drops it:
  \<^verbatim>\<open>strings.Split\<close> for a one-byte separator.  The result is never empty.\<close>

fun split_by :: "(char \<Rightarrow> bool) \<Rightarrow> string \<Rightarrow> string list" where
  "split_by P [] = [[]]"
| "split_by P (c # s) =
     (if P c then [] # split_by P s
      else (case split_by P s of [] \<Rightarrow> [[c]] | w # ws \<Rightarrow> (c # w) # ws))"

definition split_on :: "char \<Rightarrow> string \<Rightarrow> string list" where
  "split_on c = split_by (\<lambda>x. x = c)"

text \<open>\<^verbatim>\<open>SplitAfter\<close> keeps the separator at the end of each piece.\<close>

fun split_after :: "char \<Rightarrow> string \<Rightarrow> string list" where
  "split_after c [] = [[]]"
| "split_after c (x # s) =
     (if x = c then [x] # split_after c s
      else (case split_after c s of [] \<Rightarrow> [[x]] | w # ws \<Rightarrow> (x # w) # ws))"

definition split_fields :: "string \<Rightarrow> string list" where
  "split_fields s = filter (\<lambda>w. w \<noteq> []) (split_by is_space s)"

text \<open>\<^verbatim>\<open>strings.Cut\<close> for a one-byte separator.\<close>

definition cut :: "string \<Rightarrow> char \<Rightarrow> string \<times> string \<times> bool" where
  "cut s c = (takeWhile (\<lambda>x. x \<noteq> c) s, drop 1 (dropWhile (\<lambda>x. x \<noteq> c) s), c \<in> set s)"

fun join :: "string \<Rightarrow> string list \<Rightarrow> string" where
  "join sep [] = []"
| "join sep [x] = x"
| "join sep (x # xs) = x @ sep @ join sep xs"

text \<open>A slice of strings in a message (\<^verbatim>\<open>%v\<close>).\<close>

definition show_strings :: "string list \<Rightarrow> string" where
  "show_strings xs = ''['' @ join '' '' xs @ '']''"

text \<open>\<^verbatim>\<open>strings.ReplaceAll\<close> of a one-byte string.\<close>

definition replace_all :: "string \<Rightarrow> char \<Rightarrow> string \<Rightarrow> string" where
  "replace_all s c r = concat (map (\<lambda>x. if x = c then r else [x]) s)"

text \<open>The last index of a byte: the text before it and after it.\<close>

definition cut_last :: "string \<Rightarrow> char \<Rightarrow> (string \<times> string) option" where
  "cut_last s c =
     (if c \<in> set s
      then Some (rev (drop 1 (dropWhile (\<lambda>x. x \<noteq> c) (rev s))), rev (takeWhile (\<lambda>x. x \<noteq> c) (rev s)))
      else None)"

lemma split_by_nonempty [simp]: "split_by P s \<noteq> []"
  by (cases s) (auto split: list.splits)

lemma split_on_nonempty [simp]: "split_on c s \<noteq> []"
  by (simp add: split_on_def)

lemma split_after_nonempty [simp]: "split_after c s \<noteq> []"
  by (cases s) (auto split: list.splits)

lemma concat_split_after [simp]: "concat (split_after c s) = s"
proof (induction s)
  case (Cons x s)
  obtain h t where "split_after c s = h # t" by (cases "split_after c s") auto
  with Cons show ?case by auto
qed simp

lemma split_after_line: "s = [] \<or> c \<notin> set s \<Longrightarrow> split_after c s = [s]"
  by (induction s) auto

lemma split_after_append:
  "c \<notin> set l \<Longrightarrow> split_after c (l @ [c] @ s) = (l @ [c]) # split_after c s"
  by (induction l) auto

lemma split_on_append:
  "c \<notin> set l \<Longrightarrow> split_on c (l @ c # s) = l # split_on c s"
  by (induction l) (auto simp: split_on_def)

lemma split_on_single: "c \<notin> set l \<Longrightarrow> split_on c l = [l]"
  by (induction l) (auto simp: split_on_def)

lemma split_by_no: "w \<in> set (split_by P s) \<Longrightarrow> x \<in> set w \<Longrightarrow> \<not> P x"
proof (induction s arbitrary: w)
  case (Cons c s)
  obtain h t where s: "split_by P s = h # t" by (cases "split_by P s") auto
  from Cons.prems Cons.IH [of h] Cons.IH [of w] s show ?case
    by (auto split: if_splits)
qed simp

lemma split_on_no_sep: "w \<in> set (split_on c s) \<Longrightarrow> c \<notin> set w"
  using split_by_no [of w "\<lambda>x. x = c" s] by (auto simp: split_on_def)

lemma set_split_by: "w \<in> set (split_by P s) \<Longrightarrow> set w \<subseteq> set s"
proof (induction s arbitrary: w)
  case (Cons c s)
  obtain h t where s: "split_by P s = h # t" by (cases "split_by P s") auto
  from Cons.prems Cons.IH [of h] Cons.IH [of w] s show ?case
    by (auto split: if_splits)
qed simp

lemma set_split_on: "w \<in> set (split_on c s) \<Longrightarrow> set w \<subseteq> set s"
  by (auto simp: split_on_def dest: set_split_by)

lemma join_split_on: "join [c] (split_on c s) = s"
proof (induction s)
  case Nil
  then show ?case by (simp add: split_on_def)
next
  case (Cons x s)
  obtain h t where s: "split_by (\<lambda>y. y = c) s = h # t" by (cases "split_by (\<lambda>y. y = c) s") auto
  then show ?case using Cons by (cases t) (auto simp: split_on_def)
qed

text \<open>Texts that end in the separator split into two independent parts.\<close>

lemma split_after_concat:
  "s = [] \<or> last s = c \<Longrightarrow> split_after c (s @ t) = butlast (split_after c s) @ split_after c t"
proof (induction s)
  case (Cons x s)
  show ?case
  proof (cases s)
    case Nil
    with Cons.prems show ?thesis by simp
  next
    case (Cons y s')
    with Cons.prems Cons.IH have IH: "split_after c (s @ t) = butlast (split_after c s) @ split_after c t"
      by simp
    from Cons Cons.prems have "c \<in> set s" by (metis last_ConsR last_in_set list.distinct(1))
    then have two: "\<exists>h h2 tl2. split_after c s = h # h2 # tl2"
    proof (induction s)
      case (Cons z s)
      obtain h u where "split_after c s = h # u" by (cases "split_after c s") auto
      with Cons show ?case by (cases u) auto
    qed simp
    then obtain h h2 tl2 where "split_after c s = h # h2 # tl2" by blast
    with IH show ?thesis by simp
  qed
qed simp

lemma split_after_last_Nil:
  "s = [] \<or> last s = c \<Longrightarrow> last (split_after c s) = []"
proof (induction s)
  case (Cons x s)
  show ?case
  proof (cases s)
    case Nil
    with Cons.prems show ?thesis by simp
  next
    case (Cons y s')
    with Cons.prems Cons.IH have IH: "last (split_after c s) = []" by simp
    show ?thesis
    proof (cases "tl (split_after c s)")
      case Nil
      then have "split_after c s = [[]]"
        using IH by (cases "split_after c s") auto
      then have "s = []" by (metis concat_split_after concat.simps(1) concat.simps(2) append_Nil)
      with Cons show ?thesis by simp
    next
      case (Cons a list)
      with IH show ?thesis by (cases "split_after c s") auto
    qed
  qed
qed simp

lemma split_after_snoc:
  "split_after c (s @ [c]) = butlast (split_after c s) @ [last (split_after c s) @ [c], []]"
proof (induction s)
  case (Cons x s)
  obtain w ws where s: "split_after c s = w # ws" by (cases "split_after c s") auto
  with Cons show ?case by (cases ws) auto
qed simp

lemma split_on_snoc: "split_on c (s @ [c]) = split_on c s @ [[]]"
proof (induction s)
  case (Cons x s)
  obtain w ws where "split_on c s = w # ws" by (cases "split_on c s") auto
  with Cons show ?case by (auto simp: split_on_def)
qed (simp add: split_on_def)

text \<open>Every line but the last ends in the separator, so lines can be regrouped freely.\<close>

lemma split_after_Cons_line:
  "split_after c s = l # ls \<Longrightarrow> ls \<noteq> [] \<Longrightarrow>
     \<exists>l'. l = l' @ [c] \<and> c \<notin> set l' \<and> s = l @ concat ls \<and> split_after c (concat ls) = ls"
proof (induction s arbitrary: l)
  case (Cons x s)
  show ?case
  proof (cases "x = c")
    case True
    with Cons.prems have "l = [c]" "ls = split_after c s" by auto
    with True show ?thesis by simp
  next
    case False
    obtain w ws where s: "split_after c s = w # ws" by (cases "split_after c s") auto
    with False Cons.prems have l: "l = x # w" "ls = ws" by auto
    from Cons.IH [OF s [folded l(2)] Cons.prems(2)] obtain l' where
      "w = l' @ [c]" "c \<notin> set l'" "s = w @ concat ls" "split_after c (concat ls) = ls" by blast
    with False l(1) show ?thesis by (intro exI [of _ "x # l'"]) auto
  qed
qed simp

lemma split_after_regroup:
  assumes "split_after c s = xs @ ys" "ys \<noteq> []"
  shows "split_after c (concat ys) = ys \<and> s = concat xs @ concat ys
    \<and> (concat xs = [] \<or> last (concat xs) = c)
    \<and> (\<forall>t. split_after c (concat xs @ t) = xs @ split_after c t)"
  using assms
proof (induction xs arbitrary: s)
  case Nil
  then show ?case by (metis append_Nil concat.simps(1) concat_split_after)
next
  case (Cons l xs)
  then have "split_after c s = l # (xs @ ys)" "xs @ ys \<noteq> []" by auto
  from split_after_Cons_line [OF this] obtain l' where
    l: "l = l' @ [c]" "c \<notin> set l'" "s = l @ concat (xs @ ys)" "split_after c (concat (xs @ ys)) = xs @ ys" by blast
  from Cons.IH [OF l(4) Cons.prems(2)] have IH: "split_after c (concat ys) = ys"
    "concat xs = [] \<or> last (concat xs) = c" "\<And>t. split_after c (concat xs @ t) = xs @ split_after c t"
    by auto
  have "split_after c (concat (l # xs) @ t) = (l # xs) @ split_after c t" for t
    using split_after_append [OF l(2), of "concat xs @ t"] l(1) IH(3) by simp
  with IH l show ?case by auto
qed

lemma ex_split_Cons:
  "(\<exists>xs l ys. x # zs = xs @ l # ys \<and> P xs l ys) \<longleftrightarrow> P [] x zs \<or> (\<exists>xs l ys. zs = xs @ l # ys \<and> P (x # xs) l ys)"
  by (auto simp: Cons_eq_append_conv)

section \<open>Numbers\<close>

definition digit_val :: "char \<Rightarrow> nat" where
  "digit_val c = code c - 48"

definition digit_char :: "nat \<Rightarrow> char" where
  "digit_char n = char_of (48 + n)"

lemma digit_char_simps [simp]:
  "n < 10 \<Longrightarrow> is_digit (digit_char n)"
  "n < 10 \<Longrightarrow> digit_val (digit_char n) = n"
  "n < 10 \<Longrightarrow> code (digit_char n) = 48 + n"
  by (simp_all add: is_digit_def digit_char_def digit_val_def)

lemma digit_val_less [simp]: "is_digit c \<Longrightarrow> digit_val c < 10"
  by (auto simp: is_digit_def digit_val_def)

lemma digit_char_val [simp]: "is_digit c \<Longrightarrow> digit_char (digit_val c) = c"
  by (simp add: is_digit_def digit_char_def digit_val_def)

text \<open>\<^verbatim>\<open>strconv.Itoa\<close> on a non-negative number.\<close>

fun dec :: "nat \<Rightarrow> string" where
  "dec n = (if n < 10 then [digit_char n] else dec (n div 10) @ [digit_char (n mod 10)])"

declare dec.simps [simp del]

definition itoa :: "int \<Rightarrow> string" where
  "itoa i = (if i < 0 then CHR ''-'' # dec (nat (- i)) else dec (nat i))"

definition dec_val :: "string \<Rightarrow> nat" where
  "dec_val s = foldl (\<lambda>v c. v * 10 + digit_val c) 0 s"

text \<open>\<^verbatim>\<open>strconv.ParseUint(s, 10, bits)\<close>: digits only, in range.\<close>

definition parse_uint :: "nat \<Rightarrow> string \<Rightarrow> nat option" where
  "parse_uint bits s =
     (if s \<noteq> [] \<and> list_all is_digit s \<and> dec_val s < 2 ^ bits then Some (dec_val s) else None)"

text \<open>\<^verbatim>\<open>strconv.Atoi\<close>: an optional sign, digits, the range of \<^verbatim>\<open>int64\<close>.\<close>

definition atoi :: "string \<Rightarrow> int option" where
  "atoi s =
     (let neg = (s \<noteq> [] \<and> hd s = CHR ''-'');
          ds = (if s \<noteq> [] \<and> (hd s = CHR ''-'' \<or> hd s = CHR ''+'') then tl s else s);
          v = (if neg then - int (dec_val ds) else int (dec_val ds))
      in if ds \<noteq> [] \<and> list_all is_digit ds \<and> - (2 ^ 63) \<le> v \<and> v < 2 ^ 63 then Some v else None)"

lemma dec_digits: "list_all is_digit (dec n)"
proof (induction n rule: dec.induct)
  case (1 n)
  then show ?case by (subst dec.simps) auto
qed

lemma dec_nonempty [simp]: "dec n \<noteq> []"
  by (subst dec.simps) simp

lemma dec_val_append: "dec_val (s @ [c]) = dec_val s * 10 + digit_val c"
  by (simp add: dec_val_def)

lemma dec_val_dec [simp]: "dec_val (dec n) = n"
proof (induction n rule: dec.induct)
  case (1 n)
  show ?case
  proof (cases "n < 10")
    case True
    then show ?thesis by (subst dec.simps) (simp add: dec_val_def)
  next
    case False
    with "1" show ?thesis by (subst dec.simps) (simp add: dec_val_append)
  qed
qed

lemma dec_inject [simp]: "dec m = dec n \<longleftrightarrow> m = n"
  by (metis dec_val_dec)

lemma dec_set: "c \<in> set (dec n) \<Longrightarrow> is_digit c"
  using dec_digits [of n] by (simp add: list_all_iff)

text \<open>\<^verbatim>\<open>%q\<close>: quotes, backslashes and control characters escaped.\<close>

definition hex_digit :: "nat \<Rightarrow> char" where
  "hex_digit n = (if n < 10 then char_of (48 + n) else char_of (87 + n))"

definition quote_char :: "char \<Rightarrow> string" where
  "quote_char c =
     (if c = CHR 0x22 then [CHR 0x5C, CHR 0x22]
      else if c = CHR 0x5C then [CHR 0x5C, CHR 0x5C]
      else if code c = 7 then [CHR 0x5C, CHR ''a'']
      else if code c = 8 then [CHR 0x5C, CHR ''b'']
      else if code c = 9 then [CHR 0x5C, CHR ''t'']
      else if code c = 10 then [CHR 0x5C, CHR ''n'']
      else if code c = 11 then [CHR 0x5C, CHR ''v'']
      else if code c = 12 then [CHR 0x5C, CHR ''f'']
      else if code c = 13 then [CHR 0x5C, CHR ''r'']
      else if code c < 32 \<or> code c = 127
      then [CHR 0x5C, CHR ''x'', hex_digit (code c div 16), hex_digit (code c mod 16)]
      else [c])"

definition quote :: "string \<Rightarrow> string" where
  "quote s = [CHR 0x22] @ concat (map quote_char s) @ [CHR 0x22]"

end
