(* ===== verification/Paths.thy ===== *)
theory Paths
  imports GoStrings
begin

text \<open>
  The functions of Go's \<^verbatim>\<open>path/filepath\<close> package on Unix that the program calls:
  \<^verbatim>\<open>Clean\<close>, \<^verbatim>\<open>Join\<close>, \<^verbatim>\<open>Dir\<close>, \<^verbatim>\<open>Base\<close>,
  \<^verbatim>\<open>IsAbs\<close>.  The lemma the loops of the program need: \<^verbatim>\<open>Dir\<close> shortens a
  path or leaves it.
\<close>

type_synonym path = string

section \<open>Functions\<close>

text \<open>One component: empty and \<open>.\<close> are dropped, \<open>..\<close> removes the component before it.\<close>

definition clean_step :: "bool \<Rightarrow> string list \<Rightarrow> string \<Rightarrow> string list" where
  "clean_step rooted acc c =
     (if c = [] \<or> c = ''.'' then acc
      else if c = ''..'' then
        (if acc \<noteq> [] \<and> last acc \<noteq> ''..'' then butlast acc else if rooted then acc else acc @ [c])
      else acc @ [c])"

definition is_abs :: "path \<Rightarrow> bool" where
  "is_abs p = (p \<noteq> [] \<and> hd p = CHR ''/'')"

definition path_clean :: "path \<Rightarrow> path" where
  "path_clean p =
     (let out = (if is_abs p then ''/'' else []) @ join ''/'' (foldl (clean_step (is_abs p)) [] (split_on (CHR ''/'') p))
      in if out = [] then ''.'' else out)"

definition path_join :: "path \<Rightarrow> path \<Rightarrow> path" where
  "path_join a b =
     (if a = [] then (if b = [] then [] else path_clean b)
      else if b = [] then path_clean a else path_clean (a @ ''/'' @ b))"

definition path_dir :: "path \<Rightarrow> path" where
  "path_dir p = path_clean (case cut_last p (CHR ''/'') of None \<Rightarrow> [] | Some (d, b) \<Rightarrow> d @ ''/'')"

definition path_base :: "path \<Rightarrow> path" where
  "path_base p =
     (if p = [] then ''.''
      else
        let q = rev (dropWhile (\<lambda>c. c = CHR ''/'') (rev p)) in
        if q = [] then ''/''
        else (case cut_last q (CHR ''/'') of None \<Rightarrow> q | Some (d, b) \<Rightarrow> b))"

lemmas path_evals = path_join_def path_dir_def path_clean_def clean_step_def is_abs_def cut_last_def split_on_def Let_def

section \<open>Lengths\<close>

definition comps_size :: "string list \<Rightarrow> nat" where
  "comps_size cs = sum_list (map (\<lambda>c. Suc (length c)) cs)"

lemma comps_size_simps [simp]:
  "comps_size [] = 0" "comps_size (c # cs) = Suc (length c) + comps_size cs"
  "comps_size (xs @ ys) = comps_size xs + comps_size ys"
  by (simp_all add: comps_size_def)

lemma comps_size_butlast: "comps_size (butlast xs) \<le> comps_size xs"
  by (cases xs rule: rev_cases) auto

lemma comps_size_clean:
  "comps_size (foldl (clean_step r) acc cs) \<le> comps_size acc + comps_size (filter (\<lambda>c. c \<noteq> []) cs)"
proof (induction cs arbitrary: acc)
  case (Cons c cs)
  have "comps_size (clean_step r acc c) \<le> comps_size acc + (if c = [] then 0 else Suc (length c))"
    using comps_size_butlast [of acc] by (auto simp: clean_step_def)
  with Cons [of "clean_step r acc c"] show ?case by auto
qed simp

lemma comps_size_split: "comps_size (split_on c s) = Suc (length s)"
proof (induction s)
  case (Cons x s)
  obtain w ws where "split_by (\<lambda>x. x = c) s = w # ws" by (cases "split_by (\<lambda>x. x = c) s") auto
  with Cons show ?case by (simp add: split_on_def)
qed (simp add: split_on_def)

lemma length_join: "cs \<noteq> [] \<Longrightarrow> Suc (length (join [x] cs)) = comps_size cs"
  by (induction "[x]" cs rule: join.induct) auto

lemma comps_size_nonempty:
  "comps_size (filter (\<lambda>c. c \<noteq> []) cs) + length (filter (\<lambda>c. c = []) cs) = comps_size cs"
  by (induction cs) auto

lemma path_clean_length:
  assumes "p \<noteq> []"
  shows "path_clean p = ''.'' \<or> path_clean p = ''/'' \<or>
    length (path_clean p) + length (filter (\<lambda>c. c = []) (split_on (CHR ''/'') p)) \<le> length p + (if is_abs p then 1 else 0)"
proof -
  let ?cs = "foldl (clean_step (is_abs p)) [] (split_on (CHR ''/'') p)"
  let ?n = "length (filter (\<lambda>c. c = []) (split_on (CHR ''/'') p))"
  have le: "comps_size ?cs + ?n \<le> Suc (length p)"
    using comps_size_clean [of "is_abs p" "[]" "split_on (CHR ''/'') p"]
      comps_size_nonempty [of "split_on (CHR ''/'') p"] comps_size_split [of "CHR ''/''" p] by simp
  show ?thesis
  proof (cases "?cs = []")
    case True
    then show ?thesis by (simp add: path_clean_def)
  next
    case False
    from length_join [OF this, of "CHR ''/''"] le show ?thesis
      by (auto simp: path_clean_def Let_def)
  qed
qed

definition climb_size :: "path \<Rightarrow> nat" where
  "climb_size p = (if p = ''.'' then 0 else if p = ''/'' then 1 else 2 * length p + 2)"

lemma cut_last_split: "cut_last s c = Some (d, b) \<Longrightarrow> s = d @ c # b \<and> c \<notin> set b"
proof -
  assume a: "cut_last s c = Some (d, b)"
  then have "c \<in> set (rev s)" and d: "d = rev (drop 1 (dropWhile (\<lambda>x. x \<noteq> c) (rev s)))"
    and b: "b = rev (takeWhile (\<lambda>x. x \<noteq> c) (rev s))"
    by (auto simp: cut_last_def split: if_splits)
  then obtain xs ys where r: "rev s = xs @ c # ys" "c \<notin> set xs" by (meson split_list_first)
  then have "takeWhile (\<lambda>x. x \<noteq> c) (rev s) = xs" "dropWhile (\<lambda>x. x \<noteq> c) (rev s) = c # ys"
    by (auto simp: takeWhile_append dropWhile_append)
  moreover from r have "s = rev ys @ c # rev xs" by (metis append_Cons append_Nil append_assoc rev_append rev.simps(2) rev_rev_ident)
  ultimately show ?thesis using d b r(2) by simp
qed

lemma path_dir_climbs: "path_dir p \<noteq> p \<Longrightarrow> climb_size (path_dir p) < climb_size p"
proof (cases "cut_last p (CHR ''/'')")
  case None
  then have "path_dir p = ''.''" by (simp add: path_evals)
  moreover assume "path_dir p \<noteq> p"
  ultimately show ?thesis by (simp add: climb_size_def)
next
  case (Some a)
  then obtain d b where db: "cut_last p (CHR ''/'') = Some (d, b)" by (cases a) auto
  let ?q = "d @ ''/''"
  note p = cut_last_split [OF db]
  assume ne: "path_dir p \<noteq> p"
  from db have dir: "path_dir p = path_clean ?q" by (simp add: path_dir_def)
  from p have dot: "p \<noteq> ''.''" by (auto simp: append_eq_Cons_conv)
  have slash: "split_on (CHR ''/'') ?q = split_on (CHR ''/'') d @ [[]]" by (simp add: split_on_snoc)
  consider "path_clean ?q = ''.''" | "path_clean ?q = ''/''" "p \<noteq> ''/''"
    | "length (path_clean ?q) < length p" "p \<noteq> ''/''"
  proof (cases "d = []")
    case True
    have "path_clean ''/'' = ''/''" by (simp add: path_evals)
    with True dir ne that(2) show ?thesis by auto
  next
    case False
    then have p1: "p \<noteq> ''/''" using p by (cases d) auto
    have "is_abs ?q \<longrightarrow> filter (\<lambda>c. c = []) (split_on (CHR ''/'') d) \<noteq> []"
    proof
      assume "is_abs ?q"
      with False have "\<exists>t. d = CHR ''/'' # t" by (cases d) (auto simp: is_abs_def)
      then show "filter (\<lambda>c. c = []) (split_on (CHR ''/'') d) \<noteq> []" by (auto simp: split_on_def)
    qed
    then have "(if is_abs ?q then 1 else 0) \<le> length (filter (\<lambda>c. c = []) (split_on (CHR ''/'') d))"
      by (cases "filter (\<lambda>c. c = []) (split_on (CHR ''/'') d)") auto
    with path_clean_length [of ?q] slash p p1 that show ?thesis by fastforce
  qed
  then show ?thesis
    by cases (use dir dot in \<open>auto simp: climb_size_def\<close>)
qed

section \<open>Files of a directory\<close>

text \<open>Joining a directory with a plain name puts the name at the end of a text that depends on
  the directory only, so different names give different paths.\<close>

definition plain_name :: "string \<Rightarrow> bool" where
  "plain_name n = (n \<noteq> [] \<and> n \<noteq> ''.'' \<and> n \<noteq> ''..'' \<and> CHR ''/'' \<notin> set n)"

lemma split_on_snoc_name: "c \<notin> set n \<Longrightarrow> split_on c (s @ c # n) = split_on c s @ [n]"
proof (induction s)
  case Nil
  then show ?case using split_on_single [of c n] by (simp add: split_on_def)
next
  case (Cons x s)
  obtain w ws where w: "split_by (\<lambda>x. x = c) s = w # ws" by (cases "split_by (\<lambda>x. x = c) s") auto
  from Cons w show ?case by (simp add: split_on_def)
qed

lemma join_snoc: "join sep (xs @ [x]) = (if xs = [] then [] else join sep xs @ sep) @ x"
  by (induction sep xs rule: join.induct) auto

lemma path_join_name:
  assumes "plain_name n"
  shows "path_join d n =
    (let cs = foldl (clean_step (is_abs d)) [] (split_on (CHR ''/'') d)
     in (if is_abs d then ''/'' else []) @ (if cs = [] then [] else join ''/'' cs @ ''/'')) @ n"
proof (cases "d = []")
  case True
  from assms have n: "n \<noteq> []" "CHR ''/'' \<notin> set n" "split_on (CHR ''/'') n = [n]"
    by (simp_all add: plain_name_def split_on_single)
  then have "\<not> is_abs n" by (metis hd_in_set is_abs_def)
  with n assms True show ?thesis
    by (simp add: path_join_def path_clean_def clean_step_def plain_name_def is_abs_def split_on_def)
next
  case False
  then have abs: "is_abs (d @ ''/'' @ n) = is_abs d" by (simp add: is_abs_def)
  from assms have "split_on (CHR ''/'') (d @ ''/'' @ n) = split_on (CHR ''/'') d @ [n]"
    using split_on_snoc_name [of "CHR ''/''" n d] by (simp add: plain_name_def)
  with assms False abs show ?thesis
    by (simp add: path_join_def path_clean_def Let_def clean_step_def plain_name_def join_snoc)
qed

lemma path_join_inject: "plain_name m \<Longrightarrow> plain_name n \<Longrightarrow> path_join d m = path_join d n \<longleftrightarrow> m = n"
  by (simp only: path_join_name Let_def same_append_eq)

lemma split_on_join: "cs \<noteq> [] \<Longrightarrow> \<forall>c \<in> set cs. x \<notin> set c \<Longrightarrow> split_on x (join [x] cs) = cs"
  by (induction "[x]" cs rule: join.induct) (auto simp: split_on_single split_on_append)

text \<open>Components that cleaning leaves as they are; the result of cleaning is such a list.\<close>

definition cleaned :: "bool \<Rightarrow> string list \<Rightarrow> bool" where
  "cleaned r cs = (\<forall>xs c ys. cs = xs @ c # ys \<longrightarrow> clean_step r xs c = xs @ [c])"

lemma cleaned_prefix: "cleaned r (xs @ ys) \<Longrightarrow> cleaned r xs"
  by (force simp: cleaned_def)

lemma cleaned_snoc: "cleaned r xs \<Longrightarrow> clean_step r xs c = xs @ [c] \<Longrightarrow> cleaned r (xs @ [c])"
  unfolding cleaned_def
proof (intro allI impI)
  fix us d ys
  assume a: "\<forall>us d ys. xs = us @ d # ys \<longrightarrow> clean_step r us d = us @ [d]" "clean_step r xs c = xs @ [c]" "xs @ [c] = us @ d # ys"
  then show "clean_step r us d = us @ [d]" by (cases ys rule: rev_cases) auto
qed

lemma cleaned_step: "cleaned r acc \<Longrightarrow> cleaned r (clean_step r acc c)"
proof -
  assume a: "cleaned r acc"
  then have "cleaned r (butlast acc)" by (cases acc rule: rev_cases) (auto intro: cleaned_prefix)
  with a cleaned_snoc [OF a, of c] show ?thesis by (auto simp: clean_step_def split: if_splits)
qed

lemma cleaned_fold: "cleaned r acc \<Longrightarrow> cleaned r (foldl (clean_step r) acc cs)"
  by (induction cs arbitrary: acc) (auto intro: cleaned_step)

lemma fold_cleaned: "cleaned r cs \<Longrightarrow> foldl (clean_step r) [] cs = cs"
proof (induction cs rule: rev_induct)
  case (snoc c cs)
  from snoc.prems have "clean_step r cs c = cs @ [c]" by (auto simp: cleaned_def)
  with snoc.IH [OF cleaned_prefix [OF snoc.prems]] show ?case by simp
qed simp

lemma clean_comps_no_sep: "\<forall>c \<in> set acc \<union> set cs. x \<notin> set c \<Longrightarrow> c \<in> set (foldl (clean_step r) acc cs) \<Longrightarrow> x \<notin> set c"
proof (induction cs arbitrary: acc)
  case (Cons d cs)
  have "set (clean_step r acc d) \<subseteq> insert d (set acc)" by (auto simp: clean_step_def dest: in_set_butlastD)
  with Cons show ?case by (auto intro: Cons.IH [of "clean_step r acc d"])
qed auto

text \<open>A directory is never one of its own files.\<close>

lemma path_join_longer:
  assumes n: "plain_name n"
  shows "path_join d n \<noteq> d"
proof
  assume eq: "path_join d n = d"
  let ?r = "is_abs d" and ?cs = "foldl (clean_step (is_abs d)) [] (split_on (CHR ''/'') d)"
  have cl: "cleaned ?r ?cs" by (rule cleaned_fold) (simp add: cleaned_def)
  have nos: "\<forall>c \<in> set (?cs @ [n]). CHR ''/'' \<notin> set c"
    using n clean_comps_no_sep [of "[]" "split_on (CHR ''/'') d" "CHR ''/''" _ ?r] split_on_no_sep [of _ "CHR ''/''" d]
    by (auto simp: plain_name_def)
  have j: "join ''/'' (?cs @ [n]) = (if ?cs = [] then [] else join ''/'' ?cs @ ''/'') @ n" by (simp add: join_snoc)
  from eq path_join_name [OF n, of d] j have "d = (if ?r then ''/'' else []) @ join ''/'' (?cs @ [n])"
    by (simp add: Let_def)
  then have "split_on (CHR ''/'') d = (if ?r then [[]] else []) @ ?cs @ [n]"
    using split_on_join [OF _ nos] split_on_append [of "CHR ''/''" "[]" "join ''/'' (?cs @ [n])"] by (auto split: if_splits)
  then have "?cs = foldl (clean_step ?r) [] ((if ?r then [[]] else []) @ ?cs @ [n])" by simp
  also have "\<dots> = clean_step ?r ?cs n" using fold_cleaned [OF cl] by (cases "is_abs d") (simp_all add: clean_step_def [of _ _ "[]"])
  also have "\<dots> = ?cs @ [n]" using n by (simp add: clean_step_def plain_name_def)
  finally show False by simp
qed

end
