(* ===== verification/World.thy ===== *)
theory World
  imports Paths "HOL-Library.Word"
begin

unbundle bit_operations_syntax

text \<open>
  The operating system as the program sees it: files by path, the effective user, advisory
  locks, and a schedule that says, for each system call in turn, what other processes did to
  the files just before it and whether the call fails.  The schedule is arbitrary, so a theorem
  about every world covers every failure and every interleaving with other processes at the
  granularity of system calls; where the schedule is used up, calls succeed and nobody
  interferes.

  Files are kept by path.  An open file is identified with the path it was opened at, missing
  parent directories and missing permissions are failures of the schedule, and only the last
  component of a path may be a symbolic link.
\<close>

section \<open>Files and schedules\<close>

datatype ftype = Regular | Directory | Symlink | Socket | Special

record node =
  n_type :: ftype
  n_data :: string
  n_perm :: "32 word"
  n_uid :: nat
  n_gid :: nat
  n_ino :: nat
  n_xattrs :: "(string \<times> string) list option"

type_synonym fs = "path \<Rightarrow> node option"

text \<open>
  Extended attributes are \<open>None\<close> where the file system does not support them.

  An event: the edits others make before the call, and the failure of the call, with the
  number of bytes a failing write still writes.
\<close>

record event =
  edits :: "(path \<times> node option) list"
  fault :: "(errno \<times> nat) option"

record world =
  w_fs :: fs
  w_sched :: "event list"
  w_euid :: nat
  w_umask :: "32 word"
  w_cwd :: path
  w_locks :: "path list"
  w_ino :: nat

definition apply_edits :: "(path \<times> node option) list \<Rightarrow> fs \<Rightarrow> fs" where
  "apply_edits es m = foldl (\<lambda>m (q, n). m(q := n)) m es"

text \<open>Start a call: take the next event, let the others act.\<close>

definition tick :: "world \<Rightarrow> (errno \<times> nat) option \<times> world" where
  "tick w =
     (case w_sched w of
       [] \<Rightarrow> (None, w)
     | e # es \<Rightarrow> (fault e, w\<lparr>w_fs := apply_edits (edits e) (w_fs w), w_sched := es\<rparr>))"

section \<open>Commands\<close>

type_synonym 'a io = "world \<Rightarrow> 'a res \<times> world"

definition ret :: "'a \<Rightarrow> 'a io" where
  "ret x w = (Inr x, w)"

definition throw :: "go_error \<Rightarrow> 'a io" where
  "throw e w = (Inl e, w)"

text \<open>A value computed without the system.\<close>

definition of_res :: "'a res \<Rightarrow> 'a io" where
  "of_res r = (case r of Inl e \<Rightarrow> throw e | Inr x \<Rightarrow> ret x)"

definition of_check :: "go_error option \<Rightarrow> unit io" where
  "of_check e = (case e of None \<Rightarrow> ret () | Some e \<Rightarrow> throw e)"

text \<open>Run \<open>m\<close>; on an error stop with it, as \<^verbatim>\<open>if err != nil { return err }\<close> does.\<close>

definition bind_io :: "'a io \<Rightarrow> ('a \<Rightarrow> 'b io) \<Rightarrow> 'b io" where
  "bind_io m k w = (case m w of (Inl e, w') \<Rightarrow> (Inl e, w') | (Inr x, w') \<Rightarrow> k x w')"

text \<open>Run \<open>m\<close> and hand its error on as a value.\<close>

definition attempt :: "'a io \<Rightarrow> 'a res io" where
  "attempt m w = (case m w of (r, w') \<Rightarrow> (Inr r, w'))"

text \<open>\<^verbatim>\<open>defer c()\<close>: run \<open>c\<close> after \<open>m\<close> whatever the outcome, ignoring its result.\<close>

definition deferring :: "unit io \<Rightarrow> 'a io \<Rightarrow> 'a io" where
  "deferring c m w = (case m w of (r, w') \<Rightarrow> (r, snd (c w')))"

text \<open>Wrap the error of a command with a message (\<^verbatim>\<open>%w\<close>).\<close>

definition wrapping :: "string \<Rightarrow> 'a io \<Rightarrow> 'a io" where
  "wrapping s m w = (case m w of (Inl e, w') \<Rightarrow> (Inl (Wrapf s e), w') | (Inr x, w') \<Rightarrow> (Inr x, w'))"

definition guard :: "bool \<Rightarrow> go_error \<Rightarrow> unit io" where
  "guard b e = (if b then throw e else ret ())"

fun foreach :: "'a list \<Rightarrow> ('a \<Rightarrow> unit io) \<Rightarrow> unit io" where
  "foreach [] f = ret ()"
| "foreach (x # xs) f = bind_io (f x) (\<lambda>_. foreach xs f)"

text \<open>
  A failing call reports its own error, never a false \<open>ENOENT\<close>, \<open>EEXIST\<close> or \<open>ENOTSUP\<close>.
\<close>

definition fault_errno :: "errno \<Rightarrow> errno" where
  "fault_errno e = (if e = ENOENT \<or> e = EEXIST \<or> e = ENOTSUP then EIO else e)"

definition sys :: "'a io \<Rightarrow> 'a io" where
  "sys f w = (case tick w of
      (None, w') \<Rightarrow> f w'
    | (Some (e, n), w') \<Rightarrow> (Inl (Os (fault_errno e)), w'))"

definition ok_exec :: "('a res \<times> world) \<Rightarrow> bool" where
  "ok_exec r = is_ok (fst r)"

section \<open>System calls\<close>

definition path_abs :: "path \<Rightarrow> path io" where
  "path_abs p w = (Inr (if is_abs p then path_clean p else path_join (w_cwd w) p), w)"

text \<open>Follow symbolic links; \<open>None\<close> when there are too many.\<close>

fun resolve :: "nat \<Rightarrow> fs \<Rightarrow> path \<Rightarrow> path option" where
  "resolve 0 m p = None"
| "resolve (Suc k) m p =
     (case m p of
       None \<Rightarrow> Some p
     | Some n \<Rightarrow>
         if n_type n = Symlink
         then resolve k m (if is_abs (n_data n) then n_data n else path_join (path_dir p) (n_data n))
         else Some p)"

definition max_links :: nat where
  "max_links = 40"

definition sys_lstat :: "path \<Rightarrow> node io" where
  "sys_lstat p = sys (\<lambda>w. (case w_fs w p of None \<Rightarrow> (Inl (Os ENOENT), w) | Some n \<Rightarrow> (Inr n, w)))"

definition sys_stat :: "path \<Rightarrow> node io" where
  "sys_stat p = sys (\<lambda>w. (case resolve max_links (w_fs w) p of
      None \<Rightarrow> (Inl (Os EIO), w)
    | Some q \<Rightarrow> (case w_fs w q of None \<Rightarrow> (Inl (Os ENOENT), w) | Some n \<Rightarrow> (Inr n, w))))"

definition sys_eval_symlinks :: "path \<Rightarrow> path io" where
  "sys_eval_symlinks p = sys (\<lambda>w. (case resolve max_links (w_fs w) p of
      None \<Rightarrow> (Inl (Os EIO), w)
    | Some q \<Rightarrow> (case w_fs w q of None \<Rightarrow> (Inl (Os ENOENT), w) | Some n \<Rightarrow> (Inr q, w))))"

definition sys_read :: "path \<Rightarrow> string io" where
  "sys_read p = sys (\<lambda>w. (case resolve max_links (w_fs w) p of
      None \<Rightarrow> (Inl (Os EIO), w)
    | Some q \<Rightarrow> (case w_fs w q of
        None \<Rightarrow> (Inl (Os ENOENT), w)
      | Some n \<Rightarrow> if n_type n = Directory then (Inl (Os EIO), w) else (Inr (n_data n), w))))"

definition new_node :: "world \<Rightarrow> ftype \<Rightarrow> 32 word \<Rightarrow> node" where
  "new_node w t m = \<lparr>n_type = t, n_data = [], n_perm = m AND NOT (w_umask w), n_uid = w_euid w,
     n_gid = 0, n_ino = w_ino w, n_xattrs = Some []\<rparr>"

definition put_node :: "path \<Rightarrow> node \<Rightarrow> world \<Rightarrow> world" where
  "put_node p n w = w\<lparr>w_fs := (w_fs w)(p := Some n)\<rparr>"

text \<open>\<^verbatim>\<open>os.MkdirAll\<close>: nothing to do where the path leads to a directory.\<close>

definition leads_to_dir :: "fs \<Rightarrow> path \<Rightarrow> bool" where
  "leads_to_dir m p = (case resolve max_links m p of
      None \<Rightarrow> False | Some q \<Rightarrow> (case m q of None \<Rightarrow> False | Some n \<Rightarrow> n_type n = Directory))"

definition sys_mkdir_all :: "path \<Rightarrow> 32 word \<Rightarrow> unit io" where
  "sys_mkdir_all p m = sys (\<lambda>w. (case w_fs w p of
      None \<Rightarrow> (Inr (), (put_node p (new_node w Directory m) w)\<lparr>w_ino := Suc (w_ino w)\<rparr>)
    | Some n \<Rightarrow> if leads_to_dir (w_fs w) p then (Inr (), w) else (Inl (Os ENOTDIR), w)))"

text \<open>\<^verbatim>\<open>O_WRONLY|O_CREATE|O_EXCL\<close>: never opens what is there.\<close>

definition sys_create_excl :: "path \<Rightarrow> 32 word \<Rightarrow> unit io" where
  "sys_create_excl p m = sys (\<lambda>w. (case w_fs w p of
      Some _ \<Rightarrow> (Inl (Os EEXIST), w)
    | None \<Rightarrow> (Inr (), (put_node p (new_node w Regular m) w)\<lparr>w_ino := Suc (w_ino w)\<rparr>)))"

definition append_data :: "path \<Rightarrow> string \<Rightarrow> world \<Rightarrow> world" where
  "append_data p b w = (case w_fs w p of
      None \<Rightarrow> w
    | Some n \<Rightarrow> put_node p (n\<lparr>n_data := n_data n @ b\<rparr>) w)"

text \<open>A failing write may have written a part; the number of bytes written is returned.\<close>

definition sys_write :: "path \<Rightarrow> string \<Rightarrow> (nat \<times> go_error option) io" where
  "sys_write p b w = (case tick w of
      (None, w') \<Rightarrow> (Inr (length b, None), append_data p b w')
    | (Some (e, n), w') \<Rightarrow>
        (Inr (min n (length b), Some (Os (fault_errno e))), append_data p (take n b) w'))"

definition write_all :: "path \<Rightarrow> string \<Rightarrow> unit io" where
  "write_all p b = bind_io (sys_write p b) (\<lambda>(n, e). case e of None \<Rightarrow> ret () | Some e \<Rightarrow> throw e)"

definition sys_sync :: "path \<Rightarrow> unit io" where
  "sys_sync p = sys (ret ())"

definition sys_close :: "path \<Rightarrow> unit io" where
  "sys_close p = sys (ret ())"

definition modify_node :: "path \<Rightarrow> (node \<Rightarrow> node) \<Rightarrow> unit io" where
  "modify_node p f w = (case w_fs w p of
      None \<Rightarrow> (Inr (), w)
    | Some n \<Rightarrow> (Inr (), put_node p (f n) w))"

definition sys_chmod :: "path \<Rightarrow> 32 word \<Rightarrow> unit io" where
  "sys_chmod p m = sys (modify_node p (\<lambda>n. n\<lparr>n_perm := m\<rparr>))"

definition sys_chown :: "path \<Rightarrow> nat \<Rightarrow> nat \<Rightarrow> unit io" where
  "sys_chown p u g = sys (modify_node p (\<lambda>n. n\<lparr>n_uid := u, n_gid := g\<rparr>))"

definition sys_setxattr :: "path \<Rightarrow> string \<Rightarrow> string \<Rightarrow> unit io" where
  "sys_setxattr p k v = sys (\<lambda>w. (case w_fs w p of
      None \<Rightarrow> (Inr (), w)
    | Some n \<Rightarrow> (case n_xattrs n of
        None \<Rightarrow> (Inl (Os ENOTSUP), w)
      | Some xs \<Rightarrow> (Inr (), put_node p (n\<lparr>n_xattrs := Some (AList.update k v xs)\<rparr>) w))))"

definition sys_listxattr :: "path \<Rightarrow> string list io" where
  "sys_listxattr p = sys (\<lambda>w. (case w_fs w p of
      None \<Rightarrow> (Inl (Os ENOENT), w)
    | Some n \<Rightarrow> (case n_xattrs n of
        None \<Rightarrow> (Inl (Os ENOTSUP), w) | Some xs \<Rightarrow> (Inr (map fst xs), w))))"

definition sys_getxattr :: "path \<Rightarrow> string \<Rightarrow> string io" where
  "sys_getxattr p k = sys (\<lambda>w. (case w_fs w p of
      None \<Rightarrow> (Inl (Os ENOENT), w)
    | Some n \<Rightarrow> (case n_xattrs n of
        None \<Rightarrow> (Inl (Os ENOTSUP), w)
      | Some xs \<Rightarrow> (case map_of xs k of None \<Rightarrow> (Inl (Os ENOENT), w) | Some v \<Rightarrow> (Inr v, w)))))"

definition sys_remove :: "path \<Rightarrow> unit io" where
  "sys_remove p = sys (\<lambda>w. (case w_fs w p of
      None \<Rightarrow> (Inl (Os ENOENT), w) | Some n \<Rightarrow> (Inr (), w\<lparr>w_fs := (w_fs w)(p := None)\<rparr>)))"

definition sys_rename :: "path \<Rightarrow> path \<Rightarrow> unit io" where
  "sys_rename a b = sys (\<lambda>w. (case w_fs w a of
      None \<Rightarrow> (Inl (Os ENOENT), w)
    | Some n \<Rightarrow> (Inr (), w\<lparr>w_fs := (w_fs w)(a := None, b := Some n)\<rparr>)))"

text \<open>
  The lock file is created when it is missing; the lock is exclusive and does not wait.
\<close>

definition sys_open_lock :: "path \<Rightarrow> unit io" where
  "sys_open_lock p = sys (\<lambda>w. (case w_fs w p of
      None \<Rightarrow> (Inr (), (put_node p (new_node w Regular 384) w)\<lparr>w_ino := Suc (w_ino w)\<rparr>)
    | Some n \<Rightarrow> if n_type n = Symlink then (Inl (Os EIO), w) else (Inr (), w)))"

definition sys_flock :: "path \<Rightarrow> unit io" where
  "sys_flock p = sys (\<lambda>w. if p \<in> set (w_locks w) then (Inl (Os EWOULDBLOCK), w)
      else (Inr (), w\<lparr>w_locks := p # w_locks w\<rparr>))"

definition sys_unlock :: "path \<Rightarrow> unit io" where
  "sys_unlock p = sys (\<lambda>w. (Inr (), w\<lparr>w_locks := remove1 p (w_locks w)\<rparr>))"

definition get_euid :: "nat io" where
  "get_euid w = (Inr (w_euid w), w)"

lemmas io_defs [io_simps] = ret_def throw_def bind_io_def attempt_def deferring_def wrapping_def guard_def
  sys_def write_all_def

section \<open>What a command leaves alone\<close>

text \<open>
  The value of one path after the edits of some events; a command leaves a path to the others
  when the path holds afterwards exactly what their edits made of it.
\<close>

definition env_edit :: "path \<Rightarrow> event list \<Rightarrow> node option \<Rightarrow> node option" where
  "env_edit p es v = foldl (\<lambda>v (q, n). if q = p then n else v) v (concat (map edits es))"

definition untouched :: "path \<Rightarrow> world \<Rightarrow> world \<Rightarrow> bool" where
  "untouched p w w' = (\<exists>es. w_sched w = es @ w_sched w' \<and> w_fs w' p = env_edit p es (w_fs w p))"

definition stays :: "(world \<Rightarrow> world \<Rightarrow> bool) \<Rightarrow> 'a io \<Rightarrow> bool" where
  "stays R m = (\<forall>w. R w (snd (m w)))"

text \<open>Only a failing run has to stay in the frame; a command that cannot fail.\<close>

definition fails_inside :: "(world \<Rightarrow> world \<Rightarrow> bool) \<Rightarrow> 'a io \<Rightarrow> bool" where
  "fails_inside R m = (\<forall>w e w'. m w = (Inl e, w') \<longrightarrow> R w w')"

definition never_fails :: "'a io \<Rightarrow> bool" where
  "never_fails m = (\<forall>w. is_ok (fst (m w)))"

text \<open>The contract of a frame: commands compose when the relation is a preorder.\<close>

locale io_frame =
  fixes R :: "world \<Rightarrow> world \<Rightarrow> bool"
  assumes frame_refl: "R w w"
    and frame_trans: "R u v \<Longrightarrow> R v w \<Longrightarrow> R u w"
begin

lemma stays_ret: "stays R (ret x)"
  by (simp add: stays_def ret_def frame_refl)

lemma stays_throw: "stays R (throw e)"
  by (simp add: stays_def throw_def frame_refl)

lemma stays_bind:
  assumes m: "stays R m" and k: "\<And>x. stays R (k x)"
  shows "stays R (bind_io m k)"
  unfolding stays_def
proof
  fix w
  obtain r w' where mw: "m w = (r, w')" by (cases "m w")
  with m have 1: "R w w'" by (metis stays_def snd_conv)
  have "R w' (snd (k x w'))" for x using k [of x] by (simp add: stays_def)
  with 1 show "R w (snd (bind_io m k w))"
    by (cases r) (auto simp: bind_io_def mw intro: frame_trans)
qed

lemma stays_attempt: "stays R m \<Longrightarrow> stays R (attempt m)"
  by (auto simp: stays_def attempt_def split: prod.splits) (metis snd_conv)

lemma stays_wrapping: "stays R m \<Longrightarrow> stays R (wrapping s m)"
  by (auto simp: stays_def wrapping_def split: prod.splits sum.splits) (metis snd_conv)+

lemma stays_deferring: "stays R c \<Longrightarrow> stays R m \<Longrightarrow> stays R (deferring c m)"
  unfolding stays_def deferring_def
  by (auto split: prod.splits) (metis frame_trans snd_conv)

lemma stays_guard: "stays R (guard b e)"
  by (simp add: guard_def stays_ret stays_throw)

lemma stays_foreach: "(\<And>x. stays R (f x)) \<Longrightarrow> stays R (foreach xs f)"
  by (induction xs) (auto intro: stays_ret stays_bind)

lemma stays_if: "stays R m \<Longrightarrow> stays R n \<Longrightarrow> stays R (if b then m else n)"
  by simp

lemma stays_option: "stays R m \<Longrightarrow> (\<And>x. stays R (f x)) \<Longrightarrow> stays R (case y of None \<Rightarrow> m | Some x \<Rightarrow> f x)"
  by (simp split: option.split)

lemma stays_sum: "(\<And>e. stays R (g e)) \<Longrightarrow> (\<And>x. stays R (f x)) \<Longrightarrow> stays R (case y of Inl e \<Rightarrow> g e | Inr x \<Rightarrow> f x)"
  by (simp split: sum.split)

lemma stays_prod: "(\<And>x y. stays R (f x y)) \<Longrightarrow> stays R (case z of (x, y) \<Rightarrow> f x y)"
  by (simp split: prod.split)

lemma stays_let: "(\<And>x. stays R (f x)) \<Longrightarrow> stays R (let x = y in f x)"
  by simp

lemmas stays_rules = stays_ret stays_throw stays_bind stays_attempt stays_wrapping stays_deferring
  stays_guard stays_foreach stays_if stays_option stays_sum stays_prod stays_let

lemma stays_run: "stays R m \<Longrightarrow> m w = (r, w') \<Longrightarrow> R w w'"
  by (metis stays_def snd_conv)

lemma fails_stays: "stays R m \<Longrightarrow> fails_inside R m"
  by (auto simp: fails_inside_def intro: stays_run)

lemma fails_bind: "stays R m \<Longrightarrow> (\<And>x. fails_inside R (k x)) \<Longrightarrow> fails_inside R (bind_io m k)"
  unfolding fails_inside_def bind_io_def
  by (auto split: prod.splits sum.splits intro: stays_run) (meson frame_trans stays_run)

lemma fails_bind_last:
  "fails_inside R m \<Longrightarrow> (\<And>x. never_fails (k x)) \<Longrightarrow> fails_inside R (bind_io m k)"
  unfolding fails_inside_def bind_io_def never_fails_def
  by (auto split: prod.splits sum.splits) (metis fst_conv is_ok_simps(2))

lemma fails_deferring: "stays R c \<Longrightarrow> fails_inside R m \<Longrightarrow> fails_inside R (deferring c m)"
  unfolding fails_inside_def deferring_def stays_def
  by (auto split: prod.splits) (meson frame_trans)

lemma fails_wrapping: "fails_inside R m \<Longrightarrow> fails_inside R (wrapping s m)"
  unfolding fails_inside_def wrapping_def by (auto split: prod.splits sum.splits)

lemma fails_let: "(\<And>x. fails_inside R (f x)) \<Longrightarrow> fails_inside R (let x = y in f x)"
  by simp

lemma fails_run: "fails_inside R m \<Longrightarrow> m w = (Inl e, w') \<Longrightarrow> R w w'"
  by (simp add: fails_inside_def)

end

lemma env_edit_append: "env_edit p (xs @ ys) v = env_edit p ys (env_edit p xs v)"
  by (simp add: env_edit_def)

lemma env_edit_Nil [simp]: "env_edit p [] v = v"
  by (simp add: env_edit_def)

lemma apply_edits_at: "apply_edits es m p = foldl (\<lambda>v (q, n). if q = p then n else v) (m p) es"
  by (induction es arbitrary: m) (auto simp: apply_edits_def)

lemma untouched_refl: "untouched p w w"
  by (auto simp: untouched_def intro: exI [of _ "[]"])

lemma untouched_trans: "untouched p u v \<Longrightarrow> untouched p v w \<Longrightarrow> untouched p u w"
proof -
  assume "untouched p u v" "untouched p v w"
  then obtain xs ys where "w_sched u = xs @ w_sched v" "w_fs v p = env_edit p xs (w_fs u p)"
    "w_sched v = ys @ w_sched w" "w_fs w p = env_edit p ys (w_fs v p)"
    by (auto simp: untouched_def)
  then show "untouched p u w"
    unfolding untouched_def by (intro exI [of _ "xs @ ys"]) (simp add: env_edit_append)
qed

interpretation unt: io_frame "untouched p" for p
  by unfold_locales (rule untouched_refl, rule untouched_trans)

lemma untouched_tick: "tick w = (f, w') \<Longrightarrow> untouched p w w'"
  by (auto simp: tick_def untouched_def env_edit_def apply_edits_at split: list.splits
      intro: exI [of _ "[]"] exI [of _ "[x]" for x])

lemma untouched_same_fs: "w_sched w' = w_sched w \<Longrightarrow> w_fs w' p = w_fs w p \<Longrightarrow> untouched p w w'"
  by (auto simp: untouched_def intro: exI [of _ "[]"])

lemma stays_untouched_sys:
  assumes "\<And>w. w_sched (snd (f w)) = w_sched w" "\<And>w. w_fs (snd (f w)) p = w_fs w p"
  shows "stays (untouched p) (sys f)"
  unfolding stays_def
proof
  fix w
  obtain fl w' where t: "tick w = (fl, w')" by (cases "tick w")
  then have 1: "untouched p w w'" by (rule untouched_tick)
  have "untouched p w' (snd (f w'))" by (rule untouched_same_fs) (use assms in auto)
  with 1 show "untouched p w (snd (sys f w))"
    by (auto simp: sys_def t split: option.splits prod.splits intro: untouched_trans)
qed

lemma stays_lstat [frame_intros]: "stays (untouched p) (sys_lstat q)"
  unfolding sys_lstat_def by (rule stays_untouched_sys) (auto split: option.splits)

lemma stays_stat [frame_intros]: "stays (untouched p) (sys_stat q)"
  unfolding sys_stat_def by (rule stays_untouched_sys) (auto split: option.splits)

lemma stays_eval_symlinks [frame_intros]: "stays (untouched p) (sys_eval_symlinks q)"
  unfolding sys_eval_symlinks_def by (rule stays_untouched_sys) (auto split: option.splits)

lemma stays_read [frame_intros]: "stays (untouched p) (sys_read q)"
  unfolding sys_read_def by (rule stays_untouched_sys) (auto split: option.splits)

lemma stays_sync [frame_intros]: "stays (untouched p) (sys_sync q)"
  unfolding sys_sync_def by (rule stays_untouched_sys) (auto simp: ret_def)

lemma stays_close [frame_intros]: "stays (untouched p) (sys_close q)"
  unfolding sys_close_def by (rule stays_untouched_sys) (auto simp: ret_def)

lemma stays_listxattr [frame_intros]: "stays (untouched p) (sys_listxattr q)"
  unfolding sys_listxattr_def by (rule stays_untouched_sys) (auto split: option.splits)

lemma stays_getxattr [frame_intros]: "stays (untouched p) (sys_getxattr q k)"
  unfolding sys_getxattr_def by (rule stays_untouched_sys) (auto split: option.splits)

lemma stays_flock [frame_intros]: "stays (untouched p) (sys_flock q)"
  unfolding sys_flock_def by (rule stays_untouched_sys) auto

lemma stays_unlock [frame_intros]: "stays (untouched p) (sys_unlock q)"
  unfolding sys_unlock_def by (rule stays_untouched_sys) auto

lemma stays_euid [frame_intros]: "stays (untouched p) get_euid"
  by (simp add: stays_def get_euid_def untouched_refl)

lemma stays_abs [frame_intros]: "stays (untouched p) (path_abs q)"
  by (simp add: stays_def path_abs_def untouched_refl)

lemma put_node_simps [simp]:
  "w_sched (put_node q n w) = w_sched w" "w_fs (put_node q n w) = (w_fs w)(q := Some n)"
  "w_euid (put_node q n w) = w_euid w" "w_locks (put_node q n w) = w_locks w"
  "w_umask (put_node q n w) = w_umask w" "w_ino (put_node q n w) = w_ino w" "w_cwd (put_node q n w) = w_cwd w"
  by (simp_all add: put_node_def)

lemma stays_create_excl [frame_intros]: "p \<noteq> q \<Longrightarrow> stays (untouched p) (sys_create_excl q m)"
  unfolding sys_create_excl_def by (rule stays_untouched_sys) (auto split: option.splits)

lemma stays_mkdir_all [frame_intros]: "p \<noteq> q \<Longrightarrow> stays (untouched p) (sys_mkdir_all q m)"
  unfolding sys_mkdir_all_def by (rule stays_untouched_sys) (auto split: option.splits)

lemma stays_open_lock [frame_intros]: "p \<noteq> q \<Longrightarrow> stays (untouched p) (sys_open_lock q)"
  unfolding sys_open_lock_def by (rule stays_untouched_sys) (auto split: option.splits)

lemma stays_modify: "p \<noteq> q \<Longrightarrow> stays (untouched p) (sys (modify_node q f))"
  by (rule stays_untouched_sys) (auto simp: modify_node_def split: option.splits)

lemma stays_chmod [frame_intros]: "p \<noteq> q \<Longrightarrow> stays (untouched p) (sys_chmod q m)"
  and stays_chown [frame_intros]: "p \<noteq> q \<Longrightarrow> stays (untouched p) (sys_chown q u g)"
  by (simp_all add: sys_chmod_def sys_chown_def stays_modify)

lemma stays_setxattr [frame_intros]: "p \<noteq> q \<Longrightarrow> stays (untouched p) (sys_setxattr q k v)"
  unfolding sys_setxattr_def by (rule stays_untouched_sys) (auto split: option.splits)

lemma stays_remove [frame_intros]: "p \<noteq> q \<Longrightarrow> stays (untouched p) (sys_remove q)"
  unfolding sys_remove_def by (rule stays_untouched_sys) (auto split: option.splits)

lemma stays_rename [frame_intros]: "p \<noteq> a \<Longrightarrow> p \<noteq> b \<Longrightarrow> stays (untouched p) (sys_rename a b)"
  unfolding sys_rename_def by (rule stays_untouched_sys) (auto split: option.splits)

lemma append_data_simps [simp]:
  "w_sched (append_data q b w) = w_sched w" "p \<noteq> q \<Longrightarrow> w_fs (append_data q b w) p = w_fs w p"
  by (auto simp: append_data_def split: option.splits)

lemma stays_write [frame_intros]: "p \<noteq> q \<Longrightarrow> stays (untouched p) (sys_write q b)"
  unfolding stays_def
proof
  fix w assume pq: "p \<noteq> q"
  obtain fl w' where t: "tick w = (fl, w')" by (cases "tick w")
  then have 1: "untouched p w w'" by (rule untouched_tick)
  have "untouched p w' (append_data q c w')" for c by (rule untouched_same_fs) (use pq in auto)
  with 1 show "untouched p w (snd (sys_write q b w))"
    by (auto simp: sys_write_def t split: option.splits prod.splits intro: untouched_trans)
qed

lemma stays_write_all [frame_intros]: "p \<noteq> q \<Longrightarrow> stays (untouched p) (write_all q b)"
  unfolding write_all_def by (intro unt.stays_rules frame_intros)

lemmas unt_rules = unt.stays_rules frame_intros

section \<open>Worlds without interference\<close>

text \<open>\<open>quiet\<close>: no more failures and no interference.  \<open>calm\<close>: failures, but nobody else writes.\<close>

definition quiet :: "world \<Rightarrow> bool" where
  "quiet w = (w_sched w = [])"

definition calm :: "world \<Rightarrow> bool" where
  "calm w = list_all (\<lambda>e. edits e = []) (w_sched w)"

lemma quiet_calm: "quiet w \<Longrightarrow> calm w"
  by (simp add: quiet_def calm_def)

lemma quiet_tick: "quiet w \<Longrightarrow> tick w = (None, w)"
  by (simp add: quiet_def tick_def)

lemma quiet_sys: "quiet w \<Longrightarrow> sys f w = f w"
  by (simp add: sys_def quiet_tick)

lemma calm_untouched: "calm w \<Longrightarrow> untouched p w w' \<Longrightarrow> calm w' \<and> w_fs w' p = w_fs w p"
proof -
  assume "calm w" "untouched p w w'"
  then obtain es where es: "w_sched w = es @ w_sched w'" "w_fs w' p = env_edit p es (w_fs w p)"
    unfolding untouched_def by blast
  from \<open>calm w\<close> have c: "list_all (\<lambda>e. edits e = []) es" "calm w'"
    by (simp_all only: calm_def es(1) list_all_append)
  from c(1) have "concat (map edits es) = []"
    by (auto simp: list_all_iff)
  then have "env_edit p es (w_fs w p) = w_fs w p" by (simp only: env_edit_def foldl_Nil)
  with es(2) c(2) show ?thesis by simp
qed

section \<open>Successful runs without interference\<close>

text \<open>
  How a successful command of a calm world decomposes, and what a successful call did.
\<close>

named_theorems calm_dests \<open>effects of calls that succeed in a calm world\<close>

lemma bind_io_ok:
  "bind_io m k w = (Inr y, w') \<longleftrightarrow> (\<exists>x w1. m w = (Inr x, w1) \<and> k x w1 = (Inr y, w'))"
  by (auto simp: bind_io_def split: prod.splits sum.splits)

lemma bind_io_fail:
  "bind_io m k w = (Inl e, w') \<longleftrightarrow>
     m w = (Inl e, w') \<or> (\<exists>x w1. m w = (Inr x, w1) \<and> k x w1 = (Inl e, w'))"
  by (auto simp: bind_io_def split: prod.splits sum.splits)

lemma deferring_iff: "deferring c m w = (r, w') \<longleftrightarrow> (\<exists>w1. m w = (r, w1) \<and> w' = snd (c w1))"
  by (auto simp: deferring_def split: prod.splits)

lemma attempt_iff: "attempt m w = (r, w') \<longleftrightarrow> (\<exists>x. m w = (x, w') \<and> r = Inr x)"
  by (auto simp: attempt_def split: prod.splits)

lemma ret_iff: "ret x w = (r, w') \<longleftrightarrow> r = Inr x \<and> w' = w"
  by (auto simp: ret_def)

lemma throw_iff: "throw e w = (r, w') \<longleftrightarrow> r = Inl e \<and> w' = w"
  by (auto simp: throw_def)

lemma guard_ok: "guard b e w = (Inr x, w') \<longleftrightarrow> \<not> b \<and> w' = w"
  by (auto simp: guard_def ret_def throw_def)

lemma wrapping_ok: "wrapping s m w = (Inr x, w') \<longleftrightarrow> m w = (Inr x, w')"
  by (auto simp: wrapping_def split: prod.splits sum.splits)

lemmas io_ok = bind_io_ok deferring_iff attempt_iff ret_iff throw_iff guard_ok wrapping_ok

lemma calm_tick: "calm w \<Longrightarrow> tick w = (f, w') \<Longrightarrow> \<exists>s. w' = w\<lparr>w_sched := s\<rparr> \<and> calm w'"
  by (auto simp: tick_def calm_def apply_edits_def split: list.splits) (metis world.surjective world.update_convs(2))

lemma calm_sys_rule:
  assumes "sys f w = (Inr x, w')" "calm w"
    and that: "\<And>s. f (w\<lparr>w_sched := s\<rparr>) = (Inr x, w') \<Longrightarrow> calm (w\<lparr>w_sched := s\<rparr>) \<Longrightarrow> thesis"
  shows thesis
proof -
  obtain fl w1 where t: "tick w = (fl, w1)" by (cases "tick w")
  from calm_tick [OF assms(2) t] obtain s where "w1 = w\<lparr>w_sched := s\<rparr>" "calm w1" by blast
  moreover have "f w1 = (Inr x, w')"
    using assms(1) t by (auto simp: sys_def split: option.splits prod.splits)
  ultimately show thesis using that by blast
qed

lemma calm_upd [simp]:
  "calm (put_node p n w) = calm w" "calm (w\<lparr>w_fs := m\<rparr>) = calm w" "calm (w\<lparr>w_ino := i\<rparr>) = calm w"
  "calm (w\<lparr>w_locks := l\<rparr>) = calm w"
  by (simp_all add: calm_def put_node_def)

lemma calm_lstat [calm_dests]:
  "sys_lstat p w = (Inr n, w') \<Longrightarrow> calm w \<Longrightarrow>
     calm w' \<and> w_fs w' = w_fs w \<and> w_euid w' = w_euid w \<and> w_fs w p = Some n"
  unfolding sys_lstat_def by (erule (1) calm_sys_rule) (auto split: option.splits)

lemma calm_stat [calm_dests]:
  "sys_stat p w = (Inr n, w') \<Longrightarrow> calm w \<Longrightarrow>
     calm w' \<and> w_fs w' = w_fs w \<and> w_euid w' = w_euid w
     \<and> (\<exists>q. resolve max_links (w_fs w) p = Some q \<and> w_fs w q = Some n)"
  unfolding sys_stat_def by (erule (1) calm_sys_rule) (auto split: option.splits)

lemma calm_eval_symlinks [calm_dests]:
  "sys_eval_symlinks p w = (Inr q, w') \<Longrightarrow> calm w \<Longrightarrow>
     calm w' \<and> w_fs w' = w_fs w \<and> w_euid w' = w_euid w \<and> resolve max_links (w_fs w) p = Some q"
  unfolding sys_eval_symlinks_def by (erule (1) calm_sys_rule) (auto split: option.splits)

lemma calm_read [calm_dests]:
  "sys_read p w = (Inr b, w') \<Longrightarrow> calm w \<Longrightarrow>
     calm w' \<and> w_fs w' = w_fs w \<and> w_euid w' = w_euid w
     \<and> (\<exists>q n. resolve max_links (w_fs w) p = Some q \<and> w_fs w q = Some n \<and> n_data n = b)"
  unfolding sys_read_def by (erule (1) calm_sys_rule) (auto split: option.splits if_splits)

lemma calm_mkdir_all [calm_dests]:
  "sys_mkdir_all p m w = (Inr x, w') \<Longrightarrow> calm w \<Longrightarrow>
     calm w' \<and> w_euid w' = w_euid w
     \<and> w_fs w' = (if w_fs w p = None then (w_fs w)(p \<mapsto> new_node w Directory m) else w_fs w)"
  unfolding sys_mkdir_all_def
  by (erule (1) calm_sys_rule) (auto simp: new_node_def split: option.splits if_splits)

lemma calm_create_excl [calm_dests]:
  "sys_create_excl p m w = (Inr x, w') \<Longrightarrow> calm w \<Longrightarrow>
     calm w' \<and> w_euid w' = w_euid w \<and> w_umask w' = w_umask w \<and> w_fs w p = None
     \<and> w_fs w' = (w_fs w)(p \<mapsto> new_node w Regular m)"
  unfolding sys_create_excl_def
  by (erule (1) calm_sys_rule) (auto simp: new_node_def split: option.splits)

lemma calm_sync [calm_dests]:
  "sys_sync p w = (Inr x, w') \<Longrightarrow> calm w \<Longrightarrow> calm w' \<and> w_fs w' = w_fs w \<and> w_euid w' = w_euid w"
  unfolding sys_sync_def by (erule (1) calm_sys_rule) (auto simp: ret_def)

lemma calm_close [calm_dests]:
  "sys_close p w = (Inr x, w') \<Longrightarrow> calm w \<Longrightarrow> calm w' \<and> w_fs w' = w_fs w \<and> w_euid w' = w_euid w"
  unfolding sys_close_def by (erule (1) calm_sys_rule) (auto simp: ret_def)

definition upd_at :: "path \<Rightarrow> (node \<Rightarrow> node) \<Rightarrow> fs \<Rightarrow> fs" where
  "upd_at p f m = (case m p of None \<Rightarrow> m | Some n \<Rightarrow> m(p \<mapsto> f n))"

lemma upd_at_simps [simp]:
  "m p = Some n \<Longrightarrow> upd_at p f m = m(p \<mapsto> f n)" "m p = None \<Longrightarrow> upd_at p f m = m"
  by (simp_all add: upd_at_def)

lemma calm_modify:
  "sys (modify_node p f) w = (Inr x, w') \<Longrightarrow> calm w \<Longrightarrow>
     calm w' \<and> w_fs w' = upd_at p f (w_fs w) \<and> w_euid w' = w_euid w"
  by (erule (1) calm_sys_rule) (auto simp: modify_node_def upd_at_def split: option.splits)

lemmas calm_chmod [calm_dests] = calm_modify [of p "\<lambda>n. n\<lparr>n_perm := m\<rparr>" for p m, folded sys_chmod_def]
lemmas calm_chown [calm_dests] = calm_modify [of p "\<lambda>n. n\<lparr>n_uid := u, n_gid := g\<rparr>" for p u g, folded sys_chown_def]
lemma calm_setxattr [calm_dests]:
  "sys_setxattr p k v w = (Inr x, w') \<Longrightarrow> calm w \<Longrightarrow>
     calm w' \<and> w_euid w' = w_euid w
     \<and> (\<forall>n. w_fs w p = Some n \<longrightarrow> (\<exists>xs. n_xattrs n = Some xs
          \<and> w_fs w' = (w_fs w)(p \<mapsto> n\<lparr>n_xattrs := Some (AList.update k v xs)\<rparr>)))"
  unfolding sys_setxattr_def by (erule (1) calm_sys_rule) (auto split: option.splits)

lemma calm_listxattr [calm_dests]:
  "sys_listxattr p w = (Inr ks, w') \<Longrightarrow> calm w \<Longrightarrow>
     calm w' \<and> w_fs w' = w_fs w \<and> w_euid w' = w_euid w
     \<and> (\<exists>n xs. w_fs w p = Some n \<and> n_xattrs n = Some xs \<and> ks = map fst xs)"
  unfolding sys_listxattr_def by (erule (1) calm_sys_rule) (auto split: option.splits)

lemma calm_listxattr_unsupported:
  "sys_listxattr p w = (Inl e, w') \<Longrightarrow> calm w \<Longrightarrow> error_is e (Os ENOTSUP) \<Longrightarrow>
     calm w' \<and> w_fs w' = w_fs w \<and> (\<exists>n. w_fs w p = Some n \<and> n_xattrs n = None)"
proof -
  assume run: "sys_listxattr p w = (Inl e, w')" and c: "calm w" and e: "error_is e (Os ENOTSUP)"
  obtain fl w1 where t: "tick w = (fl, w1)" by (cases "tick w")
  from calm_tick [OF c t] obtain s where w1: "w1 = w\<lparr>w_sched := s\<rparr>" "calm w1" by blast
  from run t w1 e show ?thesis
    by (auto simp: sys_listxattr_def sys_def fault_errno_def split: option.splits prod.splits if_splits)
qed

lemma calm_getxattr [calm_dests]:
  "sys_getxattr p k w = (Inr v, w') \<Longrightarrow> calm w \<Longrightarrow>
     calm w' \<and> w_fs w' = w_fs w \<and> w_euid w' = w_euid w
     \<and> (\<exists>n xs. w_fs w p = Some n \<and> n_xattrs n = Some xs \<and> map_of xs k = Some v)"
  unfolding sys_getxattr_def by (erule (1) calm_sys_rule) (auto split: option.splits)

lemma calm_write_all [calm_dests]:
  "write_all p b w = (Inr x, w') \<Longrightarrow> calm w \<Longrightarrow>
     calm w' \<and> w_fs w' = upd_at p (\<lambda>n. n\<lparr>n_data := n_data n @ b\<rparr>) (w_fs w) \<and> w_euid w' = w_euid w"
proof -
  assume run: "write_all p b w = (Inr x, w')" and c: "calm w"
  obtain fl w1 where t: "tick w = (fl, w1)" by (cases "tick w")
  from calm_tick [OF c t] obtain s where w1: "w1 = w\<lparr>w_sched := s\<rparr>" "calm w1" by blast
  from run t have "w' = append_data p b w1"
    by (auto simp: write_all_def sys_write_def io_ok split: option.splits prod.splits)
  with w1 show ?thesis by (auto simp: append_data_def upd_at_def split: option.splits)
qed

lemma calm_remove [calm_dests]:
  "sys_remove p w = (Inr x, w') \<Longrightarrow> calm w \<Longrightarrow>
     calm w' \<and> w_fs w' = (w_fs w)(p := None) \<and> w_fs w p \<noteq> None \<and> w_euid w' = w_euid w"
  unfolding sys_remove_def by (erule (1) calm_sys_rule) (auto split: option.splits)

lemma calm_rename [calm_dests]:
  "sys_rename a b w = (Inr x, w') \<Longrightarrow> calm w \<Longrightarrow>
     calm w' \<and> w_fs w' = (w_fs w)(a := None, b := w_fs w a) \<and> w_fs w a \<noteq> None \<and> w_euid w' = w_euid w"
  unfolding sys_rename_def by (erule (1) calm_sys_rule) (auto split: option.splits)

lemma calm_flock [calm_dests]:
  "sys_flock p w = (Inr x, w') \<Longrightarrow> calm w \<Longrightarrow>
     calm w' \<and> w_fs w' = w_fs w \<and> w_euid w' = w_euid w \<and> p \<notin> set (w_locks w) \<and> w_locks w' = p # w_locks w"
  unfolding sys_flock_def by (erule (1) calm_sys_rule) (auto split: if_splits)

lemma calm_euid [calm_dests]: "get_euid w = (Inr u, w') \<Longrightarrow> w' = w \<and> u = w_euid w"
  by (auto simp: get_euid_def)

lemma calm_abs [calm_dests]: "path_abs p w = (Inr q, w') \<Longrightarrow> w' = w \<and> (is_abs p \<longrightarrow> q = path_clean p)"
  by (auto simp: path_abs_def)

lemma resolve_plain: "(case m p of None \<Rightarrow> True | Some n \<Rightarrow> n_type n \<noteq> Symlink) \<Longrightarrow> resolve max_links m p = Some p"
proof -
  assume "case m p of None \<Rightarrow> True | Some n \<Rightarrow> n_type n \<noteq> Symlink"
  then have *: "resolve (Suc k) m p = Some p" for k by (auto split: option.splits)
  have m: "max_links = Suc 39" by (simp add: max_links_def)
  show ?thesis by (subst m) (rule *)
qed

end
