(* ===== verification/FsUtil.thy ===== *)
theory FsUtil
  imports World
begin

text \<open>
  \<^verbatim>\<open>internal/fsutil/fsutil.go\<close>: private directories, exclusive creation, atomic
  replacement, locks, ownership checks.  The random suffix of a temporary file is an argument;
  a deferred \<^verbatim>\<open>Close\<close> or \<^verbatim>\<open>Remove\<close> is \<open>deferring\<close>.  The lemmas: exclusive
  creation never changes a file that is there, atomic replacement is all or nothing for its
  target, the checks change nothing and mean what they say.
\<close>

section \<open>Operations\<close>

definition mode_private :: "32 word" where "mode_private = 448"
definition mask_others :: "32 word" where "mask_others = 63"
definition mask_write :: "32 word" where "mask_write = 18"

definition private_dir :: "path \<Rightarrow> unit io" where
  "private_dir path =
     bind_io (sys_mkdir_all path mode_private) (\<lambda>_.
     bind_io (sys_lstat path) (\<lambda>i.
     bind_io (guard (n_type i \<noteq> Directory \<or> n_type i = Symlink) (New (''not a real directory: '' @ path))) (\<lambda>_.
     bind_io (guard (n_perm i AND mask_others \<noteq> 0)
       (New (''directory '' @ path @ '' must be private (chmod 700)''))) (\<lambda>_.
     bind_io (sys_stat path) (\<lambda>st.
     bind_io get_euid (\<lambda>euid.
     guard (n_uid st \<noteq> euid) (New (''private directory belongs to another user: '' @ path))))))))"

text \<open>
  The deferred function closes the file and, unless \<^verbatim>\<open>ok\<close> was set, removes it.  On the
  successful path the file is closed already and the deferred close has no effect.
\<close>

definition exclusive :: "path \<Rightarrow> string \<Rightarrow> 32 word \<Rightarrow> unit io" where
  "exclusive path b mode =
     bind_io (sys_create_excl path mode) (\<lambda>_.
     bind_io (attempt
       (bind_io (write_all path b) (\<lambda>_.
        bind_io (sys_sync path) (\<lambda>_.
        sys_close path)))) (\<lambda>r.
     case r of
       Inr _ \<Rightarrow> ret ()
     | Inl e \<Rightarrow> deferring (sys_remove path) (deferring (sys_close path) (throw e))))"

definition temp_name :: "path \<Rightarrow> string \<Rightarrow> string \<Rightarrow> path" where
  "temp_name dir pre rnd = (if last dir = CHR ''/'' then dir else dir @ ''/'') @ pre @ rnd"

definition sync_dir :: "path \<Rightarrow> unit io" where
  "sync_dir d = bind_io (attempt (sys_stat d)) (\<lambda>r.
     case r of
       Inl _ \<Rightarrow> ret ()
     | Inr _ \<Rightarrow> deferring (sys_close d) (bind_io (attempt (sys_sync d)) (\<lambda>_. ret ())))"

definition atomic :: "path \<Rightarrow> string \<Rightarrow> 32 word \<Rightarrow> string \<Rightarrow> unit io" where
  "atomic path b mode rnd =
     (let tmp = temp_name (path_dir path) ''.utlsproxy-'' rnd in
      bind_io (sys_create_excl tmp 384) (\<lambda>_.
      deferring (sys_remove tmp) (deferring (sys_close tmp)
        (bind_io (sys_chmod tmp mode) (\<lambda>_.
         bind_io (write_all tmp b) (\<lambda>_.
         bind_io (sys_sync tmp) (\<lambda>_.
         bind_io (sys_close tmp) (\<lambda>_.
         bind_io (sys_rename tmp path) (\<lambda>_.
         sync_dir (path_dir path))))))))))"

text \<open>\<^verbatim>\<open>Lock\<close> returns the function that unlocks; here that function is \<open>unlock\<close>.\<close>

definition lock :: "path \<Rightarrow> unit io" where
  "lock path =
     bind_io (sys_open_lock path) (\<lambda>_.
     bind_io (attempt (sys_flock path)) (\<lambda>r.
     case r of
       Inl e \<Rightarrow> deferring (sys_close path) (throw (Wrapf (''already locked '' @ path) e))
     | Inr _ \<Rightarrow> ret ()))"

definition unlock :: "path \<Rightarrow> unit io" where
  "unlock path = deferring (sys_close path) (sys_unlock path)"

definition regular :: "path \<Rightarrow> unit io" where
  "regular path = bind_io (sys_lstat path) (\<lambda>i.
     guard (n_type i \<noteq> Regular) (New (''not a regular file: '' @ path)))"


text \<open>
  The two loops of \<^verbatim>\<open>RootOwned\<close> climb to the root.  \<^verbatim>\<open>filepath.Dir\<close> shortens a
  path or leaves it, which ends the loop.  First the lexical chain: every component, links allowed
  as long as root owns them.
\<close>

function check_lexical :: "path \<Rightarrow> unit io" where
  "check_lexical p =
     bind_io (sys_lstat p) (\<lambda>st.
     bind_io (guard (n_uid st \<noteq> 0 \<or> (n_type st \<noteq> Symlink \<and> n_perm st AND mask_write \<noteq> 0))
       (New (''root service requires a protected path: '' @ p))) (\<lambda>_.
     if path_dir p = p then ret () else check_lexical (path_dir p)))"
  by pat_completeness auto
termination
  by (relation "measure climb_size") (auto intro: path_dir_climbs)

function check_resolved :: "path \<Rightarrow> unit io" where
  "check_resolved p =
     bind_io (sys_stat p) (\<lambda>i.
     bind_io (sys_stat p) (\<lambda>st.
     bind_io (guard (n_uid st \<noteq> 0 \<or> n_perm i AND mask_write \<noteq> 0)
       (New (''root service requires root-owned, non-writable path: '' @ p))) (\<lambda>_.
     if path_dir p = p then ret () else check_resolved (path_dir p))))"
  by pat_completeness auto
termination
  by (relation "measure climb_size") (auto intro: path_dir_climbs)

declare check_lexical.simps [simp del] check_resolved.simps [simp del]

definition root_owned :: "path \<Rightarrow> unit io" where
  "root_owned path =
     bind_io (path_abs path) (\<lambda>lexical.
     bind_io (check_lexical lexical) (\<lambda>_.
     bind_io (sys_eval_symlinks path) (\<lambda>p.
     check_resolved p)))"

definition is_missing :: "go_error \<Rightarrow> bool" where
  "is_missing e = error_is e (Os ENOENT)"

section \<open>Frames\<close>

lemma stays_private_dir [frame_intros]: "p \<noteq> q \<Longrightarrow> stays (untouched p) (private_dir q)"
  unfolding private_dir_def by (intro unt.stays_rules frame_intros)

lemma stays_exclusive [frame_intros]: "p \<noteq> q \<Longrightarrow> stays (untouched p) (exclusive q b m)"
  unfolding exclusive_def by (intro unt.stays_rules frame_intros)

lemma stays_sync_dir [frame_intros]: "stays (untouched p) (sync_dir d)"
  unfolding sync_dir_def by (intro unt.stays_rules frame_intros)

lemma stays_atomic [frame_intros]:
  "p \<noteq> q \<Longrightarrow> p \<noteq> temp_name (path_dir q) ''.utlsproxy-'' rnd \<Longrightarrow> stays (untouched p) (atomic q b m rnd)"
  unfolding atomic_def Let_def by (intro unt.stays_rules frame_intros)

lemma stays_lock [frame_intros]: "p \<noteq> q \<Longrightarrow> stays (untouched p) (lock q)"
  unfolding lock_def by (intro unt.stays_rules frame_intros)

lemma stays_unlock_fn [frame_intros]: "stays (untouched p) (unlock q)"
  unfolding unlock_def by (intro unt.stays_rules frame_intros)

lemma stays_regular [frame_intros]: "stays (untouched p) (regular q)"
  unfolding regular_def by (intro unt.stays_rules frame_intros)

lemma stays_check_lexical: "stays (untouched p) (check_lexical q)"
proof (induction q rule: check_lexical.induct)
  case (1 q)
  then show ?case
    by (subst check_lexical.simps) (intro unt.stays_bind frame_intros unt.stays_guard, simp add: unt.stays_ret)
qed

lemma stays_check_resolved: "stays (untouched p) (check_resolved q)"
proof (induction q rule: check_resolved.induct)
  case (1 q)
  then show ?case
    by (subst check_resolved.simps) (intro unt.stays_bind frame_intros unt.stays_guard, simp add: unt.stays_ret)
qed

lemma stays_root_owned [frame_intros]: "stays (untouched p) (root_owned q)"
  unfolding root_owned_def by (intro unt.stays_rules frame_intros stays_check_lexical stays_check_resolved)

lemma sync_dir_never_fails: "never_fails (sync_dir d)"
  by (auto simp: never_fails_def sync_dir_def bind_io_def attempt_def deferring_def ret_def is_ok_def
      split: prod.splits sum.splits)

section \<open>Correctness\<close>

lemma calm_stays: "stays (untouched p) m \<Longrightarrow> calm w \<Longrightarrow> calm (snd (m w)) \<and> w_fs (snd (m w)) p = w_fs w p"
  by (rule calm_untouched) (simp_all add: stays_def)

text \<open>What a successful exclusive creation leaves behind.\<close>

lemma exclusive_ok:
  assumes "calm w" "exclusive path b mode w = (Inr (), w')"
  shows "calm w' \<and> w_fs w path = None \<and> w_euid w' = w_euid w
    \<and> w_fs w' = (w_fs w)(path \<mapsto> (new_node w Regular mode)\<lparr>n_data := b\<rparr>)"
proof -
  from assms(2) obtain w1 r w2 where
    c: "sys_create_excl path mode w = (Inr (), w1)" and
    r: "(bind_io (write_all path b) (\<lambda>_. bind_io (sys_sync path) (\<lambda>_. sys_close path))) w1 = (r, w2)" and
    k: "(case r of Inr _ \<Rightarrow> ret () | Inl e \<Rightarrow> deferring (sys_remove path) (deferring (sys_close path) (throw e))) w2 = (Inr (), w')"
    unfolding exclusive_def io_ok by auto
  from k obtain u where u: "r = Inr u" "w' = w2" by (cases r) (auto simp: io_ok)
  note e1 = calm_create_excl [OF c assms(1)]
  from r [unfolded u] obtain w3 w4 where
    w: "write_all path b w1 = (Inr (), w3)" and s: "sys_sync path w3 = (Inr (), w4)" and
    cl: "sys_close path w4 = (Inr (), w')"
    unfolding io_ok by (auto simp: u)
  from e1 have c1: "calm w1" by blast
  note e2 = calm_write_all [OF w c1]
  note e3 = calm_sync [OF s conjunct1 [OF e2]]
  note e4 = calm_close [OF cl conjunct1 [OF e3]]
  from e1 e2 e3 e4 show ?thesis by (simp add: new_node_def)
qed

lemma exclusive_existing_fails:
  assumes "calm w" "w_fs w path = Some n"
  shows "\<not> is_ok (fst (exclusive path b mode w)) \<and> w_fs (snd (exclusive path b mode w)) path = Some n"
proof -
  obtain fl w1 where t: "tick w = (fl, w1)" by (cases "tick w")
  from calm_tick [OF assms(1) t] assms(2) have "w_fs w1 path = Some n" by auto
  with t have "\<exists>e. sys_create_excl path mode w = (Inl e, w1)"
    by (auto simp: sys_create_excl_def sys_def split: option.splits)
  with \<open>w_fs w1 path = Some n\<close> show ?thesis by (auto simp: exclusive_def bind_io_def)
qed

lemma atomic_fails_inside:
  assumes "path \<noteq> temp_name (path_dir path) ''.utlsproxy-'' rnd"
  shows "fails_inside (untouched path) (atomic path b mode rnd)"
proof -
  have rename: "fails_inside (untouched path) (sys_rename t path)" for t
    unfolding fails_inside_def sys_rename_def sys_def
    by (auto split: prod.splits option.splits intro: untouched_tick)
  show ?thesis
    unfolding atomic_def Let_def
    by (intro unt.fails_bind unt.fails_deferring frame_intros assms unt.fails_bind_last [OF rename]
        sync_dir_never_fails)
qed

lemma atomic_ok:
  assumes "calm w" "atomic path b mode rnd w = (Inr (), w')"
    and ne: "path \<noteq> temp_name (path_dir path) ''.utlsproxy-'' rnd"
  shows "calm w' \<and> w_fs w' path =
    Some ((new_node w Regular mode)\<lparr>n_data := b, n_perm := mode\<rparr>)"
proof -
  let ?t = "temp_name (path_dir path) ''.utlsproxy-'' rnd"
  from assms(2) obtain w1 w2 w3 w4 w5 w6 w7 where
    c: "sys_create_excl ?t 384 w = (Inr (), w1)" and
    m: "sys_chmod ?t mode w1 = (Inr (), w2)" and
    w: "write_all ?t b w2 = (Inr (), w3)" and
    s: "sys_sync ?t w3 = (Inr (), w4)" and
    cl: "sys_close ?t w4 = (Inr (), w5)" and
    r: "sys_rename ?t path w5 = (Inr (), w6)" and
    d: "sync_dir (path_dir path) w6 = (Inr (), w7)" and
    fin: "w' = snd (sys_remove ?t (snd (sys_close ?t w7)))"
    unfolding atomic_def Let_def io_ok by auto
  note e1 = calm_create_excl [OF c assms(1)]
  note e2 = calm_chmod [OF m conjunct1 [OF e1]]
  note e3 = calm_write_all [OF w conjunct1 [OF e2]]
  note e4 = calm_sync [OF s conjunct1 [OF e3]]
  note e5 = calm_close [OF cl conjunct1 [OF e4]]
  note e6 = calm_rename [OF r conjunct1 [OF e5]]
  have e7: "calm w7 \<and> w_fs w7 path = w_fs w6 path"
    using calm_stays [OF stays_sync_dir [of path "path_dir path"], of w6] e6 d by simp
  have e8: "calm (snd (sys_close ?t w7)) \<and> w_fs (snd (sys_close ?t w7)) path = w_fs w6 path"
    using calm_stays [OF stays_close [of path ?t], of w7] e7 by simp
  have e9: "calm w' \<and> w_fs w' path = w_fs w6 path"
    using calm_stays [OF stays_remove [OF ne], of "snd (sys_close ?t w7)"] e8 fin by simp
  from e1 e2 e3 e4 e5 e6 ne have "w_fs w6 path = Some ((new_node w Regular mode)\<lparr>n_data := b, n_perm := mode\<rparr>)"
    by (simp add: new_node_def)
  with e9 show ?thesis by simp
qed

lemma private_dir_ok:
  assumes "calm w" "private_dir path w = (Inr (), w')"
  shows "\<exists>n. calm w' \<and> w_euid w' = w_euid w \<and> w_fs w' path = Some n \<and> n_type n = Directory
    \<and> n_perm n AND mask_others = 0 \<and> n_uid n = w_euid w
    \<and> w_fs w' = (w_fs w)(path \<mapsto> n)"
proof -
  from assms(2) obtain w1 i w2 st w3 u w4 where
    m: "sys_mkdir_all path mode_private w = (Inr (), w1)" and
    l: "sys_lstat path w1 = (Inr i, w2)" and
    g: "n_type i = Directory" "n_perm i AND mask_others = 0" and
    s: "sys_stat path w2 = (Inr st, w3)" and
    u: "get_euid w3 = (Inr u, w4)" and g2: "n_uid st = u" and fin: "w' = w4"
    unfolding private_dir_def io_ok by auto
  note e1 = calm_mkdir_all [OF m assms(1)]
  note e2 = calm_lstat [OF l conjunct1 [OF e1]]
  note e3 = calm_stat [OF s conjunct1 [OF e2]]
  note e4 = calm_euid [OF u]
  have "resolve max_links (w_fs w2) path = Some path"
    using e2 g by (intro resolve_plain) auto
  with e2 e3 have st: "st = i" by auto
  have "w_fs w' = (w_fs w)(path \<mapsto> i)"
    using e1 e2 e3 e4 fin by (auto split: if_splits)
  with e1 e2 e3 e4 st g g2 fin show ?thesis by auto
qed

text \<open>The ancestors of a path, the path itself first.\<close>

function ancestors :: "path \<Rightarrow> path list" where
  "ancestors p = p # (if path_dir p = p then [] else ancestors (path_dir p))"
  by pat_completeness auto
termination
  by (relation "measure climb_size") (auto intro: path_dir_climbs)

declare ancestors.simps [simp del]

definition protected_node :: "node \<Rightarrow> bool" where
  "protected_node n = (n_uid n = 0 \<and> n_perm n AND mask_write = 0)"

lemma check_lexical_ok:
  assumes "calm w" "check_lexical p w = (Inr (), w')"
  shows "calm w' \<and> w_fs w' = w_fs w \<and>
    (\<forall>q \<in> set (ancestors p). \<exists>n. w_fs w q = Some n \<and> n_uid n = 0 \<and> (n_type n = Symlink \<or> protected_node n))"
  using assms
proof (induction p arbitrary: w rule: check_lexical.induct)
  case (1 p)
  from "1.prems"(2) obtain st w1 where
    l: "sys_lstat p w = (Inr st, w1)" and
    g: "n_uid st = 0" "n_type st = Symlink \<or> n_perm st AND mask_write = 0" and
    k: "(if path_dir p = p then ret () else check_lexical (path_dir p)) w1 = (Inr (), w')"
    by (subst (asm) check_lexical.simps) (auto simp: io_ok)
  note e1 = calm_lstat [OF l "1.prems"(1)]
  show ?case
  proof (cases "path_dir p = p")
    case True
    with k e1 g show ?thesis by (subst ancestors.simps) (auto simp: io_ok protected_node_def)
  next
    case False
    with k have "check_lexical (path_dir p) w1 = (Inr (), w')" by simp
    with "1.IH" [OF False, of w1] e1 g False show ?thesis
      by (subst ancestors.simps) (auto simp: protected_node_def)
  qed
qed

lemma check_resolved_ok:
  assumes "calm w" "check_resolved p w = (Inr (), w')"
  shows "\<forall>q \<in> set (ancestors p). \<exists>r n. resolve max_links (w_fs w) q = Some r \<and> w_fs w r = Some n \<and> protected_node n"
  using assms
proof (induction p arbitrary: w rule: check_resolved.induct)
  case (1 p)
  from "1.prems"(2) obtain i w0 st w1 where
    l0: "sys_stat p w = (Inr i, w0)" and l: "sys_stat p w0 = (Inr st, w1)" and
    g: "n_uid st = 0" "n_perm i AND mask_write = 0" and
    k: "(if path_dir p = p then ret () else check_resolved (path_dir p)) w1 = (Inr (), w')"
    by (subst (asm) check_resolved.simps) (auto simp: io_ok)
  note e0 = calm_stat [OF l0 "1.prems"(1)]
  note e1 = calm_stat [OF l conjunct1 [OF e0]]
  from e0 e1 have "st = i" by auto
  show ?case
  proof (cases "path_dir p = p")
    case True
    with e0 e1 g \<open>st = i\<close> show ?thesis by (subst ancestors.simps) (auto simp: protected_node_def)
  next
    case False
    with k have "check_resolved (path_dir p) w1 = (Inr (), w')" by simp
    with "1.IH" [OF False, of w1] e0 e1 g \<open>st = i\<close> False show ?thesis
      by (subst ancestors.simps) (auto simp: protected_node_def)
  qed
qed

section \<open>Cleaning up after a single failure\<close>

definition faults :: "world \<Rightarrow> nat" where
  "faults w = length (filter (\<lambda>e. fault e \<noteq> None) (w_sched w))"

lemma faults_upd [simp]:
  "faults (put_node p n w) = faults w" "faults (w\<lparr>w_fs := m\<rparr>) = faults w" "faults (w\<lparr>w_ino := i\<rparr>) = faults w"
  "faults (append_data p b w) = faults w"
  by (auto simp: faults_def put_node_def append_data_def split: option.splits)

lemma tick_faults: "tick w = (fl, w') \<Longrightarrow> faults w = faults w' + (if fl = None then 0 else 1)"
  by (auto simp: tick_def faults_def split: list.splits)

lemma stays_faults: "stays (untouched p) m \<Longrightarrow> faults (snd (m w)) \<le> faults w"
  by (auto simp: stays_def untouched_def faults_def dest!: spec [of _ w])

lemma sys_ret_faults: "sys (ret ()) w = (r, w') \<Longrightarrow> faults w' + (if is_ok r then 0 else 1) \<le> faults w"
  by (auto simp: sys_def ret_def dest: tick_faults split: prod.splits option.splits)

lemma write_all_faults: "write_all p b w = (r, w') \<Longrightarrow> faults w' + (if is_ok r then 0 else 1) \<le> faults w"
  by (auto simp: write_all_def sys_write_def bind_io_def ret_def throw_def dest: tick_faults
      split: prod.splits option.splits sum.splits)

lemma body_faults:
  assumes "bind_io (write_all path b) (\<lambda>_. bind_io (sys_sync path) (\<lambda>_. sys_close path)) w = (Inl e, w')"
  shows "faults w' + 1 \<le> faults w"
  using assms unfolding bind_io_fail sys_sync_def sys_close_def
  by (auto dest!: sys_ret_faults write_all_faults)

lemma remove_without_faults: "faults w = 0 \<Longrightarrow> calm w \<Longrightarrow> w_fs (snd (sys_remove p w)) p = None"
proof -
  assume f: "faults w = 0" and c: "calm w"
  obtain fl w1 where t: "tick w = (fl, w1)" by (cases "tick w")
  with f have "fl = None" by (auto dest!: tick_faults split: if_splits)
  with t show ?thesis by (auto simp: sys_remove_def sys_def split: option.splits)
qed

abbreviation exclusive_body :: "path \<Rightarrow> string \<Rightarrow> unit io" where
  "exclusive_body path b \<equiv> bind_io (write_all path b) (\<lambda>_. bind_io (sys_sync path) (\<lambda>_. sys_close path))"

lemma exclusive_failE:
  assumes run: "exclusive path b mode w = (Inl e, w')"
  obtains (create) "sys_create_excl path mode w = (Inl e, w')"
    | (body) w1 e1 w2 where "sys_create_excl path mode w = (Inr (), w1)" "exclusive_body path b w1 = (Inl e1, w2)"
        "w' = snd (sys_remove path (snd (sys_close path w2)))"
proof -
  obtain r1 w1 where cr: "sys_create_excl path mode w = (r1, w1)" by (cases "sys_create_excl path mode w")
  show thesis
  proof (cases r1)
    case (Inl e0)
    with run cr create show ?thesis by (simp add: exclusive_def bind_io_def)
  next
    case (Inr u)
    obtain r2 w2 where bd: "exclusive_body path b w1 = (r2, w2)" by (cases "exclusive_body path b w1")
    have "exclusive path b mode w =
        (case r2 of Inr _ \<Rightarrow> ret () | Inl e \<Rightarrow> deferring (sys_remove path) (deferring (sys_close path) (throw e))) w2"
      by (simp add: exclusive_def cr Inr bind_io_def [of "sys_create_excl path mode"]
          bind_io_def [of "attempt m" for m] attempt_def bd split: sum.split)
    with run have "(case r2 of Inr _ \<Rightarrow> ret ()
        | Inl e \<Rightarrow> deferring (sys_remove path) (deferring (sys_close path) (throw e))) w2 = (Inl e, w')"
      by simp
    with body [of w1 _ w2] cr Inr bd show ?thesis
      by (cases r2) (auto simp: deferring_iff throw_iff ret_iff)
  qed
qed

lemmas close_faults = stays_faults [OF stays_close [of "[]"]]

lemma remove_faults: "faults (snd (sys_remove p w)) \<le> faults w"
  by (rule stays_faults [OF stays_remove [of "p @ ''x''"]]) simp

lemma create_excl_faults:
  "sys_create_excl path mode w = (r, w') \<Longrightarrow> calm w \<Longrightarrow> w_fs w path = None \<Longrightarrow> faults w = faults w' + (if is_ok r then 0 else 1)"
proof -
  assume run: "sys_create_excl path mode w = (r, w')" and "calm w" "w_fs w path = None"
  obtain fl w1 where t: "tick w = (fl, w1)" by (cases "tick w")
  from calm_tick [OF \<open>calm w\<close> t] \<open>w_fs w path = None\<close> have "w_fs w1 path = None" by auto
  with run t tick_faults [OF t] show ?thesis
    by (auto simp: sys_create_excl_def sys_def split: option.splits)
qed

text \<open>A failure to create a file at a free path uses up a fault.\<close>

lemma exclusive_fail_faults:
  assumes "calm w" "w_fs w path = None" "exclusive path b mode w = (Inl e, w')"
  shows "faults w' < faults w"
  using assms(3)
proof (cases rule: exclusive_failE)
  case create
  from create_excl_faults [OF create assms(1,2)] show ?thesis by simp
next
  case (body w1 e1 w2)
  from create_excl_faults [OF body(1) assms(1,2)] body_faults [OF body(2)] body(3)
    remove_faults [of path "snd (sys_close path w2)"] close_faults [of path w2]
  show ?thesis by simp
qed

lemma exclusive_cleans_up:
  assumes c: "calm w" and one: "faults w \<le> 1" and free: "w_fs w path = None"
    and run: "exclusive path b mode w = (Inl e, w')"
  shows "w_fs w' path = None"
  using run
proof (cases rule: exclusive_failE)
  case create
  obtain fl w1 where t: "tick w = (fl, w1)" by (cases "tick w")
  from calm_tick [OF c t] free create t show ?thesis
    by (auto simp: sys_create_excl_def sys_def split: option.splits)
next
  case (body w1 e1 w2)
  from create_excl_faults [OF body(1) c free] body_faults [OF body(2)] one have f2: "faults w2 = 0" by simp
  have c1: "calm w1" using calm_create_excl [OF body(1) c] by blast
  have stays_body: "stays (untouched (path @ ''x'')) (exclusive_body path b)"
    by (intro unt.stays_rules frame_intros) auto
  have c2: "calm w2" using calm_stays [OF stays_body c1] body(2) by simp
  have "faults (snd (sys_close path w2)) = 0" using close_faults [of path w2] f2 by simp
  moreover have "calm (snd (sys_close path w2))" using calm_stays [OF stays_close [of path path] c2] by simp
  ultimately show ?thesis using remove_without_faults body(3) by simp
qed

section \<open>Properties\<close>

text \<open>A world without files, used in the concrete instances.\<close>

definition bare_world :: world where
  "bare_world = \<lparr>w_fs = Map.empty, w_sched = [], w_euid = 0, w_umask = 18, w_cwd = ''/'', w_locks = [], w_ino = 1\<rparr>"

lemma bare_world_simps [simp]:
  "w_fs bare_world = Map.empty" "w_sched bare_world = []" "w_euid bare_world = 0" "w_umask bare_world = 18"
  "w_cwd bare_world = ''/''" "w_locks bare_world = []" "w_ino bare_world = 1"
  by (simp_all add: bare_world_def)



text \<open>C25: \<^verbatim>\<open>Atomic\<close> is all or nothing for its target, whatever fails and whatever
  other processes do: if it reports an error it has not changed the target, and if it succeeds
  undisturbed the target holds exactly the new bytes with the requested mode.\<close>

theorem atomic_all_or_nothing:
  assumes "path \<noteq> temp_name (path_dir path) ''.utlsproxy-'' rnd" and "atomic path b mode rnd w = (r, w')"
  shows "(\<not> is_ok r \<longrightarrow> untouched path w w')
    \<and> (is_ok r \<and> calm w \<longrightarrow> (\<exists>n. w_fs w' path = Some n \<and> n_data n = b \<and> n_perm n = mode \<and> n_type n = Regular))"
proof (intro conjI impI)
  assume "\<not> is_ok r"
  then obtain e where "r = Inl e" by (cases r) auto
  with unt.fails_run [OF atomic_fails_inside [OF assms(1)]] assms(2) show "untouched path w w'" by blast
next
  assume a: "is_ok r \<and> calm w"
  then obtain u where "r = Inr u" by (cases r) auto
  with atomic_ok [OF _ _ assms(1), of w b mode w'] a assms(2)
  show "\<exists>n. w_fs w' path = Some n \<and> n_data n = b \<and> n_perm n = mode \<and> n_type n = Regular"
    by (auto simp: new_node_def)
qed

theorem atomic_all_or_nothing_witness:
  "\<exists>n. w_fs (snd (atomic ''/a/b'' ''new'' 384 ''7'' bare_world)) ''/a/b'' = Some n \<and> n_data n = ''new''"
proof -
  have d: "path_dir ''/a/b'' = ''/a''" by (simp add: path_evals)
  have ne: "''/a/b'' \<noteq> temp_name (path_dir ''/a/b'') ''.utlsproxy-'' ''7''"
    by (simp add: d temp_name_def)
  obtain r w' where run: "atomic ''/a/b'' ''new'' 384 ''7'' bare_world = (r, w')"
    by (cases "atomic ''/a/b'' ''new'' 384 ''7'' bare_world")
  have "is_ok (fst (atomic ''/a/b'' ''new'' 384 ''7'' bare_world))"
    by (simp add: atomic_def Let_def d temp_name_def io_defs sys_create_excl_def sys_chmod_def
        sys_write_def sys_sync_def sys_close_def sys_rename_def sync_dir_def sys_stat_def modify_node_def tick_def
        put_node_def append_data_def new_node_def split: option.splits)
  with run have "is_ok r" by simp
  moreover have "calm bare_world" by (simp add: calm_def)
  ultimately show ?thesis using atomic_all_or_nothing [OF ne run] run by auto
qed

text \<open>When \<^verbatim>\<open>RootOwned\<close> accepts a path, every ancestor of it (itself
  included) is owned by root and, unless it is a link, not writable by group or others; and
  the file it leads to and all its ancestors are protected too.\<close>

theorem root_owned_protects:
  assumes "calm w" and "is_abs path" and "root_owned path w = (Inr (), w')"
  shows "(\<forall>q \<in> set (ancestors (path_clean path)). \<exists>n. w_fs w q = Some n \<and> n_uid n = 0 \<and> (n_type n = Symlink \<or> protected_node n))
    \<and> (\<exists>real. resolve max_links (w_fs w) path = Some real \<and>
         (\<forall>q \<in> set (ancestors real). \<exists>r n. resolve max_links (w_fs w) q = Some r \<and> w_fs w r = Some n \<and> protected_node n))"
proof -
  from assms(3) obtain lex w1 w2 real w3 where
    a: "path_abs path w = (Inr lex, w1)" and l: "check_lexical lex w1 = (Inr (), w2)" and
    e: "sys_eval_symlinks path w2 = (Inr real, w3)" and r: "check_resolved real w3 = (Inr (), w')"
    unfolding root_owned_def io_ok by auto
  from calm_abs [OF a] assms(2) have w1: "w1 = w" "lex = path_clean path" by auto
  note l1 = check_lexical_ok [OF assms(1) l [unfolded w1]]
  note e1 = calm_eval_symlinks [OF e conjunct1 [OF l1]]
  note r1 = check_resolved_ok [OF conjunct1 [OF e1] r]
  from l1 e1 r1 show ?thesis by auto
qed

definition root_tree :: fs where
  "root_tree =
     [''/'' \<mapsto> \<lparr>n_type = Directory, n_data = [], n_perm = 493, n_uid = 0, n_gid = 0, n_ino = 1, n_xattrs = Some []\<rparr>,
      ''/a'' \<mapsto> \<lparr>n_type = Regular, n_data = ''x'', n_perm = 420, n_uid = 0, n_gid = 0, n_ino = 2, n_xattrs = Some []\<rparr>]"

theorem root_owned_protects_witness:
  "root_owned ''/a'' (bare_world\<lparr>w_fs := root_tree\<rparr>) = (Inr (), bare_world\<lparr>w_fs := root_tree\<rparr>)
   \<and> (\<exists>n. root_tree ''/'' = Some n \<and> n_uid n = 0 \<and> (n_type n = Symlink \<or> protected_node n))"
proof -
  let ?w = "bare_world\<lparr>w_fs := root_tree\<rparr>"
  have d: "path_dir ''/a'' = ''/''" "path_dir ''/'' = ''/''"
    by (simp_all add: path_evals)
  have cl: "path_clean ''/a'' = ''/a''" by (simp add: path_evals)
  have q: "quiet ?w" by (simp add: quiet_def)
  have res: "resolve max_links root_tree ''/a'' = Some ''/a''" "resolve max_links root_tree ''/'' = Some ''/''"
    by (simp_all add: resolve_plain root_tree_def)
  have l: "sys_lstat ''/a'' ?w = (Inr (the (root_tree ''/a'')), ?w)" "sys_lstat ''/'' ?w = (Inr (the (root_tree ''/'')), ?w)"
    by (simp_all add: sys_lstat_def quiet_sys [OF q]) (simp_all add: root_tree_def)
  have st: "sys_stat ''/a'' ?w = (Inr (the (root_tree ''/a'')), ?w)" "sys_stat ''/'' ?w = (Inr (the (root_tree ''/'')), ?w)"
    "sys_eval_symlinks ''/a'' ?w = (Inr ''/a'', ?w)"
    using res by (simp_all add: sys_stat_def sys_eval_symlinks_def quiet_sys [OF q]) (simp_all add: root_tree_def)
  have run: "root_owned ''/a'' ?w = (Inr (), ?w)"
    by (simp add: root_owned_def path_abs_def is_abs_def cl bind_io_def guard_def ret_def l st d
        check_lexical.simps [of "''/a''"] check_lexical.simps [of "''/''"]
        check_resolved.simps [of "''/a''"] check_resolved.simps [of "''/''"])
      (simp add: root_tree_def mask_write_def ret_def)
  have c: "calm ?w" by (simp add: calm_def)
  have a: "is_abs ''/a''" by (simp add: is_abs_def)
  have "''/'' \<in> set (ancestors ''/a'')"
    by (simp add: ancestors.simps [of "''/a''"] ancestors.simps [of "''/''"] d)
  with root_owned_protects [OF c a run] run show ?thesis by (auto simp: cl)
qed

end
