(* ===== verification/Hosts.thy ===== *)
theory Hosts
  imports FsUtil
begin

text \<open>
  \<^verbatim>\<open>internal/hosts/hosts.go\<close>: finding the managed block, planning a change,
  showing it and applying it.  \<open>plan_of\<close> is \<^verbatim>\<open>Prepare\<close> after the file was read;
  \<open>prepare\<close> adds the reading.  SHA-256 is the parameter \<open>sha\<close>; the time stamp of the backup and
  the random part of the temporary name are arguments.  The lemmas characterise the block by
  the lines of the file, show that planning is idempotent and that removal undoes it, that the
  shown difference is exact, and that applying a plan is all or nothing.
\<close>

section \<open>The managed block\<close>

definition Begin_line :: string where
  "Begin_line = ''# BEGIN utlsproxy managed hosts v1''"

definition End_line :: string where
  "End_line = ''# END utlsproxy managed hosts v1''"

definition is_marker :: "string \<Rightarrow> bool" where
  "is_marker t = (has_prefix t ''# BEGIN utlsproxy'' \<or> has_prefix t ''# END utlsproxy'')"

fun block_lines :: "string list \<Rightarrow> int \<Rightarrow> int \<Rightarrow> int \<Rightarrow> (int \<times> int) res" where
  "block_lines [] start stop offset = Inr (start, stop)"
| "block_lines (line # ls) start stop offset =
     (let t = trim_space line; offset' = offset + int (length line)
      in if is_marker t then
        if t = Begin_line \<and> start < 0 \<and> stop < 0 then block_lines ls offset stop offset'
        else if t = End_line \<and> start \<ge> 0 \<and> stop < 0 then block_lines ls start offset' offset'
        else Inl (New ''malformed, duplicate or unknown-version utlsproxy hosts block'')
      else block_lines ls start stop offset')"

definition block :: "string \<Rightarrow> (int \<times> int) res" where
  "block b =
     (case block_lines (split_after newline b) (-1) (-1) 0 of
       Inl e \<Rightarrow> Inl e
     | Inr (start, stop) \<Rightarrow>
         if (start < 0) \<noteq> (stop < 0) then Inl (New ''incomplete utlsproxy hosts block'')
         else Inr (start, stop))"

section \<open>Planning\<close>

record plan =
  p_path :: path
  p_changed :: bool
  p_managed :: "string list"
  p_conflicts :: "string list"
  p_diff :: string
  p_before :: string
  p_after :: string

fun common_prefix :: "string list \<Rightarrow> string list \<Rightarrow> nat" where
  "common_prefix (x # xs) (y # ys) = (if x = y then Suc (common_prefix xs ys) else 0)"
| "common_prefix xs ys = 0"

text \<open>\<^verbatim>\<open>for j > i && k > i && a[j-1] == b[k-1] { j--; k-- }\<close>\<close>

fun common_suffix :: "string list \<Rightarrow> string list \<Rightarrow> nat \<Rightarrow> nat \<Rightarrow> nat \<Rightarrow> nat \<times> nat" where
  "common_suffix a b i j k =
     (if j > i \<and> k > i \<and> a ! (j - 1) = b ! (k - 1) then common_suffix a b i (j - 1) (k - 1) else (j, k))"

declare common_suffix.simps [simp del]

definition slice :: "nat \<Rightarrow> nat \<Rightarrow> 'a list \<Rightarrow> 'a list" where
  "slice i j xs = take (j - i) (drop i xs)"

definition line_diff :: "string \<Rightarrow> string \<Rightarrow> string" where
  "line_diff old new =
     (let a = split_after newline old; b = split_after newline new;
          i = common_prefix a b;
          (j, k) = common_suffix a b i (length a) (length b)
      in ''@@ lines '' @ dec (i + 1) @ ''..'' @ dec j @ '' -> '' @ dec (i + 1) @ ''..'' @ dec k @ '' @@'' @ [newline]
         @ concat (map (\<lambda>l. ''-'' @ l) (slice i j a)) @ concat (map (\<lambda>l. ''+'' @ l) (slice i k b)))"

definition managed_lines :: "string \<Rightarrow> string list" where
  "managed_lines blk = filter (\<lambda>line. \<not> has_prefix line ''#'' \<and> trim_space line \<noteq> []) (split_on newline blk)"

text \<open>The names a hosts line maps: the fields after the address, comments cut off.\<close>

definition line_names :: "string \<Rightarrow> string list" where
  "line_names line = (let parts = split_fields (fst (cut line (CHR ''#''))) in if length parts < 2 then [] else tl parts)"

definition canonical_name :: "string \<Rightarrow> string" where
  "canonical_name name = trim_suffix (to_lower name) ''.''"

definition line_conflicts :: "string list \<Rightarrow> string \<Rightarrow> string list" where
  "line_conflicts domains line =
     concat (map (\<lambda>name. if canonical_name name \<in> set domains then [line] else []) (line_names line))"

definition conflicts :: "string list \<Rightarrow> string \<Rightarrow> string list" where
  "conflicts domains out = concat (map (line_conflicts domains) (split_on newline out))"

definition generated :: "string list \<Rightarrow> string \<Rightarrow> string" where
  "generated domains address =
     Begin_line @ [newline] @ concat (map (\<lambda>d. address @ '' '' @ d @ [newline]) domains) @ End_line @ [newline]"

definition end_line :: "string \<Rightarrow> string" where
  "end_line out = (if out \<noteq> [] \<and> last out \<noteq> newline then out @ [newline] else out)"

text \<open>
  The plan, and the error it comes with: a conflict is reported together with the plan that
  shows it; without a block the positions are \<open>-1\<close>.
\<close>

definition plan_of :: "path \<Rightarrow> string \<Rightarrow> string list \<Rightarrow> string \<Rightarrow> bool \<Rightarrow> (plan \<times> go_error option) res" where
  "plan_of path b domains address remove =
     (case block b of
       Inl e \<Rightarrow> Inl e
     | Inr (start, stop) \<Rightarrow>
         let found = (start \<ge> 0); s = nat start; e = nat stop;
             managed = (if found then managed_lines (slice s e b) else []);
             out = (if found then take s b @ drop e b else b);
             cs = conflicts domains out;
             p = \<lparr>p_path = path, p_changed = False, p_managed = managed, p_conflicts = cs, p_diff = [],
                  p_before = b, p_after = []\<rparr>
         in if \<not> remove \<and> cs \<noteq> []
            then Inr (p, Some (New (''unmanaged hosts entries conflict with configured domains: '' @ show_strings cs)))
            else
              let out' = (if remove then out
                    else if found then take s b @ generated domains address @ drop e b
                    else end_line out @ generated domains address);
                  changed = (b \<noteq> out');
                  diff = (if changed then ''--- '' @ path @ '' (current)'' @ [newline] @ ''+++ '' @ path
                      @ '' (proposed)'' @ [newline] @ line_diff b out'
                    else ''No hosts changes needed.'' @ [newline])
              in Inr (p\<lparr>p_changed := changed, p_diff := diff, p_after := out'\<rparr>, None))"

definition max_hosts :: nat where
  "max_hosts = 4 * 1024 * 1024"

definition prepare :: "path \<Rightarrow> string list \<Rightarrow> string \<Rightarrow> bool \<Rightarrow> (plan \<times> go_error option) io" where
  "prepare path domains address remove =
     bind_io (sys_eval_symlinks path) (\<lambda>resolved.
     bind_io (regular resolved) (\<lambda>_.
     bind_io (sys_read resolved) (\<lambda>b.
     bind_io (guard (length b > max_hosts) (New ''hosts file exceeds 4 MiB'')) (\<lambda>_.
     case plan_of resolved b domains address remove of Inl e \<Rightarrow> throw e | Inr r \<Rightarrow> ret r))))"

section \<open>The block by lines\<close>

abbreviation plain_line :: "string \<Rightarrow> bool" where
  "plain_line l \<equiv> \<not> is_marker (trim_space l)"

abbreviation plain_lines :: "string list \<Rightarrow> bool" where
  "plain_lines ls \<equiv> list_all plain_line ls"

abbreviation malformed :: go_error where
  "malformed \<equiv> New ''malformed, duplicate or unknown-version utlsproxy hosts block''"

lemma marker_lines [simp]: "is_marker Begin_line" "is_marker End_line" "Begin_line \<noteq> End_line" "End_line \<noteq> Begin_line"
  by (simp_all add: is_marker_def Begin_line_def End_line_def)

lemma block_lines_closed:
  "0 \<le> s \<Longrightarrow> 0 \<le> e \<Longrightarrow> block_lines ls s e off = (if plain_lines ls then Inr (s, e) else Inl malformed)"
  by (induction ls s e off rule: block_lines.induct) (auto simp: Let_def)

lemma block_lines_open:
  "0 \<le> s \<Longrightarrow> 0 \<le> off \<Longrightarrow> block_lines ls s (-1) off = Inr (s', e') \<longleftrightarrow>
     (plain_lines ls \<and> s' = s \<and> e' = -1) \<or>
     (\<exists>xs l ys. ls = xs @ l # ys \<and> plain_lines xs \<and> trim_space l = End_line \<and> plain_lines ys
        \<and> s' = s \<and> e' = off + int (length (concat (xs @ [l]))))"
proof (induction ls arbitrary: off)
  case (Cons line ls)
  consider (plain) "plain_line line" | (stop) "trim_space line = End_line"
    | (bad) "\<not> plain_line line" "trim_space line \<noteq> End_line" by blast
  then show ?case
  proof cases
    case plain
    then have "trim_space line \<noteq> End_line" by auto
    with plain show ?thesis
      unfolding ex_split_Cons using Cons by (simp add: Let_def add.assoc)
  next
    case stop
    with Cons.prems show ?thesis
      unfolding ex_split_Cons by (auto simp: Let_def block_lines_closed)
  next
    case bad
    with Cons.prems show ?thesis unfolding ex_split_Cons by (simp add: Let_def)
  qed
qed auto

text \<open>The lines of a file with one block: before, begin, inside, end, after.\<close>

definition block_split :: "string list \<Rightarrow> string list \<Rightarrow> string list \<Rightarrow> string list \<Rightarrow> bool" where
  "block_split ls pre blk post =
     (ls = pre @ blk @ post \<and> plain_lines pre \<and> plain_lines post \<and>
      (\<exists>b xs e. blk = b # xs @ [e] \<and> trim_space b = Begin_line \<and> plain_lines xs \<and> trim_space e = End_line))"

lemma block_lines_start:
  "0 \<le> off \<Longrightarrow> block_lines ls (-1) (-1) off = Inr (s', e') \<Longrightarrow>
     (plain_lines ls \<and> s' = -1 \<and> e' = -1) \<or> (0 \<le> s' \<and> e' = -1) \<or>
     (\<exists>pre blk post. block_split ls pre blk post \<and> s' = off + int (length (concat pre))
        \<and> e' = off + int (length (concat (pre @ blk))))"
proof (induction ls arbitrary: off)
  case (Cons line ls)
  consider (plain) "plain_line line" | (start) "trim_space line = Begin_line"
    | (bad) "\<not> plain_line line" "trim_space line \<noteq> Begin_line" by blast
  then show ?case
  proof cases
    case plain
    with Cons.prems have "block_lines ls (-1) (-1) (off + int (length line)) = Inr (s', e')"
      by (simp add: Let_def)
    from Cons.IH [OF _ this] Cons.prems consider
      "plain_lines ls" "s' = -1" "e' = -1" | "0 \<le> s'" "e' = -1"
      | pre blk post where "block_split ls pre blk post" "s' = off + int (length line) + int (length (concat pre))"
        "e' = off + int (length line) + int (length (concat (pre @ blk)))" by auto
    then show ?thesis
    proof cases
      case 3
      with plain have "block_split (line # ls) (line # pre) blk post" by (simp add: block_split_def)
      moreover have "s' = off + int (length (concat (line # pre)))" "e' = off + int (length (concat ((line # pre) @ blk)))"
        using 3 by simp_all
      ultimately show ?thesis by blast
    qed (use plain in auto)
  next
    case start
    with Cons.prems have "block_lines ls off (-1) (off + int (length line)) = Inr (s', e')"
      by (simp add: Let_def)
    with Cons.prems consider "s' = off" "e' = -1"
      | xs l ys where "ls = xs @ l # ys" "plain_lines xs" "trim_space l = End_line" "plain_lines ys" "s' = off"
        "e' = off + int (length line) + int (length (concat (xs @ [l])))"
      by (auto simp: block_lines_open)
    then show ?thesis
    proof cases
      case 2
      with start have "block_split (line # ls) [] (line # xs @ [l]) ys" by (auto simp: block_split_def)
      moreover have "s' = off + int (length (concat []))" "e' = off + int (length (concat ([] @ (line # xs @ [l]))))"
        using 2 by simp_all
      ultimately show ?thesis by blast
    qed (use Cons.prems in auto)
  next
    case bad
    with Cons.prems show ?thesis by (simp add: Let_def)
  qed
qed auto

lemma block_lines_split:
  assumes "block_split ls pre blk post" "0 \<le> off"
  shows "block_lines ls (-1) (-1) off =
    Inr (off + int (length (concat pre)), off + int (length (concat (pre @ blk))))"
  using assms
proof (induction pre arbitrary: ls off)
  case Nil
  then obtain b xs e where ls: "ls = b # xs @ e # post" "blk = b # xs @ [e]" "trim_space b = Begin_line"
    "plain_lines xs" "trim_space e = End_line" "plain_lines post"
    by (auto simp: block_split_def)
  then have "block_lines (xs @ e # post) off (-1) (off + int (length b)) =
      Inr (off, off + int (length b) + int (length (concat (xs @ [e]))))"
    using Nil.prems by (subst block_lines_open) auto
  with ls Nil.prems show ?case by (simp add: Let_def add.assoc)
next
  case (Cons line pre)
  then have "ls = line # pre @ blk @ post" "plain_line line" "block_split (pre @ blk @ post) pre blk post"
    by (auto simp: block_split_def)
  with Cons.IH [OF this(3), of "off + int (length line)"] Cons.prems show ?case
    by (simp add: Let_def add.assoc)
qed

lemma block_lines_plain: "plain_lines ls \<Longrightarrow> block_lines ls (-1) (-1) off = Inr (-1, -1)"
  by (induction ls arbitrary: off) (auto simp: Let_def)

text \<open>Cutting a text at the borders of its lines.\<close>

lemma cut_at_block:
  assumes "block_split (split_after newline b) pre blk post"
  shows "b = concat pre @ concat blk @ concat post"
    "take (length (concat pre)) b = concat pre" "drop (length (concat (pre @ blk))) b = concat post"
    "slice (length (concat pre)) (length (concat (pre @ blk))) b = concat blk"
proof -
  from assms have "split_after newline b = pre @ blk @ post" by (simp add: block_split_def)
  then have "concat (split_after newline b) = concat pre @ concat blk @ concat post" by simp
  then show b: "b = concat pre @ concat blk @ concat post" by simp
  show "take (length (concat pre)) b = concat pre" "drop (length (concat (pre @ blk))) b = concat post"
    "slice (length (concat pre)) (length (concat (pre @ blk))) b = concat blk"
    by (simp_all add: b slice_def)
qed

lemma block_found:
  "block_split (split_after newline b) pre blk post \<Longrightarrow>
     block b = Inr (int (length (concat pre)), int (length (concat (pre @ blk))))"
  using block_lines_split [of "split_after newline b" pre blk post 0] by (simp add: block_def)

lemma block_none: "plain_lines (split_after newline b) \<Longrightarrow> block b = Inr (-1, -1)"
  by (simp add: block_def block_lines_plain)

lemma block_cases:
  assumes "block b = Inr (s, e)"
  obtains (none) "plain_lines (split_after newline b)" "s = -1" "e = -1"
    | (found) pre blk post where "block_split (split_after newline b) pre blk post"
        "s = int (length (concat pre))" "e = int (length (concat (pre @ blk)))"
proof -
  from assms have "block_lines (split_after newline b) (-1) (-1) 0 = Inr (s, e)" "(s < 0) = (e < 0)"
    by (auto simp: block_def split: sum.splits prod.splits if_splits)
  with block_lines_start [of 0 "split_after newline b" s e] none found show thesis by auto
qed

section \<open>What a plan does\<close>

text \<open>The lines the planner generates.\<close>

definition generated_lines :: "string list \<Rightarrow> string \<Rightarrow> string list" where
  "generated_lines domains address =
     (Begin_line @ [newline]) # map (\<lambda>d. address @ '' '' @ d @ [newline]) domains @ [End_line @ [newline]]"

text \<open>Addresses and names as a validated configuration has them: on one line, no comment.\<close>

definition entry_ok :: "string list \<Rightarrow> string \<Rightarrow> bool" where
  "entry_ok domains address =
     (address \<noteq> [] \<and> \<not> is_space (hd address) \<and> hd address \<noteq> CHR ''#'' \<and> newline \<notin> set address
      \<and> list_all (\<lambda>d. newline \<notin> set d) domains)"

lemma concat_generated [simp]: "concat (generated_lines domains address) = generated domains address"
  by (simp add: generated_lines_def generated_def)

lemma newline_Begin: "newline \<notin> set Begin_line" "newline \<notin> set End_line"
  by (simp_all add: Begin_line_def End_line_def)

lemma trim_Begin: "trim_space (Begin_line @ [newline]) = Begin_line" "trim_space (End_line @ [newline]) = End_line"
  by (simp_all add: trim_space_def Begin_line_def End_line_def is_space_def code_def)

lemma split_lines_append:
  "list_all (\<lambda>l. newline \<notin> set l) ls \<Longrightarrow>
     split_after newline (concat (map (\<lambda>l. l @ [newline]) ls) @ t) = map (\<lambda>l. l @ [newline]) ls @ split_after newline t"
  by (induction ls) (auto simp: split_after_append [simplified])

lemma split_generated:
  assumes "entry_ok domains address"
  shows "split_after newline (generated domains address @ t) = generated_lines domains address @ split_after newline t"
proof -
  let ?ls = "Begin_line # map (\<lambda>d. address @ '' '' @ d) domains @ [End_line]"
  have "list_all (\<lambda>l. newline \<notin> set l) ?ls"
    using assms newline_Begin by (auto simp: entry_ok_def list_all_iff)
  from split_lines_append [OF this, of t] show ?thesis
    by (simp add: generated_def generated_lines_def comp_def)
qed

lemma plain_entry:
  assumes "entry_ok domains address"
  shows "plain_line (address @ r)"
proof -
  from assms obtain x a where x: "address = x # a" "\<not> is_space x" "x \<noteq> CHR ''#''"
    by (cases address) (auto simp: entry_ok_def)
  from trim_space_hd [OF x(2), of "a @ r"] x show ?thesis by (auto simp: is_marker_def)
qed

lemma plain_empty: "plain_line []"
  by (simp add: is_marker_def trim_space_def)

lemma generated_split:
  assumes "entry_ok domains address" "plain_lines pre" "plain_lines post"
  shows "block_split (pre @ generated_lines domains address @ post) pre (generated_lines domains address) post"
proof -
  have "plain_lines (map (\<lambda>d. address @ '' '' @ d @ [newline]) domains)"
    using plain_entry [OF assms(1)] by (simp add: list_all_iff)
  with assms trim_Begin show ?thesis by (auto simp: block_split_def generated_lines_def)
qed

lemma line_conflicts_Nil [simp]: "line_conflicts domains [] = []"
  by (simp add: line_conflicts_def line_names_def cut_def split_fields_def)

lemma conflicts_end_line [simp]: "conflicts domains (end_line b) = conflicts domains b"
  by (simp add: conflicts_def end_line_def split_on_snoc)

lemma end_line_ends: "end_line b = [] \<or> last (end_line b) = newline"
  by (auto simp: end_line_def)

lemma plain_end_line:
  assumes "plain_lines (split_after newline b)"
  shows "plain_lines (split_after newline (end_line b))"
proof -
  let ?ls = "split_after newline b"
  obtain ls l where ls: "?ls = ls @ [l]" using split_after_nonempty by (metis rev_exhaust)
  have "trim_space (l @ [newline]) = trim_space l"
    by (rule trim_space_snoc) (simp add: is_space_def code_def)
  with assms ls have "plain_lines ls" "plain_line (l @ [newline])" by simp_all
  with plain_empty have "plain_lines (split_after newline (b @ [newline]))"
    unfolding split_after_snoc ls by simp
  with assms show ?thesis by (simp add: end_line_def)
qed

text \<open>The outcome of a successful plan to apply, in terms of the lines kept.\<close>

lemma plan_apply_shape:
  assumes "plan_of path b domains address False = Inr (p, None)"
  obtains pre post where
    "p_after p = concat pre @ generated domains address @ concat post"
    "plain_lines pre" "plain_lines (split_after newline (concat post))"
    "\<And>t. split_after newline (concat pre @ t) = pre @ split_after newline t"
    "conflicts domains (concat pre @ concat post) = []"
    "(block b = Inr (-1, -1) \<and> concat pre = end_line b \<and> post = []) \<or>
     (\<exists>blk. block_split (split_after newline b) pre blk post)"
proof -
  from assms obtain s e where blk: "block b = Inr (s, e)"
    by (auto simp: plan_of_def split: sum.splits)
  from blk show thesis
  proof (cases rule: block_cases)
    case none
    have cs: "conflicts domains b = []" and after: "p_after p = end_line b @ generated domains address"
      using assms blk none by (auto simp: plan_of_def Let_def split: if_splits)
    let ?pre = "butlast (split_after newline (end_line b))"
    have last: "last (split_after newline (end_line b)) = []"
      by (rule split_after_last_Nil) (rule end_line_ends)
    have ls: "split_after newline (end_line b) = ?pre @ [[]]"
      using append_butlast_last_id [OF split_after_nonempty, of newline "end_line b"] last by simp
    have pre: "concat ?pre = end_line b"
      using arg_cong [OF ls, of concat] by simp
    have "plain_lines ?pre" using plain_end_line [OF none(1)] by (subst (asm) ls) simp
    moreover have "split_after newline (concat ?pre @ t) = ?pre @ split_after newline t" for t
      using split_after_concat [of "end_line b" newline t] end_line_ends [of b] pre by auto
    ultimately show ?thesis
      by (intro that [of ?pre "[]"]) (use after cs pre blk none plain_empty in auto)
  next
    case (found pre bl post)
    note cut = cut_at_block [OF found(1)]
    have n: "nat s = length (concat pre)" "nat e = length (concat (pre @ bl))" "0 \<le> s"
      using found(2,3) by simp_all
    have cs: "conflicts domains (concat pre @ concat post) = []"
      and after: "p_after p = concat pre @ generated domains address @ concat post"
      using assms blk n cut by (auto simp: plan_of_def Let_def split: if_splits)
    from found(1) have ls: "split_after newline b = pre @ (bl @ post)" "bl @ post \<noteq> []"
      and pl: "plain_lines pre" "plain_lines post" by (auto simp: block_split_def)
    have "plain_lines (split_after newline (concat post))"
    proof (cases post)
      case Nil
      then show ?thesis using plain_empty by simp
    next
      case (Cons l ls')
      with ls have "split_after newline b = (pre @ bl) @ post" "post \<noteq> []" by auto
      from split_after_regroup [OF this] pl show ?thesis by simp
    qed
    with split_after_regroup [OF ls] after cs pl found(1) show ?thesis by (intro that) auto
  qed
qed

section \<open>The shown difference\<close>

lemma common_prefix_take:
  "take (common_prefix a b) a = take (common_prefix a b) b \<and> common_prefix a b \<le> length a \<and> common_prefix a b \<le> length b"
  by (induction a b rule: common_prefix.induct) auto

lemma common_suffix_drop:
  "common_suffix a b i j k = (j', k') \<Longrightarrow> i \<le> j \<Longrightarrow> i \<le> k \<Longrightarrow> j \<le> length a \<Longrightarrow> k \<le> length b \<Longrightarrow>
     drop j a = drop k b \<Longrightarrow>
     drop j' a = drop k' b \<and> i \<le> j' \<and> i \<le> k' \<and> j' \<le> length a \<and> k' \<le> length b
     \<and> (i < j' \<and> i < k' \<longrightarrow> a ! (j' - 1) \<noteq> b ! (k' - 1))"
proof (induction a b i j k rule: common_suffix.induct)
  case (1 a b i j k)
  show ?case
  proof (cases "j > i \<and> k > i \<and> a ! (j - 1) = b ! (k - 1)")
    case True
    then have "drop (j - 1) a = a ! (j - 1) # drop j a" "drop (k - 1) b = b ! (k - 1) # drop k b"
      using 1 Cons_nth_drop_Suc [of "j - 1" a] Cons_nth_drop_Suc [of "k - 1" b] by auto
    moreover have "common_suffix a b i (j - 1) (k - 1) = (j', k')"
      using 1(2) True by (subst (asm) common_suffix.simps) simp
    moreover have "i \<le> j - 1" "i \<le> k - 1" "j - 1 \<le> length a" "k - 1 \<le> length b" using True 1 by linarith+
    ultimately show ?thesis using 1(1) True 1(7) by presburger
  next
    case False
    with 1 show ?thesis by (auto simp: common_suffix.simps [of a b i j k])
  qed
qed

lemma slice_join: "i \<le> j \<Longrightarrow> take i xs @ slice i j xs @ drop j xs = xs"
proof -
  assume "i \<le> j"
  then have "drop j xs = drop (j - i) (drop i xs)" by simp
  then have "slice i j xs @ drop j xs = drop i xs" by (simp only: slice_def append_take_drop_id)
  then show ?thesis by simp
qed

lemma block_split_nonempty: "block_split ls pre blk post \<Longrightarrow> concat blk \<noteq> []"
proof -
  assume "block_split ls pre blk post"
  then obtain b xs e where "blk = b # xs @ [e]" "trim_space b = Begin_line" by (auto simp: block_split_def)
  moreover from this have "b \<noteq> []" by (auto simp: trim_space_def Begin_line_def)
  ultimately show ?thesis by simp
qed

section \<open>Properties\<close>

text \<open>The block is exactly what the lines of the file say: \<^verbatim>\<open>block\<close> reports
  no block when no line is a marker, and positions when and only when the file splits into
  unmarked lines, one well-formed block and unmarked lines; the positions are the borders of
  that block.  Everything else is an error.\<close>

theorem block_by_lines:
  "block b = Inr (s, e) \<longleftrightarrow>
     (plain_lines (split_after newline b) \<and> s = -1 \<and> e = -1) \<or>
     (\<exists>pre blk post. block_split (split_after newline b) pre blk post
        \<and> s = int (length (concat pre)) \<and> e = int (length (concat (pre @ blk))))"
  using block_found block_none block_cases [of b s e] by metis

text \<open>C7: a plan to install keeps every byte outside the block: what it writes is the old
  text with the block replaced by the generated one, or, without a block, the old text (ended by
  a newline) followed by it; no line outside the block names a configured domain; and it is marked
  as a change exactly when the bytes differ.\<close>

theorem plan_keeps_outside:
  assumes "plan_of path b domains address False = Inr (p, None)"
  shows "\<exists>pre blk post. b = pre @ blk @ post
    \<and> p_after p = (if blk = [] then end_line pre else pre) @ generated domains address @ post
    \<and> conflicts domains (pre @ post) = [] \<and> p_before p = b \<and> (p_changed p \<longleftrightarrow> p_after p \<noteq> b)
    \<and> (blk = [] \<longrightarrow> post = [] \<and> plain_lines (split_after newline b))
    \<and> (blk \<noteq> [] \<longrightarrow> block b = Inr (int (length pre), int (length (pre @ blk))))"
proof -
  from assms obtain s e where blk: "block b = Inr (s, e)"
    by (auto simp: plan_of_def split: sum.splits)
  have basic: "p_before p = b" "p_changed p \<longleftrightarrow> p_after p \<noteq> b"
    using assms by (auto simp: plan_of_def Let_def split: sum.splits prod.splits if_splits)
  from blk show ?thesis
  proof (cases rule: block_cases)
    case none
    have "conflicts domains b = []" "p_after p = end_line b @ generated domains address"
      using assms blk none by (auto simp: plan_of_def Let_def split: if_splits)
    with none basic show ?thesis by (intro exI [of _ b] exI [of _ "[]"]) auto
  next
    case (found pre bl post)
    note cut = cut_at_block [OF found(1)]
    have "conflicts domains (concat pre @ concat post) = []"
      "p_after p = concat pre @ generated domains address @ concat post"
      using assms blk found(2,3) cut by (auto simp: plan_of_def Let_def split: if_splits)
    with block_split_nonempty [OF found(1)] cut(1) basic blk found(2,3) show ?thesis
      by (intro exI [of _ "concat pre"] exI [of _ "concat bl"] exI [of _ "concat post"]) (simp del: concat_eq_Nil_conv)
  qed
qed

theorem plan_keeps_outside_witness:
  "\<exists>p pre blk post. plan_of ''/h'' ''1 a'' [''b''] ''9'' False = Inr (p, None) \<and> ''1 a'' = pre @ blk @ post
    \<and> p_after p = (if blk = [] then end_line pre else pre) @ generated [''b''] ''9'' @ post"
proof -
  have "\<exists>p. plan_of ''/h'' ''1 a'' [''b''] ''9'' False = Inr (p, None)"
    by (simp add: plan_of_def block_def is_marker_def trim_space_def is_space_def code_def
        conflicts_def line_conflicts_def line_names_def canonical_name_def split_on_def cut_def split_fields_def
        trim_suffix_def to_lower_def lower_char_def Let_def)
  then obtain p where p: "plan_of ''/h'' ''1 a'' [''b''] ''9'' False = Inr (p, None)" by blast
  from plan_keeps_outside [OF p] p show ?thesis by blast
qed

text \<open>Planning is idempotent: planning the same installation again on the file a plan
  produced succeeds, leaves every byte and is marked as no change.\<close>

theorem plan_idempotent:
  assumes "entry_ok domains address" and "plan_of path b domains address False = Inr (p, None)"
  shows "\<exists>q. plan_of path' (p_after p) domains address False = Inr (q, None)
    \<and> p_after q = p_after p \<and> \<not> p_changed q"
  using assms(2)
proof (rule plan_apply_shape)
  fix pre post
  assume after: "p_after p = concat pre @ generated domains address @ concat post"
    and plain: "plain_lines pre" "plain_lines (split_after newline (concat post))"
    and split: "\<And>t. split_after newline (concat pre @ t) = pre @ split_after newline t"
    and cs: "conflicts domains (concat pre @ concat post) = []"
  have "block_split (split_after newline (p_after p)) pre (generated_lines domains address)
      (split_after newline (concat post))"
    using generated_split [OF assms(1) plain] by (simp add: after split split_generated [OF assms(1)])
  note blk = block_found [OF this]
  from cs show ?thesis
    by (simp add: plan_of_def blk Let_def) (simp add: after)
qed

theorem plan_idempotent_witness:
  "\<exists>p q. plan_of ''/h'' [] [''b''] ''9'' False = Inr (p, None)
     \<and> plan_of ''/h'' (p_after p) [''b''] ''9'' False = Inr (q, None) \<and> \<not> p_changed q"
proof -
  have "\<exists>p. plan_of ''/h'' [] [''b''] ''9'' False = Inr (p, None)"
    by (simp add: plan_of_def block_def is_marker_def trim_space_def conflicts_def split_on_def Let_def)
  then obtain p where p: "plan_of ''/h'' [] [''b''] ''9'' False = Inr (p, None)" by blast
  have ok: "entry_ok [''b''] ''9''" by (simp add: entry_ok_def is_space_def code_def)
  from plan_idempotent [OF ok p, of "''/h''"] p show ?thesis by blast
qed

text \<open>Removing undoes installing: after an installation a removal plan always succeeds,
  whatever names it is given, and restores the bytes outside the block (the old file, ended by a
  newline, where there was no block); removing once more changes nothing.\<close>

theorem remove_undoes_install:
  assumes "entry_ok domains address" and "plan_of path b domains address False = Inr (p, None)"
  shows "\<exists>q r. plan_of path' (p_after p) domains' address' True = Inr (q, None)
    \<and> p_after q = (case block b of Inr (s, e) \<Rightarrow> if s < 0 then end_line b else take (nat s) b @ drop (nat e) b | Inl _ \<Rightarrow> [])
    \<and> plan_of path' (p_after q) domains' address' True = Inr (r, None) \<and> \<not> p_changed r"
  using assms(2)
proof (rule plan_apply_shape)
  fix pre post
  assume after: "p_after p = concat pre @ generated domains address @ concat post"
    and plain: "plain_lines pre" "plain_lines (split_after newline (concat post))"
    and split: "\<And>t. split_after newline (concat pre @ t) = pre @ split_after newline t"
    and old: "(block b = Inr (-1, -1) \<and> concat pre = end_line b \<and> post = []) \<or>
      (\<exists>blk. block_split (split_after newline b) pre blk post)"
  have "block_split (split_after newline (p_after p)) pre (generated_lines domains address)
      (split_after newline (concat post))"
    using generated_split [OF assms(1) plain] by (simp add: after split split_generated [OF assms(1)])
  note found = block_found [OF this]
  have none: "block (concat pre @ concat post) = Inr (-1, -1)"
    by (rule block_none) (simp add: split plain)
  obtain q where q: "plan_of path' (p_after p) domains' address' True = Inr (q, None)"
    and qa: "p_after q = concat pre @ concat post"
    by (simp add: plan_of_def found Let_def) (simp add: after)
  obtain r where r: "plan_of path' (p_after q) domains' address' True = Inr (r, None)" "\<not> p_changed r"
    by (simp add: plan_of_def qa none Let_def)
  have "concat pre @ concat post =
      (case block b of Inr (s, e) \<Rightarrow> if s < 0 then end_line b else take (nat s) b @ drop (nat e) b | Inl _ \<Rightarrow> [])"
    using old
  proof
    assume "\<exists>blk. block_split (split_after newline b) pre blk post"
    then obtain blk where bs: "block_split (split_after newline b) pre blk post" ..
    show ?thesis
      by (simp only: block_found [OF bs] sum.case prod.case nat_int cut_at_block(2,3) [OF bs] of_nat_less_0_iff if_False)
  qed simp
  with q qa r show ?thesis by auto
qed

theorem remove_undoes_install_witness:
  "\<exists>p q. plan_of ''/h'' ''x'' [''b''] ''9'' False = Inr (p, None)
     \<and> plan_of ''/h'' (p_after p) [] [] True = Inr (q, None) \<and> p_after q = ''x'' @ [newline]"
proof -
  have blk: "block ''x'' = Inr (-1, -1)"
    by (simp add: block_def is_marker_def trim_space_def is_space_def code_def Let_def)
  have "\<exists>p. plan_of ''/h'' ''x'' [''b''] ''9'' False = Inr (p, None)"
    by (simp add: plan_of_def blk conflicts_def line_conflicts_def line_names_def split_on_def cut_def
        split_fields_def is_space_def code_def Let_def)
  then obtain p where p: "plan_of ''/h'' ''x'' [''b''] ''9'' False = Inr (p, None)" by blast
  have ok: "entry_ok [''b''] ''9''" by (simp add: entry_ok_def is_space_def code_def)
  from remove_undoes_install [OF ok p, of "''/h''" "[]" "[]"] p show ?thesis by (auto simp: blk end_line_def)
qed

text \<open>The shown difference is exact: with \<open>i\<close>, \<open>j\<close>, \<open>k\<close> as shown, replacing the old
  lines \<open>i..j\<close> by the new lines \<open>i..k\<close> turns the old text into the new one, and the range
  cannot be shortened at its end.\<close>

theorem diff_is_patch:
  assumes "i = common_prefix (split_after newline old) (split_after newline new)"
    and "common_suffix (split_after newline old) (split_after newline new) i
      (length (split_after newline old)) (length (split_after newline new)) = (j, k)"
  shows "old = concat (take i (split_after newline old)) @ concat (slice i j (split_after newline old))
      @ concat (drop j (split_after newline old))
    \<and> new = concat (take i (split_after newline old)) @ concat (slice i k (split_after newline new))
      @ concat (drop j (split_after newline old))
    \<and> (i < j \<and> i < k \<longrightarrow> split_after newline old ! (j - 1) \<noteq> split_after newline new ! (k - 1))"
proof -
  let ?a = "split_after newline old" and ?b = "split_after newline new"
  from common_prefix_take [of ?a ?b] assms(1)
  have i: "take i ?a = take i ?b" "i \<le> length ?a" "i \<le> length ?b" by auto
  from common_suffix_drop [OF assms(2) i(2,3)]
  have jk: "drop j ?a = drop k ?b" "i \<le> j" "i \<le> k" "i < j \<and> i < k \<longrightarrow> ?a ! (j - 1) \<noteq> ?b ! (k - 1)" by auto
  have "concat (take i ?a @ slice i j ?a @ drop j ?a) = old" by (simp only: slice_join [OF jk(2)] concat_split_after)
  moreover have "concat (take i ?b @ slice i k ?b @ drop k ?b) = new"
    by (simp only: slice_join [OF jk(3)] concat_split_after)
  ultimately show ?thesis using i(1) jk(1,4) by simp
qed

theorem diff_is_patch_witness:
  "''ab'' = concat (take 0 (split_after newline ''ab'')) @ concat (slice 0 1 (split_after newline ''ab''))
     @ concat (drop 1 (split_after newline ''ab''))"
proof -
  have i: "0 = common_prefix (split_after newline ''ab'') (split_after newline ''cd'')" by simp
  have jk: "common_suffix (split_after newline ''ab'') (split_after newline ''cd'') 0
      (length (split_after newline ''ab'')) (length (split_after newline ''cd'')) = (1, 1)"
    by (simp add: common_suffix.simps)
  from diff_is_patch [OF i jk] show ?thesis by blast
qed

end
