(* ===== verification/HostsApply.thy ===== *)
theory HostsApply
  imports Hosts
begin

text \<open>
  \<^verbatim>\<open>internal/hosts/hosts.go\<close>: \<^verbatim>\<open>Apply\<close> and \<^verbatim>\<open>copyXattrs\<close>.  The lemmas:
  a failing application leaves the hosts file to the other processes; an undisturbed successful
  one writes the planned bytes with the old owner, mode and attributes and keeps a backup; a
  file that changed since planning is not touched.
\<close>

section \<open>Applying\<close>

definition xattr_size :: "string list \<Rightarrow> nat" where
  "xattr_size keys = sum_list (map (\<lambda>k. length k + 1) keys)"

definition max_meta :: nat where
  "max_meta = 1024 * 1024"

text \<open>
  A list or value that grew between the call for its size and the call that fetches it does not
  fit into the buffer any more, which the system reports as an error.
\<close>

definition copy_xattr :: "path \<Rightarrow> path \<Rightarrow> string \<Rightarrow> unit io" where
  "copy_xattr src dst key =
     (if key = [] then ret ()
      else bind_io (sys_getxattr src key) (\<lambda>v0.
        bind_io (guard (length v0 > max_meta) (New ''hosts attribute too large'')) (\<lambda>_.
        bind_io (sys_getxattr src key) (\<lambda>v.
        bind_io (guard (length v > length v0) (Os EIO)) (\<lambda>_.
        wrapping (''preserving hosts metadata '' @ key) (sys_setxattr dst key v))))))"

definition copy_xattrs :: "path \<Rightarrow> path \<Rightarrow> unit io" where
  "copy_xattrs src dst =
     bind_io (attempt (sys_listxattr src)) (\<lambda>r.
     case r of
       Inl e \<Rightarrow> if error_is e (Os ENOTSUP) then ret () else throw e
     | Inr keys0 \<Rightarrow>
         if xattr_size keys0 = 0 then ret ()
         else if xattr_size keys0 > max_meta then throw (New ''hosts metadata too large'')
         else bind_io (sys_listxattr src) (\<lambda>keys.
           bind_io (guard (xattr_size keys > xattr_size keys0) (Os EIO)) (\<lambda>_.
           foreach keys (copy_xattr src dst))))"

definition mode_bits :: "32 word" where "mode_bits = 511"

text \<open>Write the new file beside the old one and move it over it, if nothing changed meanwhile.\<close>

definition replace_hosts :: "(string \<Rightarrow> string) \<Rightarrow> plan \<Rightarrow> node \<Rightarrow> path \<Rightarrow> unit io" where
  "replace_hosts sha p st tmp =
     bind_io (write_all tmp (p_after p)) (\<lambda>_.
     bind_io (sys_chown tmp (n_uid st) (n_gid st)) (\<lambda>_.
     bind_io (sys_chmod tmp (n_perm st AND mode_bits)) (\<lambda>_.
     bind_io (copy_xattrs (p_path p) tmp) (\<lambda>_.
     bind_io (sys_sync tmp) (\<lambda>_.
     bind_io (sys_close tmp) (\<lambda>_.
     bind_io (sys_read (p_path p)) (\<lambda>current.
     bind_io (guard (sha current \<noteq> sha (p_before p))
       (New ''hosts changed concurrently before replacement; no changes applied'')) (\<lambda>_.
     bind_io (sys_stat (p_path p)) (\<lambda>latest.
     bind_io (guard (n_ino st \<noteq> n_ino latest \<or> (n_type st, n_perm st) \<noteq> (n_type latest, n_perm latest)
         \<or> n_uid st \<noteq> n_uid latest \<or> n_gid st \<noteq> n_gid latest)
       (New ''hosts identity or metadata changed concurrently'')) (\<lambda>_.
     bind_io (wrapping ''atomic hosts replacement unsupported or failed'' (sys_rename tmp (p_path p))) (\<lambda>_.
     sync_dir (path_dir (p_path p)))))))))))))"

text \<open>The path of the backup; when applying fails the callers do not use it.\<close>

definition apply_plan :: "(string \<Rightarrow> string) \<Rightarrow> string \<Rightarrow> string \<Rightarrow> plan \<Rightarrow> path \<Rightarrow> path io" where
  "apply_plan sha stamp rnd p state_dir =
     (if \<not> p_changed p then ret []
      else
       bind_io (private_dir state_dir) (\<lambda>_.
       bind_io (lock (path_join state_dir ''hosts.lock'')) (\<lambda>_.
       deferring (unlock (path_join state_dir ''hosts.lock''))
        (bind_io (sys_read (p_path p)) (\<lambda>current.
         bind_io (guard (current \<noteq> p_before p) (New ''hosts changed concurrently; review and retry'')) (\<lambda>_.
         let backup = path_join state_dir (''hosts-backup-'' @ stamp);
             tmp = temp_name (path_dir (p_path p)) ''.utlsproxy-hosts-'' rnd
         in bind_io (exclusive backup (p_before p) 384) (\<lambda>_.
            bind_io (sys_stat (p_path p)) (\<lambda>st.
            bind_io (sys_create_excl tmp 384) (\<lambda>_.
            deferring (sys_close tmp) (deferring (sys_remove tmp)
              (bind_io (replace_hosts sha p st tmp) (\<lambda>_. ret backup))))))))))))"

section \<open>Failure\<close>

text \<open>The files an application works on beside the hosts file.\<close>

definition side_files :: "string \<Rightarrow> string \<Rightarrow> plan \<Rightarrow> path \<Rightarrow> path list" where
  "side_files stamp rnd p state_dir =
     [state_dir, path_join state_dir ''hosts.lock'', path_join state_dir (''hosts-backup-'' @ stamp),
      temp_name (path_dir (p_path p)) ''.utlsproxy-hosts-'' rnd]"

lemma stays_copy_xattr [frame_intros]: "p \<noteq> dst \<Longrightarrow> stays (untouched p) (copy_xattr src dst key)"
  unfolding copy_xattr_def by (intro unt.stays_rules frame_intros)

lemma stays_copy_xattrs [frame_intros]: "p \<noteq> dst \<Longrightarrow> stays (untouched p) (copy_xattrs src dst)"
  unfolding copy_xattrs_def by (intro unt.stays_rules frame_intros)

lemma rename_fails_inside: "fails_inside (untouched q) (sys_rename a b)"
  unfolding fails_inside_def sys_rename_def sys_def
  by (auto split: prod.splits option.splits intro: untouched_tick)

lemma replace_fails_inside:
  "p_path p \<noteq> tmp \<Longrightarrow> fails_inside (untouched (p_path p)) (replace_hosts sha p st tmp)"
  unfolding replace_hosts_def
  by (intro unt.fails_bind unt.stays_guard frame_intros unt.fails_wrapping rename_fails_inside
      unt.fails_bind_last sync_dir_never_fails)

lemma ret_never_fails: "never_fails (ret x)"
  by (simp add: never_fails_def ret_def)

lemma apply_fails_inside:
  assumes "p_path p \<notin> set (side_files stamp rnd p state_dir)"
  shows "fails_inside (untouched (p_path p)) (apply_plan sha stamp rnd p state_dir)"
proof -
  from assms have ne: "p_path p \<noteq> state_dir" "p_path p \<noteq> path_join state_dir ''hosts.lock''"
    "p_path p \<noteq> path_join state_dir (''hosts-backup-'' @ stamp)"
    "p_path p \<noteq> temp_name (path_dir (p_path p)) ''.utlsproxy-hosts-'' rnd"
    by (simp_all add: side_files_def)
  show ?thesis
  proof (cases "p_changed p")
    case True
    show ?thesis
      unfolding apply_plan_def Let_def if_not_P [OF not_not [THEN iffD2, OF True]]
      by (intro unt.fails_bind unt.fails_deferring unt.stays_guard frame_intros ne
        unt.fails_bind_last [OF replace_fails_inside] ret_never_fails)
  next
    case False
    then show ?thesis by (simp add: apply_plan_def unt.fails_stays unt.stays_ret)
  qed
qed

section \<open>Success\<close>

lemma calm_run: "stays (untouched p) m \<Longrightarrow> m w = (r, w') \<Longrightarrow> calm w \<Longrightarrow> calm w' \<and> w_fs w' p = w_fs w p"
  using calm_stays [of p m w] by simp

lemma calm_copy_xattr:
  assumes "copy_xattr src dst key w = (Inr u, w')" "calm w" "src \<noteq> dst"
    and "w_fs w src = Some n" "n_xattrs n = Some xs" "w_fs w dst = Some t" "n_xattrs t = Some ys"
  shows "\<exists>ys'. w_fs w' dst = Some (t\<lparr>n_xattrs := Some ys'\<rparr>)
    \<and> map_of ys' = (if key = [] then map_of ys else (map_of ys)(key := map_of xs key))"
proof (cases "key = []")
  case True
  then show ?thesis using assms by (intro exI [of _ ys]) (simp add: copy_xattr_def io_ok)
next
  case False
  with assms(1) obtain v0 w1 v w2 where
    g0: "sys_getxattr src key w = (Inr v0, w1)" and g: "sys_getxattr src key w1 = (Inr v, w2)" and
    s: "sys_setxattr dst key v w2 = (Inr u, w')"
    unfolding copy_xattr_def by (auto simp: io_ok)
  note e0 = calm_getxattr [OF g0 assms(2)]
  note e1 = calm_getxattr [OF g conjunct1 [OF e0]]
  note e2 = calm_setxattr [OF s conjunct1 [OF e1]]
  from e1 e0 assms have v: "map_of xs key = Some v" by auto
  from e2 e1 e0 assms have "w_fs w' dst = Some (t\<lparr>n_xattrs := Some (AList.update key v ys)\<rparr>)" by auto
  with v False show ?thesis by (auto simp: update_conv')
qed

lemma calm_copy_all:
  assumes "foreach keys (copy_xattr src dst) w = (Inr u, w')" "calm w" "src \<noteq> dst"
    and "w_fs w src = Some n" "n_xattrs n = Some xs" "w_fs w dst = Some t" "n_xattrs t = Some ys"
  shows "\<exists>ys'. w_fs w' dst = Some (t\<lparr>n_xattrs := Some ys'\<rparr>)
    \<and> (\<forall>k. map_of ys' k = (if k \<noteq> [] \<and> k \<in> set keys then map_of xs k else map_of ys k))"
  using assms
proof (induction keys arbitrary: w t ys)
  case Nil
  then show ?case by (intro exI [of _ ys]) (simp add: io_ok)
next
  case (Cons key keys)
  from Cons.prems(1) obtain x w1 where
    1: "copy_xattr src dst key w = (Inr x, w1)" and 2: "foreach keys (copy_xattr src dst) w1 = (Inr u, w')"
    by (auto simp: io_ok)
  from calm_copy_xattr [OF 1 Cons.prems(2-7)] obtain ys1 where
    y: "w_fs w1 dst = Some (t\<lparr>n_xattrs := Some ys1\<rparr>)"
    "map_of ys1 = (if key = [] then map_of ys else (map_of ys)(key := map_of xs key))" by blast
  from calm_run [OF stays_copy_xattr [OF Cons.prems(3)] 1 Cons.prems(2)] Cons.prems(4)
  have "calm w1" "w_fs w1 src = Some n" by simp_all
  from Cons.IH [OF 2 this(1) Cons.prems(3) this(2) Cons.prems(5) y(1)] obtain ys' where
    "w_fs w' dst = Some (t\<lparr>n_xattrs := Some ys'\<rparr>)"
    "\<forall>k. map_of ys' k = (if k \<noteq> [] \<and> k \<in> set keys then map_of xs k else map_of ys1 k)" by auto
  with y(2) show ?case by (intro exI [of _ ys']) auto
qed

text \<open>The attributes a copy shares with its source: all that have a name.\<close>

definition same_xattrs :: "node \<Rightarrow> node \<Rightarrow> bool" where
  "same_xattrs n t = (case n_xattrs n of None \<Rightarrow> True
     | Some xs \<Rightarrow> (case n_xattrs t of None \<Rightarrow> False
       | Some ys \<Rightarrow> list_all (\<lambda>k. k = [] \<or> map_of ys k = map_of xs k) (map fst xs)))"

lemma xattr_size_0: "xattr_size keys = 0 \<longleftrightarrow> keys = []"
  by (cases keys) (simp_all add: xattr_size_def)

lemma calm_copy_xattrs:
  assumes "copy_xattrs src dst w = (Inr u, w')" "calm w" "src \<noteq> dst"
    and "w_fs w src = Some n" "w_fs w dst = Some t" "n_xattrs t = Some ys"
  shows "\<exists>ys'. w_fs w' dst = Some (t\<lparr>n_xattrs := Some ys'\<rparr>) \<and> same_xattrs n (t\<lparr>n_xattrs := Some ys'\<rparr>)"
proof -
  from assms(1) obtain r w1 where l: "sys_listxattr src w = (r, w1)" and
    k: "(case r of Inl e \<Rightarrow> if error_is e (Os ENOTSUP) then ret () else throw e
      | Inr keys0 \<Rightarrow> if xattr_size keys0 = 0 then ret () else if xattr_size keys0 > max_meta
          then throw (New ''hosts metadata too large'')
          else bind_io (sys_listxattr src) (\<lambda>keys. bind_io (guard (xattr_size keys > xattr_size keys0) (Os EIO)) (\<lambda>_.
            foreach keys (copy_xattr src dst)))) w1 = (Inr u, w')"
    unfolding copy_xattrs_def by (auto simp: io_ok)
  show ?thesis
  proof (cases r)
    case (Inl e)
    with k have "error_is e (Os ENOTSUP)" "w' = w1" by (auto simp: io_ok split: if_splits)
    with calm_listxattr_unsupported [OF l [unfolded Inl] assms(2)] assms(4-6) show ?thesis
      by (intro exI [of _ ys]) (auto simp: same_xattrs_def)
  next
    case (Inr keys0)
    from calm_listxattr [OF l [unfolded Inr] assms(2)] assms(4) obtain xs where
      xs: "calm w1" "w_fs w1 = w_fs w" "n_xattrs n = Some xs" "keys0 = map fst xs" by auto
    show ?thesis
    proof (cases "keys0 = []")
      case True
      with k xs assms(5,6) Inr show ?thesis
        by (intro exI [of _ ys]) (auto simp: same_xattrs_def xattr_size_def io_ok)
    next
      case False
      with k Inr obtain keys w2 where l2: "sys_listxattr src w1 = (Inr keys, w2)" and
        f: "foreach keys (copy_xattr src dst) w2 = (Inr u, w')"
        by (auto simp: io_ok xattr_size_0 split: if_splits)
      from calm_listxattr [OF l2 xs(1)] xs assms(4) have w2: "calm w2" "w_fs w2 = w_fs w" "keys = map fst xs" by auto
      from calm_copy_all [OF f w2(1) assms(3), of n xs t ys] w2(2) assms(4-6) xs(3) obtain ys' where
        "w_fs w' dst = Some (t\<lparr>n_xattrs := Some ys'\<rparr>)"
        "\<forall>k. map_of ys' k = (if k \<noteq> [] \<and> k \<in> set keys then map_of xs k else map_of ys k)" by auto
      with xs(3) w2(3) show ?thesis by (intro exI [of _ ys']) (auto simp: same_xattrs_def list_all_iff)
    qed
  qed
qed

text \<open>Replacing the file: the new node, and the frame of every other path.\<close>

lemma calm_replace:
  assumes "replace_hosts sha p n tmp w = (Inr u, w')" "calm w" "p_path p \<noteq> tmp"
    and "w_fs w (p_path p) = Some n" "w_fs w tmp = Some t" "n_data t = []" "n_xattrs t = Some ys"
  shows "\<exists>n'. calm w' \<and> w_fs w' (p_path p) = Some n' \<and> n_data n' = p_after p \<and> n_uid n' = n_uid n
    \<and> n_gid n' = n_gid n \<and> n_perm n' = n_perm n AND mode_bits \<and> n_type n' = n_type t \<and> same_xattrs n n'"
proof -
  from assms(1) obtain w1 w2 w3 w4 w5 w6 c w7 l w8 w9 where
    wr: "write_all tmp (p_after p) w = (Inr (), w1)" and
    co: "sys_chown tmp (n_uid n) (n_gid n) w1 = (Inr (), w2)" and
    cm: "sys_chmod tmp (n_perm n AND mode_bits) w2 = (Inr (), w3)" and
    cx: "copy_xattrs (p_path p) tmp w3 = (Inr (), w4)" and
    sy: "sys_sync tmp w4 = (Inr (), w5)" and cl: "sys_close tmp w5 = (Inr (), w6)" and
    rd: "sys_read (p_path p) w6 = (Inr c, w7)" and st: "sys_stat (p_path p) w7 = (Inr l, w8)" and
    rn: "sys_rename tmp (p_path p) w8 = (Inr (), w9)" and sd: "sync_dir (path_dir (p_path p)) w9 = (Inr u, w')"
    unfolding replace_hosts_def io_ok by auto
  note e1 = calm_write_all [OF wr assms(2)]
  note e2 = calm_chown [OF co conjunct1 [OF e1]]
  note e3 = calm_chmod [OF cm conjunct1 [OF e2]]
  have t3: "w_fs w3 tmp = Some (t\<lparr>n_data := p_after p, n_uid := n_uid n, n_gid := n_gid n,
      n_perm := n_perm n AND mode_bits\<rparr>)" "w_fs w3 (p_path p) = Some n"
    using e1 e2 e3 assms(3-6) by simp_all
  have c3: "calm w3" using e3 by blast
  from calm_copy_xattrs [OF cx c3 assms(3) t3(2,1)] assms(7) obtain zs where
    t4: "w_fs w4 tmp = Some (t\<lparr>n_data := p_after p, n_uid := n_uid n, n_gid := n_gid n,
      n_perm := n_perm n AND mode_bits, n_xattrs := Some zs\<rparr>)"
    "same_xattrs n (t\<lparr>n_data := p_after p, n_uid := n_uid n, n_gid := n_gid n,
      n_perm := n_perm n AND mode_bits, n_xattrs := Some zs\<rparr>)" by auto
  from calm_run [OF stays_copy_xattrs [OF assms(3)] cx c3] have c4: "calm w4" by blast
  note e5 = calm_sync [OF sy c4]
  note e6 = calm_close [OF cl conjunct1 [OF e5]]
  note e7 = calm_read [OF rd conjunct1 [OF e6]]
  note e8 = calm_stat [OF st conjunct1 [OF e7]]
  note e9 = calm_rename [OF rn conjunct1 [OF e8]]
  have "w_fs w9 (p_path p) = w_fs w4 tmp" using e5 e6 e7 e8 e9 by simp
  with calm_run [OF stays_sync_dir sd conjunct1 [OF e9]] have "calm w'" "w_fs w' (p_path p) = w_fs w4 tmp" by simp_all
  with t4 show ?thesis by auto
qed

lemma stays_replace_hosts: "q \<noteq> p_path p \<Longrightarrow> q \<noteq> tmp \<Longrightarrow> stays (untouched q) (replace_hosts sha p st tmp)"
  unfolding replace_hosts_def by (intro unt.stays_rules frame_intros)

lemma apply_ok:
  assumes "calm w" "p_changed p" "apply_plan sha stamp rnd p state_dir w = (Inr backup, w')"
    and ne: "p_path p \<notin> set (side_files stamp rnd p state_dir)" "distinct (side_files stamp rnd p state_dir)"
    and n: "w_fs w (p_path p) = Some n" "n_type n = Regular"
  shows "n_data n = p_before p \<and> backup = path_join state_dir (''hosts-backup-'' @ stamp)
    \<and> (\<exists>k. w_fs w' backup = Some k \<and> n_data k = p_before p)
    \<and> (\<exists>n'. w_fs w' (p_path p) = Some n' \<and> n_data n' = p_after p \<and> n_type n' = Regular
        \<and> n_uid n' = n_uid n \<and> n_gid n' = n_gid n \<and> n_perm n' = n_perm n AND mode_bits \<and> same_xattrs n n')"
proof -
  let ?P = "p_path p" and ?L = "path_join state_dir ''hosts.lock''"
  let ?B = "path_join state_dir (''hosts-backup-'' @ stamp)" and ?T = "temp_name (path_dir (p_path p)) ''.utlsproxy-hosts-'' rnd"
  from ne have d: "?P \<noteq> state_dir" "?P \<noteq> ?L" "?P \<noteq> ?B" "?P \<noteq> ?T" "?B \<noteq> ?T" "?B \<noteq> ?L" "?B \<noteq> ?P"
    by (simp_all add: side_files_def) metis+
  from assms(2,3) obtain w1 w2 c w3 w4 st w5 w6 w7 where
    pd: "private_dir state_dir w = (Inr (), w1)" and lk: "lock ?L w1 = (Inr (), w2)" and
    rd: "sys_read ?P w2 = (Inr c, w3)" and eq: "c = p_before p" and
    ex: "exclusive ?B (p_before p) 384 w3 = (Inr (), w4)" and ss: "sys_stat ?P w4 = (Inr st, w5)" and
    cr: "sys_create_excl ?T 384 w5 = (Inr (), w6)" and rp: "replace_hosts sha p st ?T w6 = (Inr (), w7)" and
    b: "backup = ?B" and fin: "w' = snd (unlock ?L (snd (sys_close ?T (snd (sys_remove ?T w7)))))"
    by (auto simp: apply_plan_def Let_def io_ok)
  note e1 = calm_run [OF stays_private_dir [OF d(1)] pd assms(1)]
  note e2 = calm_run [OF stays_lock [OF d(2)] lk conjunct1 [OF e1]]
  note e3 = calm_read [OF rd conjunct1 [OF e2]]
  from e1 e2 n have P2: "w_fs w2 ?P = Some n" by simp
  have "resolve max_links (w_fs w2) ?P = Some ?P" by (rule resolve_plain) (simp add: P2 n)
  with e3 P2 eq have before: "n_data n = p_before p" by auto
  note e4 = exclusive_ok [OF conjunct1 [OF e3] ex]
  with e3 P2 d have P4: "w_fs w4 ?P = Some n" and B4: "\<exists>k. w_fs w4 ?B = Some k \<and> n_data k = p_before p" by simp_all
  from e4 have c4: "calm w4" by blast
  note e5 = calm_stat [OF ss c4]
  have "resolve max_links (w_fs w4) ?P = Some ?P" by (rule resolve_plain) (simp add: P4 n)
  with e5 P4 have st: "st = n" by auto
  note e6 = calm_create_excl [OF cr conjunct1 [OF e5]]
  then have c6: "calm w6" and P6: "w_fs w6 ?P = Some n" and T6: "w_fs w6 ?T = Some (new_node w5 Regular 384)"
    and B6: "w_fs w6 ?B = w_fs w4 ?B" using e5 P4 d by simp_all
  from calm_replace [OF rp [unfolded st] c6 d(4) P6 T6] obtain n' where
    n': "calm w7" "w_fs w7 ?P = Some n'" "n_data n' = p_after p" "n_uid n' = n_uid n" "n_gid n' = n_gid n"
      "n_perm n' = n_perm n AND mode_bits" "n_type n' = Regular" "same_xattrs n n'"
    by (auto simp: new_node_def)
  have B7: "w_fs w7 ?B = w_fs w4 ?B" using calm_run [OF stays_replace_hosts [OF d(7,5)] rp c6] B6 by simp
  have clean: "stays (untouched q) (deferring (unlock ?L) (deferring (sys_close ?T) (sys_remove ?T)))" if "q \<noteq> ?T" for q
    using that by (intro unt.stays_rules frame_intros)
  have "w' = snd (deferring (unlock ?L) (deferring (sys_close ?T) (sys_remove ?T)) w7)"
    by (simp add: fin deferring_def split: prod.split)
  with calm_stays [OF clean [OF d(4)] n'(1)] calm_stays [OF clean [OF d(5)] n'(1)]
  have "w_fs w' ?P = Some n'" "w_fs w' ?B = w_fs w4 ?B" using n'(2) B7 by simp_all
  with n' B4 before b show ?thesis by auto
qed

section \<open>Properties\<close>

text \<open>Unfolding rules that run a command in a concrete quiet world.\<close>

lemmas sys_evals = sys_mkdir_all_def sys_lstat_def sys_stat_def sys_read_def sys_create_excl_def sys_write_def
  sys_sync_def sys_close_def sys_chmod_def sys_chown_def sys_setxattr_def sys_listxattr_def sys_getxattr_def
  sys_remove_def sys_rename_def sys_open_lock_def sys_flock_def sys_unlock_def get_euid_def modify_node_def
  append_data_def put_node_def new_node_def tick_def leads_to_dir_def resolve_plain

text \<open>C17: applying a plan is all or nothing for the hosts file: a plan without a change
  does nothing; whenever an error is reported, whatever failed and whatever others did, the
  application has not changed the file; and an undisturbed success means that the file still
  held the bytes of the plan, now holds the planned ones with the old owner, group, permission
  bits and extended attributes, and that the backup file holds the old bytes.\<close>

theorem apply_all_or_nothing:
  assumes "apply_plan sha stamp rnd p state_dir w = (r, w')"
    and "p_path p \<notin> set (side_files stamp rnd p state_dir)" "distinct (side_files stamp rnd p state_dir)"
  shows "(\<not> p_changed p \<longrightarrow> r = Inr [] \<and> w' = w)
    \<and> (\<not> is_ok r \<longrightarrow> untouched (p_path p) w w')
    \<and> (\<forall>backup n. r = Inr backup \<and> p_changed p \<and> calm w \<and> w_fs w (p_path p) = Some n \<and> n_type n = Regular
        \<longrightarrow> n_data n = p_before p \<and> (\<exists>k. w_fs w' backup = Some k \<and> n_data k = p_before p)
          \<and> (\<exists>n'. w_fs w' (p_path p) = Some n' \<and> n_data n' = p_after p \<and> n_type n' = Regular
            \<and> n_uid n' = n_uid n \<and> n_gid n' = n_gid n \<and> n_perm n' = n_perm n AND mode_bits \<and> same_xattrs n n'))"
proof (intro conjI impI allI)
  assume "\<not> p_changed p"
  with assms(1) show "r = Inr []" "w' = w" by (auto simp: apply_plan_def ret_iff)
next
  assume "\<not> is_ok r"
  then obtain e where "r = Inl e" by (cases r) auto
  with unt.fails_run [OF apply_fails_inside [OF assms(2)]] assms(1) show "untouched (p_path p) w w'" by blast
next
  fix backup n
  assume "r = Inr backup \<and> p_changed p \<and> calm w \<and> w_fs w (p_path p) = Some n \<and> n_type n = Regular"
  then have *: "r = Inr backup" "p_changed p" "calm w" "w_fs w (p_path p) = Some n" "n_type n = Regular" by blast+
  note ok = apply_ok [OF *(3,2) assms(1) [unfolded *(1)] assms(2,3) *(4,5)]
  show "n_data n = p_before p" "\<exists>k. w_fs w' backup = Some k \<and> n_data k = p_before p"
    "\<exists>n'. w_fs w' (p_path p) = Some n' \<and> n_data n' = p_after p \<and> n_type n' = Regular
      \<and> n_uid n' = n_uid n \<and> n_gid n' = n_gid n \<and> n_perm n' = n_perm n AND mode_bits \<and> same_xattrs n n'"
    using ok by blast+
qed

definition sample_hosts :: node where
  "sample_hosts = \<lparr>n_type = Regular, n_data = ''old'', n_perm = 420, n_uid = 0, n_gid = 7, n_ino = 3,
     n_xattrs = Some [(''user.a'', ''1'')]\<rparr>"

definition sample_plan :: plan where
  "sample_plan = \<lparr>p_path = ''/h'', p_changed = True, p_managed = [], p_conflicts = [], p_diff = [],
     p_before = ''old'', p_after = ''new''\<rparr>"

theorem apply_all_or_nothing_witness:
  "\<exists>n. w_fs (snd (apply_plan id ''t'' ''r'' sample_plan ''/s'' (bare_world\<lparr>w_fs := [''/h'' \<mapsto> sample_hosts]\<rparr>))) ''/h'' = Some n
     \<and> n_data n = ''new'' \<and> n_gid n = 7"
proof -
  let ?w = "bare_world\<lparr>w_fs := [''/h'' \<mapsto> sample_hosts]\<rparr>"
  have d: "path_dir ''/h'' = ''/''" by (simp add: path_evals)
  have j: "path_join ''/s'' ''hosts.lock'' = ''/s/hosts.lock''" "path_join ''/s'' ''hosts-backup-t'' = ''/s/hosts-backup-t''"
    by (simp_all add: path_evals)
  have t: "temp_name ''/'' ''.utlsproxy-hosts-'' ''r'' = ''/.utlsproxy-hosts-r''" by (simp add: temp_name_def)
  have s: "set (side_files ''t'' ''r'' sample_plan ''/s'') = {''/s'', ''/s/hosts.lock'', ''/s/hosts-backup-t'', ''/.utlsproxy-hosts-r''}"
    "distinct (side_files ''t'' ''r'' sample_plan ''/s'')"
    by (simp_all add: side_files_def sample_plan_def d j t)
  have p: "p_path sample_plan = ''/h''" "p_before sample_plan = ''old''" "p_after sample_plan = ''new''" "p_changed sample_plan"
    by (simp_all add: sample_plan_def)
  have q: "quiet ?w" by (simp add: quiet_def)
  have "is_ok (fst (apply_plan id ''t'' ''r'' sample_plan ''/s'' ?w))"
    by (simp add: apply_plan_def Let_def p d j t io_defs sys_evals private_dir_def lock_def exclusive_def replace_hosts_def
        copy_xattrs_def copy_xattr_def xattr_size_def max_meta_def sync_dir_def sample_hosts_def mode_private_def
        mask_others_def)
  then obtain backup where run: "apply_plan id ''t'' ''r'' sample_plan ''/s'' ?w
      = (Inr backup, snd (apply_plan id ''t'' ''r'' sample_plan ''/s'' ?w))"
    by (cases "apply_plan id ''t'' ''r'' sample_plan ''/s'' ?w"; cases "fst (apply_plan id ''t'' ''r'' sample_plan ''/s'' ?w)") auto
  have c: "calm ?w" by (simp add: calm_def)
  from apply_all_or_nothing [OF run] c show ?thesis by (auto simp: s p sample_hosts_def)
qed

end
