(* ===== verification/Logging.thy ===== *)
theory Logging
  imports FsUtil
begin

text \<open>
  \<^verbatim>\<open>internal/logging/rotate.go\<close>: a log file that is rotated before it grows over its
  limit, with three old files.  The open file is the path it was opened at and whether it is still
  open; a closed file refuses to be written or closed again.  The size is an \<open>int\<close>: it is an
  \<^verbatim>\<open>int64\<close> below the size of a file plus one record.  The lemmas: undisturbed, the four
  files are the segments of an abstract log; after a failed rotation every write fails.
\<close>

section \<open>Operations\<close>

record rotator =
  ro_path :: path
  ro_file :: path
  ro_open :: bool
  ro_size :: int
  ro_limit :: int

definition err_closed :: go_error where
  "err_closed = New ''file already closed''"

text \<open>\<^verbatim>\<open>O_CREATE|O_APPEND\<close> follows links; the result is the file that is open.\<close>

definition sys_open_append :: "path \<Rightarrow> 32 word \<Rightarrow> path io" where
  "sys_open_append p m = sys (\<lambda>w. (case resolve max_links (w_fs w) p of
      None \<Rightarrow> (Inl (Os EIO), w)
    | Some q \<Rightarrow> (case w_fs w q of
        None \<Rightarrow> (Inr q, (put_node q (new_node w Regular m) w)\<lparr>w_ino := Suc (w_ino w)\<rparr>)
      | Some n \<Rightarrow> if n_type n = Directory then (Inl (Os EIO), w) else (Inr q, w))))"

definition rotator_open :: "path \<Rightarrow> rotator io" where
  "rotator_open path =
     bind_io (sys_mkdir_all (path_dir path) 448) (\<lambda>_.
     bind_io (attempt (sys_lstat path)) (\<lambda>r.
     bind_io (guard (case r of Inl e \<Rightarrow> False | Inr i \<Rightarrow> n_type i \<noteq> Regular) (New (''log is not a regular file: '' @ path))) (\<lambda>_.
     bind_io (sys_open_append path 384) (\<lambda>f.
     bind_io (attempt (sys_lstat f)) (\<lambda>st.
     case st of
       Inl e \<Rightarrow> deferring (sys_close f) (throw e)
     | Inr i \<Rightarrow> ret \<lparr>ro_path = path, ro_file = f, ro_open = True, ro_size = int (length (n_data i)), ro_limit = 10 * 1024 * 1024\<rparr>)))))"

definition file_close :: "rotator \<Rightarrow> world \<Rightarrow> go_error option \<times> rotator \<times> world" where
  "file_close r w =
     (if ro_open r then
        (case sys_close (ro_file r) w of
          (Inl e, w') \<Rightarrow> (Some e, r\<lparr>ro_open := False\<rparr>, w')
        | (Inr _, w') \<Rightarrow> (None, r\<lparr>ro_open := False\<rparr>, w'))
      else (Some err_closed, r, w))"

definition old_name :: "path \<Rightarrow> nat \<Rightarrow> path" where
  "old_name path i = (if i = 0 then path else path @ ''.'' @ dec i)"

text \<open>One pass of the loop: the file before moves to place \<open>i\<close>; a missing one is skipped.\<close>

definition shift :: "path \<Rightarrow> nat \<Rightarrow> unit io" where
  "shift path i = bind_io (attempt (sys_rename (old_name path (i - 1)) (old_name path i))) (\<lambda>r.
     case r of
       Inl e \<Rightarrow> guard (\<not> is_missing e) e
     | Inr _ \<Rightarrow> ret ())"

text \<open>\<^verbatim>\<open>Write\<close>: the number of bytes and the error, with the new state.\<close>

definition write_file :: "string \<Rightarrow> rotator \<Rightarrow> world \<Rightarrow> (nat \<times> go_error option) \<times> rotator \<times> world" where
  "write_file b r w =
     (if \<not> ro_open r then ((0, Some err_closed), r, w)
      else
        (case sys_write (ro_file r) b w of
          (Inl e, w') \<Rightarrow> ((0, Some e), r, w')
        | (Inr (n, e), w') \<Rightarrow> ((n, e), r\<lparr>ro_size := ro_size r + int n\<rparr>, w')))"

definition rotator_write :: "string \<Rightarrow> rotator \<Rightarrow> world \<Rightarrow> (nat \<times> go_error option) \<times> rotator \<times> world" where
  "rotator_write b r w =
     (if ro_size r + int (length b) > ro_limit r then
        (case file_close r w of
          (Some e, r', w') \<Rightarrow> ((0, Some e), r', w')
        | (None, r', w1) \<Rightarrow>
            (case foreach [3, 2, 1] (shift (ro_path r)) w1 of
              (Inl e, w2) \<Rightarrow> ((0, Some e), r', w2)
            | (Inr _, w2) \<Rightarrow>
                (case sys_create_excl (ro_path r) 384 w2 of
                  (Inl e, w3) \<Rightarrow> ((0, Some e), r', w3)
                | (Inr _, w3) \<Rightarrow> write_file b (r'\<lparr>ro_file := ro_path r, ro_open := True, ro_size := 0\<rparr>) w3)))
      else write_file b r w)"

definition rotator_close :: "rotator \<Rightarrow> world \<Rightarrow> go_error option \<times> rotator \<times> world" where
  "rotator_close = file_close"

section \<open>The abstract log\<close>

text \<open>
  The segments, newest first: a record that does not fit opens a new one; four are kept.
\<close>

definition log_append :: "nat \<Rightarrow> string \<Rightarrow> string list \<Rightarrow> string list" where
  "log_append limit b segs =
     (case segs of
       [] \<Rightarrow> [b]
     | cur # old \<Rightarrow> if length cur + length b > limit then take 4 (b # segs) else (cur @ b) # old)"

text \<open>The segments the files hold: up to the first missing one.\<close>

fun segments :: "fs \<Rightarrow> path list \<Rightarrow> string list" where
  "segments m [] = []"
| "segments m (p # ps) = (case m p of None \<Rightarrow> [] | Some n \<Rightarrow> n_data n # segments m ps)"

definition log_files :: "path \<Rightarrow> path list" where
  "log_files path = map (old_name path) [0, 1, 2, 3]"

definition log_of :: "path \<Rightarrow> world \<Rightarrow> string list" where
  "log_of path w = segments (w_fs w) (log_files path)"

text \<open>The state that belongs to an open rotator: its size is that of its file, and there are no gaps.\<close>

definition rotator_ok :: "rotator \<Rightarrow> world \<Rightarrow> bool" where
  "rotator_ok r w =
     (quiet w \<and> ro_open r \<and> ro_file r = ro_path r
      \<and> (\<exists>n. w_fs w (ro_path r) = Some n \<and> ro_size r = int (length (n_data n)))
      \<and> (w_fs w (ro_path r @ ''.1'') = None \<longrightarrow> w_fs w (ro_path r @ ''.2'') = None)
      \<and> (w_fs w (ro_path r @ ''.2'') = None \<longrightarrow> w_fs w (ro_path r @ ''.3'') = None))"

lemma old_names: "old_name p 0 = p" "old_name p (Suc 0) = p @ ''.1''" "old_name p 2 = p @ ''.2''" "old_name p 3 = p @ ''.3''"
  by (simp_all add: old_name_def dec.simps digit_char_def char_evals)

lemma quiet_put [simp]: "quiet (w\<lparr>w_fs := m\<rparr>) = quiet w" "quiet (w\<lparr>w_ino := i\<rparr>) = quiet w" "quiet (put_node p n w) = quiet w"
  by (simp_all add: quiet_def put_node_def)

lemma shift_run:
  assumes "quiet w"
  shows "shift path i w = (Inr (), case w_fs w (old_name path (i - 1)) of
      None \<Rightarrow> w | Some n \<Rightarrow> w\<lparr>w_fs := (w_fs w)(old_name path (i - 1) := None, old_name path i := Some n)\<rparr>)"
  using assms
  by (auto simp: shift_def bind_io_def attempt_def sys_rename_def quiet_sys guard_def ret_def is_missing_def split: option.splits)

text \<open>Undisturbed, a rotation moves every file one place up.\<close>

lemma rotation_run:
  assumes "quiet w" "w_fs w path = Some n"
    and "w_fs w (path @ ''.1'') = None \<longrightarrow> w_fs w (path @ ''.2'') = None"
    and "w_fs w (path @ ''.2'') = None \<longrightarrow> w_fs w (path @ ''.3'') = None"
  obtains w' where "foreach [3, 2, 1] (shift path) w = (Inr (), w')" "quiet w'" "w_fs w' path = None"
    "w_fs w' (path @ ''.1'') = Some n" "w_fs w' (path @ ''.2'') = w_fs w (path @ ''.1'')"
    "w_fs w' (path @ ''.3'') = w_fs w (path @ ''.2'')"
proof -
  define w1 where "w1 = (case w_fs w (path @ ''.2'') of None \<Rightarrow> w | Some n \<Rightarrow> w\<lparr>w_fs := (w_fs w)(path @ ''.2'' := None, path @ ''.3'' := Some n)\<rparr>)"
  define w2 where "w2 = (case w_fs w1 (path @ ''.1'') of None \<Rightarrow> w1 | Some n \<Rightarrow> w1\<lparr>w_fs := (w_fs w1)(path @ ''.1'' := None, path @ ''.2'' := Some n)\<rparr>)"
  define w3 where "w3 = (case w_fs w2 path of None \<Rightarrow> w2 | Some n \<Rightarrow> w2\<lparr>w_fs := (w_fs w2)(path := None, path @ ''.1'' := Some n)\<rparr>)"
  have q: "quiet w1" "quiet w2" "quiet w3"
    using assms(1) by (simp_all add: w1_def w2_def w3_def split: option.splits)
  have s: "shift path 3 w = (Inr (), w1)" using shift_run [OF assms(1), of path 3] by (simp add: old_names w1_def split: option.splits)
  have s2: "shift path 2 w1 = (Inr (), w2)" using shift_run [OF q(1), of path 2] by (simp add: old_names w2_def split: option.splits)
  have s3: "shift path (Suc 0) w2 = (Inr (), w3)" using shift_run [OF q(2), of path "Suc 0"] by (simp add: old_names w3_def split: option.splits)
  have run: "foreach [3, 2, 1] (shift path) w = (Inr (), w3)"
    by (simp add: bind_io_def s s2 s3 ret_def)
  have f1: "w_fs w1 = (if w_fs w (path @ ''.2'') = None then w_fs w else (w_fs w)(path @ ''.2'' := None, path @ ''.3'' := w_fs w (path @ ''.2'')))"
    by (simp add: w1_def split: option.splits)
  have f2: "w_fs w2 = (if w_fs w1 (path @ ''.1'') = None then w_fs w1 else (w_fs w1)(path @ ''.1'' := None, path @ ''.2'' := w_fs w1 (path @ ''.1'')))"
    by (simp add: w2_def split: option.splits)
  have f3: "w_fs w3 = (if w_fs w2 path = None then w_fs w2 else (w_fs w2)(path := None, path @ ''.1'' := w_fs w2 path))"
    by (simp add: w3_def split: option.splits)
  have "w_fs w3 path = None" "w_fs w3 (path @ ''.1'') = Some n" "w_fs w3 (path @ ''.2'') = w_fs w (path @ ''.1'')"
    "w_fs w3 (path @ ''.3'') = w_fs w (path @ ''.2'')"
    using assms(2-4) unfolding f3 f2 f1 by (simp_all add: old_names)
  with that run q show thesis by blast
qed

lemma write_file_run:
  assumes "quiet w" "ro_open r" "w_fs w (ro_file r) = Some n"
  shows "write_file b r w = ((length b, None), r\<lparr>ro_size := ro_size r + int (length b)\<rparr>,
    put_node (ro_file r) (n\<lparr>n_data := n_data n @ b\<rparr>) w)"
  using assms by (simp add: write_file_def sys_write_def quiet_tick append_data_def)

lemma segments_cong: "(\<And>p. p \<in> set ps \<Longrightarrow> m p = m' p) \<Longrightarrow> segments m ps = segments m' ps"
  by (induction ps) (auto split: option.splits)

lemma log_of_eq:
  "log_of p w = (case w_fs w p of None \<Rightarrow> [] | Some a \<Rightarrow> n_data a # (case w_fs w (p @ ''.1'') of None \<Rightarrow> []
     | Some b \<Rightarrow> n_data b # (case w_fs w (p @ ''.2'') of None \<Rightarrow> [] | Some c \<Rightarrow> n_data c # (case w_fs w (p @ ''.3'') of None \<Rightarrow> []
     | Some d \<Rightarrow> [n_data d]))))"
  by (simp add: log_of_def log_files_def old_names split: option.splits)

lemma rotator_step:
  assumes ok: "rotator_ok r w" and lim: "0 \<le> ro_limit r" and run: "rotator_write b r w = (res, r', w')"
  shows "res = (length b, None) \<and> rotator_ok r' w' \<and> ro_path r' = ro_path r \<and> ro_limit r' = ro_limit r
    \<and> log_of (ro_path r) w' = log_append (nat (ro_limit r)) b (log_of (ro_path r) w)"
proof -
  let ?p = "ro_path r"
  from ok obtain n where o: "quiet w" "ro_open r" "ro_file r = ?p" "w_fs w ?p = Some n" "ro_size r = int (length (n_data n))"
    "w_fs w (?p @ ''.1'') = None \<longrightarrow> w_fs w (?p @ ''.2'') = None" "w_fs w (?p @ ''.2'') = None \<longrightarrow> w_fs w (?p @ ''.3'') = None"
    by (auto simp: rotator_ok_def)
  show ?thesis
  proof (cases "ro_size r + int (length b) > ro_limit r")
    case False
    with run write_file_run [OF o(1,2), of n b] o(3,4) have
      e: "res = (length b, None)" "r' = r\<lparr>ro_size := ro_size r + int (length b)\<rparr>" "w' = put_node ?p (n\<lparr>n_data := n_data n @ b\<rparr>) w"
      by (simp_all add: rotator_write_def)
    from False o(5) lim have fit: "length (n_data n) + length b \<le> nat (ro_limit r)" by simp
    have "log_of ?p w' = log_append (nat (ro_limit r)) b (log_of ?p w)"
      using fit o(4) by (simp add: log_of_eq log_append_def e split: option.splits)
    with e o show ?thesis by (simp add: rotator_ok_def old_names)
  next
    case True
    obtain w1 where w1: "foreach [3, 2, 1] (shift ?p) w = (Inr (), w1)" "quiet w1" "w_fs w1 ?p = None"
      "w_fs w1 (?p @ ''.1'') = Some n" "w_fs w1 (?p @ ''.2'') = w_fs w (?p @ ''.1'')" "w_fs w1 (?p @ ''.3'') = w_fs w (?p @ ''.2'')"
      by (rule rotation_run [OF o(1,4,6,7)])
    define m where "m = new_node w1 Regular 384"
    define w2 where "w2 = (put_node ?p m w1)\<lparr>w_ino := Suc (w_ino w1)\<rparr>"
    have cr: "sys_create_excl ?p 384 w1 = (Inr (), w2)" using w1 by (simp add: sys_create_excl_def quiet_sys w2_def m_def)
    have cl: "file_close r w = (None, r\<lparr>ro_open := False\<rparr>, w)" using o by (simp add: file_close_def sys_close_def quiet_sys ret_def)
    let ?r = "r\<lparr>ro_file := ?p, ro_open := True, ro_size := 0\<rparr>"
    have md: "n_data m = []" by (simp add: m_def new_node_def)
    from True run cl cr w1(1) have "write_file b ?r w2 = (res, r', w')" by (simp add: rotator_write_def)
    moreover have q2: "quiet w2" "w_fs w2 ?p = Some m" using w1 by (simp_all add: w2_def)
    ultimately have e: "res = (length b, None)" "r' = ?r\<lparr>ro_size := int (length b)\<rparr>" "w' = put_node ?p (m\<lparr>n_data := b\<rparr>) w2"
      using write_file_run [OF q2(1), of ?r m b] md by simp_all
    have f: "w_fs w' ?p = Some (m\<lparr>n_data := b\<rparr>)" "w_fs w' (?p @ ''.1'') = Some n"
      "w_fs w' (?p @ ''.2'') = w_fs w (?p @ ''.1'')" "w_fs w' (?p @ ''.3'') = w_fs w (?p @ ''.2'')"
      using w1 by (simp_all add: e w2_def old_names)
    from True o(5) lim have over: "nat (ro_limit r) < length (n_data n) + length b" by simp
    have "log_of ?p w' = log_append (nat (ro_limit r)) b (log_of ?p w)"
      using over o(4) f by (simp add: log_of_eq log_append_def split: option.splits)
    with e o f q2(1) show ?thesis by (simp add: rotator_ok_def)
  qed
qed

fun rotator_writes :: "string list \<Rightarrow> rotator \<Rightarrow> world \<Rightarrow> rotator \<times> world" where
  "rotator_writes [] r w = (r, w)"
| "rotator_writes (b # bs) r w = (case rotator_write b r w of (res, r', w') \<Rightarrow> rotator_writes bs r' w')"

lemma log_append_bounded:
  "\<forall>s \<in> set segs. length s \<le> limit \<or> s \<in> S \<Longrightarrow> s \<in> set (log_append limit b segs) \<Longrightarrow> length s \<le> limit \<or> s \<in> insert b S"
  by (cases segs) (auto simp: log_append_def split: if_splits dest: in_set_takeD)

lemma log_appends_bounded:
  "\<forall>s \<in> set segs. length s \<le> limit \<or> s \<in> S \<Longrightarrow>
     \<forall>s \<in> set (fold (log_append limit) bs segs). length s \<le> limit \<or> s \<in> S \<union> set bs"
proof (induction bs arbitrary: segs S)
  case (Cons b bs)
  have "\<forall>s \<in> set (log_append limit b segs). length s \<le> limit \<or> s \<in> insert b S"
    using log_append_bounded [OF Cons.prems] by blast
  from Cons.IH [OF this] show ?case by auto
qed auto

lemma rotator_run:
  assumes "rotator_ok r w" "0 \<le> ro_limit r" "rotator_writes bs r w = (r', w')"
  shows "rotator_ok r' w' \<and> log_of (ro_path r) w' = fold (log_append (nat (ro_limit r))) bs (log_of (ro_path r) w)"
  using assms
proof (induction bs arbitrary: r w)
  case (Cons b bs)
  obtain res r1 w1 where w: "rotator_write b r w = (res, r1, w1)" by (cases "rotator_write b r w") auto
  from rotator_step [OF Cons.prems(1,2) w] have
    s: "rotator_ok r1 w1" "ro_path r1 = ro_path r" "ro_limit r1 = ro_limit r"
    "log_of (ro_path r) w1 = log_append (nat (ro_limit r)) b (log_of (ro_path r) w)" by auto
  from Cons.prems(3) w have "rotator_writes bs r1 w1 = (r', w')" by simp
  from Cons.IH [OF s(1) _ this] s Cons.prems(2) show ?case by simp
qed auto

text \<open>Opening the log of a regular or missing file.\<close>

lemma dir_not_old: "path_dir p \<noteq> p @ x # y # xs"
proof
  assume eq: "path_dir p = p @ x # y # xs"
  then have "path_dir p \<noteq> p" by simp
  from path_dir_climbs [OF this] eq show False by (auto simp: climb_size_def split: if_splits)
qed

definition no_gaps :: "path \<Rightarrow> world \<Rightarrow> bool" where
  "no_gaps path w =
     ((w_fs w (path @ ''.1'') = None \<longrightarrow> w_fs w (path @ ''.2'') = None) \<and> (w_fs w (path @ ''.2'') = None \<longrightarrow> w_fs w (path @ ''.3'') = None))"

lemma open_ok:
  assumes q: "quiet w" and gaps: "no_gaps path w" and run: "rotator_open path w = (Inr r, w')"
  shows "rotator_ok r w' \<and> ro_path r = path \<and> ro_limit r = 10 * 1024 * 1024"
proof -
  from run obtain w1 l w2 f w3 st w4 where
    mk: "sys_mkdir_all (path_dir path) 448 w = (Inr (), w1)" and l: "attempt (sys_lstat path) w1 = (Inr l, w2)" and
    g: "\<not> (case l of Inl e \<Rightarrow> False | Inr i \<Rightarrow> n_type i \<noteq> Regular)" and
    op: "sys_open_append path 384 w2 = (Inr f, w3)" and st: "attempt (sys_lstat f) w3 = (Inr st, w4)" and
    k: "(case st of Inl e \<Rightarrow> deferring (sys_close f) (throw e)
     | Inr i \<Rightarrow> ret \<lparr>ro_path = path, ro_file = f, ro_open = True, ro_size = int (length (n_data i)), ro_limit = 10 * 1024 * 1024\<rparr>) w4 = (Inr r, w')"
    unfolding rotator_open_def io_ok by auto
  have q1: "quiet w1" and f1: "p \<noteq> path_dir path \<Longrightarrow> w_fs w1 p = w_fs w p" for p
    using mk q by (auto simp: sys_mkdir_all_def quiet_sys split: option.splits if_splits)
  from l q1 have w2: "w2 = w1" "l = (case w_fs w1 path of None \<Rightarrow> Inl (Os ENOENT) | Some n \<Rightarrow> Inr n)"
    by (auto simp: attempt_iff sys_lstat_def quiet_sys split: option.splits)
  with g have reg: "n_type n = Regular" if "w_fs w1 path = Some n" for n using that by simp
  then have "resolve max_links (w_fs w1) path = Some path" by (intro resolve_plain) (auto split: option.splits)
  with op q1 w2(1) reg have f: "f = path" "quiet w3" "w_fs w3 path \<noteq> None" "\<And>p. p \<noteq> path \<Longrightarrow> w_fs w3 p = w_fs w1 p"
    by (auto simp: sys_open_append_def quiet_sys split: option.splits if_splits)
  then obtain n where n: "w_fs w3 path = Some n" by blast
  with st f have "st = Inr n" "w4 = w3" by (auto simp: attempt_iff sys_lstat_def quiet_sys)
  with k f have r: "r = \<lparr>ro_path = path, ro_file = path, ro_open = True, ro_size = int (length (n_data n)), ro_limit = 10 * 1024 * 1024\<rparr>" "w' = w3"
    by (auto simp: ret_iff)
  have "w_fs w3 (path @ ''.'' @ [c]) = w_fs w (path @ ''.'' @ [c])" for c using f f1 dir_not_old [of path] by (metis append_Cons append_Nil append_self_conv list.distinct(1))
  with gaps r n f show ?thesis by (simp add: rotator_ok_def no_gaps_def)
qed

section \<open>Properties\<close>

text \<open>C16: undisturbed, the four files of an opened log are the segments of an abstract log:
  writing records leaves exactly the records in order, cut into segments of which the newest four
  are kept, and no segment is longer than 10 MiB unless it is a single longer record or was so before.\<close>

theorem rotator_refines_log:
  assumes "quiet w" and "no_gaps path w" and "rotator_open path w = (Inr r, w1)" and "rotator_writes bs r w1 = (r', w')"
  shows "log_of path w' = fold (log_append (10 * 1024 * 1024)) bs (log_of path w1)
    \<and> (\<forall>s \<in> set (log_of path w'). length s \<le> 10 * 1024 * 1024 \<or> s \<in> set (log_of path w1) \<or> s \<in> set bs)"
proof -
  from open_ok [OF assms(1-3)] have o: "rotator_ok r w1" "ro_path r = path" "ro_limit r = 10 * 1024 * 1024" by auto
  from rotator_run [OF o(1) _ assms(4)] o have
    "log_of path w' = fold (log_append (10 * 1024 * 1024)) bs (log_of path w1)" by simp
  with log_appends_bounded [of "log_of path w1" "10 * 1024 * 1024" "set (log_of path w1)" bs] show ?thesis by auto
qed

text \<open>C34: when a rename of a rotation fails, that write returns the error without writing
  anything, and from then on every write fails, whatever the record and whatever the state of the
  files: the closed file is neither reopened nor replaced.\<close>

theorem failed_rotation_stops_logging:
  assumes "ro_limit r < ro_size r + int (length b)" and "file_close r w = (None, r', w1)"
    and "foreach [3, 2, 1] (shift (ro_path r)) w1 = (Inl e, w2)"
  shows "rotator_write b r w = ((0, Some e), r', w2)
    \<and> (\<forall>b' w'. rotator_write b' r' w' = ((0, Some err_closed), r', w'))"
proof -
  from assms(2) have "\<not> ro_open r'" by (auto simp: file_close_def split: if_splits prod.splits sum.splits)
  with assms show ?thesis by (simp add: rotator_write_def write_file_def file_close_def)
qed

definition sample_rotator :: rotator where
  "sample_rotator = \<lparr>ro_path = ''l'', ro_file = ''l'', ro_open = True, ro_size = 2, ro_limit = 3\<rparr>"

definition sample_fault :: event where
  "sample_fault = \<lparr>edits = [], fault = Some (EIO, 0)\<rparr>"

theorem failed_rotation_stops_logging_witness:
  "fst (rotator_write ''xy'' sample_rotator (bare_world\<lparr>w_sched := [\<lparr>edits = [], fault = None\<rparr>, sample_fault]\<rparr>)) = (0, Some (Os EIO))
   \<and> rotator_write ''z'' (sample_rotator\<lparr>ro_open := False\<rparr>) bare_world = ((0, Some err_closed), sample_rotator\<lparr>ro_open := False\<rparr>, bare_world)"
proof -
  let ?w = "bare_world\<lparr>w_sched := [\<lparr>edits = [], fault = None\<rparr>, sample_fault]\<rparr>"
  let ?w1 = "bare_world\<lparr>w_sched := [sample_fault]\<rparr>"
  have 1: "ro_limit sample_rotator < ro_size sample_rotator + int (length ''xy'')" by (simp add: sample_rotator_def)
  have 2: "file_close sample_rotator ?w = (None, sample_rotator\<lparr>ro_open := False\<rparr>, ?w1)"
    by (simp add: file_close_def sample_rotator_def sys_close_def sys_def tick_def apply_edits_def ret_def)
  have 3: "foreach [3, 2, 1] (shift (ro_path sample_rotator)) ?w1 = (Inl (Os EIO), bare_world)"
    by (simp add: bind_io_def shift_def attempt_def sys_rename_def sys_def tick_def apply_edits_def sample_fault_def
        fault_errno_def guard_def throw_def is_missing_def bare_world_def)
  from failed_rotation_stops_logging [OF 1 2 3] show ?thesis by simp
qed

theorem rotator_refines_log_witness:
  "\<exists>r w1. rotator_open ''/v/l'' bare_world = (Inr r, w1) \<and> log_of ''/v/l'' (snd (rotator_writes [''ab'', ''c''] r w1)) = [''abc'']"
proof -
  have d: "path_dir ''/v/l'' = ''/v''" by (simp add: path_evals)
  have res: "resolve max_links m p = Some p" if "m p = None" for m p using that by (intro resolve_plain) simp
  have q: "quiet bare_world" "no_gaps ''/v/l'' bare_world" by (simp_all add: quiet_def no_gaps_def)
  obtain r w1 where run: "rotator_open ''/v/l'' bare_world = (Inr r, w1)" and l: "log_of ''/v/l'' w1 = [[]]"
    by (simp add: rotator_open_def d io_defs attempt_def sys_mkdir_all_def sys_lstat_def sys_open_append_def tick_def res put_node_def
        new_node_def log_of_eq)
  obtain r' w' where ws: "rotator_writes [''ab'', ''c''] r w1 = (r', w')" by (cases "rotator_writes [''ab'', ''c''] r w1")
  from rotator_refines_log [OF q run ws] l run ws show ?thesis by (simp add: log_append_def)
qed

end
