(* ===== verification/Netip.thy ===== *)
theory Netip
  imports GoStrings "HOL-Library.Word"
begin

unbundle bit_operations_syntax

text \<open>
  The part of Go's \<^verbatim>\<open>net/netip\<close> package the program decides with: addresses,
  address:port pairs and prefixes, their parsers as the library writes them, and the text of
  an IPv4 address.  The main lemmas: an IPv4 address has exactly one text the parser accepts
  (interpretation \<open>v4text\<close> of \<open>codec\<close>), and a prefix contains an address iff the leading bits
  agree.
\<close>

section \<open>Addresses\<close>

text \<open>An IPv6 address carries its zone; the zone is empty when there is none.\<close>

datatype addr = V4 "32 word" | V6 "128 word" string

fun is4 :: "addr \<Rightarrow> bool" where
  "is4 (V4 w) = True"
| "is4 (V6 w z) = False"

fun zone_of :: "addr \<Rightarrow> string" where
  "zone_of (V4 w) = []"
| "zone_of (V6 w z) = z"

fun unmap :: "addr \<Rightarrow> addr" where
  "unmap (V4 w) = V4 w"
| "unmap (V6 w z) = (if drop_bit 32 w = 0xFFFF then V4 (ucast w) else V6 w z)"

fun is_loopback :: "addr \<Rightarrow> bool" where
  "is_loopback (V4 w) = (drop_bit 24 w = 127)"
| "is_loopback (V6 w z) = (if drop_bit 32 w = 0xFFFF then drop_bit 24 (ucast w :: 32 word) = 127 else w = 1)"

fun is_multicast :: "addr \<Rightarrow> bool" where
  "is_multicast (V4 w) = (drop_bit 28 w = 0xE)"
| "is_multicast (V6 w z) = (if drop_bit 32 w = 0xFFFF then drop_bit 28 (ucast w :: 32 word) = 0xE
     else drop_bit 120 w = 0xFF)"

fun is_unspecified :: "addr \<Rightarrow> bool" where
  "is_unspecified (V4 w) = (w = 0)"
| "is_unspecified (V6 w z) = (w = 0 \<and> z = [])"

abbreviation broadcast :: addr where
  "broadcast \<equiv> V4 0xFFFFFFFF"

section \<open>Parsing\<close>

text \<open>
  \<^verbatim>\<open>parseIPv4Fields\<close>: value and number of digits of the current field, the fields done
  so far.  A field has no leading zero and is at most 255; a dot needs a digit before it and a
  character after it.
\<close>

fun v4_fields :: "string \<Rightarrow> nat \<Rightarrow> nat \<Rightarrow> nat list \<Rightarrow> nat list option" where
  "v4_fields [] v d acc = (if length acc < 3 then None else Some (acc @ [v]))"
| "v4_fields (c # s) v d acc =
     (if is_digit c then
        if d = 1 \<and> v = 0 then None
        else if v * 10 + digit_val c > 255 then None
        else v4_fields s (v * 10 + digit_val c) (Suc d) acc
      else if c = CHR ''.'' then
        if d = 0 \<or> s = [] then None
        else if length acc = 3 then None
        else v4_fields s 0 0 (acc @ [v])
      else None)"

definition bytes_val :: "nat list \<Rightarrow> nat" where
  "bytes_val bs = foldl (\<lambda>v b. v * 256 + b) 0 bs"

definition parse_v4 :: "string \<Rightarrow> 32 word option" where
  "parse_v4 s = map_option (\<lambda>bs. word_of_nat (bytes_val bs)) (v4_fields s 0 0 [])"

definition hex_val :: "char \<Rightarrow> nat option" where
  "hex_val c =
     (if is_digit c then Some (code c - 48)
      else if 97 \<le> code c \<and> code c \<le> 102 then Some (code c - 87)
      else if 65 \<le> code c \<and> code c \<le> 70 then Some (code c - 55) else None)"

definition hex_num :: "string \<Rightarrow> nat" where
  "hex_num s = foldl (\<lambda>v c. v * 16 + (case hex_val c of Some d \<Rightarrow> d | None \<Rightarrow> 0)) 0 s"

text \<open>The loop of \<^verbatim>\<open>parseIPv6\<close>: at most eight groups; bytes done, place of the ellipsis.\<close>

fun v6_groups :: "nat \<Rightarrow> string \<Rightarrow> nat list \<Rightarrow> nat option \<Rightarrow> (string \<times> nat list \<times> nat option) option" where
  "v6_groups 0 s ip ell = Some (s, ip, ell)"
| "v6_groups (Suc k) s ip ell =
     (let ds = takeWhile (\<lambda>c. hex_val c \<noteq> None) s; s1 = dropWhile (\<lambda>c. hex_val c \<noteq> None) s;
          ip' = ip @ [hex_num ds div 256, hex_num ds mod 256]
      in if length ds > 4 \<or> ds = [] then None
      else if s1 \<noteq> [] \<and> hd s1 = CHR ''.'' then
        (if (ell = None \<and> length ip \<noteq> 12) \<or> length ip + 4 > 16 then None
         else map_option (\<lambda>fs. ([], ip @ fs, ell)) (v4_fields s 0 0 []))
      else if s1 = [] then Some ([], ip', ell)
      else if hd s1 \<noteq> CHR '':'' \<or> length s1 = 1 then None
      else if s1 ! 1 = CHR '':'' then
        (if ell \<noteq> None then None
         else if length s1 = 2 then Some ([], ip', Some (length ip'))
         else v6_groups k (drop 2 s1) ip' (Some (length ip')))
      else v6_groups k (tl s1) ip' ell)"

definition parse_v6 :: "string \<Rightarrow> addr option" where
  "parse_v6 s =
     (case cut s (CHR ''%'') of (body, zone, zoned) \<Rightarrow>
       if zoned \<and> zone = [] then None
       else if body = ''::'' then Some (V6 0 zone)
       else
         (case (if has_prefix body ''::'' then v6_groups 8 (drop 2 body) [] (Some 0)
                else v6_groups 8 body [] None) of
           None \<Rightarrow> None
         | Some (rest, ip, ell) \<Rightarrow>
             if rest \<noteq> [] then None
             else if length ip < 16 then
               (case ell of
                 None \<Rightarrow> None
               | Some e \<Rightarrow> Some (V6 (word_of_nat (bytes_val
                     (take e ip @ replicate (16 - length ip) 0 @ drop e ip))) zone))
             else if ell \<noteq> None then None
             else Some (V6 (word_of_nat (bytes_val ip)) zone)))"

text \<open>\<^verbatim>\<open>ParseAddr\<close> decides by the first of the characters \<open>.\<close>, \<open>:\<close> and \<open>%\<close>.\<close>

definition parse_addr :: "string \<Rightarrow> addr option" where
  "parse_addr s =
     (case find (\<lambda>c. c \<in> set ''.:%'') s of
       None \<Rightarrow> None
     | Some c \<Rightarrow>
         if c = CHR ''.'' then map_option V4 (parse_v4 s)
         else if c = CHR '':'' then parse_v6 s
         else None)"

definition parse_addr_port :: "string \<Rightarrow> (addr \<times> nat) option" where
  "parse_addr_port s =
     (case cut_last s (CHR '':'') of
       None \<Rightarrow> None
     | Some (ip, port) \<Rightarrow>
         if ip = [] \<or> port = [] then None
         else
           let v6 = (hd ip = CHR ''['');
               ip' = (if v6 then butlast (tl ip) else ip)
           in if v6 \<and> (length ip < 2 \<or> last ip \<noteq> CHR '']'') then None
           else
             (case parse_uint 16 port of
               None \<Rightarrow> None
             | Some p \<Rightarrow>
                 (case parse_addr ip' of
                   None \<Rightarrow> None
                 | Some a \<Rightarrow> if v6 = is4 a then None else Some (a, p))))"

definition parse_prefix :: "string \<Rightarrow> (addr \<times> nat) option" where
  "parse_prefix s =
     (case cut_last s (CHR ''/'') of
       None \<Rightarrow> None
     | Some (ip, bits) \<Rightarrow>
         (case parse_addr ip of
           None \<Rightarrow> None
         | Some a \<Rightarrow>
             if zone_of a \<noteq> [] then None
             else if length bits > 1 \<and> \<not> (49 \<le> code (hd bits) \<and> code (hd bits) \<le> 57) then None
             else
               (case atoi bits of
                 None \<Rightarrow> None
               | Some n \<Rightarrow>
                   if n < 0 \<or> n > (if is4 a then 32 else 128) then None else Some (a, nat n))))"

fun prefix_contains :: "addr \<times> nat \<Rightarrow> addr \<Rightarrow> bool" where
  "prefix_contains (V4 p, n) (V4 a) = (drop_bit (32 - n) (a XOR p) = 0)"
| "prefix_contains (V6 p z, n) (V6 a za) = (za = [] \<and> drop_bit (128 - n) (a XOR p) = 0)"
| "prefix_contains _ _ = False"

section \<open>Text of an IPv4 address\<close>

definition v4_bytes :: "32 word \<Rightarrow> nat list" where
  "v4_bytes w = [unat w div 2 ^ 24, unat w div 2 ^ 16 mod 256, unat w div 256 mod 256, unat w mod 256]"

definition dotted :: "nat list \<Rightarrow> string" where
  "dotted bs = join ''.'' (map dec bs)"

definition v4_string :: "32 word \<Rightarrow> string" where
  "v4_string w = dotted (v4_bytes w)"

definition join_host_port :: "string \<Rightarrow> string \<Rightarrow> string" where
  "join_host_port h p =
     (if CHR '':'' \<in> set h \<or> CHR ''%'' \<in> set h then ''['' @ h @ '']:'' @ p else h @ '':'' @ p)"

text \<open>
  \<^verbatim>\<open>Addr.String\<close> of an IPv6 address: the longest run of at least two zero groups, the first
  of that length, is written as two colons.
\<close>

fun hex_text :: "nat \<Rightarrow> string" where
  "hex_text n = (if n < 16 then [hex_digit n] else hex_text (n div 16) @ [hex_digit (n mod 16)])"

declare hex_text.simps [simp del]

definition v6_group_list :: "128 word \<Rightarrow> nat list" where
  "v6_group_list w = map (\<lambda>i. unat w div 2 ^ (112 - 16 * i) mod 65536) [0..<8]"

text \<open>The run of zeros found: its start and its end, both 255 when there is none.\<close>

fun zero_run :: "nat list \<Rightarrow> nat \<Rightarrow> nat \<times> nat \<Rightarrow> nat \<times> nat" where
  "zero_run [] i best = best"
| "zero_run (g # gs) i best =
     (let l = length (takeWhile (\<lambda>x. x = 0) (g # gs))
      in zero_run gs (Suc i) (if l \<ge> 2 \<and> l > snd best - fst best then (i, i + l) else best))"

fun v6_text :: "nat list \<Rightarrow> nat \<Rightarrow> nat \<times> nat \<Rightarrow> string" where
  "v6_text [] i run = []"
| "v6_text (g # gs) i run =
     (if i = fst run then ''::'' @ v6_text gs (Suc i) run
      else if fst run < i \<and> i < snd run then v6_text gs (Suc i) run
      else (if i = 0 \<or> i = snd run then [] else '':'') @ hex_text g @ v6_text gs (Suc i) run)"

fun addr_string :: "addr \<Rightarrow> string" where
  "addr_string (V4 w) = v4_string w"
| "addr_string (V6 w z) =
     (let zone = (if z = [] then [] else ''%'' @ z) in
      case unmap (V6 w []) of
        V4 v \<Rightarrow> ''::ffff:'' @ v4_string v @ zone
      | V6 _ _ \<Rightarrow> (let gs = v6_group_list w in v6_text gs 0 (zero_run gs 0 (255, 255)) @ zone))"

section \<open>The text of an IPv4 address is unique\<close>

lemma digit_not_dot: "is_digit c \<Longrightarrow> c \<noteq> CHR ''.''"
  by (auto simp: is_digit_def code_def)

lemma dec_snoc: "0 < v \<Longrightarrow> is_digit c \<Longrightarrow> dec v @ [c] = dec (v * 10 + digit_val c)"
  by (subst (2) dec.simps) simp

lemma dec_digit: "is_digit c \<Longrightarrow> [c] = dec (digit_val c)"
  by (subst dec.simps) simp

lemma v4_fields_dec:
  "n \<le> 255 \<Longrightarrow> v4_fields (dec n @ r) 0 0 acc = v4_fields r n (length (dec n)) acc"
proof (induction n arbitrary: r rule: dec.induct)
  case (1 n)
  show ?case
  proof (cases "n < 10")
    case True
    then have "dec n = [digit_char n]" by (subst dec.simps) simp
    with True show ?thesis by simp
  next
    case False
    then have d: "dec n = dec (n div 10) @ [digit_char (n mod 10)]" by (subst dec.simps) simp
    from False "1.prems" have n: "n div 10 \<le> 255" "0 < n div 10" by auto
    from "1.IH" [OF False n(1), of "[digit_char (n mod 10)] @ r"] n(2) "1.prems" d
    show ?thesis by simp
  qed
qed

lemma v4_fields_dotted:
  assumes "a \<le> 255" "b \<le> 255" "c \<le> 255" "d \<le> 255"
  shows "v4_fields (dotted [a, b, c, d]) 0 0 [] = Some [a, b, c, d]"
proof -
  have dot: "\<not> is_digit (CHR ''.'')" by (simp add: is_digit_def code_def)
  have last: "v4_fields (dec d) 0 0 [a, b, c] = Some [a, b, c, d]"
    using v4_fields_dec [OF assms(4), of "[]"] by simp
  show ?thesis
    using assms by (simp add: dotted_def v4_fields_dec dot last)
qed

text \<open>The field read so far is the decimal text of its value, or empty.\<close>

definition field_text :: "string \<Rightarrow> nat \<Rightarrow> nat \<Rightarrow> bool" where
  "field_text ds v d = ((ds = [] \<and> v = 0 \<and> d = 0) \<or> (ds = dec v \<and> d = length ds))"

lemma field_text_step:
  assumes "field_text ds v d" "is_digit c" "\<not> (d = 1 \<and> v = 0)"
  shows "field_text (ds @ [c]) (v * 10 + digit_val c) (Suc d)"
proof (cases "ds = []")
  case True
  with assms(1) dec_nonempty [of v] have "v = 0" "d = 0"
    by (auto simp: field_text_def)
  with True dec_digit [OF assms(2)] show ?thesis
    by (simp add: field_text_def) (metis length_Cons list.size(3))
next
  case False
  with assms(1) have ds: "ds = dec v" "d = length ds" by (auto simp: field_text_def)
  have "0 < v"
  proof (rule ccontr)
    assume "\<not> 0 < v"
    with ds have "d = 1" by (simp add: dec.simps)
    with \<open>\<not> 0 < v\<close> assms(3) show False by simp
  qed
  with ds assms(2) show ?thesis by (simp add: field_text_def dec_snoc [symmetric])
qed

definition fields_text :: "nat list \<Rightarrow> string" where
  "fields_text acc = concat (map (\<lambda>n. dec n @ ''.'') acc)"

lemma v4_fields_text:
  assumes "v4_fields s v d acc = Some fs" "field_text ds v d" "v \<le> 255" "list_all (\<lambda>n. n \<le> 255) acc"
    "length acc \<le> 3" "ds = [] \<and> s = [] \<longrightarrow> acc = []"
  shows "length fs = 4 \<and> list_all (\<lambda>n. n \<le> 255) fs
    \<and> fields_text acc @ ds @ s = fields_text (butlast fs) @ dec (last fs)"
  using assms
proof (induction s v d acc arbitrary: ds rule: v4_fields.induct)
  case (1 v d acc)
  then show ?case by (auto simp: field_text_def split: if_splits)
next
  case (2 c s v d acc)
  show ?case
  proof (cases "is_digit c")
    case True
    with "2.prems"(1) have ok: "\<not> (d = 1 \<and> v = 0)" "\<not> 255 < v * 10 + digit_val c"
      "v4_fields s (v * 10 + digit_val c) (Suc d) acc = Some fs"
      by (auto split: if_splits)
    have ft: "field_text (ds @ [c]) (v * 10 + digit_val c) (Suc d)"
      using "2.prems"(2) True ok(1) by (rule field_text_step)
    have "length fs = 4 \<and> list_all (\<lambda>n. n \<le> 255) fs
      \<and> fields_text acc @ (ds @ [c]) @ s = fields_text (butlast fs) @ dec (last fs)"
      by (rule "2.IH"(1) [OF True ok(1,2,3) ft]) (use ok "2.prems" in auto)
    then show ?thesis by simp
  next
    case False
    with "2.prems"(1) have dot: "c = CHR ''.''" "\<not> (d = 0 \<or> s = [])" "length acc \<noteq> 3"
      "v4_fields s 0 0 (acc @ [v]) = Some fs"
      by (auto split: if_splits)
    from dot(2) "2.prems"(2) have ds: "ds = dec v" by (auto simp: field_text_def)
    have "length fs = 4 \<and> list_all (\<lambda>n. n \<le> 255) fs
      \<and> fields_text (acc @ [v]) @ [] @ s = fields_text (butlast fs) @ dec (last fs)"
      by (rule "2.IH"(2) [OF False dot]) (use dot "2.prems" in \<open>auto simp: field_text_def\<close>)
    with ds dot(1) show ?thesis by (simp add: fields_text_def)
  qed
qed

lemma fields_text_dotted:
  "length fs = 4 \<Longrightarrow> fields_text (butlast fs) @ dec (last fs) = dotted fs"
  by (auto simp: numeral_eq_Suc length_Suc_conv fields_text_def dotted_def)

lemma v4_fields_unique:
  assumes "v4_fields s 0 0 [] = Some fs"
  shows "s = dotted fs \<and> length fs = 4 \<and> list_all (\<lambda>n. n \<le> 255) fs"
  using v4_fields_text [OF assms, of "[]"] fields_text_dotted [of fs]
  by (simp add: field_text_def fields_text_def)

lemma v4_bytes_bounds: "list_all (\<lambda>n. n \<le> 255) (v4_bytes w)"
proof -
  have "unat w < 2 ^ 32" using unsigned_less [of w, where 'a = nat] by simp
  then have "unat w div 2 ^ 24 < 256" by (simp add: less_mult_imp_div_less)
  then show ?thesis by (simp add: v4_bytes_def less_Suc_eq_le [symmetric])
qed

lemma bytes_val_v4_bytes: "bytes_val (v4_bytes w) = unat w"
proof -
  have "((n div 16777216 * 256 + n div 65536 mod 256) * 256 + n div 256 mod 256) * 256 + n mod 256 = n" for n :: nat
  proof -
    have d: "n div 65536 = n div 256 div 256" "n div 16777216 = n div 256 div 256 div 256"
      by (simp_all add: div_mult2_eq [symmetric])
    show ?thesis unfolding d by (simp only: div_mult_mod_eq)
  qed
  then show ?thesis by (simp add: bytes_val_def v4_bytes_def del: unsigned_of_nat)
qed

lemma v4_bytes_bytes_val:
  assumes "length bs = 4" "list_all (\<lambda>n. n \<le> 255) bs"
  shows "v4_bytes (word_of_nat (bytes_val bs)) = bs"
proof -
  obtain a b c d where bs: "bs = [a, b, c, d]"
    using assms(1) by (auto simp: numeral_eq_Suc length_Suc_conv)
  with assms(2) have le: "a \<le> 255" "b \<le> 255" "c \<le> 255" "d \<le> 255" by simp_all
  have v: "bytes_val bs = ((a * 256 + b) * 256 + c) * 256 + d"
    by (simp add: bs bytes_val_def)
  with le have "bytes_val bs < 2 ^ 32" by simp
  then have u: "unat (word_of_nat (bytes_val bs) :: 32 word) = bytes_val bs"
    by (simp add: unat_of_nat take_bit_nat_eq_self)
  have *: "(x * 256 + y) div 256 = x \<and> (x * 256 + y) mod 256 = y" if "y \<le> 255" for x y :: nat
    using that by simp
  have d1: "bytes_val bs div 256 = (a * 256 + b) * 256 + c" "bytes_val bs mod 256 = d"
    unfolding v using * le by blast+
  have e2: "bytes_val bs div 65536 = bytes_val bs div 256 div 256"
    and e3: "bytes_val bs div 16777216 = bytes_val bs div 65536 div 256"
    by (simp_all add: div_mult2_eq [symmetric])
  have d2: "bytes_val bs div 65536 = a * 256 + b"
    unfolding e2 d1(1) using * [OF le(3)] by blast
  have d3: "bytes_val bs div 16777216 = a"
    unfolding e3 d2 using * [OF le(2)] by blast
  have "v4_bytes (word_of_nat (bytes_val bs)) =
      [bytes_val bs div 16777216, bytes_val bs div 65536 mod 256, bytes_val bs div 256 mod 256, bytes_val bs mod 256]"
    unfolding v4_bytes_def u by simp
  also have "\<dots> = [a, (a * 256 + b) mod 256, ((a * 256 + b) * 256 + c) mod 256, d]"
    unfolding d1 d2 d3 ..
  also have "\<dots> = bs"
    using * [OF le(2)] * [OF le(3)] bs by (simp only: simp_thms)
  finally show ?thesis .
qed

interpretation v4text: codec v4_string parse_v4
proof
  fix w :: "32 word"
  have "v4_fields (dotted (v4_bytes w)) 0 0 [] = Some (v4_bytes w)"
    unfolding v4_bytes_def
    by (rule v4_fields_dotted) (use v4_bytes_bounds [of w] in \<open>simp_all add: v4_bytes_def\<close>)
  then show "parse_v4 (v4_string w) = Some w"
    by (simp add: parse_v4_def v4_string_def bytes_val_v4_bytes)
next
  fix s :: string and w :: "32 word"
  assume "parse_v4 s = Some w"
  then obtain fs where fs: "v4_fields s 0 0 [] = Some fs" "w = word_of_nat (bytes_val fs)"
    by (auto simp: parse_v4_def)
  from v4_fields_unique [OF fs(1)] fs(2) show "v4_string w = s"
    by (simp add: v4_string_def v4_bytes_bytes_val)
qed

lemma v4_string_chars: "c \<in> set (v4_string w) \<Longrightarrow> is_digit c \<or> c = CHR ''.''"
  by (auto simp: v4_string_def v4_bytes_def dotted_def dec_set)

lemma v4_string_first: "v4_string w = dec (hd (v4_bytes w)) @ ''.'' @ dotted (tl (v4_bytes w))"
  by (simp add: v4_string_def v4_bytes_def dotted_def)

lemma v4_string_find: "find (\<lambda>c. c \<in> set ''.:%'') (v4_string w) = Some (CHR ''.'')"
proof -
  have *: "find (\<lambda>c. c \<in> set ''.:%'') (ds @ ''.'' @ r) = Some (CHR ''.'')" if "list_all is_digit ds" for ds r
    using that by (induction ds) (auto simp: is_digit_def code_def)
  show ?thesis by (subst v4_string_first) (rule *, rule dec_digits)
qed

lemma parse_addr_v4_string [simp]: "parse_addr (v4_string w) = Some (V4 w)"
  unfolding parse_addr_def v4_string_find by (simp add: v4text.parse_print)

lemma parse_v6_not_v4: "parse_v6 s \<noteq> Some (V4 w)"
  by (auto simp: parse_v6_def Let_def split: prod.splits if_splits option.splits)

lemma parse_addr_V4: "parse_addr s = Some (V4 w) \<longleftrightarrow> s = v4_string w"
proof
  assume "parse_addr s = Some (V4 w)"
  then have "parse_v4 s = Some w"
    by (auto simp: parse_addr_def parse_v6_not_v4 split: option.splits if_splits)
  then show "s = v4_string w" by (simp add: v4text.parse_iff)
qed simp

section \<open>Prefixes\<close>

lemma prefix_contains_V4_iff:
  "prefix_contains (V4 p, n) (V4 a) \<longleftrightarrow> unat a div 2 ^ (32 - n) = unat p div 2 ^ (32 - n)"
proof -
  have "drop_bit (32 - n) (a XOR p) = drop_bit (32 - n) a XOR drop_bit (32 - n) p"
    by (simp add: drop_bit_xor)
  then have "drop_bit (32 - n) (a XOR p) = 0 \<longleftrightarrow> drop_bit (32 - n) a = drop_bit (32 - n) p"
    by (auto simp: bit_eq_iff bit_simps)
  also have "\<dots> \<longleftrightarrow> unat (drop_bit (32 - n) a) = unat (drop_bit (32 - n) p)"
    by (simp add: word_unat_eq_iff)
  also have "\<dots> \<longleftrightarrow> drop_bit (32 - n) (unat a) = drop_bit (32 - n) (unat p)"
    by (simp only: unat_drop_bit_eq)
  also have "\<dots> \<longleftrightarrow> unat a div 2 ^ (32 - n) = unat p div 2 ^ (32 - n)"
    by (simp only: drop_bit_eq_div)
  finally show ?thesis by simp
qed

lemma prefix_contains_all: "prefix_contains (V4 p, 0) (V4 a)"
proof -
  have "unat a < 2 ^ 32" "unat p < 2 ^ 32"
    using unsigned_less [of a, where 'a = nat] unsigned_less [of p, where 'a = nat] by simp_all
  then show ?thesis unfolding prefix_contains_V4_iff by simp
qed

text \<open>Unfolding rules that run the parsers on a concrete text.\<close>

lemmas netip_evals = parse_addr_def parse_v4_def parse_addr_port_def parse_prefix_def cut_last_def parse_uint_def atoi_def
  dec_val_def digit_val_def code_def is_digit_def bytes_val_def

end
