(* ===== verification/Profiles.thy ===== *)
theory Profiles
  imports GoStrings
begin

text \<open>
  \<^verbatim>\<open>internal/profiles/profiles.go\<close>: the registry of ClientHello profiles and the
  restriction of a profile to what the client offered.  The uTLS library is a parameter: its
  presets are \<open>presets\<close> (\<^verbatim>\<open>UTLSIdToSpec\<close>), and \<open>apply_preset\<close> says whether a
  specification is accepted (\<^verbatim>\<open>ApplyPreset\<close>).  Extensions of other kinds are of an
  arbitrary type.  The lemmas: strict mode changes nothing; compatible mode offers only
  protocols of the client and reports every change of the ALPN.
\<close>

section \<open>Registry\<close>

record profile =
  pr_name :: string
  pr_id :: string
  pr_alpn :: "string list"
  pr_notes :: string

definition profile_list :: "profile list" where
  "profile_list =
     [\<lparr>pr_name = ''chrome-133'', pr_id = ''HelloChrome_133'', pr_alpn = [''h2'', ''http/1.1''],
       pr_notes = ''TLS 1.3, ML-KEM, shuffled extensions and GREASE; nonempty upstream ALPS settings are rejected (use firefox-120); HTTP behavior remains the original client'' @ [CHR 0x27] @ ''s''\<rparr>,
      \<lparr>pr_name = ''firefox-120'', pr_id = ''HelloFirefox_120'', pr_alpn = [''h2'', ''http/1.1''],
       pr_notes = ''Versioned Firefox ClientHello; HTTP behavior remains the original client'' @ [CHR 0x27] @ ''s''\<rparr>]"

definition get_profile :: "string \<Rightarrow> profile res" where
  "get_profile name =
     (case find (\<lambda>p. pr_name p = name) profile_list of
       Some p \<Rightarrow> Inr p
     | None \<Rightarrow> Inl (New (''unsupported profile '' @ quote name @ '' (see profiles list)'')))"

section \<open>Restricting a ClientHello\<close>

datatype hello_id = HelloChrome_133 | HelloFirefox_120

datatype 'x extension =
    ALPNExtension "string list"
  | ApplicationSettingsExtension "string list"
  | ApplicationSettingsExtensionNew "string list"
  | OtherExtension 'x

record 'x uconn =
  u_server_name :: string
  u_min_version :: nat
  u_extensions :: "'x extension list"

definition VersionTLS12 :: nat where
  "VersionTLS12 = 0x303"

definition intersection :: "string list \<Rightarrow> string list \<Rightarrow> string list" where
  "intersection a b = filter (\<lambda>v. v \<in> set b) a"

text \<open>
  The first loop restricts every ALPN extension; \<open>allowed\<close> is declared outside it, so it
  collects over all of them.
\<close>

fun restrict_alpn :: "string list \<Rightarrow> 'x extension list \<Rightarrow> string list \<Rightarrow> string list
    \<Rightarrow> 'x extension list \<times> string list \<times> string list" where
  "restrict_alpn offered [] allowed mods = ([], allowed, mods)"
| "restrict_alpn offered (ALPNExtension ps # es) allowed mods =
     (let allowed' = allowed @ filter (\<lambda>p. p \<in> set offered) ps;
          mods' = (if allowed' \<noteq> ps then mods @ [''ALPN restricted to client protocols''] else mods)
      in case restrict_alpn offered es allowed' mods' of
        (es', allowed'', mods'') \<Rightarrow> (ALPNExtension allowed' # es', allowed'', mods''))"
| "restrict_alpn offered (e # es) allowed mods =
     (case restrict_alpn offered es allowed mods of (es', allowed', mods') \<Rightarrow> (e # es', allowed', mods'))"

definition removed_note :: string where
  "removed_note = ''ALPS removed with unsupported protocol''"

text \<open>The second loop drops ALPN without protocols and restricts the application settings.\<close>

fun filter_settings :: "string list \<Rightarrow> 'x extension list \<Rightarrow> string list \<Rightarrow> 'x extension list \<times> string list" where
  "filter_settings allowed [] mods = ([], mods)"
| "filter_settings allowed (e # es) mods =
     (case e of
       ALPNExtension ps \<Rightarrow>
         (case filter_settings allowed es mods of (es', mods') \<Rightarrow> (if allowed = [] then es' else e # es', mods'))
     | ApplicationSettingsExtension ps \<Rightarrow>
         (let ps' = intersection ps allowed in
          if ps' = [] then filter_settings allowed es (mods @ [removed_note])
          else (case filter_settings allowed es mods of (es', mods') \<Rightarrow> (ApplicationSettingsExtension ps' # es', mods')))
     | ApplicationSettingsExtensionNew ps \<Rightarrow>
         (let ps' = intersection ps allowed in
          if ps' = [] then filter_settings allowed es (mods @ [removed_note])
          else (case filter_settings allowed es mods of (es', mods') \<Rightarrow> (ApplicationSettingsExtensionNew ps' # es', mods')))
     | OtherExtension x \<Rightarrow>
         (case filter_settings allowed es mods of (es', mods') \<Rightarrow> (e # es', mods')))"

definition new_conn :: "(hello_id \<Rightarrow> 'x extension list res) \<Rightarrow> ('x extension list \<Rightarrow> unit res)
    \<Rightarrow> string \<Rightarrow> string \<Rightarrow> string \<Rightarrow> string list \<Rightarrow> ('x uconn \<times> string list) res" where
  "new_conn presets apply_preset name host mode offered =
     (case get_profile name of
       Inl e \<Rightarrow> Inl e
     | Inr _ \<Rightarrow>
         let id = (if name = ''firefox-120'' then HelloFirefox_120 else HelloChrome_133) in
         (case presets id of
           Inl e \<Rightarrow> Inl e
         | Inr spec \<Rightarrow>
             (case
               (if mode = ''compatible'' then
                  (case restrict_alpn offered spec [] [] of
                    (es, allowed, mods) \<Rightarrow>
                      if offered \<noteq> [] \<and> allowed = [] then Inl (New ''no common application protocol'')
                      else Inr (filter_settings allowed es mods))
                else Inr (spec, [])) of
               Inl e \<Rightarrow> Inl e
             | Inr (es, mods) \<Rightarrow>
                 (case apply_preset es of
                   Inl e \<Rightarrow> Inl e
                 | Inr _ \<Rightarrow> Inr (\<lparr>u_server_name = host, u_min_version = VersionTLS12, u_extensions = es\<rparr>, mods)))))"

definition compatible :: "string \<Rightarrow> string list \<Rightarrow> bool" where
  "compatible negotiated offered =
     (if negotiated = [] then offered = [] \<or> ''http/1.1'' \<in> set offered
      else negotiated \<in> set offered \<and> (negotiated = ''h2'' \<or> negotiated = ''http/1.1''))"

section \<open>What the loops do\<close>

text \<open>The protocols an extension puts on the wire, and the kind of an extension.\<close>

fun protocols :: "'x extension \<Rightarrow> string list" where
  "protocols (ALPNExtension ps) = ps"
| "protocols (ApplicationSettingsExtension ps) = ps"
| "protocols (ApplicationSettingsExtensionNew ps) = ps"
| "protocols (OtherExtension x) = []"

fun alpn_of :: "'x extension \<Rightarrow> string list" where
  "alpn_of (ALPNExtension ps) = ps"
| "alpn_of e = []"

fun is_other :: "'x extension \<Rightarrow> bool" where
  "is_other (OtherExtension x) = True"
| "is_other e = False"

fun is_alpn :: "'x extension \<Rightarrow> bool" where
  "is_alpn (ALPNExtension ps) = True"
| "is_alpn e = False"

lemma restrict_alpn_allowed:
  "restrict_alpn offered es allowed mods = (es', allowed', mods') \<Longrightarrow>
     allowed' = allowed @ filter (\<lambda>p. p \<in> set offered) (concat (map alpn_of es))
     \<and> filter is_other es' = filter is_other es"
  by (induction offered es allowed mods arbitrary: es' rule: restrict_alpn.induct)
    (auto simp: Let_def split: prod.splits)

lemma restrict_alpn_mods:
  "restrict_alpn offered es allowed mods = (es', allowed', mods') \<Longrightarrow> \<exists>ms. mods' = mods @ ms"
proof (induction offered es allowed mods arbitrary: es' rule: restrict_alpn.induct)
  case (2 offered ps es allowed mods)
  let ?a = "allowed @ filter (\<lambda>p. p \<in> set offered) ps"
  let ?m = "if ?a \<noteq> ps then mods @ [''ALPN restricted to client protocols''] else mods"
  obtain es1 where "restrict_alpn offered es ?a ?m = (es1, allowed', mods')"
    using "2.prems" by (auto simp: Let_def split: prod.splits)
  from "2.IH" [OF refl refl this] show ?case by (auto split: if_splits)
qed (auto split: prod.splits)

lemma restrict_alpn_protocols:
  "restrict_alpn offered es allowed mods = (es', allowed', mods') \<Longrightarrow> e \<in> set es' \<Longrightarrow>
     if is_alpn e then set (protocols e) \<subseteq> set allowed' else e \<in> set es"
proof (induction offered es allowed mods arbitrary: es' rule: restrict_alpn.induct)
  case (2 offered ps es allowed mods)
  let ?a = "allowed @ filter (\<lambda>p. p \<in> set offered) ps"
  let ?m = "if ?a \<noteq> ps then mods @ [''ALPN restricted to client protocols''] else mods"
  obtain es1 where r: "restrict_alpn offered es ?a ?m = (es1, allowed', mods')" and e: "es' = ALPNExtension ?a # es1"
    using "2.prems" by (auto simp: Let_def split: prod.splits)
  from restrict_alpn_allowed [OF r] have "set ?a \<subseteq> set allowed'" by auto
  with "2.IH" [OF refl refl r] e "2.prems"(2) show ?case by auto
qed (force split: prod.splits if_splits)+

lemma restrict_alpn_silent:
  "restrict_alpn offered es allowed mods = (es', allowed', mods') \<Longrightarrow> mods' = mods \<Longrightarrow> es' = es"
proof (induction offered es allowed mods arbitrary: es' rule: restrict_alpn.induct)
  case (2 offered ps es allowed mods)
  let ?a = "allowed @ filter (\<lambda>p. p \<in> set offered) ps"
  let ?m = "if ?a \<noteq> ps then mods @ [''ALPN restricted to client protocols''] else mods"
  obtain es1 where r: "restrict_alpn offered es ?a ?m = (es1, allowed', mods')" and e: "es' = ALPNExtension ?a # es1"
    using "2.prems" by (auto simp: Let_def split: prod.splits)
  from restrict_alpn_mods [OF r] "2.prems"(2) have "?a = ps" by (auto split: if_splits)
  with "2.IH" [OF refl refl r] e "2.prems"(2) show ?case by simp
qed (auto split: prod.splits)

text \<open>The second loop extension by extension: what is kept, and what is reported.\<close>

fun keep :: "string list \<Rightarrow> 'x extension \<Rightarrow> 'x extension list" where
  "keep allowed (ALPNExtension ps) = (if allowed = [] then [] else [ALPNExtension ps])"
| "keep allowed (ApplicationSettingsExtension ps) =
     (if intersection ps allowed = [] then [] else [ApplicationSettingsExtension (intersection ps allowed)])"
| "keep allowed (ApplicationSettingsExtensionNew ps) =
     (if intersection ps allowed = [] then [] else [ApplicationSettingsExtensionNew (intersection ps allowed)])"
| "keep allowed (OtherExtension x) = [OtherExtension x]"

fun settings_lost :: "string list \<Rightarrow> 'x extension \<Rightarrow> bool" where
  "settings_lost allowed (ApplicationSettingsExtension ps) = (intersection ps allowed = [])"
| "settings_lost allowed (ApplicationSettingsExtensionNew ps) = (intersection ps allowed = [])"
| "settings_lost allowed e = False"

lemma filter_settings_eq:
  "filter_settings allowed es mods =
     (concat (map (keep allowed) es), mods @ map (\<lambda>e. removed_note) (filter (settings_lost allowed) es))"
proof (induction es arbitrary: mods)
  case (Cons e es)
  then show ?case by (cases e) (simp_all add: Let_def)
qed simp

lemma keep_other: "filter is_other (keep allowed e) = filter is_other [e]"
  by (cases e) simp_all

lemma filter_concat_keep: "filter is_other (concat (map (keep allowed) es)) = filter is_other es"
  by (induction es) (simp_all add: keep_other)

lemma keep_protocols:
  "e' \<in> set (keep allowed e) \<Longrightarrow> (if is_alpn e then set (protocols e) \<subseteq> set allowed else True) \<Longrightarrow>
     set (protocols e') \<subseteq> set allowed \<and> set (protocols e') \<subseteq> set (protocols e)"
  by (cases e) (auto simp: intersection_def split: if_splits)

lemma compatible_shape:
  assumes "restrict_alpn offered spec [] [] = (es, allowed, mods)" "filter_settings allowed es mods = (es', mods')"
  shows "filter is_other es' = filter is_other spec"
    "\<And>e. e \<in> set es' \<Longrightarrow> set (protocols e) \<subseteq> set allowed"
    "set allowed = set offered \<inter> set (concat (map alpn_of spec))"
    "mods' = [] \<Longrightarrow> es' = concat (map (keep allowed) spec) \<and> \<not> list_ex (settings_lost allowed) spec"
proof -
  note a = restrict_alpn_allowed [OF assms(1)]
  have es': "es' = concat (map (keep allowed) es)"
    and mods': "mods' = mods @ map (\<lambda>e. removed_note) (filter (settings_lost allowed) es)"
    using assms(2) by (simp_all add: filter_settings_eq)
  show "filter is_other es' = filter is_other spec" using a by (simp add: es' filter_concat_keep)
  show "set (protocols e) \<subseteq> set allowed" if "e \<in> set es'" for e
  proof -
    from that es' obtain e0 where e0: "e0 \<in> set es" "e \<in> set (keep allowed e0)" by auto
    from restrict_alpn_protocols [OF assms(1) e0(1)]
    have "if is_alpn e0 then set (protocols e0) \<subseteq> set allowed else True" by presburger
    with keep_protocols [OF e0(2)] show ?thesis by blast
  qed
  show "set allowed = set offered \<inter> set (concat (map alpn_of spec))" using a by auto
  show "es' = concat (map (keep allowed) spec) \<and> \<not> list_ex (settings_lost allowed) spec" if "mods' = []"
  proof -
    from that mods' have "mods = []" "filter (settings_lost allowed) es = []" by simp_all
    with restrict_alpn_silent [OF assms(1)] es' show ?thesis by (simp add: filter_empty_conv list_ex_iff)
  qed
qed

section \<open>Properties\<close>

text \<open>C30: what the proxy offers upstream: in compatible mode every protocol in every ALPN and
  application-settings extension was offered by the client and is in the ALPN of the preset, a
  client that offered protocols never gets a connection without a common one, and the other
  extensions are those of the preset in order; in every other mode the preset is sent unchanged.
  The server name and the minimal version are always set.\<close>

theorem hello_offers_client_protocols:
  assumes "new_conn presets apply_preset name host mode offered = Inr (u, mods)"
  shows "\<exists>id spec. presets id = Inr spec \<and> (id = HelloFirefox_120 \<longleftrightarrow> name = ''firefox-120'')
    \<and> u_server_name u = host \<and> u_min_version u = VersionTLS12
    \<and> filter is_other (u_extensions u) = filter is_other spec
    \<and> (mode = ''compatible'' \<longrightarrow>
         (\<forall>e \<in> set (u_extensions u). set (protocols e) \<subseteq> set offered \<inter> set (concat (map alpn_of spec)))
         \<and> (offered \<noteq> [] \<longrightarrow> set offered \<inter> set (concat (map alpn_of spec)) \<noteq> {}))
    \<and> (mode \<noteq> ''compatible'' \<longrightarrow> u_extensions u = spec \<and> mods = [])"
proof -
  let ?id = "if name = ''firefox-120'' then HelloFirefox_120 else HelloChrome_133"
  from assms obtain spec where spec: "presets ?id = Inr spec"
    by (auto simp: new_conn_def Let_def split: sum.splits if_splits)
  obtain es allowed ms where r: "restrict_alpn offered spec [] [] = (es, allowed, ms)"
    by (cases "restrict_alpn offered spec [] []") auto
  have basic: "u_server_name u = host" "u_min_version u = VersionTLS12"
    and rest: "mode = ''compatible'' \<Longrightarrow> filter_settings allowed es ms = (u_extensions u, mods) \<and> (offered \<noteq> [] \<longrightarrow> allowed \<noteq> [])"
    "mode \<noteq> ''compatible'' \<Longrightarrow> u_extensions u = spec \<and> mods = []"
    using assms by (auto simp: new_conn_def Let_def spec r split: sum.splits prod.splits if_splits)
  have hid: "?id = HelloFirefox_120 \<longleftrightarrow> name = ''firefox-120''" by simp
  show ?thesis
  proof (cases "mode = ''compatible''")
    case True
    from rest(1) [OF this] have f: "filter_settings allowed es ms = (u_extensions u, mods)" and ne: "offered \<noteq> [] \<longrightarrow> allowed \<noteq> []"
      by blast+
    note c = compatible_shape [OF r f]
    from ne c(3) have "offered \<noteq> [] \<longrightarrow> set offered \<inter> set (concat (map alpn_of spec)) \<noteq> {}" by (metis set_empty)
    moreover have "\<forall>e \<in> set (u_extensions u). set (protocols e) \<subseteq> set offered \<inter> set (concat (map alpn_of spec))"
      using c(2) unfolding c(3) by blast
    ultimately show ?thesis using c(1) spec basic True hid
      by (intro exI [of _ ?id] exI [of _ spec]) blast
  next
    case False
    with rest(2) spec basic hid show ?thesis by (intro exI [of _ ?id] exI [of _ spec]) simp
  qed
qed

definition sample_preset :: "hello_id \<Rightarrow> nat extension list res" where
  "sample_preset h = Inr [OtherExtension 0, ALPNExtension [''h2'', ''http/1.1''], ApplicationSettingsExtensionNew [''h2'']]"

lemma sample_new:
  "new_conn sample_preset (\<lambda>_. Inr ()) ''chrome-133'' ''a.b'' ''compatible'' [''http/1.1''] =
     Inr (\<lparr>u_server_name = ''a.b'', u_min_version = VersionTLS12, u_extensions = [OtherExtension 0, ALPNExtension [''http/1.1'']]\<rparr>,
       [''ALPN restricted to client protocols'', removed_note])"
  by (simp add: new_conn_def get_profile_def profile_list_def sample_preset_def intersection_def Let_def)

theorem hello_offers_client_protocols_witness:
  "\<exists>u mods. new_conn sample_preset (\<lambda>_. Inr ()) ''chrome-133'' ''a.b'' ''compatible'' [''http/1.1''] = Inr (u, mods)
     \<and> (\<forall>e \<in> set (u_extensions u). set (protocols e) \<subseteq> {''http/1.1''})"
  using hello_offers_client_protocols [OF sample_new] sample_new by fastforce

text \<open>No unreported change of the ALPN: when a compatible connection reports no
  modification, every ALPN extension of the preset is sent as it is (if any protocol is allowed)
  and every application-settings extension is sent with a nonempty list, which may be a shorter
  one than that of the preset.\<close>

theorem silent_means_unchanged_alpn:
  assumes "new_conn presets apply_preset name host ''compatible'' offered = Inr (u, [])"
  shows "\<exists>id spec allowed. presets id = Inr spec \<and> set allowed = set offered \<inter> set (concat (map alpn_of spec))
    \<and> u_extensions u = concat (map (keep allowed) spec) \<and> \<not> list_ex (settings_lost allowed) spec"
proof -
  let ?id = "if name = ''firefox-120'' then HelloFirefox_120 else HelloChrome_133"
  from assms obtain spec where spec: "presets ?id = Inr spec"
    by (auto simp: new_conn_def Let_def split: sum.splits if_splits)
  obtain es allowed ms where r: "restrict_alpn offered spec [] [] = (es, allowed, ms)"
    by (cases "restrict_alpn offered spec [] []") auto
  have "filter_settings allowed es ms = (u_extensions u, [])"
    using assms by (auto simp: new_conn_def Let_def spec r split: sum.splits prod.splits if_splits)
  from compatible_shape(3,4) [OF r this] spec show ?thesis by blast
qed

text \<open>The application settings of a preset can shrink without a report.\<close>

theorem silent_means_unchanged_alpn_witness:
  "\<exists>u. new_conn (\<lambda>_. Inr [ALPNExtension [''h2''], ApplicationSettingsExtensionNew [''h2'', ''h3'']] :: nat extension list res) (\<lambda>_. Inr ())
       ''chrome-133'' ''a.b'' ''compatible'' [''h2''] = Inr (u, [])
     \<and> ApplicationSettingsExtensionNew [''h2''] \<in> set (u_extensions u)"
proof -
  let ?p = "\<lambda>_. Inr [ALPNExtension [''h2''], ApplicationSettingsExtensionNew [''h2'', ''h3'']] :: nat extension list res"
  have run: "new_conn ?p (\<lambda>_. Inr ()) ''chrome-133'' ''a.b'' ''compatible'' [''h2''] =
      Inr (\<lparr>u_server_name = ''a.b'', u_min_version = VersionTLS12,
        u_extensions = [ALPNExtension [''h2''], ApplicationSettingsExtensionNew [''h2'']]\<rparr>, [])"
    by (simp add: new_conn_def get_profile_def profile_list_def intersection_def Let_def)
  from silent_means_unchanged_alpn [OF run] run show ?thesis by simp
qed

end
