(* ===== verification/Config.thy ===== *)
theory Config
  imports Netip Paths Profiles
begin

text \<open>
  \<^verbatim>\<open>internal/config/config.go\<close>: the configuration, its defaults per platform, its
  validation and the decisions made with it.  \<open>to_ascii\<close> is \<^verbatim>\<open>idna.Lookup.ToASCII\<close> of
  \<^verbatim>\<open>golang.org/x/net\<close>, a parameter.  A \<^verbatim>\<open>Duration\<close> is an \<open>int\<close> of
  nanoseconds.  \<^verbatim>\<open>Validate\<close> rewrites the domains in place as it goes, so \<open>validate\<close>
  returns the configuration together with the error.
\<close>

section \<open>Data\<close>

record upstream_cfg =
  up_port :: int
  up_profile :: string
  up_alpn_mode :: string

record dns_cfg =
  dns_mode :: string
  dns_servers :: "string list"
  dns_refresh :: int
  dns_timeout :: int
  dns_cache_size :: int

record runtime_cfg =
  rt_state_dir :: string
  rt_control_socket :: string
  rt_max_connections :: int
  rt_handshake :: int
  rt_idle :: int
  rt_shutdown :: int

record config =
  c_version :: int
  c_listen :: "string list"
  c_domains :: "string list"
  c_upstream :: upstream_cfg
  c_dns :: dns_cfg
  c_ca_cert :: string
  c_ca_key :: string
  c_hosts_address :: string
  c_client_cidrs :: "string list"
  c_runtime :: runtime_cfg
  c_log_level :: string
  c_log_format :: string

datatype goos = Darwin | Linux

record paths =
  pt_config :: path
  pt_state :: path
  pt_ca :: path
  pt_socket :: path
  pt_executable :: path
  pt_service :: path
  pt_log :: path

definition platform_paths :: "goos \<Rightarrow> paths" where
  "platform_paths os =
     (let p = \<lparr>pt_config = ''/etc/utlsproxy/config.json'', pt_state = ''/var/lib/utlsproxy'',
        pt_ca = ''/var/lib/utlsproxy/ca'', pt_socket = ''/var/run/utlsproxy/control.sock'',
        pt_executable = ''/usr/local/bin/utlsproxy'', pt_service = ''/etc/systemd/system/utlsproxy.service'', pt_log = []\<rparr>;
        base = ''/Library/Application Support/utlsproxy''
      in if os = Darwin then
        p\<lparr>pt_config := base @ ''/config.json'', pt_state := base @ ''/state'', pt_ca := base @ ''/ca'',
          pt_service := ''/Library/LaunchDaemons/local.utlsproxy.plist'', pt_log := ''/var/log/utlsproxy/utlsproxy.log''\<rparr>
      else p)"

definition defaults :: "goos \<Rightarrow> config" where
  "defaults os =
     (let p = platform_paths os in
      \<lparr>c_version = 1, c_listen = [''127.0.0.1:443''], c_domains = [''tls.peet.ws''],
       c_upstream = \<lparr>up_port = 443, up_profile = ''chrome-133'', up_alpn_mode = ''compatible''\<rparr>,
       c_dns = \<lparr>dns_mode = ''auto'', dns_servers = [], dns_refresh = 30 * second, dns_timeout = 3 * second, dns_cache_size = 1024\<rparr>,
       c_ca_cert = path_join (pt_ca p) ''ca.crt'', c_ca_key = path_join (pt_ca p) ''ca.key'',
       c_hosts_address = ''127.0.0.1'', c_client_cidrs = [''127.0.0.0/8''],
       c_runtime = \<lparr>rt_state_dir = pt_state p, rt_control_socket = pt_socket p, rt_max_connections = 1024,
         rt_handshake = 15 * second, rt_idle = 5 * 60 * second, rt_shutdown = 10 * second\<rparr>,
       c_log_level = ''info'', c_log_format = ''json''\<rparr>)"

section \<open>Domains and endpoints\<close>

definition label_char :: "char \<Rightarrow> bool" where
  "label_char ch = (is_lower ch \<or> is_digit ch \<or> ch = CHR ''-'')"

definition label_ok :: "string \<Rightarrow> bool" where
  "label_ok label =
     (\<not> (label = [] \<or> length label > 63 \<or> hd label = CHR ''-'' \<or> last label = CHR ''-'') \<and> list_all label_char label)"

definition domain :: "(string \<Rightarrow> string res) \<Rightarrow> string \<Rightarrow> string res" where
  "domain to_ascii s0 =
     (let s = trim_suffix (to_lower s0) ''.'' in
      case to_ascii s of
        Inl e \<Rightarrow> Inl e
      | Inr a \<Rightarrow>
          if a = [] \<or> length a > 253 then Inl (New ''invalid domain length'')
          else if parse_addr a \<noteq> None then Inl (New ''domain must not be an IP literal'')
          else if \<not> list_all label_ok (split_on (CHR ''.'') a) then Inl (New (''invalid domain '' @ quote s))
          else Inr a)"

definition endpoint :: "string \<Rightarrow> bool \<Rightarrow> go_error option" where
  "endpoint s listener =
     (case parse_addr_port s of
       None \<Rightarrow> Some (New (''expected IPv4:port, got '' @ quote s))
     | Some (a, port) \<Rightarrow>
         if \<not> is4 a \<or> port = 0 then Some (New (''expected IPv4:port, got '' @ quote s))
         else if is_multicast a \<or> a = broadcast \<or> (\<not> listener \<and> is_unspecified a)
         then Some (New (''invalid endpoint '' @ quote s))
         else None)"

section \<open>Validation\<close>

text \<open>The first error of a sequence of checks.\<close>

fun first_error :: "go_error option list \<Rightarrow> go_error option" where
  "first_error [] = None"
| "first_error (None # es) = first_error es"
| "first_error (Some e # es) = Some e"

definition check :: "bool \<Rightarrow> string \<Rightarrow> go_error option" where
  "check bad msg = (if bad then Some (New msg) else None)"

fun check_listen :: "string list \<Rightarrow> string set \<Rightarrow> go_error option" where
  "check_listen [] seen = None"
| "check_listen (s # ss) seen =
     (case endpoint s True of
       Some e \<Rightarrow> Some e
     | None \<Rightarrow> if s \<in> seen then Some (New (''duplicate listener '' @ s)) else check_listen ss (insert s seen))"

text \<open>The loop over the domains: the rewritten list, up to the first error.\<close>

fun canonical_domains :: "(string \<Rightarrow> string res) \<Rightarrow> string list \<Rightarrow> string set \<Rightarrow> string list \<times> go_error option" where
  "canonical_domains to_ascii [] seen = ([], None)"
| "canonical_domains to_ascii (s # ss) seen =
     (case domain to_ascii s of
       Inl e \<Rightarrow> (s # ss, Some e)
     | Inr d \<Rightarrow>
         if d \<in> seen then (s # ss, Some (New (''duplicate domain '' @ d)))
         else (case canonical_domains to_ascii ss (insert d seen) of (ds, e) \<Rightarrow> (d # ds, e)))"

definition check_cidr :: "string \<Rightarrow> go_error option" where
  "check_cidr s =
     (case parse_prefix s of
       None \<Rightarrow> Some (New (''invalid IPv4 client CIDR '' @ quote s))
     | Some (a, n) \<Rightarrow> check (\<not> is4 a) (''invalid IPv4 client CIDR '' @ quote s))"

definition check_address :: "string \<Rightarrow> go_error option" where
  "check_address s =
     (case parse_addr s of
       None \<Rightarrow> Some (New ''hosts.address must be a unicast IPv4 address'')
     | Some a \<Rightarrow> check (\<not> is4 a \<or> is_unspecified a \<or> is_multicast a \<or> a = broadcast)
         ''hosts.address must be a unicast IPv4 address'')"

definition day :: int where "day = 24 * 3600 * second"

text \<open>The checks before and after the loop over the domains, in the order of the code.\<close>

definition listen_checks :: "config \<Rightarrow> go_error option list" where
  "listen_checks c =
     [if c_version c \<noteq> 1 then Some (New (''unsupported configuration version '' @ itoa (c_version c))) else None,
      check (c_listen c = [] \<or> length (c_listen c) > 16) ''listen requires 1..16 IPv4 endpoints'',
      check_listen (c_listen c) {},
      check (c_domains c = [] \<or> length (c_domains c) > 4096) ''domains requires 1..4096 exact names'']"

definition setting_checks :: "config \<Rightarrow> go_error option list" where
  "setting_checks c =
     [case get_profile (up_profile (c_upstream c)) of Inl e \<Rightarrow> Some e | Inr _ \<Rightarrow> None,
        check (up_port (c_upstream c) < 1 \<or> up_port (c_upstream c) > 65535) ''upstream.port must be 1..65535'',
        check (up_alpn_mode (c_upstream c) \<noteq> ''strict'' \<and> up_alpn_mode (c_upstream c) \<noteq> ''compatible'')
          ''alpn_mode must be strict or compatible'',
        check (dns_mode (c_dns c) \<noteq> ''auto'' \<and> dns_mode (c_dns c) \<noteq> ''manual'') ''dns.mode must be auto or manual'',
        check ((dns_mode (c_dns c) = ''auto'' \<and> dns_servers (c_dns c) \<noteq> [])
            \<or> (dns_mode (c_dns c) = ''manual'' \<and> dns_servers (c_dns c) = []))
          ''DNS auto requires no servers; manual requires servers'',
        check (length (dns_servers (c_dns c)) > 16) ''at most 16 DNS servers allowed'']
       @ map (\<lambda>s. endpoint s False) (dns_servers (c_dns c))
       @ [check (dns_cache_size (c_dns c) < 0 \<or> dns_cache_size (c_dns c) > 65536) ''DNS cache_size must be 0..65536'',
          check (c_client_cidrs c = []) ''client_cidrs must not be empty'']
       @ map check_cidr (c_client_cidrs c)
       @ [check_address (c_hosts_address c)]
       @ map (\<lambda>p. check (p = []) ''CA and runtime paths must not be empty'')
           [c_ca_cert c, c_ca_key c, rt_state_dir (c_runtime c), rt_control_socket (c_runtime c)]
       @ [check (length (rt_control_socket (c_runtime c)) > 100) ''control socket path exceeds portable 100-byte limit'',
          check (rt_max_connections (c_runtime c) < 1 \<or> rt_max_connections (c_runtime c) > 65536)
            ''max_connections must be 1..65536'']
       @ map (\<lambda>d. check (d \<le> 0 \<or> d > day) ''timeouts and refresh interval must be positive and at most 24h'')
           [dns_timeout (c_dns c), dns_refresh (c_dns c), rt_handshake (c_runtime c), rt_idle (c_runtime c),
            rt_shutdown (c_runtime c)]
       @ [check (dns_refresh (c_dns c) < second) ''DNS refresh interval must be at least 1s'',
          check (c_log_level c \<notin> {''debug'', ''info'', ''warn'', ''error''}) ''log.level must be debug, info, warn or error'',
          check (c_log_format c \<noteq> ''json'' \<and> c_log_format c \<noteq> ''text'') ''log.format must be json or text'']"

definition validate :: "(string \<Rightarrow> string res) \<Rightarrow> config \<Rightarrow> config \<times> go_error option" where
  "validate to_ascii c =
     (case first_error (listen_checks c) of
       Some e \<Rightarrow> (c, Some e)
     | None \<Rightarrow>
         (case canonical_domains to_ascii (c_domains c) {} of
           (ds, Some e) \<Rightarrow> (c\<lparr>c_domains := ds\<rparr>, Some e)
         | (ds, None) \<Rightarrow> (c\<lparr>c_domains := ds\<rparr>, first_error (setting_checks c))))"

section \<open>Decisions\<close>

definition allows_domain :: "config \<Rightarrow> string \<Rightarrow> bool" where
  "allows_domain c s = list_ex (\<lambda>d. d = s) (c_domains c)"

definition allows_client :: "config \<Rightarrow> addr \<Rightarrow> bool" where
  "allows_client c a = list_ex (\<lambda>s. case parse_prefix s of None \<Rightarrow> False | Some p \<Rightarrow> prefix_contains p (unmap a)) (c_client_cidrs c)"

definition restart_required :: "config \<Rightarrow> config \<Rightarrow> bool" where
  "restart_required a b =
     (c_listen a \<noteq> c_listen b \<or> up_port (c_upstream a) \<noteq> up_port (c_upstream b)
      \<or> (c_ca_cert a, c_ca_key a) \<noteq> (c_ca_cert b, c_ca_key b)
      \<or> rt_state_dir (c_runtime a) \<noteq> rt_state_dir (c_runtime b)
      \<or> rt_control_socket (c_runtime a) \<noteq> rt_control_socket (c_runtime b)
      \<or> c_log_format a \<noteq> c_log_format b)"

section \<open>What validation accepts\<close>

lemma first_error_None: "first_error es = None \<longleftrightarrow> list_all (\<lambda>e. e = None) es"
  by (induction es rule: first_error.induct) auto

lemma check_None [simp]: "check bad msg = None \<longleftrightarrow> \<not> bad"
  by (simp add: check_def)

text \<open>A usable IPv4 endpoint and a unicast IPv4 address, by what they denote.\<close>

definition listener_ok :: "string \<Rightarrow> bool" where
  "listener_ok s = (case parse_addr_port s of Some (V4 w, port) \<Rightarrow>
     0 < port \<and> drop_bit 28 w \<noteq> 0xE \<and> w \<noteq> 0xFFFFFFFF | _ \<Rightarrow> False)"

definition server_ok :: "string \<Rightarrow> bool" where
  "server_ok s = (case parse_addr_port s of Some (V4 w, port) \<Rightarrow>
     0 < port \<and> drop_bit 28 w \<noteq> 0xE \<and> w \<noteq> 0xFFFFFFFF \<and> w \<noteq> 0 | _ \<Rightarrow> False)"

definition unicast_text :: "string \<Rightarrow> bool" where
  "unicast_text s = (\<exists>w. s = v4_string w \<and> w \<noteq> 0 \<and> drop_bit 28 w \<noteq> 0xE \<and> w \<noteq> 0xFFFFFFFF)"

definition cidr_ok :: "string \<Rightarrow> bool" where
  "cidr_ok s = (case parse_prefix s of Some (V4 w, n) \<Rightarrow> True | _ \<Rightarrow> False)"

text \<open>A host name in its canonical form.\<close>

definition host_name :: "string \<Rightarrow> bool" where
  "host_name a = (a \<noteq> [] \<and> length a \<le> 253 \<and> parse_addr a = None \<and> list_all label_ok (split_on (CHR ''.'') a))"

lemma endpoint_listener: "endpoint s True = None \<longleftrightarrow> listener_ok s"
  by (auto simp: endpoint_def listener_ok_def split: option.splits prod.splits addr.splits)

lemma endpoint_server: "endpoint s False = None \<longleftrightarrow> server_ok s"
  by (auto simp: endpoint_def server_ok_def split: option.splits prod.splits addr.splits)

lemma check_cidr_None: "check_cidr s = None \<longleftrightarrow> cidr_ok s"
  by (auto simp: check_cidr_def cidr_ok_def split: option.splits prod.splits addr.splits)

lemma check_address_None: "check_address s = None \<longleftrightarrow> unicast_text s"
proof (cases "parse_addr s")
  case None
  then have "\<nexists>w. s = v4_string w" using parse_addr_v4_string by force
  with None show ?thesis by (auto simp: check_address_def unicast_text_def)
next
  case (Some a)
  show ?thesis
  proof (cases a)
    case (V4 w)
    with Some have s: "s = v4_string w" by (simp add: parse_addr_V4)
    have "v4_string w = v4_string w' \<longleftrightarrow> w = w'" for w' by (rule v4text.print_inject)
    with Some V4 show ?thesis by (auto simp: check_address_def unicast_text_def s)
  next
    case (V6 w z)
    with Some have "\<nexists>w. s = v4_string w" by auto
    with Some V6 show ?thesis by (auto simp: check_address_def unicast_text_def)
  qed
qed

lemma check_listen_None:
  "check_listen ss seen = None \<longleftrightarrow> list_all listener_ok ss \<and> distinct ss \<and> set ss \<inter> seen = {}"
  by (induction ss arbitrary: seen) (auto simp: endpoint_listener [symmetric] split: option.splits)

lemma canonical_domains_ok:
  "canonical_domains to_ascii ss seen = (ds, None) \<longleftrightarrow>
     list_all2 (\<lambda>s d. domain to_ascii s = Inr d) ss ds \<and> distinct ds \<and> set ds \<inter> seen = {}"
proof (induction ss arbitrary: ds seen)
  case (Cons s ss)
  show ?case
  proof (cases "domain to_ascii s")
    case (Inr d)
    then show ?thesis using Cons [of "insert d seen" "tl ds"]
      by (cases ds) (auto split: prod.splits)
  qed (cases ds; auto)
qed auto

text \<open>The conditions on everything but the domains.\<close>

definition settings_ok :: "config \<Rightarrow> bool" where
  "settings_ok c =
     (c_version c = 1
      \<and> 1 \<le> length (c_listen c) \<and> length (c_listen c) \<le> 16 \<and> list_all listener_ok (c_listen c) \<and> distinct (c_listen c)
      \<and> 1 \<le> length (c_domains c) \<and> length (c_domains c) \<le> 4096
      \<and> up_profile (c_upstream c) \<in> pr_name ` set profile_list
      \<and> 1 \<le> up_port (c_upstream c) \<and> up_port (c_upstream c) \<le> 65535
      \<and> up_alpn_mode (c_upstream c) \<in> {''strict'', ''compatible''}
      \<and> (dns_mode (c_dns c) = ''auto'' \<and> dns_servers (c_dns c) = []
         \<or> dns_mode (c_dns c) = ''manual'' \<and> 1 \<le> length (dns_servers (c_dns c)) \<and> length (dns_servers (c_dns c)) \<le> 16)
      \<and> list_all server_ok (dns_servers (c_dns c))
      \<and> 0 \<le> dns_cache_size (c_dns c) \<and> dns_cache_size (c_dns c) \<le> 65536
      \<and> c_client_cidrs c \<noteq> [] \<and> list_all cidr_ok (c_client_cidrs c) \<and> unicast_text (c_hosts_address c)
      \<and> list_all (\<lambda>p. p \<noteq> []) [c_ca_cert c, c_ca_key c, rt_state_dir (c_runtime c), rt_control_socket (c_runtime c)]
      \<and> length (rt_control_socket (c_runtime c)) \<le> 100
      \<and> 1 \<le> rt_max_connections (c_runtime c) \<and> rt_max_connections (c_runtime c) \<le> 65536
      \<and> list_all (\<lambda>d. 0 < d \<and> d \<le> day) [dns_timeout (c_dns c), dns_refresh (c_dns c), rt_handshake (c_runtime c),
           rt_idle (c_runtime c), rt_shutdown (c_runtime c)]
      \<and> second \<le> dns_refresh (c_dns c)
      \<and> c_log_level c \<in> {''debug'', ''info'', ''warn'', ''error''} \<and> c_log_format c \<in> {''json'', ''text''})"

lemma get_profile_ok: "(case get_profile n of Inl e \<Rightarrow> Some e | Inr _ \<Rightarrow> None) = None \<longleftrightarrow> n \<in> pr_name ` set profile_list"
  by (auto simp: get_profile_def find_None_iff find_Some_iff split: option.splits)

lemma checks_ok: "first_error (listen_checks c) = None \<and> first_error (setting_checks c) = None \<longleftrightarrow> settings_ok c"
proof
  assume "first_error (listen_checks c) = None \<and> first_error (setting_checks c) = None"
  then have l: "list_all (\<lambda>e. e = None) (listen_checks c)" "list_all (\<lambda>e. e = None) (setting_checks c)"
    by (simp_all add: first_error_None)
  from l(1) have 1: "c_version c = 1" "1 \<le> length (c_listen c)" "length (c_listen c) \<le> 16" "list_all listener_ok (c_listen c)"
    "distinct (c_listen c)" "1 \<le> length (c_domains c)" "length (c_domains c) \<le> 4096"
    by (simp_all add: listen_checks_def check_listen_None Suc_le_eq split: if_splits)
  note l2 = l(2) [unfolded setting_checks_def list_all_append list.pred_map list.pred_inject get_profile_ok check_None]
  from l2 show "settings_ok c"
    unfolding settings_ok_def using 1
    by (simp add: list.pred_map comp_def endpoint_server check_cidr_None check_address_None Suc_le_eq not_less) blast
next
  assume s: "settings_ok c"
  then have "list_all (\<lambda>e. e = None) (listen_checks c)"
    by (simp add: settings_ok_def listen_checks_def check_listen_None Suc_le_eq)
  moreover from s have "list_all (\<lambda>e. e = None) (setting_checks c)"
    unfolding settings_ok_def setting_checks_def
    by (simp add: list.pred_map comp_def endpoint_server check_cidr_None check_address_None get_profile_ok Suc_le_eq not_less) auto
  ultimately show "first_error (listen_checks c) = None \<and> first_error (setting_checks c) = None"
    by (simp add: first_error_None)
qed

section \<open>Canonical names\<close>

lemma label_char_lower: "label_char c \<Longrightarrow> lower_char c = c"
  by (auto simp: label_char_def is_lower_def is_digit_def lower_char_def) (simp add: code_def)?

lemma domain_ok: "domain to_ascii s = Inr a \<longleftrightarrow> to_ascii (trim_suffix (to_lower s) ''.'') = Inr a \<and> host_name a"
  by (auto simp: domain_def host_name_def Let_def split: sum.splits)

lemma set_join: "set (join [c] ws) \<subseteq> {c} \<union> \<Union> (set ` set ws)"
  by (induction "[c]" ws rule: join.induct) auto

lemma dot_lower: "lower_char (CHR ''.'') = CHR ''.''"
  by (simp add: lower_char_def code_def)

lemma host_name_canonical: "host_name a \<Longrightarrow> trim_suffix (to_lower a) ''.'' = a"
proof -
  assume h: "host_name a"
  then have lo: "list_all label_ok (split_on (CHR ''.'') a)" and ne: "a \<noteq> []" by (simp_all add: host_name_def)
  have "label_char c \<or> c = CHR ''.''" if "c \<in> set a" for c
    using set_join [of "CHR ''.''" "split_on (CHR ''.'') a"] that lo
    unfolding join_split_on by (fastforce simp: list_all_iff label_ok_def)
  then have "to_lower a = a"
    unfolding to_lower_def using label_char_lower dot_lower by (intro map_idI) metis
  moreover have "last a \<noteq> CHR ''.''"
  proof
    assume "last a = CHR ''.''"
    with ne have "a = butlast a @ [CHR ''.'']" by (metis append_butlast_last_id)
    then have "split_on (CHR ''.'') a = split_on (CHR ''.'') (butlast a) @ [[]]" by (metis split_on_snoc)
    with lo show False by (simp add: label_ok_def)
  qed
  ultimately show ?thesis by (simp add: trim_suffix_dot)
qed

lemma local_address: "''127.0.0.1'' = v4_string 0x7F000001"
  by (simp add: v4_string_def v4_bytes_def dotted_def dec.simps digit_char_def char_evals)

lemma local_net: "''127.0.0.0'' = v4_string 0x7F000000"
  by (simp add: v4_string_def v4_bytes_def dotted_def dec.simps digit_char_def char_evals)

lemma local_prefix: "parse_prefix ''127.0.0.0/8'' = Some (V4 0x7F000000, 8)"
  using parse_addr_v4_string [of "0x7F000000"]
  by (simp add: parse_prefix_def cut_last_def local_net [symmetric] atoi_def dec_val_def digit_val_def code_def is_digit_def)

lemma validate_iff:
  "validate to_ascii c = (c', None) \<longleftrightarrow>
     settings_ok c \<and> (\<exists>ds. c' = c\<lparr>c_domains := ds\<rparr> \<and> distinct ds
       \<and> list_all2 (\<lambda>s d. domain to_ascii s = Inr d) (c_domains c) ds)"
proof -
  obtain ds e where cd: "canonical_domains to_ascii (c_domains c) {} = (ds, e)"
    by (cases "canonical_domains to_ascii (c_domains c) {}") auto
  have dom: "(e = None \<and> ds = ds') \<longleftrightarrow> list_all2 (\<lambda>s d. domain to_ascii s = Inr d) (c_domains c) ds' \<and> distinct ds'" for ds'
    using canonical_domains_ok [of to_ascii "c_domains c" "{}" ds'] unfolding cd by blast
  show ?thesis
  proof (cases e)
    case None
    have u: "distinct ds' \<and> list_all2 (\<lambda>s d. domain to_ascii s = Inr d) (c_domains c) ds' \<longleftrightarrow> ds' = ds" for ds'
      using dom [of ds'] None by blast
    have "(\<exists>ds'. c' = c\<lparr>c_domains := ds'\<rparr> \<and> distinct ds' \<and> list_all2 (\<lambda>s d. domain to_ascii s = Inr d) (c_domains c) ds')
      \<longleftrightarrow> c' = c\<lparr>c_domains := ds\<rparr>" by (simp only: u) blast
    moreover have "validate to_ascii c = (c', None) \<longleftrightarrow>
        (first_error (listen_checks c) = None \<and> first_error (setting_checks c) = None) \<and> c' = c\<lparr>c_domains := ds\<rparr>"
      by (cases "first_error (listen_checks c)") (auto simp: validate_def cd None)
    ultimately show ?thesis by (simp only: checks_ok)
  next
    case (Some x)
    with dom have "\<nexists>ds'. list_all2 (\<lambda>s d. domain to_ascii s = Inr d) (c_domains c) ds' \<and> distinct ds'" by blast
    moreover have "validate to_ascii c \<noteq> (c', None)"
      by (cases "first_error (listen_checks c)") (simp_all add: validate_def cd Some)
    ultimately show ?thesis by blast
  qed
qed

lemma defaults_accepted:
  assumes "to_ascii ''tls.peet.ws'' = Inr ''tls.peet.ws''"
  shows "validate to_ascii (defaults os) = (defaults os, None)"
proof -
  have h: "host_name ''tls.peet.ws''"
    by (simp add: host_name_def split_on_def label_ok_def label_char_def is_lower_def is_digit_def code_def
        parse_addr_def parse_v4_def)
  have d: "domain to_ascii ''tls.peet.ws'' = Inr ''tls.peet.ws''"
    using assms h host_name_canonical [OF h] by (simp add: domain_ok)
  have p: "parse_addr_port ''127.0.0.1:443'' = Some (V4 0x7F000001, 443)"
    unfolding parse_addr_port_def using parse_addr_v4_string [of "0x7F000001"]
    by (simp add: cut_last_def local_address [symmetric] parse_uint_def dec_val_def digit_val_def code_def is_digit_def)
  have l: "listener_ok ''127.0.0.1:443''" by (simp add: listener_ok_def p)
  have ci: "cidr_ok ''127.0.0.0/8''" by (simp add: cidr_ok_def local_prefix)
  have a: "unicast_text ''127.0.0.1''"
    unfolding unicast_text_def local_address by (intro exI [of _ "0x7F000001"]) simp
  have s: "settings_ok (defaults os)"
    by (cases os; simp add: settings_ok_def defaults_def platform_paths_def l ci a profile_list_def second_def day_def)
      (simp_all add: path_evals)
  have "defaults os = (defaults os)\<lparr>c_domains := [''tls.peet.ws'']\<rparr>" "c_domains (defaults os) = [''tls.peet.ws'']"
    by (simp_all add: defaults_def Let_def)
  with s d show ?thesis unfolding validate_iff by (intro conjI exI [of _ "[''tls.peet.ws'']"]) simp_all
qed

section \<open>Properties\<close>

text \<open>C13: validation is exact: it accepts a configuration exactly when every setting is in
  its documented range, every endpoint, prefix and address denotes a usable IPv4 object, and the
  domains have distinct canonical names; the only thing it changes is that the domains become
  their canonical names.\<close>

theorem validate_exact:
  "validate to_ascii c = (c', None) \<longleftrightarrow>
     settings_ok c \<and> (\<exists>ds. c' = c\<lparr>c_domains := ds\<rparr> \<and> distinct ds
       \<and> list_all2 (\<lambda>s d. domain to_ascii s = Inr d) (c_domains c) ds)"
  by (rule validate_iff)

text \<open>Validation is idempotent: a validated configuration is accepted again without a
  change, where the conversion to ASCII leaves its own results alone.\<close>

theorem validate_idempotent:
  assumes "\<And>s a. to_ascii s = Inr a \<Longrightarrow> to_ascii a = Inr a" and "validate to_ascii c = (c', None)"
  shows "validate to_ascii c' = (c', None) \<and> list_all host_name (c_domains c')"
proof -
  from assms(2) obtain ds where s: "settings_ok c" and c': "c' = c\<lparr>c_domains := ds\<rparr>" and "distinct ds"
    and l: "list_all2 (\<lambda>s d. domain to_ascii s = Inr d) (c_domains c) ds"
    unfolding validate_iff by blast
  from list_all2_lengthD [OF l] s c' have s': "settings_ok c'" by (simp add: settings_ok_def)
  have again: "host_name d \<and> domain to_ascii d = Inr d" if "d \<in> set ds" for d
  proof -
    from that l obtain x where "domain to_ascii x = Inr d" by (auto simp: list_all2_conv_all_nth in_set_conv_nth)
    then have "to_ascii d = Inr d" "host_name d" using assms(1) by (auto simp: domain_ok)
    with host_name_canonical [of d] show ?thesis by (simp add: domain_ok)
  qed
  then have "list_all2 (\<lambda>s d. domain to_ascii s = Inr d) ds ds" "list_all host_name ds"
    by (auto simp: list_all2_same list_all_iff)
  with s' \<open>distinct ds\<close> show ?thesis unfolding validate_iff by (auto simp: c' intro: exI [of _ ds])
qed

theorem validate_idempotent_witness:
  "validate Inr (defaults Linux) = (defaults Linux, None) \<and> list_all host_name (c_domains (defaults Linux))"
proof -
  have v: "validate Inr (defaults Linux) = (defaults Linux, None)" by (rule defaults_accepted) simp
  have idem: "\<And>s a. Inr s = (Inr a :: string res) \<Longrightarrow> Inr a = (Inr a :: string res)" by simp
  from validate_idempotent [where to_ascii = Inr, OF idem v] show ?thesis by simp
qed

text \<open>The defaults of both platforms are valid and validation does not change them,
  where the conversion to ASCII leaves the default domain alone.\<close>

theorem defaults_valid:
  assumes "to_ascii ''tls.peet.ws'' = Inr ''tls.peet.ws''"
  shows "validate to_ascii (defaults os) = (defaults os, None)"
  using assms by (rule defaults_accepted)

theorem defaults_valid_witness: "validate Inr (defaults Darwin) = (defaults Darwin, None)"
  by (rule defaults_valid) simp

text \<open>With a validated configuration a client is let in exactly when it is an IPv4
  address, plain or mapped into IPv6, whose leading bits are those of one of the configured
  prefixes.\<close>

theorem allows_client_exact:
  assumes "validate to_ascii c = (c', None)"
  shows "allows_client c' a \<longleftrightarrow>
    (\<exists>w p n. unmap a = V4 w \<and> (\<exists>s \<in> set (c_client_cidrs c). parse_prefix s = Some (V4 p, n))
      \<and> unat w div 2 ^ (32 - n) = unat p div 2 ^ (32 - n))"
proof -
  from assms have "settings_ok c" "c_client_cidrs c' = c_client_cidrs c" unfolding validate_iff by auto
  then have ok: "cidr_ok s" if "s \<in> set (c_client_cidrs c')" for s
    using that by (simp add: settings_ok_def list_all_iff)
  have "(case parse_prefix s of None \<Rightarrow> False | Some p \<Rightarrow> prefix_contains p (unmap a)) \<longleftrightarrow>
      (\<exists>w p n. unmap a = V4 w \<and> parse_prefix s = Some (V4 p, n) \<and> unat w div 2 ^ (32 - n) = unat p div 2 ^ (32 - n))"
    if "s \<in> set (c_client_cidrs c')" for s
    using ok [OF that] prefix_contains_V4_iff
    by (cases "unmap a") (auto simp: cidr_ok_def split: option.splits prod.splits addr.splits)
  with \<open>c_client_cidrs c' = c_client_cidrs c\<close> show ?thesis
    unfolding allows_client_def list_ex_iff by (metis (no_types, lifting))
qed

theorem allows_client_exact_witness:
  "allows_client (defaults Linux) (V6 0xFFFF7F000005 []) \<and> \<not> allows_client (defaults Linux) (V4 0x0A000001)"
proof -
  have v: "validate Inr (defaults Linux) = (defaults Linux, None)" by (rule defaults_accepted) simp
  have cs: "c_client_cidrs (defaults Linux) = [''127.0.0.0/8'']" by (simp add: defaults_def Let_def)
  from allows_client_exact [OF v, of "V6 0xFFFF7F000005 []"] allows_client_exact [OF v, of "V4 0x0A000001"]
  show ?thesis by (simp add: cs local_prefix)
qed

end
