(* ===== verification/Discovery.thy ===== *)
theory Discovery
  imports Netip
begin

text \<open>
  \<^verbatim>\<open>internal/dns/discovery.go\<close>, \<^verbatim>\<open>resolved_properties.go\<close>,
  \<^verbatim>\<open>discovery_linux.go\<close> and \<^verbatim>\<open>discovery_darwin.go\<close>: the resolver groups of the
  system and the choice of the groups for a name.  What other programs answer is an argument:
  the text of \<^verbatim>\<open>scutil\<close>, the interface addresses, the decoded properties of
  systemd-resolved (a property that does not decode is an error value).  The lemmas: the choice
  is the reference choice by specificity and priority; discovered servers are IPv4 endpoints
  outside this machine.
\<close>

section \<open>Groups\<close>

record group =
  g_servers :: "string list"
  g_domains :: "string list"
  g_interface :: int
  g_priority :: int
  g_default :: bool

record discovery =
  d_source :: string
  d_routing :: string
  d_groups :: "group list"

definition empty_group :: group where
  "empty_group = \<lparr>g_servers = [], g_domains = [], g_interface = 0, g_priority = 0, g_default = False\<rparr>"

definition local_addresses :: "string list res \<Rightarrow> addr list res" where
  "local_addresses addrs =
     (case addrs of
       Inl e \<Rightarrow> Inl e
     | Inr as \<Rightarrow> Inr (concat (map (\<lambda>a. case parse_prefix a of
           Some (p, n) \<Rightarrow> if is4 p then [p] else [] | None \<Rightarrow> []) as)))"

definition usable_server :: "addr list \<Rightarrow> string \<Rightarrow> bool" where
  "usable_server own s =
     (case parse_addr_port s of
       None \<Rightarrow> False
     | Some (a, port) \<Rightarrow>
         is4 a \<and> \<not> is_loopback a \<and> \<not> is_unspecified a \<and> \<not> is_multicast a \<and> a \<notin> set own)"

definition usable :: "string list res \<Rightarrow> discovery \<Rightarrow> discovery \<times> go_error option" where
  "usable addrs d =
     (case local_addresses addrs of
       Inl e \<Rightarrow> (d, Some e)
     | Inr own \<Rightarrow>
         let groups = map (\<lambda>g. g\<lparr>g_servers := filter (usable_server own) (g_servers g)\<rparr>) (d_groups d);
             count = sum_list (map (\<lambda>g. length (g_servers g)) groups);
             d' = d\<lparr>d_groups := groups\<rparr>
         in if count = 0
            then (d', Some (New ''auto DNS found no usable IPv4 upstream; configure --dns IPv4:port for an opaque local DNS stub''))
            else (d', None))"

section \<open>The output of scutil\<close>

record scutil =
  sc_groups :: "group list"
  sc_group :: "group option"
  sc_mdns :: bool
  sc_port :: int
  sc_seen :: bool

definition flush :: "scutil \<Rightarrow> scutil" where
  "flush st =
     (case sc_group st of
       Some g \<Rightarrow>
         if \<not> sc_mdns st then
           st\<lparr>sc_groups := sc_groups st @
               [g\<lparr>g_servers := map (\<lambda>s. join_host_port s (itoa (sc_port st))) (g_servers g),
                  g_default := (g_domains g = [])\<rparr>],
              sc_group := None, sc_mdns := False, sc_port := 53\<rparr>
         else st\<lparr>sc_group := None, sc_mdns := False, sc_port := 53\<rparr>
     | None \<Rightarrow> st\<lparr>sc_group := None, sc_mdns := False, sc_port := 53\<rparr>)"

text \<open>One \<open>key : value\<close> line of the current group.\<close>

definition scutil_entry :: "scutil \<Rightarrow> group \<Rightarrow> string \<Rightarrow> string \<Rightarrow> scutil res" where
  "scutil_entry st g key value =
     (if has_prefix key ''nameserver['' then
        (case parse_addr value of
          Some (V4 w) \<Rightarrow> Inr (st\<lparr>sc_group := Some (g\<lparr>g_servers := g_servers g @ [v4_string w]\<rparr>)\<rparr>)
        | _ \<Rightarrow> Inr st)
      else if key = ''domain'' then
        Inr (st\<lparr>sc_group := Some (g\<lparr>g_domains := g_domains g @ [trim_suffix (to_lower value) ''.'']\<rparr>)\<rparr>)
      else if key = ''if_index'' then
        (case split_fields value of
          [] \<Rightarrow> Inl (New ''empty scutil interface'')
        | part # _ \<Rightarrow>
            (case atoi part of
              None \<Rightarrow> Inl (Wrapf ''invalid scutil interface'' (New (''strconv.Atoi: parsing '' @ quote part)))
            | Some n \<Rightarrow> Inr (st\<lparr>sc_group := Some (g\<lparr>g_interface := n\<rparr>)\<rparr>)))
      else if key = ''port'' then
        (case atoi value of
          None \<Rightarrow> Inl (New ''invalid scutil DNS port'')
        | Some n \<Rightarrow> if n < 1 \<or> n > 65535 then Inl (New ''invalid scutil DNS port'') else Inr (st\<lparr>sc_port := n\<rparr>))
      else if key = ''order'' then
        (case atoi value of
          None \<Rightarrow> Inl (New (''strconv.Atoi: parsing '' @ quote value))
        | Some n \<Rightarrow> Inr (st\<lparr>sc_group := Some (g\<lparr>g_priority := n\<rparr>)\<rparr>))
      else if key = ''options'' \<and> contains_str value ''mdns'' then Inr (st\<lparr>sc_mdns := True\<rparr>)
      else Inr st)"

text \<open>
  The lines a \<^verbatim>\<open>bufio.Scanner\<close> yields: without the newline and a carriage return
  before it, no empty line at the end.  A line that does not fit the buffer is an error.
\<close>

definition max_line :: nat where
  "max_line = 1024 * 1024"

definition scan_lines :: "string \<Rightarrow> string list" where
  "scan_lines text =
     (let ls = split_on newline text in if last ls = [] then butlast ls else ls)"

definition drop_cr :: "string \<Rightarrow> string" where
  "drop_cr l = (if l \<noteq> [] \<and> last l = CHR 0x0D then butlast l else l)"

datatype scan_end = Finished scutil | Too_long scutil | Failed "group list" go_error

fun scutil_lines :: "string list \<Rightarrow> scutil \<Rightarrow> scan_end" where
  "scutil_lines [] st = Finished st"
| "scutil_lines (l # ls) st =
     (if length l \<ge> max_line then Too_long st
      else
        let line = trim_space (drop_cr l) in
        if has_prefix line ''DNS configuration (for scoped queries)'' then Finished st
        else if has_prefix line ''resolver #'' then
          scutil_lines ls ((flush st)\<lparr>sc_group := Some empty_group, sc_seen := True\<rparr>)
        else
          (case sc_group st of
            None \<Rightarrow> scutil_lines ls st
          | Some g \<Rightarrow>
              (case cut line (CHR '':'') of (key, value, ok) \<Rightarrow>
                if \<not> ok then scutil_lines ls st
                else
                  (case scutil_entry st g (trim_space key) (trim_space value) of
                    Inl e \<Rightarrow> Failed (sc_groups st) e
                  | Inr st' \<Rightarrow> scutil_lines ls st'))))"

definition scutil_start :: scutil where
  "scutil_start = \<lparr>sc_groups = [], sc_group = None, sc_mdns = False, sc_port = 53, sc_seen = False\<rparr>"

definition parse_scutil :: "string \<Rightarrow> discovery \<times> go_error option" where
  "parse_scutil text =
     (let d = \<lambda>gs. \<lparr>d_source = ''scutil --dns'', d_routing = ''domain-aware'', d_groups = gs\<rparr> in
      case scutil_lines (scan_lines text) scutil_start of
        Failed gs e \<Rightarrow> (d gs, Some e)
      | Too_long st \<Rightarrow> (d (sc_groups (flush st)), Some (New ''bufio.Scanner: token too long''))
      | Finished st \<Rightarrow>
          let gs = sc_groups (flush st) in
          if \<not> sc_seen st \<or> gs = [] then (d gs, Some (New ''unrecognized or empty macOS DNS configuration''))
          else (d gs, None))"

text \<open>\<^verbatim>\<open>discovery_darwin.go\<close>: \<open>output\<close> is what the command wrote, or its failure.\<close>

definition discover_darwin :: "string res \<Rightarrow> string list res \<Rightarrow> discovery \<times> go_error option" where
  "discover_darwin output addrs =
     (case output of
       Inl e \<Rightarrow> (\<lparr>d_source = [], d_routing = [], d_groups = []\<rparr>, Some (Wrapf ''scutil DNS discovery'' e))
     | Inr b \<Rightarrow>
         (case parse_scutil b of
           (d, Some e) \<Rightarrow> (d, Some e)
         | (d, None) \<Rightarrow> usable addrs d))"

section \<open>systemd-resolved\<close>

record dns_entry =
  de_index :: int
  de_family :: int
  de_address :: "8 word list"
  de_port :: "16 word"

record link_domain =
  ld_index :: int
  ld_name :: string

record resolve_props =
  rp_over_tls :: "string option"
  rp_default_route :: "bool option"
  rp_dns_ex :: "dns_entry list res option"
  rp_dns :: "dns_entry list res option"
  rp_domains :: "link_domain list res option"

definition ip_text :: "8 word list \<Rightarrow> string" where
  "ip_text bs = dotted (map unat bs)"

definition entry_port :: "dns_entry \<Rightarrow> string" where
  "entry_port s = itoa (if de_port s = 0 then 53 else int (unat (de_port s)))"

definition AF_INET :: int where "AF_INET = 2"

text \<open>The servers of a property group: extended entries win over plain ones.\<close>

definition prop_servers :: "(dns_entry \<Rightarrow> bool) \<Rightarrow> resolve_props \<Rightarrow> string list res" where
  "prop_servers P p =
     (case rp_dns_ex p of
       Some (Inl e) \<Rightarrow> Inl e
     | Some (Inr es) \<Rightarrow> Inr (map (\<lambda>s. join_host_port (ip_text (de_address s)) (entry_port s))
         (filter (\<lambda>s. P s \<and> de_family s = AF_INET \<and> length (de_address s) = 4) es))
     | None \<Rightarrow>
         (case rp_dns p of
           Some (Inl e) \<Rightarrow> Inl e
         | Some (Inr es) \<Rightarrow> Inr (map (\<lambda>s. join_host_port (ip_text (de_address s)) ''53'')
             (filter (\<lambda>s. P s \<and> de_family s = AF_INET \<and> length (de_address s) = 4) es))
         | None \<Rightarrow> Inr []))"

definition manager_group :: "resolve_props \<Rightarrow> group res" where
  "manager_group p =
     (case prop_servers (\<lambda>s. de_index s = 0) p of
       Inl e \<Rightarrow> Inl e
     | Inr servers \<Rightarrow>
         (case rp_domains p of
           Some (Inl e) \<Rightarrow> Inl e
         | Some (Inr ds) \<Rightarrow> Inr (empty_group\<lparr>g_default := True, g_servers := servers,
             g_domains := map (\<lambda>d. to_lower (ld_name d)) (filter (\<lambda>d. ld_index d = 0) ds)\<rparr>)
         | None \<Rightarrow> Inr (empty_group\<lparr>g_default := True, g_servers := servers\<rparr>)))"

definition link_group :: "resolve_props \<Rightarrow> int \<Rightarrow> group res" where
  "link_group p index =
     (if rp_over_tls p = Some ''yes''
      then Inl (New ''mandatory DNS-over-TLS is unsupported; provide a suitable manual DNS server'')
      else
        let g = empty_group\<lparr>g_interface := index, g_default := (rp_default_route p = Some True)\<rparr> in
        (case prop_servers (\<lambda>_. True) p of
          Inl e \<Rightarrow> Inl e
        | Inr servers \<Rightarrow>
            (case rp_domains p of
              Some (Inl e) \<Rightarrow> Inl e
            | Some (Inr ds) \<Rightarrow> Inr (g\<lparr>g_servers := servers, g_domains := map ld_name ds\<rparr>)
            | None \<Rightarrow> Inr (g\<lparr>g_servers := servers\<rparr>))))"

text \<open>
  The replies of the bus: the manager's properties, the interfaces of the kernel, for each of
  them the link object and its properties.
\<close>

record iface =
  if_index :: int
  if_name :: string

datatype link_reply = No_such_link | Link_error go_error | Link_path string

definition has_entries :: "group \<Rightarrow> bool" where
  "has_entries g = (g_servers g \<noteq> [] \<or> g_domains g \<noteq> [])"

fun link_groups :: "(int \<Rightarrow> link_reply) \<Rightarrow> (string \<Rightarrow> resolve_props res) \<Rightarrow> iface list \<Rightarrow> group list
    \<Rightarrow> group list \<times> go_error option" where
  "link_groups get_link link_props [] gs = (gs, None)"
| "link_groups get_link link_props (l # ls) gs =
     (case get_link (if_index l) of
       No_such_link \<Rightarrow> link_groups get_link link_props ls gs
     | Link_error e \<Rightarrow> (gs, Some (Wrapf (''get DNS link '' @ if_name l) e))
     | Link_path path \<Rightarrow>
         (case link_props path of
           Inl e \<Rightarrow> (gs, Some (Wrapf (''read DNS link '' @ if_name l) e))
         | Inr p \<Rightarrow>
             (case link_group p (if_index l) of
               Inl e \<Rightarrow> (gs, Some (Wrapf (''link '' @ if_name l) e))
             | Inr g \<Rightarrow> link_groups get_link link_props ls (if has_entries g then gs @ [g] else gs))))"

definition resolved_discovery :: "resolve_props res \<Rightarrow> iface list res \<Rightarrow> (int \<Rightarrow> link_reply) \<Rightarrow> (string \<Rightarrow> resolve_props res)
    \<Rightarrow> discovery \<times> go_error option" where
  "resolved_discovery manager interfaces get_link link_props =
     (let d = \<lambda>gs. \<lparr>d_source = ''org.freedesktop.resolve1'', d_routing = ''domain-aware'', d_groups = gs\<rparr> in
      case manager of
        Inl e \<Rightarrow> (d [], Some e)
      | Inr p \<Rightarrow>
          if rp_over_tls p = Some ''yes'' then (d [], Some (New ''mandatory DNS-over-TLS is unsupported''))
          else
            (case manager_group p of
              Inl e \<Rightarrow> (d [], Some e)
            | Inr g \<Rightarrow>
                let gs = (if has_entries g then [g] else []) in
                (case interfaces of
                  Inl e \<Rightarrow> (d gs, Some (Wrapf ''enumerate DNS interfaces'' e))
                | Inr ls \<Rightarrow>
                    (case link_groups get_link link_props ls gs of (gs', err) \<Rightarrow> (d gs', err)))))"

text \<open>
  \<^verbatim>\<open>discovery_linux.go\<close>.  \<open>resolv_path\<close>: where \<^verbatim>\<open>/etc/resolv.conf\<close> leads (empty when
  it cannot be resolved); \<open>stub\<close>: the stub file exists; \<open>owner\<close>: the bus answered that the name has
  an owner; \<open>client_config\<close>: servers and port of \<^verbatim>\<open>/etc/resolv.conf\<close>; \<open>is_ip4\<close>:
  \<^verbatim>\<open>net.ParseIP\<close> yields an IPv4 address, which IPv4-mapped IPv6 texts do as well.
\<close>

definition is_ip4 :: "string \<Rightarrow> bool" where
  "is_ip4 s = (case parse_addr s of None \<Rightarrow> False | Some a \<Rightarrow> zone_of a = [] \<and> is4 (unmap a))"

definition discover_linux :: "string \<Rightarrow> bool \<Rightarrow> bool \<Rightarrow> discovery \<times> go_error option
    \<Rightarrow> (string list \<times> string) res \<Rightarrow> string list res \<Rightarrow> discovery \<times> go_error option" where
  "discover_linux resolv_path stub owner via_bus client_config addrs =
     (let known = (contains_str resolv_path ''/systemd/resolve/'' \<or> stub);
          none = \<lparr>d_source = [], d_routing = [], d_groups = []\<rparr>
      in if owner then
           (case via_bus of (d, Some e) \<Rightarrow> (d, Some e) | (d, None) \<Rightarrow> usable addrs d)
      else if known then
        (none, Some (New ''systemd-resolved routing configuration unavailable; refusing flat/stub fallback; configure manual DNS''))
      else
        (case client_config of
          Inl e \<Rightarrow> (none, Some e)
        | Inr (servers, port) \<Rightarrow>
            usable addrs \<lparr>d_source = ''/etc/resolv.conf'', d_routing = ''default-only'',
              d_groups = [empty_group\<lparr>g_default := True, g_servers := map (\<lambda>s. join_host_port s port) (filter is_ip4 servers)\<rparr>]\<rparr>))"

section \<open>Choosing the groups for a name\<close>

definition max_int :: int where
  "max_int = 2 ^ 63 - 1"

definition domain_score :: "string \<Rightarrow> string \<Rightarrow> int" where
  "domain_score name dom0 =
     (let dom = trim_suffix (trim_prefix (to_lower dom0) ''~'') ''.'' in
      if dom = [] then 0
      else if name = dom \<or> has_suffix name (''.'' @ dom) then int (length (split_on (CHR ''.'') dom))
      else -1)"

text \<open>The score starts at \<open>-1\<close> and only grows, so a domain that does not match leaves it.\<close>

definition group_score :: "string \<Rightarrow> group \<Rightarrow> int" where
  "group_score name g = foldl (\<lambda>score dom. max score (domain_score name dom)) (-1) (g_domains g)"

definition match_step :: "string \<Rightarrow> int \<times> int \<times> group list \<Rightarrow> group \<Rightarrow> int \<times> int \<times> group list" where
  "match_step name st g =
     (case st of (best, priority, matched) \<Rightarrow>
       let score = group_score name g in
       if score < 0 then st
       else
         let (best', priority', matched') =
               (if score > best \<or> (score = best \<and> g_priority g < priority) then (score, g_priority g, [])
                else (best, priority, matched))
         in (best', priority', if score = best' \<and> g_priority g = priority' then matched' @ [g] else matched'))"

definition default_step :: "int \<times> group list \<Rightarrow> group \<Rightarrow> int \<times> group list" where
  "default_step st g =
     (case st of (priority, matched) \<Rightarrow>
       if \<not> g_default g then st
       else
         let (priority', matched') = (if g_priority g < priority then (g_priority g, []) else (priority, matched))
         in (priority', if g_priority g = priority' then matched' @ [g] else matched'))"

definition select_groups :: "group list \<Rightarrow> string \<Rightarrow> group list" where
  "select_groups groups name0 =
     (let name = trim_suffix (to_lower name0) ''.'';
          (best, priority, matched) = foldl (match_step name) (-1, max_int, []) groups
      in if best \<ge> 0 then matched
         else snd (foldl default_step (priority, matched) groups))"

section \<open>The choice is the best one\<close>

definition matches :: "string \<Rightarrow> group \<Rightarrow> bool" where
  "matches name g = (0 \<le> group_score name g)"

definition beats :: "string \<Rightarrow> group \<Rightarrow> group \<Rightarrow> bool" where
  "beats name h g =
     (group_score name h > group_score name g \<or>
      (group_score name h = group_score name g \<and> g_priority h < g_priority g))"

text \<open>
  The reference: the matching groups that no group beats; without a match, the default groups
  of the lowest priority number.
\<close>

definition best_groups :: "string \<Rightarrow> group list \<Rightarrow> group list" where
  "best_groups name groups =
     (if list_ex (matches name) groups
      then filter (\<lambda>g. matches name g \<and> \<not> list_ex (\<lambda>h. beats name h g) groups) groups
      else filter (\<lambda>g. g_default g \<and> \<not> list_ex (\<lambda>h. g_default h \<and> g_priority h < g_priority g) groups) groups)"

lemma match_loop:
  assumes "foldl (match_step name) (-1, max_int, []) groups = (best, priority, matched)"
  shows "(best = -1 \<and> priority = max_int \<and> matched = [] \<and> \<not> list_ex (matches name) groups) \<or>
    (0 \<le> best \<and> (\<exists>g \<in> set groups. group_score name g = best \<and> g_priority g = priority)
     \<and> (\<forall>g \<in> set groups. group_score name g < best \<or> (group_score name g = best \<and> priority \<le> g_priority g))
     \<and> matched = filter (\<lambda>g. group_score name g = best \<and> g_priority g = priority) groups)"
  using assms
proof (induction groups arbitrary: best priority matched rule: rev_induct)
  case (snoc g groups)
  obtain b p m where prev: "foldl (match_step name) (-1, max_int, []) groups = (b, p, m)"
    by (cases "foldl (match_step name) (-1, max_int, []) groups") auto
  let ?s = "group_score name g"
  have step: "match_step name (b, p, m) g = (best, priority, matched)" using snoc.prems prev by simp
  from snoc.IH [OF prev] consider
    (none) "b = -1" "p = max_int" "m = []" "\<not> list_ex (matches name) groups"
    | (some) "0 \<le> b" "\<exists>g \<in> set groups. group_score name g = b \<and> g_priority g = p"
      "\<forall>g \<in> set groups. group_score name g < b \<or> (group_score name g = b \<and> p \<le> g_priority g)"
      "m = filter (\<lambda>g. group_score name g = b \<and> g_priority g = p) groups" by blast
  then show ?case
  proof cases
    case none
    then have neg: "group_score name h < 0" if "h \<in> set groups" for h
      using that by (auto simp: list_ex_iff matches_def not_le)
    show ?thesis
    proof (cases "?s < 0")
      case True
      with step none show ?thesis by (auto simp: match_step_def matches_def [of name g])
    next
      case False
      with step none have "best = ?s" "priority = g_priority g" "matched = [g]" by (auto simp: match_step_def Let_def)
      moreover from neg False have "filter (\<lambda>h. group_score name h = ?s \<and> g_priority h = g_priority g) groups = []"
        by (force simp: filter_empty_conv)
      ultimately show ?thesis using neg False by (force simp: not_less)
    qed
  next
    case some
    show ?thesis
    proof (cases "?s > b \<or> (?s = b \<and> g_priority g < p)")
      case True
      with step some(1) have "best = ?s" "priority = g_priority g" "matched = [g]" by (auto simp: match_step_def Let_def)
      moreover from some(3) True have "filter (\<lambda>h. group_score name h = ?s \<and> g_priority h = g_priority g) groups = []"
        by (force simp: filter_empty_conv)
      ultimately show ?thesis using some(1,3) True by force
    next
      case False
      with step some(1) have "best = b" "priority = p" "matched = (if ?s = b \<and> g_priority g = p then m @ [g] else m)"
        by (auto simp: match_step_def Let_def split: if_splits)
      with some False show ?thesis by auto
    qed
  qed
qed simp

lemma default_loop:
  assumes "foldl default_step (max_int, []) groups = (priority, matched)" "\<forall>g \<in> set groups. g_priority g \<le> max_int"
  shows "(\<forall>g \<in> set groups. g_default g \<longrightarrow> priority \<le> g_priority g)
    \<and> matched = filter (\<lambda>g. g_default g \<and> g_priority g = priority) groups
    \<and> (priority = max_int \<or> (\<exists>g \<in> set groups. g_default g \<and> g_priority g = priority))"
  using assms
proof (induction groups arbitrary: priority matched rule: rev_induct)
  case (snoc g groups)
  obtain p m where prev: "foldl default_step (max_int, []) groups = (p, m)"
    by (cases "foldl default_step (max_int, []) groups") auto
  have step: "default_step (p, m) g = (priority, matched)" using snoc.prems prev by simp
  from snoc.IH [OF prev] snoc.prems(2) have IH: "\<forall>g \<in> set groups. g_default g \<longrightarrow> p \<le> g_priority g"
    "m = filter (\<lambda>g. g_default g \<and> g_priority g = p) groups"
    "p = max_int \<or> (\<exists>g \<in> set groups. g_default g \<and> g_priority g = p)" by auto
  consider "\<not> g_default g" | "g_default g" "g_priority g < p" | "g_default g" "p \<le> g_priority g" by linarith
  then show ?case
  proof cases
    case 2
    with step have "priority = g_priority g" "matched = [g]" by (auto simp: default_step_def)
    moreover from IH(1) 2 have "filter (\<lambda>h. g_default h \<and> g_priority h = g_priority g) groups = []"
      by (force simp: filter_empty_conv)
    ultimately show ?thesis using IH(1) 2 by force
  qed (use step IH in \<open>auto simp: default_step_def split: if_splits\<close>)
qed simp

lemma select_is_best:
  assumes "\<forall>g \<in> set groups. g_priority g \<le> max_int"
  shows "select_groups groups name = best_groups (trim_suffix (to_lower name) ''.'') groups"
proof -
  let ?n = "trim_suffix (to_lower name) ''.''"
  obtain b p m where loop: "foldl (match_step ?n) (-1, max_int, []) groups = (b, p, m)"
    by (cases "foldl (match_step ?n) (-1, max_int, []) groups") auto
  from match_loop [OF loop] show ?thesis
  proof
    assume none: "b = -1 \<and> p = max_int \<and> m = [] \<and> \<not> list_ex (matches ?n) groups"
    obtain q ms where dl: "foldl default_step (max_int, []) groups = (q, ms)"
      by (cases "foldl default_step (max_int, []) groups") auto
    note d = default_loop [OF dl assms]
    have "(g_default g \<and> g_priority g = q) \<longleftrightarrow>
        (g_default g \<and> \<not> list_ex (\<lambda>h. g_default h \<and> g_priority h < g_priority g) groups)" if "g \<in> set groups" for g
      using d that assms by (force simp: list_ex_iff)
    then have "ms = filter (\<lambda>g. g_default g \<and> \<not> list_ex (\<lambda>h. g_default h \<and> g_priority h < g_priority g) groups) groups"
      using d by (simp cong: filter_cong)
    with none loop dl show ?thesis by (simp add: select_groups_def best_groups_def)
  next
    assume some: "0 \<le> b \<and> (\<exists>g \<in> set groups. group_score ?n g = b \<and> g_priority g = p)
     \<and> (\<forall>g \<in> set groups. group_score ?n g < b \<or> (group_score ?n g = b \<and> p \<le> g_priority g))
     \<and> m = filter (\<lambda>g. group_score ?n g = b \<and> g_priority g = p) groups"
    have ex: "list_ex (matches ?n) groups" using some by (auto simp: list_ex_iff matches_def)
    have "(group_score ?n g = b \<and> g_priority g = p) \<longleftrightarrow> (matches ?n g \<and> \<not> list_ex (\<lambda>h. beats ?n h g) groups)"
      if "g \<in> set groups" for g
    proof
      assume "group_score ?n g = b \<and> g_priority g = p"
      with some show "matches ?n g \<and> \<not> list_ex (\<lambda>h. beats ?n h g) groups"
        by (fastforce simp: list_ex_iff matches_def beats_def)
    next
      assume m: "matches ?n g \<and> \<not> list_ex (\<lambda>h. beats ?n h g) groups"
      from some obtain g0 where g0: "g0 \<in> set groups" "group_score ?n g0 = b" "g_priority g0 = p" by blast
      with m have "\<not> beats ?n g0 g" by (auto simp: list_ex_iff)
      with g0 have "\<not> group_score ?n g < b" "group_score ?n g = b \<longrightarrow> g_priority g \<le> p" by (auto simp: beats_def)
      moreover from some that have "group_score ?n g < b \<or> (group_score ?n g = b \<and> p \<le> g_priority g)" by blast
      ultimately show "group_score ?n g = b \<and> g_priority g = p" by auto
    qed
    then have "m = filter (\<lambda>g. matches ?n g \<and> \<not> list_ex (\<lambda>h. beats ?n h g) groups) groups"
      using some by (simp cong: filter_cong)
    with some ex loop show ?thesis by (simp add: select_groups_def best_groups_def)
  qed
qed

section \<open>What discovery yields\<close>

lemma usable_ok:
  assumes "usable addrs d = (d', None)"
  shows "\<exists>own. local_addresses addrs = Inr own
    \<and> d_groups d' = map (\<lambda>g. g\<lparr>g_servers := filter (usable_server own) (g_servers g)\<rparr>) (d_groups d)
    \<and> (\<exists>g \<in> set (d_groups d'). g_servers g \<noteq> [])"
proof -
  from assms obtain own where own: "local_addresses addrs = Inr own"
    by (auto simp: usable_def split: sum.splits)
  let ?gs = "map (\<lambda>g. g\<lparr>g_servers := filter (usable_server own) (g_servers g)\<rparr>) (d_groups d)"
  from assms own have gs: "d_groups d' = ?gs" "sum_list (map (\<lambda>g. length (g_servers g)) ?gs) \<noteq> 0"
    by (auto simp: usable_def Let_def comp_def split: if_splits)
  from gs(2) obtain g where "g \<in> set ?gs" "length (g_servers g) \<noteq> 0"
    unfolding sum_list_eq_0_iff by (metis (no_types, lifting) imageE set_map)
  with own gs(1) show ?thesis by auto
qed

lemma usable_server_V4:
  "usable_server own s \<longleftrightarrow> (\<exists>w port. parse_addr_port s = Some (V4 w, port) \<and> drop_bit 24 w \<noteq> 127 \<and> w \<noteq> 0
     \<and> drop_bit 28 w \<noteq> 0xE \<and> V4 w \<notin> set own)"
proof (cases "parse_addr_port s")
  case (Some ap)
  then show ?thesis by (cases ap; cases "fst ap") (auto simp: usable_server_def)
qed (simp add: usable_server_def)

lemma join_v4 [simp]: "join_host_port (v4_string w) p = v4_string w @ '':'' @ p"
proof -
  have "CHR '':'' \<notin> set (v4_string w)" "CHR ''%'' \<notin> set (v4_string w)"
    using v4_string_chars [of "CHR '':''" w] v4_string_chars [of "CHR ''%''" w] by (auto simp: is_digit_def code_def)
  then show ?thesis by (simp add: join_host_port_def)
qed

definition endpoint_text :: "string \<Rightarrow> bool" where
  "endpoint_text s = (\<exists>w port. s = v4_string w @ '':'' @ itoa port \<and> 1 \<le> port \<and> port \<le> 65535)"

definition scutil_groups_ok :: "group list \<Rightarrow> bool" where
  "scutil_groups_ok gs = (\<forall>g \<in> set gs. (\<forall>s \<in> set (g_servers g). endpoint_text s) \<and> (g_default g \<longleftrightarrow> g_domains g = []))"

definition scutil_inv :: "scutil \<Rightarrow> bool" where
  "scutil_inv st =
     (scutil_groups_ok (sc_groups st) \<and> 1 \<le> sc_port st \<and> sc_port st \<le> 65535
      \<and> (\<forall>g. sc_group st = Some g \<longrightarrow> (\<forall>s \<in> set (g_servers g). \<exists>w. s = v4_string w)))"

lemma flush_inv: "scutil_inv st \<Longrightarrow> scutil_inv (flush st) \<and> scutil_groups_ok (sc_groups (flush st)) \<and> sc_group (flush st) = None"
proof (cases "sc_group st")
  case (Some g)
  assume inv: "scutil_inv st"
  have "endpoint_text (join_host_port s (itoa (sc_port st)))" if "s \<in> set (g_servers g)" for s
    using inv Some that unfolding scutil_inv_def endpoint_text_def by fastforce
  with inv Some show ?thesis by (auto simp: flush_def scutil_inv_def scutil_groups_ok_def)
qed (auto simp: flush_def scutil_inv_def)

lemma scutil_entry_inv:
  assumes "scutil_inv st" "sc_group st = Some g" "scutil_entry st g key value = Inr st'"
  shows "scutil_inv st'"
  using assms unfolding scutil_entry_def
  by (fastforce simp: scutil_inv_def split: if_splits option.splits addr.splits list.splits)

lemma scutil_lines_inv:
  assumes "scutil_inv st" "scutil_lines ls st = Finished st'"
  shows "scutil_inv st'"
  using assms
proof (induction ls arbitrary: st)
  case (Cons l ls)
  let ?line = "trim_space (drop_cr l)"
  show ?case
  proof (cases "length l \<ge> max_line \<or> has_prefix ?line ''DNS configuration (for scoped queries)''")
    case True
    with Cons.prems show ?thesis by (cases "length l \<ge> max_line") (simp_all add: Let_def)
  next
    case no: False
    show ?thesis
    proof (cases "has_prefix ?line ''resolver #''")
      case True
      have inv: "scutil_inv ((flush st)\<lparr>sc_group := Some empty_group, sc_seen := True\<rparr>)"
        using flush_inv [OF Cons.prems(1)] by (simp add: scutil_inv_def empty_group_def)
      have "scutil_lines ls ((flush st)\<lparr>sc_group := Some empty_group, sc_seen := True\<rparr>) = Finished st'"
        using Cons.prems(2) no True by (simp add: Let_def)
      from Cons.IH [OF inv this] show ?thesis .
    next
      case False
      obtain key value' ok where c: "cut ?line (CHR '':'') = (key, value', ok)" by (cases "cut ?line (CHR '':'')") auto
      show ?thesis
      proof (cases "sc_group st = None \<or> \<not> ok")
        case True
        then have "scutil_lines ls st = Finished st'" using Cons.prems(2) no False c
          by (cases "sc_group st") (auto simp: Let_def)
        from Cons.IH [OF Cons.prems(1) this] show ?thesis .
      next
        case some: False
        then obtain g where g: "sc_group st = Some g" "ok" by auto
        with Cons.prems(2) no False c obtain st1 where
          e: "scutil_entry st g (trim_space key) (trim_space value') = Inr st1" and r: "scutil_lines ls st1 = Finished st'"
          by (cases "scutil_entry st g (trim_space key) (trim_space value')") (auto simp: Let_def)
        from Cons.IH [OF scutil_entry_inv [OF Cons.prems(1) g(1) e] r] show ?thesis .
      qed
    qed
  qed
qed simp

lemma parse_scutil_ok:
  assumes "parse_scutil text = (d, None)"
  shows "scutil_groups_ok (d_groups d) \<and> d_groups d \<noteq> []"
proof -
  have "scutil_inv scutil_start" by (simp add: scutil_inv_def scutil_start_def scutil_groups_ok_def)
  with assms flush_inv scutil_lines_inv show ?thesis
    by (fastforce simp: parse_scutil_def Let_def split: scan_end.splits if_splits)
qed

text \<open>The group of one interface, where it has a link.\<close>

fun link_result :: "(int \<Rightarrow> link_reply) \<Rightarrow> (string \<Rightarrow> resolve_props res) \<Rightarrow> iface \<Rightarrow> group res option" where
  "link_result get_link link_props l =
     (case get_link (if_index l) of
       No_such_link \<Rightarrow> None
     | Link_error e \<Rightarrow> Some (Inl e)
     | Link_path path \<Rightarrow> Some (case link_props path of Inl e \<Rightarrow> Inl e | Inr p \<Rightarrow> link_group p (if_index l)))"

declare link_result.simps [simp del]

lemma link_groups_ok:
  "link_groups get_link link_props ls gs = (gs', None) \<longleftrightarrow>
     (\<forall>l \<in> set ls. \<forall>e. link_result get_link link_props l \<noteq> Some (Inl e))
     \<and> gs' = gs @ filter has_entries [g. l \<leftarrow> ls, Some (Inr g) \<leftarrow> [link_result get_link link_props l]]"
proof (induction ls arbitrary: gs)
  case (Cons l ls)
  show ?case
  proof (cases "link_result get_link link_props l")
    case None
    then have "get_link (if_index l) = No_such_link" by (auto simp: link_result.simps split: link_reply.splits)
    with Cons None show ?thesis by simp
  next
    case (Some r)
    then obtain path where path: "get_link (if_index l) = Link_path path \<or> (\<exists>e. get_link (if_index l) = Link_error e \<and> r = Inl e)"
      by (auto simp: link_result.simps split: link_reply.splits)
    show ?thesis
    proof (cases r)
      case (Inl e)
      with Some path have "snd (link_groups get_link link_props (l # ls) gs) \<noteq> None"
        by (auto simp: link_result.simps split: sum.splits link_reply.splits)
      with Some Inl show ?thesis by (metis list.set_intros(1) snd_conv)
    next
      case (Inr g)
      with Some path have "link_groups get_link link_props (l # ls) gs =
          link_groups get_link link_props ls (if has_entries g then gs @ [g] else gs)"
        by (auto simp: link_result.simps split: sum.splits link_reply.splits)
      with Cons Some Inr show ?thesis by (simp del: link_groups.simps)
    qed
  qed
qed auto

section \<open>Properties\<close>

text \<open>C14: \<^verbatim>\<open>Select\<close> makes the reference choice: the groups whose routing domains
  match the name most specifically, among them those of the lowest priority number, in order; only
  when no group matches, the default groups of the lowest priority number.  So a name with a
  routing domain is never sent to another group.\<close>

theorem select_most_specific:
  assumes "\<forall>g \<in> set groups. g_priority g \<le> max_int"
  shows "select_groups groups name = best_groups (trim_suffix (to_lower name) ''.'') groups"
  using assms by (rule select_is_best)

definition sample_groups :: "group list" where
  "sample_groups =
     [empty_group\<lparr>g_servers := [''1.1.1.1:53''], g_default := True\<rparr>,
      empty_group\<lparr>g_servers := [''10.0.0.1:53''], g_domains := [''corp''], g_priority := 1\<rparr>,
      empty_group\<lparr>g_servers := [''10.0.0.2:53''], g_domains := [''~a.corp.''], g_priority := 7\<rparr>]"

theorem select_most_specific_witness:
  "select_groups sample_groups ''X.A.corp.'' = [sample_groups ! 2]
   \<and> select_groups sample_groups ''X.A.corp.'' = best_groups (trim_suffix (to_lower ''X.A.corp.'') ''.'') sample_groups"
proof -
  have p: "\<forall>g \<in> set sample_groups. g_priority g \<le> max_int"
    by (simp add: sample_groups_def empty_group_def max_int_def)
  have "select_groups sample_groups ''X.A.corp.'' = [sample_groups ! 2]"
    by (simp add: select_groups_def sample_groups_def empty_group_def match_step_def group_score_def domain_score_def
        to_lower_def lower_char_def code_def char_evals trim_suffix_dot trim_prefix_def split_on_def suffix_def Let_def max_def)
  with select_most_specific [OF p, of "''X.A.corp.''"] show ?thesis by simp
qed

text \<open>Automatic discovery never yields a resolver that leads back to this machine: on
  both platforms every discovered server is an IPv4 endpoint that is not a loopback, unspecified,
  multicast or local address, and there is at least one.\<close>

theorem discovered_servers_usable:
  assumes "discover_darwin cmd_out addrs = (d, None) \<or>
    discover_linux resolv_path stub owner via_bus client_config addrs = (d, None)"
  shows "\<exists>own. local_addresses addrs = Inr own \<and> (\<exists>g \<in> set (d_groups d). g_servers g \<noteq> [])
    \<and> (\<forall>g \<in> set (d_groups d). \<forall>s \<in> set (g_servers g). \<exists>w port. parse_addr_port s = Some (V4 w, port)
        \<and> drop_bit 24 w \<noteq> 127 \<and> w \<noteq> 0 \<and> drop_bit 28 w \<noteq> 0xE \<and> V4 w \<notin> set own)"
proof -
  from assms obtain d0 where "usable addrs d0 = (d, None)"
    by (auto simp: discover_darwin_def discover_linux_def Let_def split: sum.splits prod.splits option.splits if_splits)
  from usable_ok [OF this] obtain own where own: "local_addresses addrs = Inr own"
    "d_groups d = map (\<lambda>g. g\<lparr>g_servers := filter (usable_server own) (g_servers g)\<rparr>) (d_groups d0)"
    "\<exists>g \<in> set (d_groups d). g_servers g \<noteq> []" by blast
  have "\<forall>g \<in> set (d_groups d). \<forall>s \<in> set (g_servers g). usable_server own s" unfolding own(2) by auto
  with own(1,3) show ?thesis unfolding usable_server_V4 by blast
qed

theorem discovered_servers_usable_witness:
  "\<exists>d g. discover_linux ''/etc/resolv.conf'' False False (undefined, None) (Inr ([''9.9.9.9'', ''127.0.0.53''], ''53'')) (Inr [''10.0.0.2/24'']) = (d, None)
     \<and> g \<in> set (d_groups d) \<and> g_servers g = [''9.9.9.9:53'']
     \<and> (\<forall>s \<in> set (g_servers g). \<exists>w port. parse_addr_port s = Some (V4 w, port) \<and> drop_bit 24 w \<noteq> 127)"
proof -
  let ?run = "discover_linux ''/etc/resolv.conf'' False False (undefined, None) (Inr ([''9.9.9.9'', ''127.0.0.53''], ''53'')) (Inr [''10.0.0.2/24''])"
  let ?d = "\<lparr>d_source = ''/etc/resolv.conf'', d_routing = ''default-only'',
      d_groups = [empty_group\<lparr>g_default := True, g_servers := [''9.9.9.9:53'']\<rparr>]\<rparr>"
  have own: "local_addresses (Inr [''10.0.0.2/24'']) = Inr [V4 0x0A000002]"
    by (simp add: local_addresses_def netip_evals)
  have ip: "is_ip4 ''9.9.9.9''" "is_ip4 ''127.0.0.53''" by (simp_all add: is_ip4_def netip_evals)
  have u: "usable_server [V4 0x0A000002] ''9.9.9.9:53''" "\<not> usable_server [V4 0x0A000002] ''127.0.0.53:53''"
    by (simp_all add: usable_server_def netip_evals)
  have run: "?run = (?d, None)"
    by (simp add: discover_linux_def usable_def own ip u join_host_port_def sublist_code)
  have "discover_darwin cmd_out (Inr [''10.0.0.2/24'']) = (?d, None) \<or> ?run = (?d, None)" for cmd_out using run by blast
  from discovered_servers_usable [OF this] run show ?thesis by fastforce
qed

text \<open>Every group read from \<^verbatim>\<open>scutil\<close> has only servers of the form IPv4
  address, colon, port with a port in range, and is a default group exactly when it has no
  domains.\<close>

theorem scutil_groups_wellformed:
  assumes "parse_scutil text = (d, None)"
  shows "d_groups d \<noteq> [] \<and> (\<forall>g \<in> set (d_groups d). (g_default g \<longleftrightarrow> g_domains g = [])
    \<and> (\<forall>s \<in> set (g_servers g). \<exists>w port. s = v4_string w @ '':'' @ itoa port \<and> 1 \<le> port \<and> port \<le> 65535))"
  using parse_scutil_ok [OF assms] by (auto simp: scutil_groups_ok_def endpoint_text_def)

definition sample_scutil :: string where
  "sample_scutil = ''resolver #1'' @ [newline] @ ''  nameserver[0] : 9.9.9.9'' @ [newline] @ ''  port : 5353'' @ [newline]
     @ ''resolver #2'' @ [newline] @ ''  domain : Corp.'' @ [newline]"

theorem scutil_groups_wellformed_witness:
  "\<exists>d g. parse_scutil sample_scutil = (d, None) \<and> d_groups d = [empty_group\<lparr>g_servers := [''9.9.9.9:5353''], g_default := True\<rparr>, g]
     \<and> g_domains g = [''corp''] \<and> (g_default g \<longleftrightarrow> g_domains g = [])"
proof -
  let ?d = "\<lparr>d_source = ''scutil --dns'', d_routing = ''domain-aware'',
      d_groups = [empty_group\<lparr>g_servers := [''9.9.9.9:5353''], g_default := True\<rparr>, empty_group\<lparr>g_domains := [''corp'']\<rparr>]\<rparr>"
  have "split_on newline sample_scutil = [''resolver #1'', ''  nameserver[0] : 9.9.9.9'', ''  port : 5353'', ''resolver #2'', ''  domain : Corp.'', []]"
    by (simp add: split_on_def sample_scutil_def)
  then have ls: "scan_lines sample_scutil = [''resolver #1'', ''  nameserver[0] : 9.9.9.9'', ''  port : 5353'', ''resolver #2'', ''  domain : Corp.'']"
    by (simp add: scan_lines_def)
  have tr: "trim_space (drop_cr ''  nameserver[0] : 9.9.9.9'') = ''nameserver[0] : 9.9.9.9''"
    "trim_space (drop_cr ''  port : 5353'') = ''port : 5353''" "trim_space (drop_cr ''  domain : Corp.'') = ''domain : Corp.''"
    "trim_space (drop_cr ''resolver #1'') = ''resolver #1''" "trim_space (drop_cr ''resolver #2'') = ''resolver #2''"
    "trim_space ''nameserver[0] '' = ''nameserver[0]''" "trim_space '' 9.9.9.9'' = ''9.9.9.9''" "trim_space ''port '' = ''port''"
    "trim_space '' 5353'' = ''5353''" "trim_space ''domain '' = ''domain''" "trim_space '' Corp.'' = ''Corp.''"
    by (simp_all add: trim_space_def drop_cr_def is_space_def code_def)
  have ns: "parse_addr ''9.9.9.9'' = Some (V4 0x09090909)" by (simp add: netip_evals)
  then have v: "v4_string 0x09090909 = ''9.9.9.9''" by (simp add: parse_addr_V4)
  have nn: "atoi ''5353'' = Some 5353" "itoa 5353 = ''5353''" "to_lower ''Corp.'' = ''corp.''"
    by (simp_all add: netip_evals itoa_def dec.simps digit_char_def to_lower_def lower_char_def char_evals)
  have jv: "join_host_port ''9.9.9.9'' p = ''9.9.9.9:'' @ p" for p by (simp add: join_host_port_def)
  have run: "parse_scutil sample_scutil = (?d, None)"
    by (simp add: parse_scutil_def ls scutil_start_def max_line_def tr cut_def scutil_entry_def ns v nn jv trim_suffix_dot
        flush_def empty_group_def Let_def)
  from scutil_groups_wellformed [OF run] run show ?thesis by simp
qed

text \<open>Discovery over systemd-resolved is complete and fails closed: it succeeds exactly
  when every query succeeded and neither the manager nor a link demands DNS over TLS, and then
  the groups are the global one and those of all links, in order, that have servers or domains.\<close>

theorem resolved_complete:
  "resolved_discovery manager interfaces get_link link_props = (d, None) \<longleftrightarrow>
     (\<exists>p g ls. manager = Inr p \<and> rp_over_tls p \<noteq> Some ''yes'' \<and> manager_group p = Inr g \<and> interfaces = Inr ls
       \<and> \<not> (\<exists>l \<in> set ls. \<exists>e. link_result get_link link_props l = Some (Inl e))
       \<and> d = \<lparr>d_source = ''org.freedesktop.resolve1'', d_routing = ''domain-aware'',
           d_groups = filter has_entries (g # [h. l \<leftarrow> ls, Some (Inr h) \<leftarrow> [link_result get_link link_props l]])\<rparr>)"
proof (cases "\<exists>p g ls. manager = Inr p \<and> rp_over_tls p \<noteq> Some ''yes'' \<and> manager_group p = Inr g \<and> interfaces = Inr ls")
  case True
  then obtain p g ls where m: "manager = Inr p" "rp_over_tls p \<noteq> Some ''yes''" "manager_group p = Inr g" "interfaces = Inr ls"
    by blast
  let ?gs = "if has_entries g then [g] else []"
  obtain gs' err where r: "link_groups get_link link_props ls ?gs = (gs', err)"
    by (cases "link_groups get_link link_props ls ?gs") auto
  let ?all = "[h. l \<leftarrow> ls, Some (Inr h) \<leftarrow> [link_result get_link link_props l]]"
  have ok: "err = None \<and> gs' = x \<longleftrightarrow>
      (\<forall>l \<in> set ls. \<forall>e. link_result get_link link_props l \<noteq> Some (Inl e)) \<and> x = filter has_entries (g # ?all)" for x
    using link_groups_ok [of get_link link_props ls ?gs x] r by auto
  have "resolved_discovery manager interfaces get_link link_props =
      (\<lparr>d_source = ''org.freedesktop.resolve1'', d_routing = ''domain-aware'', d_groups = gs'\<rparr>, err)"
    using m r by (simp add: resolved_discovery_def Let_def)
  then have "resolved_discovery manager interfaces get_link link_props = (d, None) \<longleftrightarrow>
      (\<exists>x. (err = None \<and> gs' = x) \<and> d = \<lparr>d_source = ''org.freedesktop.resolve1'', d_routing = ''domain-aware'', d_groups = x\<rparr>)"
    by auto
  then show ?thesis unfolding ok using m by auto
next
  case False
  then show ?thesis by (auto simp: resolved_discovery_def Let_def split: sum.splits if_splits prod.splits)
qed

end
