(* ===== verification/Resolve.thy ===== *)
theory Resolve
  imports Netip
begin

unbundle bit_operations_syntax

text \<open>
  \<^verbatim>\<open>internal/dns/resolver.go\<close>, function \<^verbatim>\<open>resolve\<close>: one name at one server,
  aliases followed.  The DNS library is a parameter: \<open>dl_exchange\<close> answers the query of a hop
  over UDP or TCP, \<open>dl_id\<close> is the identifier of the query of a hop, \<open>dl_rcode\<close> the name of a
  response code.  The lemmas: an answer comes from address records of the end of the alias chain
  of the queried name, with a time to live bounded by every record used; and the follow-up query
  for an alias whose records were supplied without an address is never sent.
\<close>

section \<open>Messages\<close>

datatype rdata = A "8 word list" | CNAME string | Other_rr

record rr =
  rr_name :: string
  rr_class :: nat
  rr_ttl :: "32 word"
  rr_data :: rdata

record msg =
  m_response :: bool
  m_truncated :: bool
  m_opcode :: nat
  m_id :: "16 word"
  m_question :: "(string \<times> nat \<times> nat) list"
  m_rcode :: nat
  m_answer :: "rr list"

record dnslib =
  dl_exchange :: "nat \<Rightarrow> bool \<Rightarrow> string \<Rightarrow> int \<Rightarrow> string \<Rightarrow> msg res"
  dl_id :: "nat \<Rightarrow> 16 word"
  dl_rcode :: "nat \<Rightarrow> string"

definition TypeA :: nat where "TypeA = 1"
definition ClassINET :: nat where "ClassINET = 1"
definition OpcodeQuery :: nat where "OpcodeQuery = 0"
definition RcodeSuccess :: nat where "RcodeSuccess = 0"
definition RcodeNameError :: nat where "RcodeNameError = 3"

text \<open>The errors that end a lookup at once (\<^verbatim>\<open>nameError\<close>), and all others.\<close>

datatype dns_error = Name_error string | Dns_error go_error

definition equal_fold :: "string \<Rightarrow> string \<Rightarrow> bool" where
  "equal_fold a b = (to_lower a = to_lower b)"

text \<open>\<^verbatim>\<open>netip.AddrFromSlice\<close>.\<close>

definition addr_from_slice :: "8 word list \<Rightarrow> addr option" where
  "addr_from_slice bs =
     (if length bs = 4 then Some (V4 (word_of_nat (bytes_val (map unat bs))))
      else if length bs = 16 then Some (V6 (word_of_nat (bytes_val (map unat bs))) [])
      else None)"

section \<open>Following aliases\<close>

text \<open>The loop over the answer: addresses, alias and time to live of one owner.\<close>

fun scan_answer :: "string \<Rightarrow> rr list \<Rightarrow> addr list \<Rightarrow> string \<Rightarrow> 32 word \<Rightarrow> dns_error + (addr list \<times> string \<times> 32 word)" where
  "scan_answer owner [] ips al ttl = Inr (ips, al, ttl)"
| "scan_answer owner (rr # rrs) ips al ttl =
     (if rr_class rr \<noteq> ClassINET \<or> \<not> equal_fold (rr_name rr) owner then scan_answer owner rrs ips al ttl
      else
        (case rr_data rr of
          A bs \<Rightarrow>
            (case addr_from_slice bs of
              Some ip \<Rightarrow> scan_answer owner rrs (ips @ [unmap ip]) al (min ttl (rr_ttl rr))
            | None \<Rightarrow> scan_answer owner rrs ips al ttl)
        | CNAME t \<Rightarrow>
            if al \<noteq> [] \<and> al \<noteq> to_lower t then Inl (Dns_error (New ''dns_conflicting_cname''))
            else scan_answer owner rrs ips (to_lower t) (min ttl (rr_ttl rr))
        | Other_rr \<Rightarrow> scan_answer owner rrs ips al ttl))"

datatype chain_result =
    Answer "addr list" "32 word"
  | Chain_error dns_error
  | Query_next string "string list" "32 word"

text \<open>\<open>seen\<close> holds the names seen so far, each once, so its length is the size of the map.\<close>

function chain :: "string \<Rightarrow> rr list \<Rightarrow> string \<Rightarrow> string list \<Rightarrow> 32 word \<Rightarrow> chain_result" where
  "chain name answers owner seen ttl =
     (case scan_answer owner answers [] [] ttl of
       Inl e \<Rightarrow> Chain_error e
     | Inr (ips, al, ttl') \<Rightarrow>
         if ips \<noteq> [] then
           (if al \<noteq> [] then Chain_error (Dns_error (New ''dns_conflicting_address_and_cname'')) else Answer ips ttl')
         else if al = [] then
           (if owner \<noteq> name then Query_next owner seen ttl'
            else Chain_error (Name_error (''dns_no_ipv4_address: '' @ name)))
         else if al \<in> set seen \<or> length seen > 8 then Chain_error (Dns_error (New ''dns_cname_cycle_or_limit''))
         else if \<not> list_ex (\<lambda>rr. equal_fold (rr_name rr) al) answers then Query_next al seen ttl'
         else chain name answers al (al # seen) ttl')"
  by pat_completeness auto
termination
  by (relation "measure (\<lambda>(name, answers, owner, seen, ttl). 9 - length seen)") auto

declare chain.simps [simp del]

text \<open>The reply of a hop: over TCP again when it was truncated, then checked.\<close>

definition accepted :: "dnslib \<Rightarrow> string \<Rightarrow> int \<Rightarrow> nat \<Rightarrow> string \<Rightarrow> dns_error + msg" where
  "accepted lib server index hop name =
     (case dl_exchange lib hop False server index name of
       Inl e \<Rightarrow> Inl (Dns_error (Wrapf (''dns_query '' @ server) e))
     | Inr m0 \<Rightarrow>
         (case (if m_truncated m0 then dl_exchange lib hop True server index name else Inr m0) of
           Inl e \<Rightarrow> Inl (Dns_error e)
         | Inr m \<Rightarrow>
             if \<not> m_response m \<or> m_truncated m \<or> m_opcode m \<noteq> OpcodeQuery \<or> m_id m \<noteq> dl_id lib hop
               \<or> \<not> (case m_question m of [(n, t, c)] \<Rightarrow> equal_fold n name \<and> t = TypeA \<and> c = ClassINET | _ \<Rightarrow> False)
             then Inl (Dns_error (New ''dns_malformed_response''))
             else if m_rcode m = RcodeNameError then Inl (Name_error (''dns_nxdomain: '' @ name))
             else if m_rcode m \<noteq> RcodeSuccess then Inl (Dns_error (New (''dns_server_error: '' @ dl_rcode lib (m_rcode m))))
             else Inr m))"

fun resolve_hops :: "dnslib \<Rightarrow> string \<Rightarrow> int \<Rightarrow> nat \<Rightarrow> nat \<Rightarrow> string \<Rightarrow> string list \<Rightarrow> 32 word
    \<Rightarrow> dns_error + (addr list \<times> 32 word)" where
  "resolve_hops lib server index 0 hop name seen ttl = Inl (Dns_error (New ''dns_cname_limit''))"
| "resolve_hops lib server index (Suc k) hop name seen ttl =
     (if name \<in> set seen then Inl (Dns_error (New ''dns_cname_cycle''))
      else
        (case accepted lib server index hop name of
          Inl e \<Rightarrow> Inl e
        | Inr m \<Rightarrow>
            (case chain name (m_answer m) name (name # seen) ttl of
              Answer ips ttl' \<Rightarrow> Inr (ips, ttl')
            | Chain_error e \<Rightarrow> Inl e
            | Query_next name' seen' ttl' \<Rightarrow> resolve_hops lib server index k (Suc hop) name' seen' ttl')))"

text \<open>\<^verbatim>\<open>for hop := 0; hop <= 8; hop++\<close>, the time to live starting at the largest value.\<close>

definition resolve_name :: "dnslib \<Rightarrow> string \<Rightarrow> int \<Rightarrow> string \<Rightarrow> dns_error + (addr list \<times> 32 word)" where
  "resolve_name lib server index name = resolve_hops lib server index 9 0 name [] (NOT 0)"

section \<open>Soundness\<close>

text \<open>The records of all replies accepted from a server.\<close>

definition records :: "dnslib \<Rightarrow> string \<Rightarrow> int \<Rightarrow> rr set" where
  "records lib server index = {rr. \<exists>hop name m. hop \<le> 8 \<and> accepted lib server index hop name = Inr m \<and> rr \<in> set (m_answer m)}"

text \<open>One alias step by a record that lives at least \<open>t\<close>; an address of an owner.\<close>

definition alias_step :: "rr set \<Rightarrow> 32 word \<Rightarrow> string \<Rightarrow> string \<Rightarrow> bool" where
  "alias_step R t a b = (\<exists>rr \<in> R. rr_class rr = ClassINET \<and> equal_fold (rr_name rr) a \<and> t \<le> rr_ttl rr
     \<and> (\<exists>c. rr_data rr = CNAME c \<and> b = to_lower c))"

definition address_of :: "rr set \<Rightarrow> 32 word \<Rightarrow> string \<Rightarrow> addr \<Rightarrow> bool" where
  "address_of R t owner ip = (\<exists>rr \<in> R. rr_class rr = ClassINET \<and> equal_fold (rr_name rr) owner \<and> t \<le> rr_ttl rr
     \<and> (\<exists>bs a. rr_data rr = A bs \<and> addr_from_slice bs = Some a \<and> ip = unmap a))"

lemma alias_step_mono: "alias_step R t a b \<Longrightarrow> R \<subseteq> R' \<Longrightarrow> t' \<le> t \<Longrightarrow> alias_step R' t' a b"
  unfolding alias_step_def by (meson order_trans subsetD)

lemma address_of_mono: "address_of R t a b \<Longrightarrow> R \<subseteq> R' \<Longrightarrow> t' \<le> t \<Longrightarrow> address_of R' t' a b"
  unfolding address_of_def by (meson order_trans subsetD)

lemma alias_path_mono:
  "(alias_step R t)\<^sup>*\<^sup>* a b \<Longrightarrow> R \<subseteq> R' \<Longrightarrow> t' \<le> t \<Longrightarrow> (alias_step R' t')\<^sup>*\<^sup>* a b"
  by (induction rule: rtranclp_induct) (auto intro: alias_step_mono rtranclp.rtrancl_into_rtrancl)

lemma scan_answer_sound:
  assumes "scan_answer owner rrs ips al ttl = Inr (ips', al', ttl')"
    and "set rrs \<subseteq> R" "\<forall>ip \<in> set ips. address_of R ttl owner ip" "al \<noteq> [] \<longrightarrow> alias_step R ttl owner al"
  shows "ttl' \<le> ttl \<and> (\<forall>ip \<in> set ips'. address_of R ttl' owner ip) \<and> (al' \<noteq> [] \<longrightarrow> alias_step R ttl' owner al')"
  using assms
proof (induction rrs arbitrary: ips al ttl)
  case (Cons rr rrs)
  have R: "rr \<in> R" "set rrs \<subseteq> R" using Cons.prems(2) by auto
  let ?t = "min ttl (rr_ttl rr)"
  have weaken: "\<forall>ip \<in> set ips. address_of R ?t owner ip" "al \<noteq> [] \<longrightarrow> alias_step R ?t owner al"
    using Cons.prems(3,4) address_of_mono [of R ttl owner _ R ?t] alias_step_mono [of R ttl owner al R ?t] by auto
  note same = Cons.IH [OF _ R(2) Cons.prems(3,4)]
  show ?case
  proof (cases "rr_class rr \<noteq> ClassINET \<or> \<not> equal_fold (rr_name rr) owner")
    case True
    with Cons.prems(1) show ?thesis by (intro same) simp
  next
    case in_class: False
    show ?thesis
    proof (cases "rr_data rr")
      case (A bs)
      show ?thesis
      proof (cases "addr_from_slice bs")
        case None
        with Cons.prems(1) A in_class show ?thesis by (intro same) simp
      next
        case (Some ip)
        have "address_of R ?t owner (unmap ip)"
          using R(1) in_class A Some unfolding address_of_def by auto
        with weaken have ok: "\<forall>i \<in> set (ips @ [unmap ip]). address_of R ?t owner i" by auto
        have run: "scan_answer owner rrs (ips @ [unmap ip]) al ?t = Inr (ips', al', ttl')"
          using Cons.prems(1) in_class A Some by simp
        from Cons.IH [OF run R(2) ok weaken(2)] show ?thesis by auto
      qed
    next
      case (CNAME c)
      have step: "alias_step R ?t owner (to_lower c)"
        using R(1) in_class CNAME unfolding alias_step_def by auto
      have run: "scan_answer owner rrs ips (to_lower c) ?t = Inr (ips', al', ttl')"
        using Cons.prems(1) in_class CNAME by (auto split: if_splits)
      from Cons.IH [OF run R(2) weaken(1)] step show ?thesis by auto
    next
      case Other_rr
      with Cons.prems(1) in_class show ?thesis by (intro same) simp
    qed
  qed
qed auto

lemma chain_sound:
  assumes "set answers \<subseteq> R" "(alias_step R ttl)\<^sup>*\<^sup>* start owner"
  shows "(chain name answers owner seen ttl = Answer ips t \<longrightarrow> t \<le> ttl \<and> ips \<noteq> [] \<and>
      (\<exists>o'. (alias_step R t)\<^sup>*\<^sup>* start o' \<and> (\<forall>ip \<in> set ips. address_of R t o' ip)))
    \<and> (chain name answers owner seen ttl = Query_next n s t \<longrightarrow> t \<le> ttl \<and> (alias_step R t)\<^sup>*\<^sup>* start n)"
  using assms
proof (induction name answers owner seen ttl rule: chain.induct)
  case (1 name answers owner seen ttl)
  show ?case
  proof (cases "scan_answer owner answers [] [] ttl")
    case (Inl e)
    then show ?thesis by (simp add: chain.simps [of name answers owner])
  next
    case (Inr r)
    obtain ips' al t' where r: "r = (ips', al, t')" by (cases r) auto
    from scan_answer_sound [OF Inr [unfolded r] "1.prems"(1)]
    have sc: "t' \<le> ttl" "\<forall>ip \<in> set ips'. address_of R t' owner ip" "al \<noteq> [] \<longrightarrow> alias_step R t' owner al" by auto
    have path: "(alias_step R t')\<^sup>*\<^sup>* start owner" using alias_path_mono [OF "1.prems"(2) order_refl sc(1)] .
    then have path': "(alias_step R t')\<^sup>*\<^sup>* start al" if "al \<noteq> []" using that sc(3) by (auto intro: rtranclp.rtrancl_into_rtrancl)
    show ?thesis
    proof (cases "ips' = [] \<and> al \<noteq> [] \<and> \<not> (al \<in> set seen \<or> length seen > 8) \<and> list_ex (\<lambda>rr. equal_fold (rr_name rr) al) answers")
      case True
      then have eq: "chain name answers owner seen ttl = chain name answers al (al # seen) t'"
        by (subst chain.simps) (simp add: Inr r)
      have "(chain name answers al (al # seen) t' = Answer ips t \<longrightarrow> t \<le> t' \<and> ips \<noteq> [] \<and>
          (\<exists>o'. (alias_step R t)\<^sup>*\<^sup>* start o' \<and> (\<forall>ip \<in> set ips. address_of R t o' ip)))
        \<and> (chain name answers al (al # seen) t' = Query_next n s t \<longrightarrow> t \<le> t' \<and> (alias_step R t)\<^sup>*\<^sup>* start n)"
        by (rule "1.IH" [OF Inr r [symmetric] refl]) (use True path' "1.prems"(1) in auto)
      then show ?thesis unfolding eq using sc(1) by (meson order_trans)
    next
      case False
      then have "(chain name answers owner seen ttl = Answer ips t \<longrightarrow> ips = ips' \<and> ips' \<noteq> [] \<and> t = t')
        \<and> (chain name answers owner seen ttl = Query_next n s t \<longrightarrow> t = t' \<and> (n = owner \<or> (al \<noteq> [] \<and> n = al)))"
        by (subst (1 2) chain.simps) (auto simp: Inr r)
      with sc path path' show ?thesis by blast
    qed
  qed
qed

lemma resolve_hops_sound:
  assumes "resolve_hops lib server index k hop name seen ttl = Inr (ips, t)" "k + hop = 9"
    and "(alias_step (records lib server index) ttl)\<^sup>*\<^sup>* start name"
  shows "ips \<noteq> [] \<and> t \<le> ttl \<and> (\<exists>owner. (alias_step (records lib server index) t)\<^sup>*\<^sup>* start owner
    \<and> (\<forall>ip \<in> set ips. address_of (records lib server index) t owner ip))"
  using assms
proof (induction k arbitrary: hop name seen ttl)
  case (Suc k)
  from Suc.prems(1) obtain m where m: "accepted lib server index hop name = Inr m" by (auto split: if_splits sum.splits)
  from Suc.prems(2) have "hop \<le> 8" by simp
  with m have R: "set (m_answer m) \<subseteq> records lib server index" unfolding records_def by blast
  note cs = chain_sound [OF R Suc.prems(3), of name "name # seen"]
  show ?case
  proof (cases "chain name (m_answer m) name (name # seen) ttl")
    case (Answer ips' t')
    with Suc.prems(1) m have "ips' = ips" "t' = t" by (auto split: if_splits)
    with cs [of ips t] Answer show ?thesis by auto
  next
    case (Chain_error e)
    with Suc.prems(1) m show ?thesis by (auto split: if_splits)
  next
    case (Query_next n s t')
    with Suc.prems(1) m have "resolve_hops lib server index k (Suc hop) n s t' = Inr (ips, t)" by (auto split: if_splits)
    from Suc.IH [OF this] cs [of _ t' n s] Query_next Suc.prems(2) show ?thesis by (auto intro: order_trans)
  qed
qed simp

section \<open>The follow-up query that is never sent\<close>

text \<open>An owner reached inside one answer has been recorded as seen already.\<close>

lemma chain_next_seen:
  "chain name answers owner seen ttl = Query_next n s t \<Longrightarrow> owner \<in> set seen \<Longrightarrow>
     set seen \<subseteq> set s \<and> (n \<in> set s \<or> \<not> list_ex (\<lambda>rr. equal_fold (rr_name rr) n) answers)"
proof (induction name answers owner seen ttl rule: chain.induct)
  case (1 name answers owner seen ttl)
  show ?case
  proof (cases "scan_answer owner answers [] [] ttl")
    case (Inr r)
    obtain ips' al t' where r: "r = (ips', al, t')" by (cases r) auto
    show ?thesis
    proof (cases "ips' = [] \<and> al \<noteq> [] \<and> \<not> (al \<in> set seen \<or> length seen > 8) \<and> list_ex (\<lambda>rr. equal_fold (rr_name rr) al) answers")
      case True
      then have "chain name answers al (al # seen) t' = Query_next n s t"
        using "1.prems"(1) by (subst (asm) chain.simps) (simp add: Inr r)
      from "1.IH" [OF Inr r [symmetric] refl _ _ _ _ this] True show ?thesis by auto
    next
      case False
      with "1.prems" show ?thesis by (subst (asm) chain.simps) (auto simp: Inr r split: if_splits)
    qed
  qed (use "1.prems" in \<open>simp add: chain.simps [of name answers owner]\<close>)
qed

section \<open>Properties\<close>

text \<open>C11: a resolved address is never an unrelated one: it is in an address record of class
  IN of the owner at the end of an alias chain that starts at the queried name and is made of
  alias records of replies that were checked; the time to live returned is at most that of every
  record used; and there is at least one address.\<close>

theorem resolve_sound:
  assumes "resolve_name lib server index name = Inr (ips, ttl)"
  shows "ips \<noteq> [] \<and> (\<exists>owner. (alias_step (records lib server index) ttl)\<^sup>*\<^sup>* name owner
    \<and> (\<forall>ip \<in> set ips. address_of (records lib server index) ttl owner ip))"
  using resolve_hops_sound [OF assms [unfolded resolve_name_def], of name] by auto

text \<open>A server that answers every query from one list of records.\<close>

definition answer_with :: "rr list \<Rightarrow> dnslib" where
  "answer_with rrs =
     \<lparr>dl_exchange = (\<lambda>hop tcp server index name. Inr \<lparr>m_response = True, m_truncated = False, m_opcode = 0, m_id = 7,
        m_question = [(name, 1, 1)], m_rcode = 0, m_answer = rrs\<rparr>),
      dl_id = (\<lambda>hop. 7), dl_rcode = (\<lambda>n. [])\<rparr>"

lemma accepted_answer_with:
  "accepted (answer_with rrs) server index hop name = Inr \<lparr>m_response = True, m_truncated = False, m_opcode = 0, m_id = 7,
     m_question = [(name, 1, 1)], m_rcode = 0, m_answer = rrs\<rparr>"
  by (simp add: accepted_def answer_with_def OpcodeQuery_def TypeA_def ClassINET_def RcodeNameError_def RcodeSuccess_def
      equal_fold_def)

lemmas answer_evals = equal_fold_def ClassINET_def to_lower_def lower_char_def code_def addr_from_slice_def bytes_val_def

definition sample_answer :: "rr list" where
  "sample_answer =
     [\<lparr>rr_name = ''a.'', rr_class = 1, rr_ttl = 60, rr_data = CNAME ''b.''\<rparr>,
      \<lparr>rr_name = ''b.'', rr_class = 1, rr_ttl = 30, rr_data = A [9, 9, 9, 9]\<rparr>,
      \<lparr>rr_name = ''c.'', rr_class = 1, rr_ttl = 5, rr_data = A [6, 6, 6, 6]\<rparr>]"

lemma sample_resolves:
  "resolve_name (answer_with sample_answer) ''9.9.9.9:53'' 0 ''a.'' = Inr ([V4 0x09090909], 30)"
proof -
  have "chain ''a.'' sample_answer ''b.'' [''b.'', ''a.''] 60 = Answer [V4 0x09090909] 30"
    by (subst chain.simps) (simp add: answer_evals sample_answer_def)
  then have "chain ''a.'' sample_answer ''a.'' [''a.''] (NOT 0) = Answer [V4 0x09090909] 30"
    by (subst chain.simps) (simp add: answer_evals sample_answer_def)
  then have "resolve_hops (answer_with sample_answer) ''9.9.9.9:53'' 0 (Suc 8) 0 ''a.'' [] (NOT 0) = Inr ([V4 0x09090909], 30)"
    unfolding resolve_hops.simps(2) [of _ _ _ 8] accepted_answer_with by simp
  then show ?thesis by (simp add: resolve_name_def)
qed

theorem resolve_sound_witness:
  "\<exists>owner. (alias_step (records (answer_with sample_answer) ''9.9.9.9:53'' 0) 30)\<^sup>*\<^sup>* ''a.'' owner
     \<and> address_of (records (answer_with sample_answer) ''9.9.9.9:53'' 0) 30 owner (V4 0x09090909)"
  using resolve_sound [OF sample_resolves] by auto

text \<open>C32: the follow-up query of lines 279 to 282 is never sent: when the answer for the queried
  name leads over aliases to a name for which it holds records, but neither an address nor an
  alias, resolving fails with \<^verbatim>\<open>dns_cname_cycle\<close> although no name was repeated.\<close>

theorem alias_without_address_fails:
  assumes "accepted lib server index 0 name = Inr m"
    and "chain name (m_answer m) name [name] (NOT 0) = Query_next n s t"
    and "list_ex (\<lambda>rr. equal_fold (rr_name rr) n) (m_answer m)"
  shows "resolve_name lib server index name = Inl (Dns_error (New ''dns_cname_cycle''))"
proof -
  from chain_next_seen [OF assms(2)] assms(3) have n: "n \<in> set s" by auto
  have "resolve_hops lib server index (Suc 8) 0 name [] (NOT 0) = resolve_hops lib server index (Suc 7) 1 n s t"
    unfolding resolve_hops.simps(2) [of _ _ _ 8] assms(1) using assms(2) by simp
  also have "\<dots> = Inl (Dns_error (New ''dns_cname_cycle''))"
    by (simp only: resolve_hops.simps n if_True)
  finally show ?thesis by (simp add: resolve_name_def)
qed

text \<open>The answer holds the alias and, for its target, only a record of another type.\<close>

theorem alias_without_address_fails_witness:
  "resolve_name (answer_with [\<lparr>rr_name = ''a.'', rr_class = 1, rr_ttl = 60, rr_data = CNAME ''b.''\<rparr>,
      \<lparr>rr_name = ''b.'', rr_class = 1, rr_ttl = 60, rr_data = Other_rr\<rparr>]) ''9.9.9.9:53'' 0 ''a.''
    = Inl (Dns_error (New ''dns_cname_cycle''))"
proof (rule alias_without_address_fails)
  let ?rrs = "[\<lparr>rr_name = ''a.'', rr_class = 1, rr_ttl = 60, rr_data = CNAME ''b.''\<rparr>,
      \<lparr>rr_name = ''b.'', rr_class = 1, rr_ttl = 60, rr_data = Other_rr\<rparr>]"
  show "accepted (answer_with ?rrs) ''9.9.9.9:53'' 0 0 ''a.'' = Inr \<lparr>m_response = True, m_truncated = False, m_opcode = 0, m_id = 7,
     m_question = [(''a.'', 1, 1)], m_rcode = 0, m_answer = ?rrs\<rparr>" by (rule accepted_answer_with)
  show "chain ''a.'' (m_answer \<lparr>m_response = True, m_truncated = False, m_opcode = 0, m_id = 7,
     m_question = [(''a.'', 1, 1)], m_rcode = 0, m_answer = ?rrs\<rparr>) ''a.'' [''a.''] (NOT 0)
      = Query_next ''b.'' [''b.'', ''a.''] 60"
  proof -
    have "chain ''a.'' ?rrs ''b.'' [''b.'', ''a.''] 60 = Query_next ''b.'' [''b.'', ''a.''] 60"
      by (subst chain.simps) (simp add: answer_evals)
    then show ?thesis by (subst chain.simps) (simp add: answer_evals)
  qed
  show "list_ex (\<lambda>rr. equal_fold (rr_name rr) ''b.'') (m_answer \<lparr>m_response = True, m_truncated = False, m_opcode = 0, m_id = 7,
     m_question = [(''a.'', 1, 1)], m_rcode = 0, m_answer = ?rrs\<rparr>)"
    by (simp add: equal_fold_def)
qed

end
