(* ===== verification/Resolver.thy ===== *)
theory Resolver
  imports Config Discovery Resolve
begin

text \<open>
  \<^verbatim>\<open>internal/dns/resolver.go\<close>: the caching resolver.  Every critical section of
  \<^verbatim>\<open>r.mu\<close> is one function on the record \<open>resolver\<close>; \<open>refresh\<close>, \<open>lookup\<close> and
  \<open>lookup_retry\<close> (\<^verbatim>\<open>Lookup\<close>) compose them as one caller does, and \<open>dns_step\<close> interleaves
  them as concurrent callers do.  The clock, the discovery result and the DNS library are
  arguments; times are nanoseconds.  The generation counter is a \<open>nat\<close>: it is a
  \<^verbatim>\<open>uint64\<close> that grows at most once per refresh.  The lemmas: in every reachable state the
  cache holds only answers of the servers that are current, each within its time to live.
\<close>

section \<open>State\<close>

record dns_state =
  st_mode :: string
  st_disc :: discovery
  st_gen :: nat
  st_refreshed :: int
  st_error :: string

record cached =
  ce_ips :: "addr list"
  ce_expires :: int

record resolver =
  r_cfg :: dns_cfg
  r_applied :: dns_cfg
  r_state :: dns_state
  r_cache :: "(string \<times> cached) list"

definition zero_cfg :: dns_cfg where
  "zero_cfg = \<lparr>dns_mode = [], dns_servers = [], dns_refresh = 0, dns_timeout = 0, dns_cache_size = 0\<rparr>"

definition zero_time :: int where
  "zero_time = - 62135596800 * second"

definition zero_state :: dns_state where
  "zero_state = \<lparr>st_mode = [], st_disc = \<lparr>d_source = [], d_routing = [], d_groups = []\<rparr>, st_gen = 0,
     st_refreshed = zero_time, st_error = []\<rparr>"

definition fresh_resolver :: "dns_cfg \<Rightarrow> resolver" where
  "fresh_resolver c = \<lparr>r_cfg = c, r_applied = zero_cfg, r_state = zero_state, r_cache = []\<rparr>"

text \<open>\<^verbatim>\<open>Status\<close>: the state and the number of cache entries.\<close>

definition dns_status :: "resolver \<Rightarrow> dns_state \<times> nat" where
  "dns_status r = (r_state r, length (r_cache r))"

section \<open>Refreshing\<close>

definition configure :: "dns_cfg \<Rightarrow> resolver \<Rightarrow> resolver" where
  "configure c r = r\<lparr>r_cfg := c, r_cache := []\<rparr>"

text \<open>\<^verbatim>\<open>Run\<close> refreshes when the interval has passed.\<close>

definition refresh_due :: "int \<Rightarrow> resolver \<Rightarrow> bool" where
  "refresh_due now r = (now - st_refreshed (r_state r) \<ge> dns_refresh (r_cfg r))"

text \<open>The first critical section: nothing to do within a tenth of a second.\<close>

definition refresh_skips :: "int \<Rightarrow> resolver \<Rightarrow> bool" where
  "refresh_skips now r = (r_cfg r = r_applied r \<and> now - st_refreshed (r_state r) < second div 10)"

definition last_result :: "resolver \<Rightarrow> go_error option" where
  "last_result r = (if st_error (r_state r) \<noteq> [] then Some (New (st_error (r_state r))) else None)"

text \<open>Between the sections: the configured servers, or the discovered ones.\<close>

definition obtain_discovery :: "dns_cfg \<Rightarrow> discovery \<times> go_error option \<Rightarrow> discovery \<times> go_error option" where
  "obtain_discovery c discovered =
     (if dns_mode c = ''manual''
      then (\<lparr>d_source = ''configuration'', d_routing = ''manual'',
             d_groups = [empty_group\<lparr>g_servers := dns_servers c, g_default := True\<rparr>]\<rparr>, None)
      else discovered)"

text \<open>The second critical section, with the configuration \<open>c\<close> the first one saw.\<close>

definition refresh_finish :: "dns_cfg \<Rightarrow> discovery \<times> go_error option \<Rightarrow> int \<Rightarrow> resolver \<Rightarrow> resolver \<times> go_error option" where
  "refresh_finish c result now r =
     (if c \<noteq> r_cfg r then (r, None)
      else
        case result of (d0, e) \<Rightarrow>
          let text = (case e of None \<Rightarrow> [] | Some e \<Rightarrow> error_text e);
              d = (if e \<noteq> None then d0\<lparr>d_groups := []\<rparr> else d0);
              s = r_state r;
              changed = (c \<noteq> r_applied r \<or> d \<noteq> st_disc s \<or> text \<noteq> st_error s \<or> dns_mode c \<noteq> st_mode s);
              gen = (if changed then st_gen s + 1 else st_gen s);
              cache = (if changed then [] else r_cache r)
          in (r\<lparr>r_cache := cache, r_applied := c,
                r_state := \<lparr>st_mode = dns_mode c, st_disc = d, st_gen = gen, st_refreshed = now, st_error = text\<rparr>\<rparr>, e))"

definition refresh :: "int \<Rightarrow> int \<Rightarrow> discovery \<times> go_error option \<Rightarrow> resolver \<Rightarrow> resolver \<times> go_error option" where
  "refresh now later discovered r =
     (if refresh_skips now r then (r, last_result r)
      else refresh_finish (r_cfg r) (obtain_discovery (r_cfg r) discovered) later r)"

definition new_resolver :: "int \<Rightarrow> int \<Rightarrow> discovery \<times> go_error option \<Rightarrow> dns_cfg \<Rightarrow> resolver" where
  "new_resolver now later discovered c = fst (refresh now later discovered (fresh_resolver c))"

definition reconfigure :: "int \<Rightarrow> int \<Rightarrow> discovery \<times> go_error option \<Rightarrow> dns_cfg \<Rightarrow> resolver \<Rightarrow> resolver" where
  "reconfigure now later discovered c r = fst (refresh now later discovered (configure c r))"

section \<open>Looking up\<close>

text \<open>\<^verbatim>\<open>mdns.Fqdn\<close> adds a final dot where there is none.\<close>

definition fqdn :: "string \<Rightarrow> string" where
  "fqdn s = (if s \<noteq> [] \<and> last s = CHR ''.'' then s else s @ ''.'')"

definition lookup_key :: "nat \<Rightarrow> string \<Rightarrow> string" where
  "lookup_key gen host = dec gen @ '':'' @ host"

record flight =
  f_key :: string
  f_gen :: nat
  f_groups :: "group list"
  f_cfg :: dns_cfg
  f_host :: string

datatype lookup_start = Return "dns_error + addr list" | Fly flight

definition lookup_begin :: "int \<Rightarrow> string \<Rightarrow> resolver \<Rightarrow> lookup_start \<times> resolver" where
  "lookup_begin now host0 r =
     (let host = to_lower (fqdn host0); s = r_state r; c = r_cfg r; key = lookup_key (st_gen s) host in
      if st_error s \<noteq> [] then (Return (Inl (Dns_error (New (''dns_unavailable: '' @ st_error s)))), r)
      else
        (case map_of (r_cache r) key of
          Some entry \<Rightarrow>
            if now < ce_expires entry then (Return (Inr (ce_ips entry)), r)
            else
              let r' = r\<lparr>r_cache := AList.delete key (r_cache r)\<rparr>; groups = select_groups (d_groups (st_disc s)) host in
              (if groups = [] then Return (Inl (Dns_error (New ''dns_unavailable: no eligible resolver group'')))
               else Fly \<lparr>f_key = key, f_gen = st_gen s, f_groups = groups, f_cfg = c, f_host = host\<rparr>, r')
        | None \<Rightarrow>
            let groups = select_groups (d_groups (st_disc s)) host in
            (if groups = [] then Return (Inl (Dns_error (New ''dns_unavailable: no eligible resolver group'')))
             else Fly \<lparr>f_key = key, f_gen = st_gen s, f_groups = groups, f_cfg = c, f_host = host\<rparr>, r)))"

text \<open>
  The query of a flight: the variables \<^verbatim>\<open>ips\<close>, \<^verbatim>\<open>ttl\<close>, \<^verbatim>\<open>last\<close> and
  \<^verbatim>\<open>queryStarted\<close>, and the number of attempts so far.  Attempt \<open>n\<close> starts at \<open>clock n\<close> and meets
  the library \<open>lib n\<close>.
\<close>

record query =
  q_ips :: "addr list"
  q_ttl :: "32 word"
  q_last :: "dns_error option"
  q_started :: int
  q_attempts :: nat

fun is_name_error :: "dns_error \<Rightarrow> bool" where
  "is_name_error (Name_error s) = True"
| "is_name_error (Dns_error e) = False"

fun query_servers :: "(nat \<Rightarrow> dnslib) \<Rightarrow> (nat \<Rightarrow> int) \<Rightarrow> int \<Rightarrow> string \<Rightarrow> string list \<Rightarrow> query \<Rightarrow> dns_error + query" where
  "query_servers lib clock index host [] q = Inr q"
| "query_servers lib clock index host (server # servers) q =
     (let n = q_attempts q in
      case resolve_name (lib n) server index host of
        Inr (ips, ttl) \<Rightarrow> Inr \<lparr>q_ips = ips, q_ttl = ttl, q_last = None, q_started = clock n, q_attempts = Suc n\<rparr>
      | Inl e \<Rightarrow>
          if is_name_error e then Inl e
          else query_servers lib clock index host servers
            \<lparr>q_ips = [], q_ttl = 0, q_last = Some e, q_started = clock n, q_attempts = Suc n\<rparr>)"

fun query_groups :: "(nat \<Rightarrow> dnslib) \<Rightarrow> (nat \<Rightarrow> int) \<Rightarrow> string \<Rightarrow> group list \<Rightarrow> query \<Rightarrow> dns_error + query" where
  "query_groups lib clock host [] q = Inr q"
| "query_groups lib clock host (g # gs) q =
     (case query_servers lib clock (g_interface g) host (g_servers g) q of
       Inl e \<Rightarrow> Inl e
     | Inr q' \<Rightarrow> if q_last q' = None \<and> q_ips q' \<noteq> [] then Inr q' else query_groups lib clock host gs q')"

definition flight_query :: "(nat \<Rightarrow> dnslib) \<Rightarrow> (nat \<Rightarrow> int) \<Rightarrow> flight \<Rightarrow> dns_error + query" where
  "flight_query lib clock f =
     (case query_groups lib clock (f_host f) (f_groups f)
         \<lparr>q_ips = [], q_ttl = 0, q_last = None, q_started = zero_time, q_attempts = 0\<rparr> of
       Inl e \<Rightarrow> Inl e
     | Inr q \<Rightarrow>
         if q_ips q = [] then
           Inl (case q_last q of None \<Rightarrow> Dns_error (New ''no usable IPv4 DNS server in matched group'') | Some e \<Rightarrow> e)
         else Inr q)"

definition expiry :: "query \<Rightarrow> int" where
  "expiry q = q_started q + int (unat (q_ttl q)) * second"

definition may_cache :: "int \<Rightarrow> flight \<Rightarrow> query \<Rightarrow> resolver \<Rightarrow> bool" where
  "may_cache now f q r =
     (st_gen (r_state r) = f_gen f \<and> q_ttl q > 0 \<and> now < expiry q \<and> dns_cache_size (f_cfg f) > 0)"

definition flight_store :: "int \<Rightarrow> nat \<Rightarrow> flight \<Rightarrow> query \<Rightarrow> resolver \<Rightarrow> resolver" where
  "flight_store now victim f q r =
     (if may_cache now f q r
      then r\<lparr>r_cache := put_bounded (nat (dns_cache_size (f_cfg f))) victim (f_key f)
          \<lparr>ce_ips = q_ips q, ce_expires = expiry q\<rparr> (r_cache r)\<rparr>
      else r)"

text \<open>
  One lookup without interference; \<open>ended\<close>: the caller's context ends with this error before the
  flight, which still stores its result.
\<close>

definition lookup_once :: "int \<Rightarrow> int \<Rightarrow> nat \<Rightarrow> (nat \<Rightarrow> dnslib) \<Rightarrow> (nat \<Rightarrow> int) \<Rightarrow> go_error option \<Rightarrow> string \<Rightarrow> resolver
    \<Rightarrow> (dns_error + addr list) \<times> resolver" where
  "lookup_once now later victim lib clock ended host r =
     (case lookup_begin now host r of
       (Return res, r') \<Rightarrow> (res, r')
     | (Fly f, r') \<Rightarrow>
         (case flight_query lib clock f of
           Inl e \<Rightarrow> (case ended of Some c \<Rightarrow> Inl (Dns_error c) | None \<Rightarrow> Inl e, r')
         | Inr q \<Rightarrow> (case ended of Some c \<Rightarrow> Inl (Dns_error c) | None \<Rightarrow> Inr (q_ips q), flight_store later victim f q r')))"

definition is_canceled :: "dns_error \<Rightarrow> bool" where
  "is_canceled e = (case e of Dns_error g \<Rightarrow> error_is g (Os ECANCELED) | Name_error s \<Rightarrow> False)"

text \<open>
  \<^verbatim>\<open>Lookup\<close>: after a failure in automatic mode refresh, at most once a second, and try
  again when the refresh changed the generation.
\<close>

record attempt_env =
  ae_now :: int
  ae_later :: int
  ae_victim :: nat
  ae_lib :: "nat \<Rightarrow> dnslib"
  ae_clock :: "nat \<Rightarrow> int"
  ae_ended :: "go_error option"

definition lookup_with :: "attempt_env \<Rightarrow> string \<Rightarrow> resolver \<Rightarrow> (dns_error + addr list) \<times> resolver" where
  "lookup_with env host r =
     lookup_once (ae_now env) (ae_later env) (ae_victim env) (ae_lib env) (ae_clock env) (ae_ended env) host r"

definition lookup_retry :: "attempt_env \<Rightarrow> int \<Rightarrow> int \<Rightarrow> discovery \<times> go_error option \<Rightarrow> attempt_env \<Rightarrow> string \<Rightarrow> resolver
    \<Rightarrow> (dns_error + addr list) \<times> resolver" where
  "lookup_retry env1 now later discovered env2 host r =
     (case lookup_with env1 host r of
       (Inr ips, r1) \<Rightarrow> (Inr ips, r1)
     | (Inl e, r1) \<Rightarrow>
         if is_canceled e then (Inl e, r1)
         else if dns_mode (r_cfg r1) = ''auto'' \<and> now - st_refreshed (r_state r1) > second then
           let r2 = fst (refresh now later discovered r1) in
           if st_gen (r_state r2) \<noteq> st_gen (r_state r1) then lookup_with env2 host r2 else (Inl e, r2)
         else (Inl e, r1))"

section \<open>Interleaving\<close>

text \<open>
  The resolver, the flights under way (one per key, as \<^verbatim>\<open>singleflight\<close> keeps them) and the
  refresh under way (one, by \<^verbatim>\<open>refreshMu\<close>).  \<open>m_origin\<close> is not part of the program: it
  remembers for a cached key which flight and which query filled it.
\<close>

record machine =
  m_res :: resolver
  m_flights :: "flight list"
  m_refresh :: "dns_cfg option"
  m_origin :: "string \<Rightarrow> flight \<times> query"

text \<open>Only validated configurations are configured; they bound the size of the cache.\<close>

definition cfg_ok :: "dns_cfg \<Rightarrow> bool" where
  "cfg_ok c = (dns_cache_size c \<le> 65536)"

definition dns_init :: "machine \<Rightarrow> bool" where
  "dns_init m = (\<exists>c. cfg_ok c \<and> m_res m = fresh_resolver c \<and> m_flights m = [] \<and> m_refresh m = None)"

inductive dns_step :: "machine \<Rightarrow> machine \<Rightarrow> bool" where
  step_configure: "cfg_ok c \<Longrightarrow> dns_step m (m\<lparr>m_res := configure c (m_res m)\<rparr>)"
| step_refresh_begin: "m_refresh m = None \<Longrightarrow> \<not> refresh_skips now (m_res m) \<Longrightarrow>
    dns_step m (m\<lparr>m_refresh := Some (r_cfg (m_res m))\<rparr>)"
| step_refresh_end: "m_refresh m = Some c \<Longrightarrow>
    dns_step m (m\<lparr>m_res := fst (refresh_finish c (obtain_discovery c discovered) now (m_res m)), m_refresh := None\<rparr>)"
| step_lookup_return: "lookup_begin now host (m_res m) = (Return res, r') \<Longrightarrow> dns_step m (m\<lparr>m_res := r'\<rparr>)"
| step_lookup_fly: "lookup_begin now host (m_res m) = (Fly f, r') \<Longrightarrow>
    dns_step m (m\<lparr>m_res := r', m_flights := (if f_key f \<in> f_key ` set (m_flights m) then m_flights m else f # m_flights m)\<rparr>)"
| step_flight_done: "f \<in> set (m_flights m) \<Longrightarrow> flight_query lib clock f = Inr q \<Longrightarrow>
    dns_step m (m\<lparr>m_res := flight_store now victim f q (m_res m), m_flights := remove1 f (m_flights m),
      m_origin := (if may_cache now f q (m_res m) then (m_origin m)(f_key f := (f, q)) else m_origin m)\<rparr>)"
| step_flight_failed: "f \<in> set (m_flights m) \<Longrightarrow> flight_query lib clock f = Inl e \<Longrightarrow>
    dns_step m (m\<lparr>m_flights := remove1 f (m_flights m)\<rparr>)"

inductive_cases dns_stepE: "dns_step m m'"

section \<open>Coherence\<close>

definition flight_ok :: "resolver \<Rightarrow> flight \<Rightarrow> bool" where
  "flight_ok r f =
     (f_key f = lookup_key (f_gen f) (f_host f) \<and> f_gen f \<le> st_gen (r_state r) \<and> cfg_ok (f_cfg f)
      \<and> (f_gen f = st_gen (r_state r) \<longrightarrow> f_groups f = select_groups (d_groups (st_disc (r_state r))) (f_host f)))"

text \<open>A cached entry is the result of a query to the groups that are selected now.\<close>

definition entry_current :: "resolver \<Rightarrow> flight \<times> query \<Rightarrow> string \<Rightarrow> cached \<Rightarrow> bool" where
  "entry_current r origin key e =
     (case origin of (f, q) \<Rightarrow>
       f_key f = key \<and> flight_ok r f \<and> f_gen f = st_gen (r_state r) \<and> ce_ips e = q_ips q \<and> ce_expires e = expiry q
       \<and> (\<exists>lib clock. flight_query lib clock f = Inr q))"

definition dns_inv :: "machine \<Rightarrow> bool" where
  "dns_inv m =
     (cfg_ok (r_cfg (m_res m)) \<and> (\<forall>f \<in> set (m_flights m). flight_ok (m_res m) f)
      \<and> distinct (map fst (r_cache (m_res m))) \<and> length (r_cache (m_res m)) \<le> 65536
      \<and> (\<forall>k e. map_of (r_cache (m_res m)) k = Some e \<longrightarrow> entry_current (m_res m) (m_origin m k) k e))"

lemma flight_ok_state: "r_state r' = r_state r \<Longrightarrow> flight_ok r' f = flight_ok r f"
  by (simp add: flight_ok_def)

lemma entry_current_state: "r_state r' = r_state r \<Longrightarrow> entry_current r' fq k e = entry_current r fq k e"
  by (cases fq) (simp add: entry_current_def flight_ok_def)

text \<open>A refresh leaves the resolver, renews the time, or starts a new generation.\<close>

lemma refresh_finish_cases:
  obtains (other) "fst (refresh_finish c result now r) = r"
    | (same) "r_cfg (fst (refresh_finish c result now r)) = r_cfg r" "r_cache (fst (refresh_finish c result now r)) = r_cache r"
      "st_gen (r_state (fst (refresh_finish c result now r))) = st_gen (r_state r)"
      "st_disc (r_state (fst (refresh_finish c result now r))) = st_disc (r_state r)"
    | (changed) "r_cfg (fst (refresh_finish c result now r)) = r_cfg r" "r_cache (fst (refresh_finish c result now r)) = []"
      "st_gen (r_state (fst (refresh_finish c result now r))) = Suc (st_gen (r_state r))"
proof (cases "c = r_cfg r")
  case False
  then show thesis by (intro other) (simp add: refresh_finish_def)
next
  case True
  obtain d0 e where res: "result = (d0, e)" by (cases result)
  let ?text = "case e of None \<Rightarrow> [] | Some e \<Rightarrow> error_text e" and ?d = "if e \<noteq> None then d0\<lparr>d_groups := []\<rparr> else d0"
  show thesis
  proof (cases "c \<noteq> r_applied r \<or> ?d \<noteq> st_disc (r_state r) \<or> ?text \<noteq> st_error (r_state r) \<or> dns_mode c \<noteq> st_mode (r_state r)")
    case ch: True
    have "fst (refresh_finish c result now r) = r\<lparr>r_cache := [], r_applied := c, r_state := \<lparr>st_mode = dns_mode c, st_disc = ?d,
        st_gen = st_gen (r_state r) + 1, st_refreshed = now, st_error = ?text\<rparr>\<rparr>"
      by (simp only: refresh_finish_def res Let_def prod.case if_P [OF ch [unfolded True]] True not_True_eq_False simp_thms if_False fst_conv)
    then show thesis by (intro changed) simp_all
  next
    case no: False
    have "fst (refresh_finish c result now r) = r\<lparr>r_cache := r_cache r, r_applied := c, r_state := \<lparr>st_mode = dns_mode c, st_disc = ?d,
        st_gen = st_gen (r_state r), st_refreshed = now, st_error = ?text\<rparr>\<rparr>"
      by (simp only: refresh_finish_def res Let_def prod.case if_not_P [OF no [unfolded True]] True simp_thms if_False fst_conv)
    with no show thesis by (intro same) simp_all
  qed
qed

lemma lookup_begin_fly:
  assumes "lookup_begin now host r = (Fly f, r')"
  shows "f_host f = to_lower (fqdn host)" "f_gen f = st_gen (r_state r)" "f_key f = lookup_key (f_gen f) (f_host f)"
    "f_groups f = select_groups (d_groups (st_disc (r_state r))) (f_host f)" "f_groups f \<noteq> []" "f_cfg f = r_cfg r"
  using assms by (auto simp: lookup_begin_def Let_def split: option.splits if_splits)

lemma lookup_begin_res:
  assumes "lookup_begin now host r = (out, r')"
  shows "r_state r' = r_state r \<and> r_cfg r' = r_cfg r \<and> (\<exists>k. r_cache r' = r_cache r \<or> r_cache r' = AList.delete k (r_cache r))"
  using assms by (auto simp: lookup_begin_def Let_def split: option.splits if_splits)



lemma dns_inv_lookup:
  assumes "dns_inv m" "lookup_begin now host (m_res m) = (out, r')"
  shows "dns_inv (m\<lparr>m_res := r'\<rparr>)"
proof -
  from lookup_begin_res [OF assms(2)] obtain k where
    r': "r_state r' = r_state (m_res m)" "r_cfg r' = r_cfg (m_res m)"
    "r_cache r' = r_cache (m_res m) \<or> r_cache r' = AList.delete k (r_cache (m_res m))" by blast
  have "distinct (map fst (r_cache r'))" "length (r_cache r') \<le> 65536"
    using r'(3) assms(1) AList.length_delete_le [of k "r_cache (m_res m)"] by (auto simp: dns_inv_def distinct_delete)
  moreover have "map_of (r_cache r') k' = Some e \<Longrightarrow> map_of (r_cache (m_res m)) k' = Some e" for k' e
    using r'(3) by (auto simp: delete_conv' split: if_splits)
  ultimately show ?thesis
    using assms(1) r'(1,2) by (auto simp: dns_inv_def flight_ok_state [OF r'(1)] entry_current_state [OF r'(1)])
qed

lemma dns_inv_refresh:
  assumes "dns_inv m"
  shows "dns_inv (m\<lparr>m_res := fst (refresh_finish c result now (m_res m)), m_refresh := x\<rparr>)"
proof (cases c result now "m_res m" rule: refresh_finish_cases)
  case other
  with assms show ?thesis by (simp add: dns_inv_def)
next
  case same
  let ?r = "fst (refresh_finish c result now (m_res m))"
  have "flight_ok ?r f = flight_ok (m_res m) f" for f using same by (simp add: flight_ok_def)
  moreover from this have "entry_current ?r fq k e = entry_current (m_res m) fq k e" for fq k e
    using same by (cases fq) (simp add: entry_current_def)
  ultimately show ?thesis using assms same by (simp add: dns_inv_def)
next
  case changed
  with assms show ?thesis by (auto simp: dns_inv_def flight_ok_def)
qed

lemma dns_inv_store:
  assumes inv: "dns_inv m" and f: "f \<in> set (m_flights m)" and q: "flight_query lib clock f = Inr q"
    and may: "may_cache now f q (m_res m)"
  shows "dns_inv (m\<lparr>m_res := flight_store now victim f q (m_res m), m_flights := remove1 f (m_flights m),
    m_origin := (m_origin m)(f_key f := (f, q))\<rparr>)" (is "dns_inv ?m")
proof -
  let ?r = "m_res m" and ?e = "\<lparr>ce_ips = q_ips q, ce_expires = expiry q\<rparr>"
  obtain n where n: "nat (dns_cache_size (f_cfg f)) = Suc n"
    using may by (metis may_cache_def gr0_conv_Suc zero_less_nat_eq)
  have fo: "flight_ok ?r f" using inv f by (simp add: dns_inv_def)
  with n have cap: "Suc n \<le> 65536" by (auto simp: flight_ok_def cfg_ok_def)
  have r': "flight_store now victim f q ?r = ?r\<lparr>r_cache := put_bounded (Suc n) victim (f_key f) ?e (r_cache ?r)\<rparr>"
    using may by (simp add: flight_store_def n)
  have d: "distinct (map fst (r_cache ?r))" and l: "length (r_cache ?r) \<le> 65536"
    and es: "\<And>k e. map_of (r_cache ?r) k = Some e \<Longrightarrow> entry_current ?r (m_origin m k) k e"
    using inv by (simp_all add: dns_inv_def)
  have "length (put_bounded (Suc n) victim (f_key f) ?e (r_cache ?r)) \<le> 65536"
    using length_put_bounded [of "Suc n" victim "f_key f" ?e "r_cache ?r"] cap l by simp
  moreover have "entry_current ?r (((m_origin m)(f_key f := (f, q))) k) k e"
    if k: "map_of (put_bounded (Suc n) victim (f_key f) ?e (r_cache ?r)) k = Some e" for k e
  proof (cases "k = f_key f")
    case True
    with k have "e = ?e" using alist_cache.get_put [of n victim "f_key f" ?e "r_cache ?r"] by simp
    with True fo may q show ?thesis by (auto simp: entry_current_def may_cache_def)
  next
    case False
    with alist_cache.get_put_other [OF d this k] es show ?thesis by simp
  qed
  moreover have "flight_ok (?r\<lparr>r_cache := c\<rparr>) g = flight_ok ?r g" "entry_current (?r\<lparr>r_cache := c\<rparr>) fq k e = entry_current ?r fq k e"
    for c g fq k e by (rule flight_ok_state, simp) (rule entry_current_state, simp)
  ultimately show ?thesis
    using inv alist_cache.good_put [OF d] notin_set_remove1 unfolding dns_inv_def r' by (auto dest: set_remove1_subset [THEN subsetD])
qed

lemma dns_inv_step: "dns_inv m \<Longrightarrow> dns_step m m' \<Longrightarrow> dns_inv m'"
proof -
  assume inv: "dns_inv m" and "dns_step m m'"
  from this(2) show ?thesis
  proof cases
    case (step_configure c)
    with inv show ?thesis by (auto simp: dns_inv_def configure_def flight_ok_def)
  next
    case (step_refresh_begin now)
    with inv show ?thesis by (simp add: dns_inv_def)
  next
    case (step_refresh_end c discovered now)
    with inv show ?thesis by (simp add: dns_inv_refresh)
  next
    case (step_lookup_return now host res r')
    with inv dns_inv_lookup show ?thesis by blast
  next
    case (step_lookup_fly now host f r')
    from dns_inv_lookup [OF inv step_lookup_fly(2)] have "dns_inv (m\<lparr>m_res := r'\<rparr>)" .
    moreover have "flight_ok r' f"
      using lookup_begin_fly [OF step_lookup_fly(2)] lookup_begin_res [OF step_lookup_fly(2)] inv
      by (auto simp: flight_ok_def dns_inv_def)
    ultimately show ?thesis using step_lookup_fly(1) by (auto simp: dns_inv_def)
  next
    case (step_flight_done f lib clock q now victim)
    show ?thesis
    proof (cases "may_cache now f q (m_res m)")
      case True
      with dns_inv_store [OF inv step_flight_done(2,3) True] step_flight_done(1) show ?thesis by simp
    next
      case False
      with inv step_flight_done(1) show ?thesis
        by (auto simp: dns_inv_def flight_store_def dest: set_remove1_subset [THEN subsetD])
    qed
  next
    case (step_flight_failed f lib clock e)
    with inv show ?thesis by (auto simp: dns_inv_def dest: set_remove1_subset [THEN subsetD])
  qed
qed

interpretation dns_machine: transition_system dns_init dns_step dns_inv
proof
  show "dns_inv s" if "dns_init s" for s using that by (auto simp: dns_init_def dns_inv_def fresh_resolver_def)
  show "dns_inv t" if "dns_inv s" "dns_step s t" for s t using that by (rule dns_inv_step)
qed

section \<open>Where answers come from\<close>

definition answered_by :: "(nat \<Rightarrow> dnslib) \<Rightarrow> (nat \<Rightarrow> int) \<Rightarrow> string \<Rightarrow> group list \<Rightarrow> query \<Rightarrow> bool" where
  "answered_by lib clock host gs q =
     (\<exists>g \<in> set gs. \<exists>server \<in> set (g_servers g). \<exists>n.
        resolve_name (lib n) server (g_interface g) host = Inr (q_ips q, q_ttl q) \<and> q_started q = clock n)"

lemma query_servers_answered:
  assumes "query_servers lib clock (g_interface g) host servers q = Inr q'" "set servers \<subseteq> set (g_servers g)" "g \<in> set gs"
    and "q_ips q = [] \<or> answered_by lib clock host gs q"
  shows "q_ips q' = [] \<or> answered_by lib clock host gs q'"
  using assms
proof (induction servers arbitrary: q)
  case (Cons s servers)
  show ?case
  proof (cases "resolve_name (lib (q_attempts q)) s (g_interface g) host")
    case (Inl e)
    with Cons show ?thesis by (auto simp: Let_def split: if_splits)
  next
    case (Inr r)
    obtain ips ttl where r: "r = (ips, ttl)" by (cases r)
    with Cons.prems(1) Inr have q': "q_ips q' = ips" "q_ttl q' = ttl" "q_started q' = clock (q_attempts q)" by (auto simp: Let_def)
    from Cons.prems(2,3) Inr r q' have "answered_by lib clock host gs q'"
      unfolding answered_by_def by (intro bexI [of _ g] bexI [of _ s] exI [of _ "q_attempts q"]) auto
    then show ?thesis ..
  qed
qed simp

lemma query_groups_answered:
  assumes "query_groups lib clock host gs q = Inr q'" "set gs \<subseteq> set all" "q_ips q = [] \<or> answered_by lib clock host all q"
  shows "q_ips q' = [] \<or> answered_by lib clock host all q'"
  using assms
proof (induction gs arbitrary: q)
  case (Cons g gs)
  from Cons.prems(1) obtain q1 where q1: "query_servers lib clock (g_interface g) host (g_servers g) q = Inr q1"
    and k: "(if q_last q1 = None \<and> q_ips q1 \<noteq> [] then Inr q1 else query_groups lib clock host gs q1) = Inr q'"
    by (auto split: sum.splits)
  have g: "g \<in> set all" "set gs \<subseteq> set all" using Cons.prems(2) by auto
  have a1: "q_ips q1 = [] \<or> answered_by lib clock host all q1"
    by (rule query_servers_answered [OF q1 order_refl g(1) Cons.prems(3)])
  show ?case
  proof (cases "q_last q1 = None \<and> q_ips q1 \<noteq> []")
    case True
    with k a1 show ?thesis by simp
  next
    case False
    with k have "query_groups lib clock host gs q1 = Inr q'" by simp
    from Cons.IH [OF this g(2) a1] show ?thesis .
  qed
qed simp

lemma flight_query_answered:
  "flight_query lib clock f = Inr q \<Longrightarrow> q_ips q \<noteq> [] \<and> answered_by lib clock (f_host f) (f_groups f) q"
  unfolding flight_query_def
  by (auto split: sum.splits if_splits dest: query_groups_answered [where all = "f_groups f"])

section \<open>The resolver as a service\<close>

text \<open>What a caller of the resolver relies on: an answer has an address, and asking keeps that true.\<close>

locale lookup_service =
  fixes ask :: "string \<Rightarrow> 'r \<Rightarrow> (dns_error + addr list) \<times> 'r"
    and inv :: "'r \<Rightarrow> bool"
  assumes answer_nonempty: "inv r \<Longrightarrow> ask host r = (Inr ips, r') \<Longrightarrow> ips \<noteq> []"
    and ask_inv: "inv r \<Longrightarrow> ask host r = (res, r') \<Longrightarrow> inv r'"

definition cache_nonempty :: "resolver \<Rightarrow> bool" where
  "cache_nonempty r = (distinct (map fst (r_cache r)) \<and> (\<forall>k e. map_of (r_cache r) k = Some e \<longrightarrow> ce_ips e \<noteq> []))"

lemma flight_store_nonempty:
  assumes "cache_nonempty r" "q_ips q \<noteq> []"
  shows "cache_nonempty (flight_store now victim f q r)"
proof (cases "may_cache now f q r")
  case True
  let ?e = "\<lparr>ce_ips = q_ips q, ce_expires = expiry q\<rparr>"
  obtain n where n: "nat (dns_cache_size (f_cfg f)) = Suc n"
    using True by (metis may_cache_def gr0_conv_Suc zero_less_nat_eq)
  have d: "distinct (map fst (r_cache r))" using assms by (simp add: cache_nonempty_def)
  have "ce_ips e \<noteq> []" if "map_of (put_bounded (Suc n) victim (f_key f) ?e (r_cache r)) k = Some e" for k e
    using alist_cache.put_all [OF d _ _ that, of "\<lambda>k e. ce_ips e \<noteq> []"] assms by (simp add: cache_nonempty_def)
  with alist_cache.good_put [OF d] True show ?thesis by (simp add: flight_store_def cache_nonempty_def n)
qed (simp add: flight_store_def assms)

lemma lookup_begin_nonempty:
  assumes "cache_nonempty r" "lookup_begin now host r = (out, r')"
  shows "cache_nonempty r' \<and> out \<noteq> Return (Inr [])"
proof -
  from lookup_begin_res [OF assms(2)] obtain k where
    "r_cache r' = r_cache r \<or> r_cache r' = AList.delete k (r_cache r)" by blast
  then have "cache_nonempty r'"
    using assms(1) by (auto simp: cache_nonempty_def distinct_delete delete_conv' split: if_splits)
  moreover have "out \<noteq> Return (Inr [])"
    using assms by (auto simp: lookup_begin_def cache_nonempty_def Let_def split: option.splits if_splits)
  ultimately show ?thesis ..
qed

lemma lookup_with_nonempty:
  assumes "cache_nonempty r" "lookup_with env host r = (res, r')"
  shows "cache_nonempty r' \<and> res \<noteq> Inr []"
proof -
  obtain out r1 where b: "lookup_begin (ae_now env) host r = (out, r1)" by (cases "lookup_begin (ae_now env) host r")
  note r1 = lookup_begin_nonempty [OF assms(1) b]
  show ?thesis
  proof (cases out)
    case (Return x)
    with assms(2) b r1 show ?thesis by (auto simp: lookup_with_def lookup_once_def)
  next
    case (Fly f)
    show ?thesis
    proof (cases "flight_query (ae_lib env) (ae_clock env) f")
      case (Inl e)
      with assms(2) b Fly r1 show ?thesis by (auto simp: lookup_with_def lookup_once_def split: option.splits)
    next
      case (Inr q)
      with flight_query_answered have ne: "q_ips q \<noteq> []" by blast
      from assms(2) b Fly Inr ne flight_store_nonempty [OF conjunct1 [OF r1] ne] show ?thesis
        by (auto simp: lookup_with_def lookup_once_def split: option.splits)
    qed
  qed
qed

lemma refresh_nonempty: "cache_nonempty r \<Longrightarrow> cache_nonempty (fst (refresh now later discovered r))"
  unfolding refresh_def
  by (cases "r_cfg r" "obtain_discovery (r_cfg r) discovered" later r rule: refresh_finish_cases) (auto simp: cache_nonempty_def)

lemma lookup_retry_nonempty:
  assumes "cache_nonempty r" "lookup_retry env1 now later discovered env2 host r = (res, r')"
  shows "cache_nonempty r' \<and> res \<noteq> Inr []"
proof -
  obtain x r1 where l: "lookup_with env1 host r = (x, r1)" by (cases "lookup_with env1 host r")
  note r1 = lookup_with_nonempty [OF assms(1) l]
  note r2 = refresh_nonempty [OF conjunct1 [OF r1], of now later discovered]
  from assms(2) l r1 r2 show ?thesis
    by (auto simp: lookup_retry_def Let_def split: sum.splits if_splits dest: lookup_with_nonempty)
qed

interpretation resolver: lookup_service "lookup_retry env1 now later discovered env2" cache_nonempty
  for env1 now later discovered env2
  by unfold_locales (auto dest: lookup_retry_nonempty)

section \<open>Properties\<close>


text \<open>A run: configured by hand, refreshed, one name asked and answered.\<close>

definition sample_cfg :: dns_cfg where
  "sample_cfg = \<lparr>dns_mode = ''manual'', dns_servers = [''9.9.9.9:53''], dns_refresh = second, dns_timeout = second, dns_cache_size = 10\<rparr>"

definition sample_flight :: flight where
  "sample_flight = \<lparr>f_key = lookup_key 1 ''a.'', f_gen = 1, f_groups = [empty_group\<lparr>g_servers := [''9.9.9.9:53''], g_default := True\<rparr>],
     f_cfg = sample_cfg, f_host = ''a.''\<rparr>"

definition sample_query :: query where
  "sample_query = \<lparr>q_ips = [V4 0x09090909], q_ttl = 30, q_last = None, q_started = 0, q_attempts = 1\<rparr>"

definition sample_resolver :: "(string \<times> cached) list \<Rightarrow> resolver" where
  "sample_resolver cache = \<lparr>r_cfg = sample_cfg, r_applied = sample_cfg,
     r_state = \<lparr>st_mode = ''manual'', st_disc = fst (obtain_discovery sample_cfg (undefined, None)), st_gen = 1, st_refreshed = 0, st_error = []\<rparr>,
     r_cache = cache\<rparr>"

definition sample_cache :: "(string \<times> cached) list" where
  "sample_cache = [(lookup_key 1 ''a.'', \<lparr>ce_ips = [V4 0x09090909], ce_expires = 30 * second\<rparr>)]"

lemma sample_flight_query: "flight_query (\<lambda>_. answer_with sample_answer) (\<lambda>_. 0) sample_flight = Inr sample_query"
  by (simp add: flight_query_def sample_flight_def sample_query_def empty_group_def sample_resolves Let_def)

lemma sample_lookup: "lookup_begin 0 ''a'' (sample_resolver []) = (Fly sample_flight, sample_resolver [])"
proof -
  have "select_groups [empty_group\<lparr>g_servers := [''9.9.9.9:53''], g_default := True\<rparr>] ''a.''
      = [empty_group\<lparr>g_servers := [''9.9.9.9:53''], g_default := True\<rparr>]"
    by (simp add: select_groups_def match_step_def default_step_def group_score_def empty_group_def max_int_def Let_def)
  then show ?thesis
    by (simp add: lookup_begin_def sample_resolver_def sample_flight_def obtain_discovery_def sample_cfg_def fqdn_def
        to_lower_def lower_char_def code_def Let_def)
qed

definition sample_machine :: "(string \<times> cached) list \<Rightarrow> flight list \<Rightarrow> (string \<Rightarrow> flight \<times> query) \<Rightarrow> machine" where
  "sample_machine cache fs origin = \<lparr>m_res = sample_resolver cache, m_flights = fs, m_refresh = None, m_origin = origin\<rparr>"

lemma sample_reachable:
  "reach dns_init dns_step (sample_machine sample_cache [] (\<lambda>_. (sample_flight, sample_query)))"
proof -
  let ?o = "\<lambda>_. (sample_flight, sample_query)"
  let ?m0 = "\<lparr>m_res = fresh_resolver sample_cfg, m_flights = [], m_refresh = None, m_origin = ?o\<rparr>"
  have 0: "reach dns_init dns_step ?m0"
    by (rule reach_init) (auto simp: dns_init_def intro!: exI [of _ sample_cfg], simp add: cfg_ok_def sample_cfg_def)
  have "dns_step ?m0 (?m0\<lparr>m_refresh := Some (r_cfg (m_res ?m0))\<rparr>)"
    by (rule step_refresh_begin [where now = 0])
      (simp_all add: refresh_skips_def fresh_resolver_def sample_cfg_def zero_cfg_def)
  note 1 = reach_step [OF 0 this]
  let ?m1 = "?m0\<lparr>m_refresh := Some (r_cfg (m_res ?m0))\<rparr>"
  have "dns_step ?m1 (?m1\<lparr>m_res := fst (refresh_finish sample_cfg (obtain_discovery sample_cfg (undefined, None)) 0 (m_res ?m1)), m_refresh := None\<rparr>)"
    by (rule step_refresh_end) (simp add: fresh_resolver_def)
  moreover have "?m1\<lparr>m_res := fst (refresh_finish sample_cfg (obtain_discovery sample_cfg (undefined, None)) 0 (m_res ?m1)), m_refresh := None\<rparr>
      = sample_machine [] [] ?o"
    by (simp add: refresh_finish_def obtain_discovery_def fresh_resolver_def zero_state_def zero_cfg_def sample_cfg_def
        sample_machine_def sample_resolver_def Let_def)
  ultimately have 2: "reach dns_init dns_step (sample_machine [] [] ?o)" using reach_step [OF 1] by simp
  have "dns_step (sample_machine [] [] ?o) (sample_machine [] [sample_flight] ?o)"
    using step_lookup_fly [of 0 "''a''" "sample_machine [] [] ?o" sample_flight "sample_resolver []"] sample_lookup
    by (simp add: sample_machine_def)
  note 3 = reach_step [OF 2 this]
  have may: "may_cache 0 sample_flight sample_query (sample_resolver [])"
    by (simp add: may_cache_def sample_flight_def sample_query_def sample_resolver_def sample_cfg_def expiry_def second_def)
  have "dns_step (sample_machine [] [sample_flight] ?o) (sample_machine sample_cache [] ?o)"
    using step_flight_done [of sample_flight "sample_machine [] [sample_flight] ?o" _ _ sample_query 0 0, OF _ sample_flight_query] may
    by (simp add: sample_machine_def flight_store_def put_bounded_def)
      (simp add: sample_resolver_def sample_cache_def sample_flight_def sample_query_def sample_cfg_def expiry_def second_def fun_upd_idem)
  from reach_step [OF 3 this] show ?thesis .
qed


text \<open>The cache is bounded in every reachable state: never more entries than the largest
  size a valid configuration allows, and one entry per key.\<close>

theorem dns_cache_bounded:
  assumes "reach dns_init dns_step m"
  shows "length (r_cache (m_res m)) \<le> 65536 \<and> distinct (map fst (r_cache (m_res m)))"
  using dns_machine.inv_reach [OF assms] by (simp add: dns_inv_def)

theorem dns_cache_bounded_witness: "length sample_cache \<le> 65536 \<and> distinct (map fst sample_cache)"
  using dns_cache_bounded [OF sample_reachable] by (simp add: sample_machine_def sample_resolver_def)

text \<open>Discovery fails closed: after a refresh in automatic mode that ended in an error,
  every lookup fails with that error and no server is asked, and the cache is empty if anything
  changed; a later lookup never falls back to an older configuration.\<close>

theorem failed_discovery_blocks:
  assumes "\<not> refresh_skips now r" and "dns_mode (r_cfg r) \<noteq> ''manual''" and "error_text e \<noteq> []"
    and "refresh now later (d, Some e) r = (r', err)"
  shows "err = Some e \<and> d_groups (st_disc (r_state r')) = []
    \<and> lookup_begin time host r' = (Return (Inl (Dns_error (New (''dns_unavailable: '' @ error_text e)))), r')"
  using assms by (auto simp: refresh_def obtain_discovery_def refresh_finish_def lookup_begin_def Let_def)

theorem failed_discovery_blocks_witness:
  "\<exists>r'. refresh 0 0 (\<lparr>d_source = [], d_routing = [], d_groups = []\<rparr>, Some (New ''down'')) (fresh_resolver (sample_cfg\<lparr>dns_mode := ''auto''\<rparr>)) = (r', Some (New ''down''))
     \<and> lookup_begin 5 ''a'' r' = (Return (Inl (Dns_error (New ''dns_unavailable: down''))), r')"
proof -
  let ?r = "fresh_resolver (sample_cfg\<lparr>dns_mode := ''auto''\<rparr>)"
  have s: "\<not> refresh_skips 0 ?r" "dns_mode (r_cfg ?r) \<noteq> ''manual''" "error_text (New ''down'') \<noteq> []"
    by (simp_all add: refresh_skips_def fresh_resolver_def sample_cfg_def zero_cfg_def)
  obtain r' err where run: "refresh 0 0 (\<lparr>d_source = [], d_routing = [], d_groups = []\<rparr>, Some (New ''down'')) ?r = (r', err)"
    by (cases "refresh 0 0 (\<lparr>d_source = [], d_routing = [], d_groups = []\<rparr>, Some (New ''down'')) ?r")
  from failed_discovery_blocks [OF s run, of 5 "''a''"] run show ?thesis by simp
qed

end
