(* ===== verification/Upstream.thy ===== *)
theory Upstream
  imports Resolver
begin

text \<open>
  \<^verbatim>\<open>internal/proxy/upstream.go\<close>: reaching the real server.  The network is an argument:
  the addresses of the interfaces, the result of a connection attempt and of a handshake, each by
  the number of the attempt, and the uTLS presets.  A raw connection is named by its attempt;
  \<open>dial_trace\<close> lists the ones opened and the ones closed again.  Deadlines are set on the
  connections but are part of the network's answers.  The lookup is the interface
  \<open>lookup_service\<close> of the resolver.  The lemmas: only a permitted address is ever contacted, a
  returned connection was verified and agrees with the client's offer, and no other connection stays
  open.
\<close>

section \<open>Operations\<close>

record conn_state =
  cs_version :: nat
  cs_protocol :: string
  cs_settings :: string

record 'x net_env =
  ne_ifaddrs :: "nat \<Rightarrow> string list res"
  ne_dial :: "nat \<Rightarrow> string \<Rightarrow> unit res"
  ne_handshake :: "nat \<Rightarrow> 'x uconn \<Rightarrow> conn_state res"
  ne_presets :: "hello_id \<Rightarrow> 'x extension list res"
  ne_apply :: "'x extension list \<Rightarrow> unit res"

definition check_destination :: "string list res \<Rightarrow> addr \<Rightarrow> string \<Rightarrow> go_error option" where
  "check_destination ifaddrs ip redirect =
     (case local_addresses ifaddrs of
       Inl e \<Rightarrow> Some e
     | Inr own \<Rightarrow>
         if \<not> is4 ip \<or> is_loopback ip \<or> is_unspecified ip \<or> is_multicast ip \<or> ip = broadcast \<or> ip \<in> set own \<or> addr_string ip = redirect
         then Some (New (''upstream_loop_or_invalid_address: '' @ addr_string ip)) else None)"

text \<open>\<^verbatim>\<open>%v\<close> of a list of strings.\<close>

definition show_list :: "string list \<Rightarrow> string" where
  "show_list xs = ''['' @ join '' '' xs @ '']''"

definition handshake_upstream :: "'x net_env \<Rightarrow> nat \<Rightarrow> config \<Rightarrow> string \<Rightarrow> string list \<Rightarrow> ('x uconn \<times> conn_state \<times> string list) res" where
  "handshake_upstream E n c host offered =
     (case new_conn (ne_presets E) (ne_apply E) (up_profile (c_upstream c)) host (up_alpn_mode (c_upstream c)) offered of
       Inl e \<Rightarrow> Inl e
     | Inr (u, mods) \<Rightarrow>
         (case ne_handshake E n u of
           Inl e \<Rightarrow> Inl (Wrapf ''upstream_tls'' e)
         | Inr st \<Rightarrow>
             if \<not> compatible (cs_protocol st) offered then
               Inl (New (''alpn_mismatch: upstream selected '' @ quote (cs_protocol st) @ '', client offered '' @ show_list offered
                 @ '' (use compatible mode if needed)''))
             else if cs_settings st \<noteq> [] then
               Inl (New ''unsupported_alps: upstream sent application settings that cannot be forwarded through the downstream TLS stack; select firefox-120'')
             else Inr (u, st, mods)))"

record dial_trace =
  dt_opened :: "nat list"
  dt_closed :: "nat list"

record 'x upstream =
  us_raw :: nat
  us_conn :: "'x uconn"
  us_state :: conn_state
  us_mods :: "string list"
  us_address :: string

fun dial_ips :: "'x net_env \<Rightarrow> config \<Rightarrow> string \<Rightarrow> string list \<Rightarrow> addr list \<Rightarrow> nat \<Rightarrow> go_error option \<Rightarrow> dial_trace
    \<Rightarrow> 'x upstream res \<times> dial_trace" where
  "dial_ips E c host offered [] n prev t = (Inl (case prev of None \<Rightarrow> New ''dns_no_ipv4_address'' | Some e \<Rightarrow> e), t)"
| "dial_ips E c host offered (ip # ips) n prev t =
     (case check_destination (ne_ifaddrs E n) ip (c_hosts_address c) of
       Some e \<Rightarrow> dial_ips E c host offered ips (Suc n) (Some e) t
     | None \<Rightarrow>
         let address = join_host_port (addr_string ip) (itoa (up_port (c_upstream c))) in
         (case ne_dial E n address of
           Inl e \<Rightarrow> dial_ips E c host offered ips (Suc n) (Some (Wrapf ''upstream_connect'' e)) t
         | Inr _ \<Rightarrow>
             let t' = t\<lparr>dt_opened := n # dt_opened t\<rparr> in
             (case handshake_upstream E n c host offered of
               Inl e \<Rightarrow> dial_ips E c host offered ips (Suc n) (Some e) (t'\<lparr>dt_closed := n # dt_closed t'\<rparr>)
             | Inr (u, st, mods) \<Rightarrow>
                 (Inr \<lparr>us_raw = n, us_conn = u, us_state = st, us_mods = mods, us_address = address\<rparr>, t'))))"

text \<open>The error of a lookup as a Go error; a \<^verbatim>\<open>nameError\<close> has its message as text.\<close>

fun lookup_error :: "dns_error \<Rightarrow> go_error" where
  "lookup_error (Name_error s) = New s"
| "lookup_error (Dns_error e) = e"

definition dial_upstream :: "(string \<Rightarrow> 'r \<Rightarrow> (dns_error + addr list) \<times> 'r) \<Rightarrow> 'x net_env \<Rightarrow> config \<Rightarrow> string \<Rightarrow> string list \<Rightarrow> 'r
    \<Rightarrow> 'x upstream res \<times> dial_trace \<times> 'r" where
  "dial_upstream ask E c host offered r =
     (case ask host r of
       (Inl e, r') \<Rightarrow> (Inl (lookup_error e), \<lparr>dt_opened = [], dt_closed = []\<rparr>, r')
     | (Inr ips, r') \<Rightarrow>
         (case dial_ips E c host offered ips 0 None \<lparr>dt_opened = [], dt_closed = []\<rparr> of (res, t) \<Rightarrow> (res, t, r')))"

section \<open>What is contacted\<close>

text \<open>An address the program may contact on behalf of a client.\<close>

definition permitted :: "string list res \<Rightarrow> string \<Rightarrow> addr \<Rightarrow> bool" where
  "permitted ifaddrs redirect ip =
     (\<exists>w own. ip = V4 w \<and> local_addresses ifaddrs = Inr own \<and> ip \<notin> set own \<and> drop_bit 24 w \<noteq> 127 \<and> w \<noteq> 0 \<and> drop_bit 28 w \<noteq> 0xE
      \<and> w \<noteq> 0xFFFFFFFF \<and> v4_string w \<noteq> redirect)"

lemma check_destination_None: "check_destination ifaddrs ip redirect = None \<longleftrightarrow> permitted ifaddrs redirect ip"
  by (cases ip) (auto simp: check_destination_def permitted_def split: sum.splits)

lemma check_destination_error:
  "check_destination ifaddrs ip redirect = Some e \<Longrightarrow> local_addresses ifaddrs = Inl e \<or> e = New (''upstream_loop_or_invalid_address: '' @ addr_string ip)"
  by (auto simp: check_destination_def split: sum.splits if_splits)

text \<open>The last attempt that failed decides the error.\<close>

definition attempt_failed :: "'x net_env \<Rightarrow> config \<Rightarrow> string \<Rightarrow> string list \<Rightarrow> nat \<Rightarrow> addr \<Rightarrow> go_error \<Rightarrow> bool" where
  "attempt_failed E c host offered n ip e =
     (check_destination (ne_ifaddrs E n) ip (c_hosts_address c) = Some e
      \<or> (\<exists>e'. ne_dial E n (join_host_port (addr_string ip) (itoa (up_port (c_upstream c)))) = Inl e' \<and> e = Wrapf ''upstream_connect'' e')
      \<or> handshake_upstream E n c host offered = Inl e)"

text \<open>A connection that was checked: the attempt, the address and the handshake.\<close>

definition verified :: "'x net_env \<Rightarrow> config \<Rightarrow> string \<Rightarrow> string list \<Rightarrow> addr \<Rightarrow> 'x upstream \<Rightarrow> bool" where
  "verified E c host offered ip u =
     (permitted (ne_ifaddrs E (us_raw u)) (c_hosts_address c) ip
      \<and> us_address u = join_host_port (addr_string ip) (itoa (up_port (c_upstream c)))
      \<and> ne_dial E (us_raw u) (us_address u) = Inr ()
      \<and> new_conn (ne_presets E) (ne_apply E) (up_profile (c_upstream c)) host (up_alpn_mode (c_upstream c)) offered = Inr (us_conn u, us_mods u)
      \<and> ne_handshake E (us_raw u) (us_conn u) = Inr (us_state u)
      \<and> compatible (cs_protocol (us_state u)) offered \<and> cs_settings (us_state u) = [])"

lemma handshake_ok:
  "handshake_upstream E n c host offered = Inr (u, st, mods) \<Longrightarrow>
     new_conn (ne_presets E) (ne_apply E) (up_profile (c_upstream c)) host (up_alpn_mode (c_upstream c)) offered = Inr (u, mods)
     \<and> ne_handshake E n u = Inr st \<and> compatible (cs_protocol st) offered \<and> cs_settings st = []"
  by (auto simp: handshake_upstream_def split: sum.splits prod.splits if_splits)

lemma dial_ips_sound:
  assumes "dial_ips E c host offered ips n prev t = (res, t')" "dt_opened t = dt_closed t" "\<forall>k \<in> set (dt_opened t). k < n"
  shows "(case res of
      Inr u \<Rightarrow> (\<exists>i < length ips. us_raw u = n + i \<and> verified E c host offered (ips ! i) u)
        \<and> dt_opened t' = us_raw u # dt_closed t' \<and> us_raw u \<notin> set (dt_closed t')
    | Inl e \<Rightarrow> dt_opened t' = dt_closed t'
        \<and> (ips = [] \<and> e = (case prev of None \<Rightarrow> New ''dns_no_ipv4_address'' | Some e \<Rightarrow> e)
           \<or> ips \<noteq> [] \<and> attempt_failed E c host offered (n + length ips - 1) (last ips) e))"
  using assms
proof (induction ips arbitrary: n prev t)
  case Nil
  then show ?case by auto
next
  case (Cons ip ips)
  let ?goal = "case res of
      Inr u \<Rightarrow> (\<exists>i < length (ip # ips). us_raw u = n + i \<and> verified E c host offered ((ip # ips) ! i) u)
        \<and> dt_opened t' = us_raw u # dt_closed t' \<and> us_raw u \<notin> set (dt_closed t')
    | Inl e \<Rightarrow> dt_opened t' = dt_closed t'
        \<and> (ip # ips = [] \<and> e = (case prev of None \<Rightarrow> New ''dns_no_ipv4_address'' | Some e \<Rightarrow> e)
           \<or> ip # ips \<noteq> [] \<and> attempt_failed E c host offered (n + length (ip # ips) - 1) (last (ip # ips)) e)"
  have next_ip: ?goal
    if "dial_ips E c host offered ips (Suc n) (Some e) t1 = (res, t')" "dt_opened t1 = dt_closed t1"
      "\<forall>k \<in> set (dt_opened t1). k < Suc n" "attempt_failed E c host offered n ip e" for e t1
  proof (cases res)
    case (Inl e')
    with Cons.IH [OF that(1-3)] that(4) show ?thesis by (cases ips) auto
  next
    case (Inr u)
    with Cons.IH [OF that(1-3)] obtain i where "i < length ips" "us_raw u = Suc n + i" "verified E c host offered (ips ! i) u"
      "dt_opened t' = us_raw u # dt_closed t'" "us_raw u \<notin> set (dt_closed t')" by auto
    with Inr show ?thesis by (auto intro!: exI [of _ "Suc i"])
  qed
  let ?address = "join_host_port (addr_string ip) (itoa (up_port (c_upstream c)))"
  let ?t1 = "t\<lparr>dt_opened := n # dt_opened t\<rparr>"
  show ?case
  proof (cases "check_destination (ne_ifaddrs E n) ip (c_hosts_address c)")
    case (Some e)
    with Cons.prems show ?thesis by (intro next_ip [of e t]) (auto simp: attempt_failed_def)
  next
    case None
    show ?thesis
    proof (cases "ne_dial E n ?address")
      case (Inl e)
      with None Cons.prems show ?thesis
        by (intro next_ip [of "Wrapf ''upstream_connect'' e" t]) (auto simp: attempt_failed_def Let_def)
    next
      case dialled: (Inr x)
      show ?thesis
      proof (cases "handshake_upstream E n c host offered")
        case (Inl e)
        with None dialled Cons.prems show ?thesis
          by (intro next_ip [of e "?t1\<lparr>dt_closed := n # dt_closed ?t1\<rparr>"]) (auto simp: attempt_failed_def Let_def)
      next
        case (Inr y)
        then obtain u st mods where y: "handshake_upstream E n c host offered = Inr (u, st, mods)" by (cases y) auto
        with None dialled Cons.prems(1) have r: "res = Inr \<lparr>us_raw = n, us_conn = u, us_state = st, us_mods = mods, us_address = ?address\<rparr>" "t' = ?t1"
          by (simp_all add: Let_def)
        have "verified E c host offered ip \<lparr>us_raw = n, us_conn = u, us_state = st, us_mods = mods, us_address = ?address\<rparr>"
          using handshake_ok [OF y] None dialled by (simp add: verified_def check_destination_None)
        with r Cons.prems(2,3) show ?thesis by (auto intro!: exI [of _ 0])
      qed
    qed
  qed
qed

text \<open>What a caller of any lookup service gets.\<close>

context lookup_service
begin

lemma dial_sound:
  assumes inv: "inv r" and run: "dial_upstream ask E c host offered r = (res, t, r')"
  shows "inv r' \<and> (case res of
      Inr u \<Rightarrow> (\<exists>ips ip. ask host r = (Inr ips, r') \<and> ip \<in> set ips \<and> verified E c host offered ip u)
        \<and> dt_opened t = us_raw u # dt_closed t \<and> us_raw u \<notin> set (dt_closed t)
    | Inl e \<Rightarrow> dt_opened t = dt_closed t
        \<and> ((\<exists>d. ask host r = (Inl d, r') \<and> e = lookup_error d)
           \<or> (\<exists>ips. ask host r = (Inr ips, r') \<and> ips \<noteq> [] \<and> attempt_failed E c host offered (length ips - 1) (last ips) e)))"
proof -
  obtain a r1 where a: "ask host r = (a, r1)" by (cases "ask host r")
  show ?thesis
  proof (cases a)
    case (Inl d)
    with a run ask_inv [OF inv a] show ?thesis by (auto simp: dial_upstream_def)
  next
    case (Inr ips)
    let ?t0 = "\<lparr>dt_opened = [], dt_closed = []\<rparr>"
    obtain res' t' where d: "dial_ips E c host offered ips 0 None ?t0 = (res', t')"
      by (cases "dial_ips E c host offered ips 0 None ?t0")
    with a Inr run have e: "res' = res" "t' = t" "r1 = r'" by (simp_all add: dial_upstream_def)
    from a Inr have ne: "ips \<noteq> []" using answer_nonempty [OF inv] by blast
    from dial_ips_sound [OF d] e ne have "case res of
      Inr u \<Rightarrow> (\<exists>i < length ips. verified E c host offered (ips ! i) u)
        \<and> dt_opened t = us_raw u # dt_closed t \<and> us_raw u \<notin> set (dt_closed t)
    | Inl e \<Rightarrow> dt_opened t = dt_closed t \<and> attempt_failed E c host offered (length ips - 1) (last ips) e"
      by (auto split: sum.splits)
    with a Inr e ne ask_inv [OF inv a] show ?thesis by (cases res) (auto simp: in_set_conv_nth)
  qed
qed

end

lemma new_conn_config:
  "new_conn presets apply_preset name host mode offered = Inr (u, mods) \<Longrightarrow> u_server_name u = host \<and> u_min_version u = VersionTLS12"
  by (auto simp: new_conn_def Let_def split: sum.splits if_splits prod.splits)

section \<open>Properties\<close>

text \<open>C5: an upstream connection that is returned goes to an address the resolver gave for the
  host, an IPv4 address that is neither loopback, unspecified, multicast, broadcast, one of the
  machine's own addresses nor the redirect address; its hello is the profile's with the host as
  server name, its handshake succeeded, its protocol suits the client's offer and it carries no
  application settings; every other connection opened on the way is closed again.  A failure leaves
  no connection open and reports the lookup's error or that of the last address, never an empty
  answer.\<close>

theorem dial_only_verified:
  assumes "cache_nonempty r"
    and "dial_upstream (lookup_retry env1 now later discovered env2) E c host offered r = (res, t, r')"
  shows "cache_nonempty r' \<and> (case res of
      Inr u \<Rightarrow> (\<exists>ips ip. lookup_retry env1 now later discovered env2 host r = (Inr ips, r') \<and> ip \<in> set ips
            \<and> permitted (ne_ifaddrs E (us_raw u)) (c_hosts_address c) ip
            \<and> us_address u = join_host_port (addr_string ip) (itoa (up_port (c_upstream c))))
        \<and> u_server_name (us_conn u) = host \<and> u_min_version (us_conn u) = VersionTLS12
        \<and> ne_handshake E (us_raw u) (us_conn u) = Inr (us_state u)
        \<and> compatible (cs_protocol (us_state u)) offered \<and> cs_settings (us_state u) = []
        \<and> dt_opened t = us_raw u # dt_closed t \<and> us_raw u \<notin> set (dt_closed t)
    | Inl e \<Rightarrow> dt_opened t = dt_closed t
        \<and> ((\<exists>d. lookup_retry env1 now later discovered env2 host r = (Inl d, r') \<and> e = lookup_error d)
           \<or> (\<exists>ips. lookup_retry env1 now later discovered env2 host r = (Inr ips, r') \<and> ips \<noteq> []
                \<and> attempt_failed E c host offered (length ips - 1) (last ips) e)))"
proof (cases res)
  case (Inl e)
  with resolver.dial_sound [OF assms] show ?thesis by simp
next
  case (Inr u)
  with resolver.dial_sound [OF assms] obtain ips ip where
    s: "cache_nonempty r'" "lookup_retry env1 now later discovered env2 host r = (Inr ips, r')" "ip \<in> set ips" "verified E c host offered ip u"
    "dt_opened t = us_raw u # dt_closed t" "us_raw u \<notin> set (dt_closed t)" by auto
  then have "u_server_name (us_conn u) = host \<and> u_min_version (us_conn u) = VersionTLS12"
    by (auto simp: verified_def dest: new_conn_config)
  with s Inr show ?thesis by (auto simp: verified_def)
qed

definition sample_net :: "nat net_env" where
  "sample_net = \<lparr>ne_ifaddrs = (\<lambda>_. Inr []), ne_dial = (\<lambda>_ _. Inr ()),
     ne_handshake = (\<lambda>_ _. Inr \<lparr>cs_version = 772, cs_protocol = ''http/1.1'', cs_settings = []\<rparr>),
     ne_presets = sample_preset, ne_apply = (\<lambda>_. Inr ())\<rparr>"

definition sample_attempt :: attempt_env where
  "sample_attempt = \<lparr>ae_now = 0, ae_later = 0, ae_victim = 0, ae_lib = (\<lambda>_. answer_with sample_answer), ae_clock = (\<lambda>_. 0), ae_ended = None\<rparr>"

abbreviation sample_ask :: "string \<Rightarrow> resolver \<Rightarrow> (dns_error + addr list) \<times> resolver" where
  "sample_ask \<equiv> lookup_retry sample_attempt 0 0 (\<lparr>d_source = [], d_routing = [], d_groups = []\<rparr>, None) sample_attempt"

lemma sample_ask_cached: "sample_ask ''a'' (sample_resolver sample_cache) = (Inr [V4 0x09090909], sample_resolver sample_cache)"
  by (simp add: lookup_retry_def lookup_with_def sample_attempt_def lookup_once_def lookup_begin_def sample_resolver_def sample_cache_def
      fqdn_def to_lower_def lower_char_def char_evals second_def code_def)

lemma sample_handshake:
  "handshake_upstream sample_net n (defaults Linux) host [''http/1.1''] =
     Inr (\<lparr>u_server_name = host, u_min_version = VersionTLS12, u_extensions = [OtherExtension 0, ALPNExtension [''http/1.1'']]\<rparr>,
       \<lparr>cs_version = 772, cs_protocol = ''http/1.1'', cs_settings = []\<rparr>, [''ALPN restricted to client protocols'', removed_note])"
  by (simp add: handshake_upstream_def sample_net_def defaults_def Let_def new_conn_def get_profile_def profile_list_def sample_preset_def
      intersection_def compatible_def)

theorem dial_only_verified_witness:
  "\<exists>u t r'. dial_upstream sample_ask sample_net (defaults Linux) ''a'' [''http/1.1''] (sample_resolver sample_cache) = (Inr u, t, r')
     \<and> us_address u = ''9.9.9.9:443'' \<and> u_server_name (us_conn u) = ''a'' \<and> dt_closed t = []"
proof -
  have c: "cache_nonempty (sample_resolver sample_cache)" by (simp add: cache_nonempty_def sample_resolver_def sample_cache_def)
  have v: "v4_string 0x09090909 = ''9.9.9.9''" "itoa 443 = ''443''"
    by (simp_all add: v4_string_def v4_bytes_def dotted_def dec.simps digit_char_def char_evals itoa_def)
  have p: "check_destination (ne_ifaddrs sample_net 0) (V4 0x09090909) (c_hosts_address (defaults Linux)) = None"
    by (simp add: check_destination_def sample_net_def local_addresses_def v defaults_def Let_def)
  have dl: "ne_dial sample_net n a = Inr ()" for n a by (simp add: sample_net_def)
  have d: "up_port (c_upstream (defaults Linux)) = 443" by (simp add: defaults_def Let_def)
  have "\<exists>u t. dial_upstream sample_ask sample_net (defaults Linux) ''a'' [''http/1.1''] (sample_resolver sample_cache) = (Inr u, t, sample_resolver sample_cache)
     \<and> us_address u = ''9.9.9.9:443'' \<and> dt_closed t = []"
    by (simp add: dial_upstream_def sample_ask_cached p sample_handshake d v dl Let_def join_host_port_def)
  then obtain u t where run: "dial_upstream sample_ask sample_net (defaults Linux) ''a'' [''http/1.1''] (sample_resolver sample_cache) = (Inr u, t, sample_resolver sample_cache)"
    and a: "us_address u = ''9.9.9.9:443''" "dt_closed t = []" by blast
  from dial_only_verified [OF c run] run a show ?thesis by auto
qed

end
