(* ===== verification/CA.thy ===== *)
theory CA
  imports FsUtil
begin

text \<open>
  \<^verbatim>\<open>internal/ca/ca.go\<close>: creating, loading and inspecting the certificate authority, and
  issuing leaf certificates with a cache.  Randomness and the clock are arguments of a call
  (\<open>issue_env\<close>, \<open>create_env\<close>).  Signing, DER, PEM and hashing are the fields of \<open>crypto\<close>;
  \<open>crypto_ok\<close> states what the code relies on: a created certificate parses to its template with
  times cut to whole seconds, and an encoded pair loads again.  The mutex makes a call of
  \<^verbatim>\<open>Certificate\<close> one step.  The lemmas: every certificate handed out is valid for its host
  now and inside the validity of the authority, the cache stays bounded, \<^verbatim>\<open>Init\<close> never
  touches existing files, and what it writes loads again.
\<close>

section \<open>Certificates and keys\<close>

record ec_key =
  k_d :: int
  k_x :: int
  k_y :: int

definition public_key :: "ec_key \<Rightarrow> int \<times> int" where
  "public_key k = (k_x k, k_y k)"

text \<open>The dynamic type of \<^verbatim>\<open>pair.PrivateKey\<close>.\<close>

datatype private_key = Ecdsa ec_key | Other_key

record cert =
  x_raw :: string
  x_serial :: int
  x_subject :: string
  x_dns :: "string list"
  x_not_before :: int
  x_not_after :: int
  x_is_ca :: bool
  x_basic :: bool
  x_usage :: "64 word"
  x_ext_usage :: "nat list"
  x_max_path :: int
  x_max_path_zero :: bool
  x_public :: "int \<times> int"

definition KeyUsageDigitalSignature :: "64 word" where "KeyUsageDigitalSignature = 1"
definition KeyUsageCertSign :: "64 word" where "KeyUsageCertSign = 32"
definition KeyUsageCRLSign :: "64 word" where "KeyUsageCRLSign = 64"
definition ExtKeyUsageServerAuth :: nat where "ExtKeyUsageServerAuth = 1"

text \<open>A template: the fields a composite literal leaves out are zero.\<close>

definition zero_cert :: cert where
  "zero_cert = \<lparr>x_raw = [], x_serial = 0, x_subject = [], x_dns = [], x_not_before = 0, x_not_after = 0, x_is_ca = False,
     x_basic = False, x_usage = 0, x_ext_usage = [], x_max_path = 0, x_max_path_zero = False, x_public = (0, 0)\<rparr>"

record crypto =
  cr_create :: "cert \<Rightarrow> cert \<Rightarrow> int \<times> int \<Rightarrow> ec_key \<Rightarrow> string res"
  cr_parse :: "string \<Rightarrow> cert res"
  cr_marshal :: "ec_key \<Rightarrow> string res"
  cr_pem_encode :: "string \<Rightarrow> string \<Rightarrow> string"
  cr_pem_decode :: "string \<Rightarrow> (string \<times> string) option"
  cr_key_pair :: "string \<Rightarrow> string \<Rightarrow> (string list \<times> private_key) res"
  cr_name :: "string \<Rightarrow> string"
  cr_sha256_hex :: "string \<Rightarrow> string"

section \<open>Inspecting and creating\<close>

record info =
  i_schema :: int
  i_subject :: string
  i_not_before :: int
  i_not_after :: int
  i_sha256 :: string
  i_certificate :: path

definition inspect :: "crypto \<Rightarrow> path \<Rightarrow> info io" where
  "inspect C path =
     bind_io (sys_read path) (\<lambda>b.
     case cr_pem_decode C b of
       None \<Rightarrow> throw (New ''invalid PEM certificate'')
     | Some (ty, der) \<Rightarrow>
         (case cr_parse C der of
           Inl e \<Rightarrow> throw e
         | Inr c \<Rightarrow> ret \<lparr>i_schema = 1, i_subject = cr_name C (x_subject c), i_not_before = x_not_before c,
             i_not_after = x_not_after c, i_sha256 = cr_sha256_hex C (x_raw c), i_certificate = path\<rparr>))"

text \<open>What \<^verbatim>\<open>rand.Reader\<close> and \<^verbatim>\<open>time.Now\<close> give to one call.\<close>

record draw =
  dr_key :: "ec_key res"
  dr_serial :: "int res"
  dr_now :: int

definition hour :: int where "hour = 3600 * second"
definition minute :: int where "minute = 60 * second"

definition max_validity :: int where
  "max_validity = 20 * 365 * 24 * hour"

definition ca_template :: "string \<Rightarrow> int \<Rightarrow> int \<Rightarrow> int \<Rightarrow> cert" where
  "ca_template name validity s now =
     zero_cert\<lparr>x_serial := s, x_subject := name, x_not_before := now - 5 * minute, x_not_after := now + validity,
       x_is_ca := True, x_basic := True, x_usage := KeyUsageCertSign OR KeyUsageCRLSign,
       x_max_path := 0, x_max_path_zero := True\<rparr>"

text \<open>The loop that refuses to overwrite: an error other than a missing file refuses as well.\<close>

definition refuse_existing :: "path \<Rightarrow> unit io" where
  "refuse_existing p = bind_io (attempt (sys_lstat p)) (\<lambda>r.
     case r of
       Inl e \<Rightarrow> guard (\<not> error_is e (Os ENOENT)) (New (''refusing to overwrite existing CA output '' @ p))
     | Inr _ \<Rightarrow> throw (New (''refusing to overwrite existing CA output '' @ p)))"

definition cert_path :: "path \<Rightarrow> path" where "cert_path dir = path_join dir ''ca.crt''"
definition key_path :: "path \<Rightarrow> path" where "key_path dir = path_join dir ''ca.key''"

text \<open>Making the certificate and both encodings, before anything is written.\<close>

definition make_ca :: "crypto \<Rightarrow> draw \<Rightarrow> string \<Rightarrow> int \<Rightarrow> (ec_key \<times> string \<times> string) res" where
  "make_ca C d name validity =
     (case dr_key d of
       Inl e \<Rightarrow> Inl e
     | Inr k \<Rightarrow>
         (case dr_serial d of
           Inl e \<Rightarrow> Inl e
         | Inr s \<Rightarrow>
             let t = ca_template name validity s (dr_now d) in
             (case cr_create C t t (public_key k) k of
               Inl e \<Rightarrow> Inl e
             | Inr der \<Rightarrow>
                 (case cr_marshal C k of
                   Inl e \<Rightarrow> Inl e
                 | Inr kb \<Rightarrow> Inr (k, der, kb)))))"

definition ca_checks :: "path \<Rightarrow> string \<Rightarrow> int \<Rightarrow> unit io" where
  "ca_checks dir name validity =
     bind_io (guard (validity \<le> 0 \<or> validity > max_validity) (New ''CA validity must be positive and at most 20 years'')) (\<lambda>_.
     bind_io (guard (name = []) (New ''CA name must not be empty'')) (\<lambda>_.
     bind_io (private_dir dir) (\<lambda>_.
     foreach [cert_path dir, key_path dir] refuse_existing)))"

definition ca_write :: "crypto \<Rightarrow> path \<Rightarrow> string \<Rightarrow> string \<Rightarrow> unit io" where
  "ca_write C dir der kb =
     bind_io (exclusive (key_path dir) (cr_pem_encode C ''PRIVATE KEY'' kb) 384) (\<lambda>_.
     bind_io (attempt (exclusive (cert_path dir) (cr_pem_encode C ''CERTIFICATE'' der) 420)) (\<lambda>r.
     case r of
       Inl e \<Rightarrow> deferring (sys_remove (key_path dir)) (throw e)
     | Inr _ \<Rightarrow> ret ()))"

definition ca_init :: "crypto \<Rightarrow> draw \<Rightarrow> path \<Rightarrow> string \<Rightarrow> int \<Rightarrow> info io" where
  "ca_init C d dir name validity =
     bind_io (ca_checks dir name validity) (\<lambda>_.
     bind_io (of_res (make_ca C d name validity)) (\<lambda>(k, der, kb).
     bind_io (ca_write C dir der kb) (\<lambda>_.
     inspect C (cert_path dir))))"

section \<open>Loading\<close>

record tls_cert =
  t_chain :: "string list"
  t_key :: private_key
  t_leaf :: cert

record authority =
  a_cert :: cert
  a_key :: ec_key
  a_cache :: "(string \<times> tls_cert) list"
  a_max :: nat

definition valid_at :: "int \<Rightarrow> cert \<Rightarrow> bool" where
  "valid_at now c = (\<not> (now < x_not_before c \<or> \<not> now < x_not_after c))"

text \<open>\<^verbatim>\<open>tls.LoadX509KeyPair\<close> reads both files; the parsed pair has at least one certificate.\<close>

definition load_pair :: "crypto \<Rightarrow> path \<Rightarrow> path \<Rightarrow> (string list \<times> private_key) io" where
  "load_pair C certp keyp =
     bind_io (sys_read certp) (\<lambda>cb. bind_io (sys_read keyp) (\<lambda>kb. of_res (cr_key_pair C cb kb)))"

text \<open>From the loaded pair to the authority.\<close>

definition adopt_pair :: "crypto \<Rightarrow> int \<Rightarrow> string list \<Rightarrow> private_key \<Rightarrow> authority res" where
  "adopt_pair C now chain key =
     (case chain of
       [] \<Rightarrow> Inl (New ''index out of range'')
     | der # _ \<Rightarrow>
         (case cr_parse C der of
           Inl e \<Rightarrow> Inl e
         | Inr c \<Rightarrow>
             if \<not> x_is_ca c \<or> \<not> x_basic c \<or> x_usage c AND KeyUsageCertSign = 0 then Inl (New ''certificate is not a signing CA'')
             else if \<not> valid_at now c then Inl (New ''CA is not currently valid'')
             else
               (case key of
                 Ecdsa k \<Rightarrow> Inr \<lparr>a_cert = c, a_key = k, a_cache = [], a_max = 4096\<rparr>
               | Other_key \<Rightarrow> Inl (New ''expected ECDSA CA key''))))"

definition ca_load :: "crypto \<Rightarrow> int \<Rightarrow> path \<Rightarrow> path \<Rightarrow> authority io" where
  "ca_load C now certp keyp =
     bind_io (regular keyp) (\<lambda>_.
     bind_io (sys_stat keyp) (\<lambda>i.
     bind_io (guard (n_perm i AND mask_others \<noteq> 0) (New (''CA key must have mode 600: '' @ keyp))) (\<lambda>_.
     bind_io (load_pair C certp keyp) (\<lambda>(chain, key).
     of_res (adopt_pair C now chain key)))))"

section \<open>Issuing\<close>

record issue_env = draw +
  ie_victim :: nat

definition leaf_template :: "cert \<Rightarrow> string \<Rightarrow> int \<Rightarrow> int \<Rightarrow> cert" where
  "leaf_template ca host s now =
     zero_cert\<lparr>x_serial := s, x_subject := host, x_dns := [host],
       x_not_before := (if now - 5 * minute < x_not_before ca then x_not_before ca else now - 5 * minute),
       x_not_after := (if now + 30 * 24 * hour > x_not_after ca then x_not_after ca else now + 30 * 24 * hour),
       x_usage := KeyUsageDigitalSignature, x_ext_usage := [ExtKeyUsageServerAuth], x_basic := True\<rparr>"

text \<open>A new leaf, once the cache has none that lasts.\<close>

definition issue_leaf :: "crypto \<Rightarrow> issue_env \<Rightarrow> string \<Rightarrow> authority \<Rightarrow> tls_cert res" where
  "issue_leaf C d host a =
     (case dr_key d of
       Inl e \<Rightarrow> Inl e
     | Inr k \<Rightarrow>
         (case dr_serial d of
           Inl e \<Rightarrow> Inl e
         | Inr s \<Rightarrow>
             (case cr_create C (leaf_template (a_cert a) host s (dr_now d)) (a_cert a) (public_key k) (a_key a) of
               Inl e \<Rightarrow> Inl e
             | Inr der \<Rightarrow>
                 (case cr_parse C der of
                   Inl e \<Rightarrow> Inl e
                 | Inr leaf \<Rightarrow> Inr \<lparr>t_chain = [der], t_key = Ecdsa k, t_leaf = leaf\<rparr>))))"

definition lasting :: "int \<Rightarrow> tls_cert \<Rightarrow> bool" where
  "lasting now c = (x_not_after (t_leaf c) > now + 24 * hour)"

definition certificate :: "crypto \<Rightarrow> issue_env \<Rightarrow> string \<Rightarrow> authority \<Rightarrow> tls_cert res \<times> authority" where
  "certificate C d host a =
     (if \<not> valid_at (dr_now d) (a_cert a) then (Inl (New ''CA is not currently valid''), a)
      else
        case (case map_of (a_cache a) host of None \<Rightarrow> None | Some c \<Rightarrow> if lasting (dr_now d) c then Some c else None) of
          Some c \<Rightarrow> (Inr c, a)
        | None \<Rightarrow>
            (case issue_leaf C d host a of
              Inl e \<Rightarrow> (Inl e, a)
            | Inr c \<Rightarrow> (Inr c, a\<lparr>a_cache := put_bounded (a_max a) (ie_victim d) host c (a_cache a)\<rparr>)))"

section \<open>What the encodings are relied on for\<close>

definition trunc_second :: "int \<Rightarrow> int" where
  "trunc_second t = t div second * second"

text \<open>
  A parsed certificate has times of whole seconds; a created one parses to its template, cut to
  whole seconds, with the public key it was made for; PEM blocks decode; a self-signed certificate
  and its marshalled key load as a pair.
\<close>

definition parses_to :: "cert \<Rightarrow> int \<times> int \<Rightarrow> string \<Rightarrow> cert \<Rightarrow> bool" where
  "parses_to t pub der c =
     (x_raw c = der \<and> x_public c = pub \<and> x_serial c = x_serial t \<and> x_subject c = x_subject t \<and> x_dns c = x_dns t
      \<and> x_not_before c = trunc_second (x_not_before t) \<and> x_not_after c = trunc_second (x_not_after t)
      \<and> x_is_ca c = x_is_ca t \<and> x_basic c = x_basic t \<and> x_usage c = x_usage t \<and> x_ext_usage c = x_ext_usage t)"

definition crypto_ok :: "crypto \<Rightarrow> bool" where
  "crypto_ok C =
     ((\<forall>der c. cr_parse C der = Inr c \<longrightarrow> second dvd x_not_before c \<and> second dvd x_not_after c)
      \<and> (\<forall>t parent pub k der. cr_create C t parent pub k = Inr der \<longrightarrow> (\<exists>c. cr_parse C der = Inr c \<and> parses_to t pub der c))
      \<and> (\<forall>ty b. cr_pem_decode C (cr_pem_encode C ty b) = Some (ty, b))
      \<and> (\<forall>t k der kb. cr_create C t t (public_key k) k = Inr der \<and> cr_marshal C k = Inr kb \<longrightarrow>
           cr_key_pair C (cr_pem_encode C ''CERTIFICATE'' der) (cr_pem_encode C ''PRIVATE KEY'' kb) = Inr ([der], Ecdsa k)))"

section \<open>The issuer and its machine\<close>

text \<open>
  What a served certificate promises: it names exactly the host, is an end-entity certificate for
  servers made with the authority's key for the key it comes with, inside the authority's validity.
\<close>

definition serves :: "crypto \<Rightarrow> cert \<Rightarrow> ec_key \<Rightarrow> string \<Rightarrow> tls_cert \<Rightarrow> bool" where
  "serves C ca key host c =
     (let leaf = t_leaf c in
      x_subject leaf = host \<and> x_dns leaf = [host] \<and> \<not> x_is_ca leaf \<and> x_ext_usage leaf = [ExtKeyUsageServerAuth]
      \<and> x_not_before ca \<le> x_not_before leaf \<and> x_not_after leaf \<le> x_not_after ca
      \<and> t_chain c = [x_raw leaf]
      \<and> (\<exists>k t. t_key c = Ecdsa k \<and> x_public leaf = public_key k
           \<and> cr_create C t ca (public_key k) key = Inr (x_raw leaf)))"

text \<open>The invariant at time \<open>t\<close> of an authority with this certificate and key.\<close>

definition ca_good :: "crypto \<Rightarrow> cert \<Rightarrow> ec_key \<Rightarrow> int \<Rightarrow> authority \<Rightarrow> bool" where
  "ca_good C ca key t a =
     (crypto_ok C \<and> a_cert a = ca \<and> a_key a = key \<and> a_max a = 4096
      \<and> second dvd x_not_before ca \<and> second dvd x_not_after ca
      \<and> distinct (map fst (a_cache a)) \<and> length (a_cache a) \<le> 4096
      \<and> (\<forall>host c. map_of (a_cache a) host = Some c \<longrightarrow> serves C ca key host c \<and> x_not_before (t_leaf c) \<le> t))"

fun ordered :: "('e \<Rightarrow> int) \<Rightarrow> int \<Rightarrow> ('e \<times> string) list \<Rightarrow> bool" where
  "ordered now_of t [] = True"
| "ordered now_of t ((e, host) # calls) = (t \<le> now_of e \<and> ordered now_of (now_of e) calls)"

fun last_time :: "('e \<Rightarrow> int) \<Rightarrow> int \<Rightarrow> ('e \<times> string) list \<Rightarrow> int" where
  "last_time now_of t [] = t"
| "last_time now_of t ((e, host) # calls) = last_time now_of (now_of e) calls"

fun run_calls :: "('e \<Rightarrow> string \<Rightarrow> 'a \<Rightarrow> 'r \<times> 'a) \<Rightarrow> ('e \<times> string) list \<Rightarrow> 'a \<Rightarrow> 'a" where
  "run_calls issue [] a = a"
| "run_calls issue ((e, host) # calls) a = run_calls issue calls (snd (issue e host a))"

locale issuer =
  fixes issue :: "'e \<Rightarrow> string \<Rightarrow> 'a \<Rightarrow> 'c res \<times> 'a"
    and now_of :: "'e \<Rightarrow> int"
    and good :: "int \<Rightarrow> 'a \<Rightarrow> bool"
    and valid :: "string \<Rightarrow> int \<Rightarrow> 'c \<Rightarrow> bool"
  assumes issue_valid: "good t a \<Longrightarrow> t \<le> now_of e \<Longrightarrow> issue e host a = (Inr c, a') \<Longrightarrow> valid host (now_of e) c"
    and issue_good: "good t a \<Longrightarrow> t \<le> now_of e \<Longrightarrow> issue e host a = (r, a') \<Longrightarrow> good (now_of e) a'"
begin

text \<open>Calls one after the other, the clock never going back.\<close>

lemma calls_good: "good t a \<Longrightarrow> ordered now_of t calls \<Longrightarrow> good (last_time now_of t calls) (run_calls issue calls a)"
proof (induction calls arbitrary: t a)
  case (Cons call calls)
  obtain e host where call: "call = (e, host)" by (cases call)
  with Cons.prems have "good (now_of e) (snd (issue e host a))" by (auto intro: issue_good surjective_pairing)
  with Cons call show ?case by simp
qed simp

lemma call_after_calls:
  assumes "good t a" "ordered now_of t (calls @ [(e, host)])" "issue e host (run_calls issue calls a) = (r, a')"
  shows "good (now_of e) a' \<and> (\<forall>c. r = Inr c \<longrightarrow> valid host (now_of e) c)"
proof -
  from assms(2) have o: "ordered now_of t calls" "last_time now_of t calls \<le> now_of e"
    by (induction calls arbitrary: t) auto
  with calls_good [OF assms(1)] have g: "good (last_time now_of t calls) (run_calls issue calls a)" by blast
  from issue_good [OF g o(2) assms(3)] issue_valid [OF g o(2)] assms(3) show ?thesis by blast
qed

end

lemma trunc_second_le: "trunc_second t \<le> t"
  and trunc_second_gt: "t < trunc_second t + second"
  by (simp_all add: trunc_second_def second_def minus_mod_eq_div_mult [symmetric])

lemma trunc_second_dvd: "second dvd t \<Longrightarrow> trunc_second t = t"
  by (simp add: trunc_second_def)

lemma trunc_second_mono: "t \<le> u \<Longrightarrow> trunc_second t \<le> trunc_second u"
  by (simp add: trunc_second_def second_def zdiv_mono1)

lemma valid_at_iff: "valid_at now c \<longleftrightarrow> x_not_before c \<le> now \<and> now < x_not_after c"
  by (auto simp: valid_at_def)

text \<open>A fresh leaf keeps the promise and is valid now.\<close>

lemma issue_leaf_serves:
  assumes ok: "crypto_ok C" and dvd: "second dvd x_not_before (a_cert a)" "second dvd x_not_after (a_cert a)"
    and now: "valid_at (dr_now d) (a_cert a)" and run: "issue_leaf C d host a = Inr c"
  shows "serves C (a_cert a) (a_key a) host c \<and> valid_at (dr_now d) (t_leaf c)"
proof -
  let ?ca = "a_cert a" and ?now = "dr_now d"
  from run obtain k s der leaf where
    ks: "dr_key d = Inr k" "dr_serial d = Inr s" and
    cr: "cr_create C (leaf_template ?ca host s ?now) ?ca (public_key k) (a_key a) = Inr der" and
    pa: "cr_parse C der = Inr leaf" and c: "c = \<lparr>t_chain = [der], t_key = Ecdsa k, t_leaf = leaf\<rparr>"
    by (auto simp: issue_leaf_def split: sum.splits)
  let ?t = "leaf_template ?ca host s ?now"
  from ok [unfolded crypto_ok_def] cr obtain c' where "cr_parse C der = Inr c'" "parses_to ?t (public_key k) der c'" by blast
  with pa have p: "parses_to ?t (public_key k) der leaf" by simp
  have b: "x_not_before ?ca \<le> x_not_before ?t" "x_not_before ?t \<le> ?now"
    and e: "x_not_after ?t \<le> x_not_after ?ca" "x_not_after ?t = x_not_after ?ca \<or> ?now + second \<le> x_not_after ?t"
    using now by (auto simp: leaf_template_def valid_at_iff minute_def hour_def second_def)
  have nb: "x_not_before ?ca \<le> x_not_before leaf" "x_not_before leaf \<le> ?now"
    using p b trunc_second_mono [OF b(1)] trunc_second_dvd [OF dvd(1)] trunc_second_le [of "x_not_before ?t"]
    by (auto simp: parses_to_def)
  have na: "x_not_after leaf \<le> x_not_after ?ca" "?now < x_not_after leaf"
    using p e(2) trunc_second_mono [OF e(1)] trunc_second_dvd [OF dvd(2)] trunc_second_gt [of "x_not_after ?t"] now
    unfolding parses_to_def valid_at_iff by (linarith, metis add_less_imp_less_right order.strict_trans1)
  from p have "x_subject leaf = host" "x_dns leaf = [host]" "\<not> x_is_ca leaf" "x_ext_usage leaf = [ExtKeyUsageServerAuth]"
    "x_raw leaf = der" "x_public leaf = public_key k"
    by (simp_all add: parses_to_def leaf_template_def zero_cert_def)
  with nb na cr c show ?thesis by (auto simp: serves_def Let_def valid_at_iff)
qed

lemma certificate_cases:
  assumes "certificate C d host a = (r, a')"
  obtains (expired) "\<not> valid_at (dr_now d) (a_cert a)" "r = Inl (New ''CA is not currently valid'')" "a' = a"
    | (cached) c where "valid_at (dr_now d) (a_cert a)" "map_of (a_cache a) host = Some c" "lasting (dr_now d) c" "r = Inr c" "a' = a"
    | (failed) e where "valid_at (dr_now d) (a_cert a)" "issue_leaf C d host a = Inl e" "r = Inl e" "a' = a"
    | (fresh) c where "valid_at (dr_now d) (a_cert a)" "issue_leaf C d host a = Inr c" "r = Inr c"
        "a' = a\<lparr>a_cache := put_bounded (a_max a) (ie_victim d) host c (a_cache a)\<rparr>"
proof (cases "valid_at (dr_now d) (a_cert a)")
  case False
  with assms show ?thesis by (intro expired) (auto simp: certificate_def)
next
  case True
  show ?thesis
  proof (cases "\<exists>c. map_of (a_cache a) host = Some c \<and> lasting (dr_now d) c")
    case hit: True
    then obtain c where c: "map_of (a_cache a) host = Some c" "lasting (dr_now d) c" by blast
    with True have "certificate C d host a = (Inr c, a)" by (simp add: certificate_def)
    with assms True c show ?thesis by (intro cached) auto
  next
    case miss: False
    then have "(case map_of (a_cache a) host of None \<Rightarrow> None | Some c \<Rightarrow> if lasting (dr_now d) c then Some c else None) = None"
      by (auto split: option.splits)
    with True have run: "certificate C d host a = (case issue_leaf C d host a of
        Inl e \<Rightarrow> (Inl e, a) | Inr c \<Rightarrow> (Inr c, a\<lparr>a_cache := put_bounded (a_max a) (ie_victim d) host c (a_cache a)\<rparr>))"
      by (simp add: certificate_def)
    show ?thesis
    proof (cases "issue_leaf C d host a")
      case (Inl e)
      with run assms show ?thesis by (intro failed [OF True Inl]) simp_all
    next
      case (Inr c)
      with run assms show ?thesis by (intro fresh [OF True Inr]) simp_all
    qed
  qed
qed

lemma put_4096: "put_bounded 4096 = put_bounded (Suc 4095)" by simp

interpretation ca_issuer: issuer "certificate C" dr_now "ca_good C ca key"
  "\<lambda>host now c. serves C ca key host c \<and> valid_at now (t_leaf c)" for C ca key
proof
  fix t a e host c a'
  assume g: "ca_good C ca key t a" and t: "t \<le> dr_now e" and run: "certificate C e host a = (Inr c, a')"
  from run show "serves C ca key host c \<and> valid_at (dr_now e) (t_leaf c)"
  proof (cases rule: certificate_cases)
    case (cached c')
    with g t show ?thesis by (force simp: ca_good_def valid_at_iff lasting_def hour_def second_def)
  next
    case (fresh c')
    with g issue_leaf_serves [of C a e host c'] show ?thesis by (auto simp: ca_good_def)
  qed simp_all
next
  fix t a e host r a'
  assume g: "ca_good C ca key t a" and t: "t \<le> dr_now e" and run: "certificate C e host a = (r, a')"
  from g t have later: "ca_good C ca key (dr_now e) a" by (fastforce simp: ca_good_def)
  from run show "ca_good C ca key (dr_now e) a'"
  proof (cases rule: certificate_cases)
    case (fresh c)
    let ?P = "\<lambda>host c. serves C ca key host c \<and> x_not_before (t_leaf c) \<le> dr_now e"
    from g fresh issue_leaf_serves [of C a e host c] have P: "?P host c" by (auto simp: ca_good_def valid_at_iff)
    have all: "map_of (put_bounded 4096 (ie_victim e) host c (a_cache a)) h = Some c' \<Longrightarrow> ?P h c'" for h c'
      unfolding put_4096
      by (erule alist_cache.put_all [where P = ?P, rotated 3]) (use later P in \<open>auto simp: ca_good_def\<close>)
    have "distinct (map fst (put_bounded 4096 (ie_victim e) host c (a_cache a)))"
      "length (put_bounded 4096 (ie_victim e) host c (a_cache a)) \<le> 4096"
      using alist_cache.good_put [of "a_cache a" 4095] alist_cache.size_put [of "a_cache a" 4095] later
      by (simp_all add: ca_good_def)
    with all fresh later show ?thesis by (auto simp: ca_good_def)
  qed (use later in auto)
qed

lemma of_res_ok: "of_res r w = (Inr x, w') \<longleftrightarrow> r = Inr x \<and> w' = w"
  by (auto simp: of_res_def ret_def throw_def split: sum.splits)

lemma load_good:
  assumes "crypto_ok C" "ca_load C t certp keyp w = (Inr a, w')"
  shows "ca_good C (a_cert a) (a_key a) t a \<and> valid_at t (a_cert a) \<and> a_cache a = []"
proof -
  from assms(2) obtain chain key where "adopt_pair C t chain key = Inr a"
    by (auto simp: ca_load_def io_ok of_res_ok)
  then obtain der c k where
    p: "cr_parse C der = Inr c" and "valid_at t c" "a = \<lparr>a_cert = c, a_key = k, a_cache = [], a_max = 4096\<rparr>"
    by (auto simp: adopt_pair_def split: list.splits sum.splits if_splits private_key.splits)
  moreover from assms(1) p have "second dvd x_not_before c \<and> second dvd x_not_after c"
    unfolding crypto_ok_def by blast
  ultimately show ?thesis using assms(1) by (simp add: ca_good_def)
qed

section \<open>Creating an authority\<close>

lemma split_sum_ok: "(case r of Inl e \<Rightarrow> deferring c (throw (f e)) | Inr x \<Rightarrow> m x) w = (Inr y, w') \<longleftrightarrow> (\<exists>x. r = Inr x \<and> m x w = (Inr y, w'))"
  by (cases r) (auto simp: io_ok)

lemma stays_of_res [frame_intros]: "stays (untouched p) (of_res r)"
  by (auto simp: of_res_def split: sum.splits intro: unt.stays_rules)

lemma stays_refuse [frame_intros]: "stays (untouched p) (refuse_existing q)"
  unfolding refuse_existing_def by (intro unt.stays_rules frame_intros)

lemma stays_inspect [frame_intros]: "stays (untouched p) (inspect C q)"
  unfolding inspect_def by (intro unt.stays_rules frame_intros)

lemma stays_checks [frame_intros]: "p \<noteq> dir \<Longrightarrow> stays (untouched p) (ca_checks dir name validity)"
  unfolding ca_checks_def by (intro unt.stays_rules frame_intros)

lemma stays_ca_write [frame_intros]:
  "p \<noteq> key_path dir \<Longrightarrow> p \<noteq> cert_path dir \<Longrightarrow> stays (untouched p) (ca_write C dir der kb)"
  unfolding ca_write_def by (intro unt.stays_rules frame_intros)

lemma paths_differ: "cert_path dir \<noteq> key_path dir"
  unfolding cert_path_def key_path_def by (subst path_join_inject) (simp_all add: plain_name_def)

lemma paths_in_dir: "dir \<noteq> key_path dir" "dir \<noteq> cert_path dir"
  using path_join_longer [of "''ca.key''" dir] path_join_longer [of "''ca.crt''" dir]
  by (simp_all add: cert_path_def key_path_def plain_name_def)

lemma calm_refuse:
  assumes "refuse_existing p w = (Inr x, w')" "calm w"
  shows "calm w' \<and> w_fs w' = w_fs w \<and> w_euid w' = w_euid w \<and> w_fs w p = None"
proof -
  obtain fl w1 where t: "tick w = (fl, w1)" by (cases "tick w")
  from calm_tick [OF assms(2) t] obtain s where w1: "w1 = w\<lparr>w_sched := s\<rparr>" "calm w1" by blast
  from assms(1) t w1 show ?thesis
    by (auto simp: refuse_existing_def sys_lstat_def sys_def bind_io_def attempt_def guard_def ret_def throw_def fault_errno_def
        split: option.splits prod.splits if_splits)
qed

lemma ca_checks_ok:
  assumes "calm w" "ca_checks dir name validity w = (Inr (), w')"
  shows "\<exists>n. calm w' \<and> w_euid w' = w_euid w \<and> w_fs w' = (w_fs w)(dir \<mapsto> n) \<and> 0 < validity \<and> validity \<le> max_validity \<and> name \<noteq> []
    \<and> n_type n = Directory \<and> n_perm n AND mask_others = 0 \<and> n_uid n = w_euid w
    \<and> w_fs w' (cert_path dir) = None \<and> w_fs w' (key_path dir) = None"
proof -
  from assms(2) obtain w1 w2 where
    g: "0 < validity" "validity \<le> max_validity" "name \<noteq> []" and pd: "private_dir dir w = (Inr (), w1)" and
    r1: "refuse_existing (cert_path dir) w1 = (Inr (), w2)" and r2: "refuse_existing (key_path dir) w2 = (Inr (), w')"
    unfolding ca_checks_def by (auto simp: io_ok)
  from private_dir_ok [OF assms(1) pd] obtain n where
    n: "calm w1" "w_euid w1 = w_euid w" "n_type n = Directory" "n_perm n AND mask_others = 0" "n_uid n = w_euid w" "w_fs w1 = (w_fs w)(dir \<mapsto> n)"
    by auto
  note e1 = calm_refuse [OF r1 n(1)]
  note e2 = calm_refuse [OF r2 conjunct1 [OF e1]]
  from n g e1 e2 show ?thesis by auto
qed

text \<open>Both files, or an error.\<close>

lemma ca_write_ok:
  assumes "calm w" "ca_write C dir der kb w = (Inr (), w')"
  shows "calm w' \<and> w_fs w' = (w_fs w)
    (key_path dir \<mapsto> (new_node w Regular 384)\<lparr>n_data := cr_pem_encode C ''PRIVATE KEY'' kb\<rparr>,
     cert_path dir \<mapsto> (new_node (snd (exclusive (key_path dir) (cr_pem_encode C ''PRIVATE KEY'' kb) 384 w)) Regular 420)\<lparr>n_data := cr_pem_encode C ''CERTIFICATE'' der\<rparr>)"
proof -
  from assms(2) obtain w1 where
    k: "exclusive (key_path dir) (cr_pem_encode C ''PRIVATE KEY'' kb) 384 w = (Inr (), w1)" and
    c: "exclusive (cert_path dir) (cr_pem_encode C ''CERTIFICATE'' der) 420 w1 = (Inr (), w')"
    by (auto simp: ca_write_def io_ok split_sum_ok)
  note e1 = exclusive_ok [OF assms(1) k]
  note e2 = exclusive_ok [OF conjunct1 [OF e1] c]
  from e1 e2 k show ?thesis by simp
qed

text \<open>
  What a failure leaves at the two paths after a single fault: nothing.
\<close>

lemma ca_write_fails:
  assumes c: "calm w" and one: "faults w \<le> 1" and free: "w_fs w (key_path dir) = None" "w_fs w (cert_path dir) = None"
    and run: "ca_write C dir der kb w = (Inl e, w')"
  shows "w_fs w' (key_path dir) = None \<and> w_fs w' (cert_path dir) = None"
proof -
  let ?key = "exclusive (key_path dir) (cr_pem_encode C ''PRIVATE KEY'' kb) 384"
  let ?cert = "exclusive (cert_path dir) (cr_pem_encode C ''CERTIFICATE'' der) 420"
  obtain r1 w1 where k: "?key w = (r1, w1)" by (cases "?key w")
  have st: "stays (untouched (cert_path dir)) ?key" "stays (untouched (key_path dir)) ?cert"
    by (intro frame_intros paths_differ paths_differ [symmetric])+
  have c1: "calm w1 \<and> w_fs w1 (cert_path dir) = None" using calm_stays [OF st(1) c] k free by simp
  show ?thesis
  proof (cases r1)
    case (Inl e1)
    with run k have "w' = w1" by (simp add: ca_write_def bind_io_def)
    with exclusive_cleans_up [OF c one free(1)] k Inl c1 show ?thesis by auto
  next
    case (Inr u)
    obtain r2 w2 where ce: "?cert w1 = (r2, w2)" by (cases "?cert w1")
    from run k ce Inr obtain e2 where r2: "r2 = Inl e2" and w': "w' = snd (sys_remove (key_path dir) w2)"
      by (cases r2) (auto simp: ca_write_def bind_io_def attempt_def ret_def throw_def deferring_def)
    have f1: "faults w1 \<le> 1" using stays_faults [OF st(1), of w] one k by simp
    from exclusive_fail_faults [OF conjunct1 [OF c1] conjunct2 [OF c1] ce [unfolded r2]] f1 have f2: "faults w2 = 0" by simp
    have "w_fs w2 (cert_path dir) = None" using exclusive_cleans_up [OF conjunct1 [OF c1] f1 conjunct2 [OF c1]] ce r2 by blast
    moreover have c2: "calm w2" using calm_stays [OF st(2) conjunct1 [OF c1]] ce by simp
    ultimately show ?thesis
      using remove_without_faults [OF f2 c2] calm_stays [OF stays_remove [OF paths_differ] c2] w' by simp
  qed
qed

lemma ca_init_runs:
  "ca_init C d dir name validity w =
     (case ca_checks dir name validity w of
       (Inl e, w1) \<Rightarrow> (Inl e, w1)
     | (Inr _, w1) \<Rightarrow>
         (case make_ca C d name validity of
           Inl e \<Rightarrow> (Inl e, w1)
         | Inr (k, der, kb) \<Rightarrow>
             (case ca_write C dir der kb w1 of
               (Inl e, w2) \<Rightarrow> (Inl e, w2)
             | (Inr _, w2) \<Rightarrow> inspect C (cert_path dir) w2)))"
  by (auto simp: ca_init_def bind_io_def of_res_def throw_def ret_def split: sum.splits prod.splits)

text \<open>How a run of \<^verbatim>\<open>Init\<close> ends.\<close>

lemma ca_init_cases:
  assumes "ca_init C d dir name validity w = (r, w')"
  obtains (refused) e where "ca_checks dir name validity w = (Inl e, w')" "r = Inl e"
    | (unmade) e where "ca_checks dir name validity w = (Inr (), w')" "make_ca C d name validity = Inl e" "r = Inl e"
    | (unwritten) w1 k der kb e where "ca_checks dir name validity w = (Inr (), w1)" "make_ca C d name validity = Inr (k, der, kb)"
        "ca_write C dir der kb w1 = (Inl e, w')" "r = Inl e"
    | (made) w1 k der kb w2 where "ca_checks dir name validity w = (Inr (), w1)" "make_ca C d name validity = Inr (k, der, kb)"
        "ca_write C dir der kb w1 = (Inr (), w2)" "inspect C (cert_path dir) w2 = (r, w')"
  using assms unfolding ca_init_runs
  by (auto split: sum.splits prod.splits)

text \<open>Commands that leave a file alone when it is there.\<close>

definition keeps :: "path \<Rightarrow> world \<Rightarrow> world \<Rightarrow> bool" where
  "keeps p w w' = (calm w \<longrightarrow> calm w' \<and> (w_fs w p \<noteq> None \<longrightarrow> w_fs w' p = w_fs w p))"

interpretation kp: io_frame "keeps p" for p
  by unfold_locales (auto simp: keeps_def)

lemma stays_keeps: "stays (untouched p) m \<Longrightarrow> stays (keeps p) m"
  by (auto simp: stays_def keeps_def dest: calm_untouched)

lemma keeps_mkdir: "stays (keeps p) (sys_mkdir_all p m)"
  unfolding stays_def
proof
  fix w
  obtain fl w1 where t: "tick w = (fl, w1)" by (cases "tick w")
  show "keeps p w (snd (sys_mkdir_all p m w))"
    using t calm_tick [OF _ t] by (auto simp: keeps_def sys_mkdir_all_def sys_def split: option.splits)
qed

lemma keeps_checks: "stays (keeps p) (ca_checks dir name validity)"
proof -
  have mk: "stays (keeps p) (sys_mkdir_all dir mode_private)"
    by (cases "p = dir") (auto intro: keeps_mkdir stays_keeps frame_intros)
  show ?thesis
    unfolding ca_checks_def private_dir_def
    by (intro kp.stays_rules mk stays_keeps [OF stays_lstat] stays_keeps [OF stays_stat] stays_keeps [OF stays_euid]
        stays_keeps [OF stays_refuse])
qed

lemma checks_keep:
  assumes "calm w" "ca_checks dir name validity w = (r, w')"
  shows "calm w'" "w_fs w p = Some n \<Longrightarrow> w_fs w' p = Some n" "p \<noteq> dir \<Longrightarrow> w_fs w' p = w_fs w p" "faults w' \<le> faults w"
  using kp.stays_run [OF keeps_checks assms(2), of p] assms calm_stays [OF stays_checks [of p dir name validity] assms(1)]
    stays_faults [OF stays_checks [of "dir @ ''x''" dir name validity], of w]
  by (simp_all add: keeps_def)

text \<open>Nothing that is there is changed or removed.\<close>

lemma ca_init_keeps:
  assumes "calm w" "ca_init C d dir name validity w = (r, w')" "w_fs w p = Some n"
  shows "w_fs w' p = Some n"
proof -
  note ck = checks_keep [OF assms(1)]
  have wrote: "calm w2 \<and> w_fs w2 p = Some n"
    if chk: "ca_checks dir name validity w = (Inr (), w1)" and wr: "ca_write C dir der kb w1 = (r2, w2)" for w1 der kb r2 w2
  proof -
    from ca_checks_ok [OF assms(1) chk] ck(2) [OF chk assms(3)] have "p \<noteq> key_path dir" "p \<noteq> cert_path dir" by auto
    from calm_stays [OF stays_ca_write [OF this] ck(1) [OF chk], of C der kb] ck(2) [OF chk assms(3)] wr show ?thesis by simp
  qed
  from assms(2) show ?thesis
  proof (cases rule: ca_init_cases)
    case (refused e)
    with ck(2) assms(3) show ?thesis by blast
  next
    case (unmade e)
    with ck(2) assms(3) show ?thesis by blast
  next
    case (unwritten w1 k der kb e)
    with wrote show ?thesis by blast
  next
    case (made w1 k der kb w2)
    from wrote [OF made(1,3)] calm_stays [OF stays_inspect [of p C "cert_path dir"], of w2] made(4) show ?thesis by simp
  qed
qed

lemma written_files:
  assumes "calm w" "ca_checks dir name validity w = (Inr (), w1)" "ca_write C dir der kb w1 = (Inr (), w2)"
  shows "calm w2 \<and> (\<exists>kn cn. w_fs w2 (key_path dir) = Some kn \<and> n_data kn = cr_pem_encode C ''PRIVATE KEY'' kb
    \<and> n_perm kn AND mask_others = 0 \<and> n_type kn = Regular
    \<and> w_fs w2 (cert_path dir) = Some cn \<and> n_data cn = cr_pem_encode C ''CERTIFICATE'' der \<and> n_type cn = Regular)"
proof -
  have m: "(384 AND NOT u) AND mask_others = 0" for u :: "32 word"
  proof -
    have "(384 AND NOT u) AND mask_others = (384 AND mask_others) AND NOT u" by (simp only: ac_simps)
    then show ?thesis by (simp add: mask_others_def)
  qed
  from ca_checks_ok [OF assms(1,2)] have "calm w1" by blast
  from ca_write_ok [OF this assms(3)] show ?thesis using paths_differ [of dir] m by (simp add: new_node_def)
qed

section \<open>Properties\<close>

text \<open>\<^verbatim>\<open>Init\<close> never changes or removes a file that is there, whatever fails; a
  successful run creates exactly the directory (when missing), the key, readable by its owner only,
  and the certificate; and after a failed run with at most one failing call neither file is there,
  unless both were completely written and only reading the certificate back failed.\<close>

theorem init_all_or_nothing:
  assumes "calm w" and "ca_init C d dir name validity w = (r, w')"
  shows "(w_fs w p = Some n \<longrightarrow> w_fs w' p = Some n)
    \<and> (is_ok r \<longrightarrow> (\<exists>k der kb kn cn. make_ca C d name validity = Inr (k, der, kb)
         \<and> w_fs w' (key_path dir) = Some kn \<and> n_data kn = cr_pem_encode C ''PRIVATE KEY'' kb \<and> n_perm kn AND mask_others = 0
         \<and> w_fs w' (cert_path dir) = Some cn \<and> n_data cn = cr_pem_encode C ''CERTIFICATE'' der))
    \<and> (\<not> is_ok r \<and> faults w \<le> 1 \<and> w_fs w (key_path dir) = None \<and> w_fs w (cert_path dir) = None \<longrightarrow>
         (w_fs w' (key_path dir) = None \<longleftrightarrow> w_fs w' (cert_path dir) = None))"
proof (intro conjI impI)
  assume "w_fs w p = Some n"
  with ca_init_keeps [OF assms] show "w_fs w' p = Some n" by blast
next
  assume "is_ok r"
  with assms(2) obtain w1 k der kb w2 where
    m: "ca_checks dir name validity w = (Inr (), w1)" "make_ca C d name validity = Inr (k, der, kb)"
    "ca_write C dir der kb w1 = (Inr (), w2)" "inspect C (cert_path dir) w2 = (r, w')"
    by (cases rule: ca_init_cases) auto
  from written_files [OF assms(1) m(1,3)] calm_stays [OF stays_inspect [of _ C "cert_path dir"], of w2] m(4) m(2)
  show "\<exists>k der kb kn cn. make_ca C d name validity = Inr (k, der, kb)
         \<and> w_fs w' (key_path dir) = Some kn \<and> n_data kn = cr_pem_encode C ''PRIVATE KEY'' kb \<and> n_perm kn AND mask_others = 0
         \<and> w_fs w' (cert_path dir) = Some cn \<and> n_data cn = cr_pem_encode C ''CERTIFICATE'' der"
    by auto
next
  assume a: "\<not> is_ok r \<and> faults w \<le> 1 \<and> w_fs w (key_path dir) = None \<and> w_fs w (cert_path dir) = None"
  note ck = checks_keep [OF assms(1)]
  from assms(2) show "w_fs w' (key_path dir) = None \<longleftrightarrow> w_fs w' (cert_path dir) = None"
  proof (cases rule: ca_init_cases)
    case (refused e)
    with ck(3) [OF refused(1)] a paths_in_dir [of dir] show ?thesis by metis
  next
    case (unmade e)
    with ck(3) [OF unmade(1)] a paths_in_dir [of dir] show ?thesis by metis
  next
    case (unwritten w1 k der kb e)
    from ca_checks_ok [OF assms(1) unwritten(1)] ck(4) [OF unwritten(1)] a
    have "calm w1" "faults w1 \<le> 1" "w_fs w1 (key_path dir) = None" "w_fs w1 (cert_path dir) = None" by auto
    from ca_write_fails [OF this unwritten(3)] show ?thesis by simp
  next
    case (made w1 k der kb w2)
    from written_files [OF assms(1) made(1,3)] calm_stays [OF stays_inspect [of _ C "cert_path dir"], of w2] made(4)
    show ?thesis by auto
  qed
qed

text \<open>Keys and encodings for the concrete instances: two certificates, in second 1000 and 2000.\<close>

definition sample_key :: ec_key where
  "sample_key = \<lparr>k_d = 1, k_x = 2, k_y = 3\<rparr>"

definition sample_ca :: cert where
  "sample_ca = (ca_template ''T'' (2400 * hour) 7 (1000 * second))\<lparr>x_raw := ''CA'', x_public := (2, 3)\<rparr>"

definition sample_leaf :: cert where
  "sample_leaf = (leaf_template sample_ca ''a'' 8 (2000 * second))\<lparr>x_raw := ''LEAF'', x_public := (2, 3)\<rparr>"

definition sample_pem :: "string \<Rightarrow> string \<Rightarrow> string" where
  "sample_pem ty b = replicate (length ty) (CHR ''x'') @ CHR '':'' # ty @ b"

definition sample_unpem :: "string \<Rightarrow> (string \<times> string) option" where
  "sample_unpem s =
     (let n = length (takeWhile (\<lambda>c. c \<noteq> CHR '':'') s); r = drop (Suc n) s in Some (take n r, drop n r))"

definition sample_crypto :: crypto where
  "sample_crypto =
     \<lparr>cr_create = (\<lambda>t parent pub k.
        if pub = (2, 3) \<and> t = ca_template ''T'' (2400 * hour) 7 (1000 * second) then Inr ''CA''
        else if pub = (2, 3) \<and> t = leaf_template sample_ca ''a'' 8 (2000 * second) then Inr ''LEAF''
        else Inl (Os EIO)),
      cr_parse = (\<lambda>s. if s = ''CA'' then Inr sample_ca else if s = ''LEAF'' then Inr sample_leaf else Inl (Os EIO)),
      cr_marshal = (\<lambda>k. if k = sample_key then Inr ''K'' else Inl (Os EIO)),
      cr_pem_encode = sample_pem, cr_pem_decode = sample_unpem,
      cr_key_pair = (\<lambda>cb kb. case sample_unpem cb of None \<Rightarrow> Inl (Os EIO) | Some (ty, der) \<Rightarrow> Inr ([der], Ecdsa sample_key)),
      cr_name = (\<lambda>s. ''CN='' @ s), cr_sha256_hex = (\<lambda>s. s)\<rparr>"

lemma sample_unpem_pem: "sample_unpem (sample_pem ty b) = Some (ty, b)"
proof -
  have "takeWhile (\<lambda>c. c \<noteq> CHR '':'') (sample_pem ty b) = replicate (length ty) (CHR ''x'')"
    by (simp add: sample_pem_def takeWhile_append)
  then show ?thesis by (simp add: sample_unpem_def sample_pem_def)
qed

lemma sample_crypto_ok: "crypto_ok sample_crypto"
proof -
  have e: "ca_template ''T'' (2400 * hour) 7 (1000 * second) \<noteq> leaf_template sample_ca ''a'' 8 (2000 * second)"
    by (simp add: ca_template_def leaf_template_def zero_cert_def)
  have p: "parses_to (ca_template ''T'' (2400 * hour) 7 (1000 * second)) (2, 3) ''CA'' sample_ca"
    "parses_to (leaf_template sample_ca ''a'' 8 (2000 * second)) (2, 3) ''LEAF'' sample_leaf"
    by (simp_all add: parses_to_def sample_ca_def sample_leaf_def ca_template_def leaf_template_def zero_cert_def
        trunc_second_def second_def hour_def minute_def)
  show ?thesis unfolding crypto_ok_def
  proof (intro conjI allI impI)
    fix der c
    assume "cr_parse sample_crypto der = Inr c"
    then have "c = sample_ca \<or> c = sample_leaf" by (auto simp: sample_crypto_def split: if_splits)
    then show "second dvd x_not_before c" "second dvd x_not_after c"
      by (auto simp: sample_ca_def sample_leaf_def ca_template_def leaf_template_def second_def hour_def minute_def)
  next
    fix t parent pub k der
    assume "cr_create sample_crypto t parent pub k = Inr der"
    with p show "\<exists>c. cr_parse sample_crypto der = Inr c \<and> parses_to t pub der c"
      by (auto simp: sample_crypto_def split: if_splits)
  next
    fix ty b
    show "cr_pem_decode sample_crypto (cr_pem_encode sample_crypto ty b) = Some (ty, b)"
      by (simp add: sample_crypto_def sample_unpem_pem)
  next
    fix t k der kb
    assume "cr_create sample_crypto t t (public_key k) k = Inr der \<and> cr_marshal sample_crypto k = Inr kb"
    then show "cr_key_pair sample_crypto (cr_pem_encode sample_crypto ''CERTIFICATE'' der) (cr_pem_encode sample_crypto ''PRIVATE KEY'' kb) = Inr ([der], Ecdsa k)"
      by (auto simp: sample_crypto_def sample_unpem_pem split: if_splits)
  qed
qed

definition sample_draw :: draw where
  "sample_draw = \<lparr>dr_key = Inr sample_key, dr_serial = Inr 7, dr_now = 1000 * second\<rparr>"

definition sample_init :: "info res \<times> world" where
  "sample_init = ca_init sample_crypto sample_draw ''/d'' ''T'' (2400 * hour) bare_world"

lemma sample_paths: "cert_path ''/d'' = ''/d/ca.crt''" "key_path ''/d'' = ''/d/ca.key''"
  by (simp_all add: cert_path_def key_path_def path_evals)

lemma resolve_regular: "m p = Some n \<Longrightarrow> n_type n \<noteq> Symlink \<Longrightarrow> resolve max_links m p = Some p"
  by (rule resolve_plain) simp

lemma sample_init_ok: "is_ok (fst sample_init)"
  by (simp add: sample_init_def ca_init_runs ca_checks_def ca_write_def private_dir_def exclusive_def inspect_def io_defs attempt_def
      refuse_existing_def sys_lstat_def sys_stat_def sys_mkdir_all_def sys_create_excl_def sys_write_def sys_sync_def sys_close_def sys_read_def
      tick_def put_node_def append_data_def new_node_def resolve_regular get_euid_def mask_others_def mode_private_def sample_paths
      make_ca_def sample_draw_def sample_crypto_def public_key_def sample_key_def sample_unpem_pem max_validity_def
      hour_def second_def)

lemma sample_init_run: "\<exists>i w. ca_init sample_crypto sample_draw ''/d'' ''T'' (2400 * hour) bare_world = (Inr i, w)"
  using sample_init_ok by (cases sample_init, cases "fst sample_init") (auto simp: sample_init_def)

theorem init_all_or_nothing_witness:
  "\<exists>n. w_fs (snd (ca_init sample_crypto sample_draw ''/d'' ''T'' (2400 * hour) bare_world)) (key_path ''/d'') = Some n
     \<and> n_data n = sample_pem ''PRIVATE KEY'' ''K'' \<and> n_perm n AND mask_others = 0"
proof -
  from sample_init_run obtain i w where run: "ca_init sample_crypto sample_draw ''/d'' ''T'' (2400 * hour) bare_world = (Inr i, w)" by blast
  have c: "calm bare_world" by (simp add: calm_def)
  have "make_ca sample_crypto sample_draw ''T'' (2400 * hour) = Inr (sample_key, ''CA'', ''K'')"
    by (simp add: make_ca_def sample_draw_def sample_crypto_def public_key_def sample_key_def)
  moreover have "cr_pem_encode sample_crypto = sample_pem" by (simp add: sample_crypto_def)
  ultimately show ?thesis using init_all_or_nothing [OF c run] run by auto
qed

lemma quiet_stays: "stays (untouched p) m \<Longrightarrow> quiet w \<Longrightarrow> quiet (snd (m w))"
  by (auto simp: stays_def untouched_def quiet_def dest!: spec [of _ w])

lemma quiet_read:
  "quiet w \<Longrightarrow> w_fs w p = Some n \<Longrightarrow> n_type n = Regular \<Longrightarrow> sys_read p w = (Inr (n_data n), w)"
  by (simp add: sys_read_def quiet_sys resolve_regular)

lemma inspect_ok:
  assumes "quiet w" "w_fs w p = Some n" "n_type n = Regular" "inspect C p w = (Inr i, w')"
  shows "w' = w \<and> (\<exists>ty der c. cr_pem_decode C (n_data n) = Some (ty, der) \<and> cr_parse C der = Inr c \<and> i_sha256 i = cr_sha256_hex C (x_raw c))"
  using assms by (auto simp: inspect_def io_ok quiet_read split: option.splits sum.splits prod.splits)

lemma load_run:
  assumes "quiet w" "w_fs w keyp = Some kn" "n_type kn = Regular" "n_perm kn AND mask_others = 0"
    "w_fs w certp = Some cn" "n_type cn = Regular"
    "cr_key_pair C (n_data cn) (n_data kn) = Inr (chain, key)" "adopt_pair C now chain key = Inr a"
  shows "ca_load C now certp keyp w = (Inr a, w)"
proof -
  have "regular keyp w = (Inr (), w)" "sys_stat keyp w = (Inr kn, w)"
    using assms by (simp_all add: regular_def sys_lstat_def sys_stat_def quiet_sys resolve_regular bind_io_def guard_def ret_def)
  then show ?thesis
    using assms by (simp add: ca_load_def load_pair_def bind_io_def quiet_read guard_def of_res_def ret_def)
qed

text \<open>C33: what \<^verbatim>\<open>Init\<close> creates, \<^verbatim>\<open>Load\<close> accepts, at every time inside the
  validity it asked for (cut to whole seconds): the loaded authority has the requested name, the
  generated key, the fingerprint \<^verbatim>\<open>Init\<close> reported and an empty cache.\<close>

theorem init_then_load:
  assumes ok: "crypto_ok C" and q: "quiet w" and run: "ca_init C d dir name validity w = (Inr i, w')"
    and now: "trunc_second (dr_now d - 5 * minute) \<le> now" "now < trunc_second (dr_now d + validity)"
  shows "\<exists>a. ca_load C now (cert_path dir) (key_path dir) w' = (Inr a, w')
    \<and> x_subject (a_cert a) = name \<and> dr_key d = Inr (a_key a) \<and> x_public (a_cert a) = public_key (a_key a)
    \<and> i_sha256 i = cr_sha256_hex C (x_raw (a_cert a)) \<and> a_cache a = []"
proof -
  from run obtain w1 k der kb w2 where
    m: "ca_checks dir name validity w = (Inr (), w1)" "make_ca C d name validity = Inr (k, der, kb)"
    "ca_write C dir der kb w1 = (Inr (), w2)" "inspect C (cert_path dir) w2 = (Inr i, w')"
    by (cases rule: ca_init_cases) auto
  from written_files [OF quiet_calm [OF q] m(1,3)] obtain kn cn where
    f: "w_fs w2 (key_path dir) = Some kn" "n_data kn = cr_pem_encode C ''PRIVATE KEY'' kb" "n_perm kn AND mask_others = 0" "n_type kn = Regular"
    "w_fs w2 (cert_path dir) = Some cn" "n_data cn = cr_pem_encode C ''CERTIFICATE'' der" "n_type cn = Regular" by blast
  have q1: "quiet w1" using quiet_stays [OF stays_checks [of "dir @ ''x''" dir name validity] q] m(1) by simp
  have q2: "quiet w2"
    using quiet_stays [OF stays_ca_write [of "key_path dir @ cert_path dir @ ''x''" dir C der kb] q1] m(3) by simp
  from m(2) obtain s where
    mk: "dr_key d = Inr k" "cr_create C (ca_template name validity s (dr_now d)) (ca_template name validity s (dr_now d)) (public_key k) k = Inr der"
    "cr_marshal C k = Inr kb"
    by (auto simp: make_ca_def Let_def split: sum.splits)
  from ok [unfolded crypto_ok_def] mk(2) obtain c where
    c: "cr_parse C der = Inr c" "parses_to (ca_template name validity s (dr_now d)) (public_key k) der c" by blast
  have pem: "cr_pem_decode C (cr_pem_encode C ''CERTIFICATE'' der) = Some (''CERTIFICATE'', der)"
    and pair: "cr_key_pair C (cr_pem_encode C ''CERTIFICATE'' der) (cr_pem_encode C ''PRIVATE KEY'' kb) = Inr ([der], Ecdsa k)"
    using ok mk unfolding crypto_ok_def by blast+
  from inspect_ok [OF q2 f(5,7) m(4)] pem c f(6) have i: "w' = w2" "i_sha256 i = cr_sha256_hex C (x_raw c)" by auto
  have u: "(KeyUsageCertSign OR KeyUsageCRLSign) AND KeyUsageCertSign \<noteq> 0"
    by (simp add: KeyUsageCertSign_def KeyUsageCRLSign_def)
  have v: "valid_at now c" "x_is_ca c" "x_basic c" "x_usage c AND KeyUsageCertSign \<noteq> 0"
    using c(2) now u by (simp_all add: valid_at_iff parses_to_def ca_template_def)
  then have "adopt_pair C now [der] (Ecdsa k) = Inr \<lparr>a_cert = c, a_key = k, a_cache = [], a_max = 4096\<rparr>"
    using c(1) by (simp add: adopt_pair_def)
  from load_run [OF q2 f(1,4,3,5,7) _ this] f pair
  have "ca_load C now (cert_path dir) (key_path dir) w2 = (Inr \<lparr>a_cert = c, a_key = k, a_cache = [], a_max = 4096\<rparr>, w2)"
    by simp
  with i c(2) mk(1) show ?thesis by (simp add: parses_to_def ca_template_def)
qed

theorem init_then_load_witness:
  "\<exists>a w. ca_load sample_crypto (2000 * second) (cert_path ''/d'') (key_path ''/d'')
     (snd (ca_init sample_crypto sample_draw ''/d'' ''T'' (2400 * hour) bare_world)) = (Inr a, w) \<and> a_key a = sample_key"
proof -
  from sample_init_run obtain i w where run: "ca_init sample_crypto sample_draw ''/d'' ''T'' (2400 * hour) bare_world = (Inr i, w)" by blast
  have "quiet bare_world" by (simp add: quiet_def)
  from init_then_load [OF sample_crypto_ok this run, of "2000 * second"] run show ?thesis
    by (auto simp: sample_draw_def trunc_second_def second_def minute_def hour_def)
qed

text \<open>C6: whatever calls came before, with a clock that does not go back, a certificate the
  authority hands out is valid at that moment, names exactly the requested host, lies inside the
  validity of the authority, is made with its key for the private key that comes with it, and is no
  authority itself; and the cache never has more than 4096 entries.\<close>

theorem certificates_valid:
  assumes ok: "crypto_ok C" and load: "ca_load C t certp keyp w = (Inr a0, w')"
    and order: "ordered dr_now t (calls @ [(d, host)])"
    and run: "certificate C d host (run_calls (certificate C) calls a0) = (r, a)"
  shows "(\<forall>c. r = Inr c \<longrightarrow> serves C (a_cert a0) (a_key a0) host c \<and> valid_at (dr_now d) (t_leaf c))
    \<and> length (a_cache a) \<le> 4096"
proof -
  from load_good [OF ok load] have "ca_good C (a_cert a0) (a_key a0) t a0" by blast
  from ca_issuer.call_after_calls [OF this order run] show ?thesis by (auto simp: ca_good_def)
qed

definition sample_issue :: issue_env where
  "sample_issue = \<lparr>dr_key = Inr sample_key, dr_serial = Inr 8, dr_now = 2000 * second, ie_victim = 0\<rparr>"

theorem certificates_valid_witness:
  "\<exists>a c. fst (certificate sample_crypto sample_issue ''a'' a) = Inr c
     \<and> serves sample_crypto sample_ca sample_key ''a'' c \<and> valid_at (2000 * second) (t_leaf c)"
proof -
  let ?kn = "\<lparr>n_type = Regular, n_data = sample_pem ''PRIVATE KEY'' ''K'', n_perm = 384, n_uid = 0, n_gid = 0, n_ino = 5, n_xattrs = Some []\<rparr>"
  let ?cn = "?kn\<lparr>n_data := sample_pem ''CERTIFICATE'' ''CA''\<rparr>"
  let ?w = "bare_world\<lparr>w_fs := [''/k'' \<mapsto> ?kn, ''/c'' \<mapsto> ?cn]\<rparr>"
  let ?a = "\<lparr>a_cert = sample_ca, a_key = sample_key, a_cache = [], a_max = 4096\<rparr>"
  have q: "quiet ?w" by (simp add: quiet_def)
  have ad: "adopt_pair sample_crypto (1000 * second) [''CA''] (Ecdsa sample_key) = Inr ?a"
    by (simp add: adopt_pair_def sample_crypto_def sample_ca_def ca_template_def KeyUsageCertSign_def KeyUsageCRLSign_def
        valid_at_iff minute_def second_def hour_def)
  have kp: "cr_key_pair sample_crypto (n_data ?cn) (n_data ?kn) = Inr ([''CA''], Ecdsa sample_key)"
    by (simp add: sample_crypto_def sample_unpem_pem)
  have load: "ca_load sample_crypto (1000 * second) ''/c'' ''/k'' ?w = (Inr ?a, ?w)"
    by (rule load_run [OF q _ _ _ _ _ kp ad]) (simp_all add: mask_others_def)
  have o: "ordered dr_now (1000 * second) ([] @ [(sample_issue, ''a'')])" by (simp add: sample_issue_def second_def)
  have iss: "issue_leaf sample_crypto sample_issue ''a'' ?a = Inr \<lparr>t_chain = [''LEAF''], t_key = Ecdsa sample_key, t_leaf = sample_leaf\<rparr>"
    by (simp add: issue_leaf_def sample_issue_def sample_crypto_def public_key_def sample_key_def)
      (simp add: ca_template_def leaf_template_def zero_cert_def)
  have "valid_at (dr_now sample_issue) sample_ca"
    by (simp add: sample_issue_def sample_ca_def ca_template_def valid_at_iff minute_def second_def hour_def)
  with iss obtain c a where run: "certificate sample_crypto sample_issue ''a'' ?a = (Inr c, a)"
    by (simp add: certificate_def)
  from certificates_valid [OF sample_crypto_ok load o, of "Inr c" a] run show ?thesis
    by (intro exI [of _ ?a] exI [of _ c]) (simp add: sample_issue_def)
qed

end
