(* ===== verification/Relay.thy ===== *)
theory Relay
  imports Prelude
begin

text \<open>
  The relay of \<^verbatim>\<open>internal/proxy/server.go\<close>: copying both directions, counting, half
  closing, and the watch over idle connections.  What the peers do is a list of read results and a
  function for the writes; a copy whose list is used up is still waiting (\<open>None\<close>).  The copy
  loop is that of \<^verbatim>\<open>io.CopyBuffer\<close>; neither end has \<^verbatim>\<open>WriteTo\<close> or
  \<^verbatim>\<open>ReadFrom\<close>.  Times are nanoseconds.  The lemmas: the bytes written are exactly the bytes
  counted and a prefix of the bytes read, an orderly end delivers all of them, and the watch
  neither fires early nor later than one interval after the limit.
\<close>

section \<open>Copying\<close>

type_synonym bytes = "char list"

text \<open>The error of a read: \<open>Eof\<close> is \<^verbatim>\<open>io.EOF\<close>.\<close>

datatype read_end = More | Eof | Failed go_error

type_synonym read_result = "bytes \<times> read_end"

text \<open>A write: how many bytes were taken, and the error.\<close>

type_synonym writer = "nat \<Rightarrow> bytes \<Rightarrow> nat \<times> go_error option"

record copied =
  cp_bytes :: bytes
  cp_count :: int
  cp_last :: int

definition err_short_write :: go_error where
  "err_short_write = New ''short write''"

text \<open>\<^verbatim>\<open>progressWriter.Write\<close> at time \<open>now\<close>: the wrapped write, then count and time.\<close>

definition progress_write :: "int \<Rightarrow> nat \<times> go_error option \<Rightarrow> bytes \<Rightarrow> copied \<Rightarrow> copied" where
  "progress_write now w b s =
     (let n = fst w in
      s\<lparr>cp_bytes := cp_bytes s @ take n b,
        cp_count := (if n > 0 then cp_count s + int n else cp_count s),
        cp_last := (if n > 0 then now else cp_last s)\<rparr>)"

text \<open>
  The copy loop; \<open>w k\<close> answers the \<open>k\<close>-th write, at time \<open>clock k\<close>.  The error is \<open>None\<close> at the
  end of the source.
\<close>

fun copy_loop :: "writer \<Rightarrow> (nat \<Rightarrow> int) \<Rightarrow> nat \<Rightarrow> read_result list \<Rightarrow> copied \<Rightarrow> copied \<times> go_error option option" where
  "copy_loop w clock k [] s = (s, None)"
| "copy_loop w clock k ((b, r) # rs) s =
     (let res = w k b;
          s' = (if b = [] then s else progress_write (clock k) res b s);
          stop = (if b = [] then None else case snd res of Some e \<Rightarrow> Some e | None \<Rightarrow> if fst res \<noteq> length b then Some err_short_write else None)
      in case stop of
        Some e \<Rightarrow> (s', Some (Some e))
      | None \<Rightarrow>
          (case r of
            More \<Rightarrow> copy_loop w clock (Suc k) rs s'
          | Eof \<Rightarrow> (s', Some None)
          | Failed e \<Rightarrow> (s', Some (Some e))))"

text \<open>\<^verbatim>\<open>copyStream\<close>: after an orderly end the write half is closed, with its own error.\<close>

definition copy_stream :: "writer \<Rightarrow> (nat \<Rightarrow> int) \<Rightarrow> go_error option \<Rightarrow> read_result list \<Rightarrow> copied \<Rightarrow> copied \<times> bool \<times> go_error option option" where
  "copy_stream w clock close_write rs s =
     (case copy_loop w clock 0 rs s of
       (s', None) \<Rightarrow> (s', False, None)
     | (s', Some None) \<Rightarrow> (s', True, Some close_write)
     | (s', Some (Some e)) \<Rightarrow> (s', False, Some (Some e)))"

text \<open>
  The two results in the order they arrive: after an error both connections are closed before the
  second is awaited, and the first error is returned.
\<close>

definition relay_result :: "go_error option \<Rightarrow> go_error option \<Rightarrow> bool \<times> go_error option" where
  "relay_result first_err second_err = (first_err \<noteq> None, case first_err of Some e \<Rightarrow> Some e | None \<Rightarrow> second_err)"

section \<open>Watching\<close>

definition millisecond :: int where
  "millisecond = 1000000"

definition watch_interval :: "int \<Rightarrow> int" where
  "watch_interval idle = (let i = min (idle div 2) second in if i < millisecond then millisecond else i)"

text \<open>
  The ticks in order, each with the time of the last progress the watch sees then; the result is
  the time at which it sets the deadlines.
\<close>

fun watch :: "int \<Rightarrow> (int \<times> int) list \<Rightarrow> int option" where
  "watch idle [] = None"
| "watch idle ((now, last_progress) # ticks) = (if now - last_progress \<ge> idle then Some now else watch idle ticks)"

section \<open>Lemmas\<close>

text \<open>What the source sent, up to its end.\<close>

fun source :: "read_result list \<Rightarrow> bytes" where
  "source [] = []"
| "source ((b, More) # rs) = b @ source rs"
| "source ((b, r) # rs) = b"

text \<open>A writer takes no more than it was given, as every \<^verbatim>\<open>io.Writer\<close> does.\<close>

definition fair_writer :: "writer \<Rightarrow> bool" where
  "fair_writer w = (\<forall>k b. fst (w k b) \<le> length b)"

lemma progress_write_simps [simp]:
  "cp_bytes (progress_write now r b s) = cp_bytes s @ take (fst r) b"
  "cp_count (progress_write now r b s) = cp_count s + int (fst r)"
  by (simp_all add: progress_write_def Let_def)

lemma copy_loop_bytes:
  assumes "fair_writer w" "copy_loop w clock k rs s = (s', r)"
  shows "\<exists>p q. source rs = p @ q \<and> cp_bytes s' = cp_bytes s @ p \<and> cp_count s' = cp_count s + int (length p)
    \<and> (r = Some None \<or> r = None \<longrightarrow> q = []) \<and> (r = Some None \<longrightarrow> (\<exists>b. (b, Eof) \<in> set rs))"
  using assms(2)
proof (induction rs arbitrary: k s)
  case (Cons x rs)
  obtain b e where x: "x = (b, e)" by (cases x)
  let ?res = "w k b"
  let ?s = "if b = [] then s else progress_write (clock k) ?res b s"
  have le: "fst ?res \<le> length b" using assms(1) by (simp add: fair_writer_def)
  obtain t where t: "source (x # rs) = b @ t" "e \<noteq> More \<Longrightarrow> t = []" "e = More \<Longrightarrow> t = source rs" by (cases e) (auto simp: x)
  show ?case
  proof (cases "b \<noteq> [] \<and> (snd ?res \<noteq> None \<or> fst ?res \<noteq> length b)")
    case True
    then have st: "s' = ?s" "\<exists>e. r = Some (Some e)"
      using Cons.prems x by (auto simp: Let_def split: option.splits if_splits)
    have "source (x # rs) = take (fst ?res) b @ (drop (fst ?res) b @ t)" by (simp add: t)
    with st True le show ?thesis by (intro exI [of _ "take (fst ?res) b"] exI [of _ "drop (fst ?res) b @ t"]) auto
  next
    case False
    then have bs: "cp_bytes ?s = cp_bytes s @ b" "cp_count ?s = cp_count s + int (length b)" by auto
    from False Cons.prems x have go: "(case e of More \<Rightarrow> copy_loop w clock (Suc k) rs ?s | Eof \<Rightarrow> (?s, Some None) | Failed e \<Rightarrow> (?s, Some (Some e))) = (s', r)"
      by (auto simp: Let_def split: option.splits if_splits)
    show ?thesis
    proof (cases e)
      case More
      with go have "copy_loop w clock (Suc k) rs ?s = (s', r)" by simp
      from Cons.IH [OF this] obtain p q where "source rs = p @ q" "cp_bytes s' = cp_bytes ?s @ p" "cp_count s' = cp_count ?s + int (length p)"
        "r = Some None \<or> r = None \<longrightarrow> q = []" "r = Some None \<longrightarrow> (\<exists>b. (b, Eof) \<in> set rs)" by blast
      with bs t More show ?thesis by (intro exI [of _ "b @ p"] exI [of _ q]) auto
    next
      case Eof
      with go bs t x show ?thesis by (intro exI [of _ b] exI [of _ "[]"]) auto
    next
      case (Failed f)
      with go bs t show ?thesis by (intro exI [of _ b] exI [of _ "[]"]) auto
    qed
  qed
qed simp

text \<open>With writes that succeed, an ended source is delivered.\<close>

lemma copy_loop_delivers:
  assumes "\<forall>k b. w k b = (length b, None)" "(b, Eof) \<in> set rs" "\<forall>(b, e) \<in> set rs. \<forall>f. e \<noteq> Failed f"
  shows "\<exists>s'. copy_loop w clock k rs s = (s', Some None) \<and> cp_bytes s' = cp_bytes s @ source rs"
  using assms(2,3)
proof (induction rs arbitrary: k s)
  case (Cons x rs)
  obtain c e where x: "x = (c, e)" by (cases x)
  let ?s = "if c = [] then s else progress_write (clock k) (w k c) c s"
  have s: "cp_bytes ?s = cp_bytes s @ c" using assms(1) by auto
  have run: "copy_loop w clock k (x # rs) s = (case e of More \<Rightarrow> copy_loop w clock (Suc k) rs ?s | Eof \<Rightarrow> (?s, Some None) | Failed e \<Rightarrow> (?s, Some (Some e)))"
    using assms(1) by (simp add: x Let_def split: read_end.split)
  show ?case
  proof (cases e)
    case More
    with Cons.prems x have "(b, Eof) \<in> set rs" "\<forall>(b, e) \<in> set rs. \<forall>f. e \<noteq> Failed f" by auto
    from Cons.IH [OF this, of "Suc k" ?s] obtain s' where "copy_loop w clock (Suc k) rs ?s = (s', Some None)" "cp_bytes s' = cp_bytes ?s @ source rs" by blast
    with run s x More show ?thesis by auto
  next
    case Eof
    with run s x show ?thesis by auto
  next
    case (Failed f)
    with Cons.prems x show ?thesis by auto
  qed
qed simp

lemma watch_fires: "(now, l) \<in> set ticks \<Longrightarrow> idle \<le> now - l \<Longrightarrow> sorted (map fst ticks) \<Longrightarrow> \<exists>t. watch idle ticks = Some t \<and> t \<le> now"
  by (induction ticks) force+

lemma watch_not_early: "watch idle ticks = Some t \<Longrightarrow> \<exists>l. (t, l) \<in> set ticks \<and> idle \<le> t - l"
  by (induction ticks) (auto split: if_splits)

lemma watch_interval_bounds: "0 < watch_interval idle" "watch_interval idle \<le> second" "2 * millisecond \<le> idle \<Longrightarrow> 2 * watch_interval idle \<le> idle"
  by (auto simp: watch_interval_def Let_def millisecond_def second_def min_def)

text \<open>The first multiple of the interval at or after a time.\<close>

lemma tick_after:
  assumes "0 < d" "start \<le> (p::int)"
  obtains i :: nat where "p \<le> start + int i * d" "start + int i * d < p + d"
proof -
  let ?i = "nat ((p - start + d - 1) div d)"
  have "0 \<le> (p - start + d - 1) div d" using assms by (simp add: pos_imp_zdiv_nonneg_iff)
  then have i: "int ?i * d = (p - start + d - 1) div d * d" by simp
  have "(p - start + d - 1) div d * d = (p - start + d - 1) - (p - start + d - 1) mod d" by (simp add: minus_mod_eq_div_mult)
  moreover have "0 \<le> (p - start + d - 1) mod d" "(p - start + d - 1) mod d < d" using assms by auto
  ultimately have "p \<le> start + int ?i * d" "start + int ?i * d < p + d" unfolding i by linarith+
  then show thesis by (rule that)
qed

section \<open>Properties\<close>

text \<open>C9: what a copy has written is a prefix of what its source sent, and exactly as much as
  the counter says, whatever the reads and writes do; the write half of the destination is closed
  only after the source ended and everything was written, and a copy that is still waiting has
  written everything it read.\<close>

theorem copy_exact:
  assumes "fair_writer w" and "copy_stream w clock close_write rs \<lparr>cp_bytes = [], cp_count = 0, cp_last = t\<rparr> = (s, closed, r)"
  shows "\<exists>rest. source rs = cp_bytes s @ rest \<and> cp_count s = int (length (cp_bytes s))
    \<and> (closed \<longrightarrow> rest = [] \<and> r = Some close_write \<and> (\<exists>b. (b, Eof) \<in> set rs)) \<and> (r = None \<longrightarrow> rest = [] \<and> \<not> closed)"
proof -
  obtain s' q where l: "copy_loop w clock 0 rs \<lparr>cp_bytes = [], cp_count = 0, cp_last = t\<rparr> = (s', q)"
    by (cases "copy_loop w clock 0 rs \<lparr>cp_bytes = [], cp_count = 0, cp_last = t\<rparr>")
  with assms(2) have e: "s = s'" "closed = (q = Some None)" "r = (case q of None \<Rightarrow> None | Some None \<Rightarrow> Some close_write | Some (Some e) \<Rightarrow> Some (Some e))"
    by (auto simp: copy_stream_def split: option.splits)
  from copy_loop_bytes [OF assms(1) l] obtain p rest where
    "source rs = p @ rest" "cp_bytes s' = p" "cp_count s' = int (length p)" "q = Some None \<or> q = None \<longrightarrow> rest = []"
    "q = Some None \<longrightarrow> (\<exists>b. (b, Eof) \<in> set rs)" by (simp, blast)
  with e show ?thesis by (auto split: option.splits)
qed

definition sample_writer :: writer where
  "sample_writer k b = (if k = 1 then (min 1 (length b), Some (Os EIO)) else (length b, None))"

theorem copy_exact_witness:
  "\<exists>s r. copy_stream sample_writer int None [(''ab'', More), (''cd'', More), ([], Eof)] \<lparr>cp_bytes = [], cp_count = 0, cp_last = 0\<rparr> = (s, False, r)
     \<and> cp_bytes s = ''abc'' \<and> cp_count s = 3"
proof -
  let ?s0 = "\<lparr>cp_bytes = [], cp_count = 0, cp_last = 0\<rparr>"
  have f: "fair_writer sample_writer" by (simp add: fair_writer_def sample_writer_def)
  obtain s closed r where run: "copy_stream sample_writer int None [(''ab'', More), (''cd'', More), ([], Eof)] ?s0 = (s, closed, r)"
    by (cases "copy_stream sample_writer int None [(''ab'', More), (''cd'', More), ([], Eof)] ?s0") auto
  then have "cp_bytes s = ''abc''" "\<not> closed"
    by (auto simp: copy_stream_def sample_writer_def progress_write_def Let_def)
  with copy_exact [OF f run] run show ?thesis by auto
qed

text \<open>A source that ends in order is delivered completely, its end included, as long as
  the writes succeed: the copy comes to its end, with every byte written and the write half of the
  destination closed.\<close>

theorem copy_delivers:
  assumes "\<forall>k b. w k b = (length b, None)" and "(b, Eof) \<in> set rs" and "\<forall>(b, e) \<in> set rs. \<forall>f. e \<noteq> Failed f"
  shows "\<exists>s. copy_stream w clock close_write rs \<lparr>cp_bytes = [], cp_count = 0, cp_last = t\<rparr> = (s, True, Some close_write)
    \<and> cp_bytes s = source rs"
proof -
  from copy_loop_delivers [OF assms, of clock 0 "\<lparr>cp_bytes = [], cp_count = 0, cp_last = t\<rparr>"] obtain s' where
    "copy_loop w clock 0 rs \<lparr>cp_bytes = [], cp_count = 0, cp_last = t\<rparr> = (s', Some None)" "cp_bytes s' = source rs" by auto
  then show ?thesis by (simp add: copy_stream_def)
qed

theorem copy_delivers_witness:
  "\<exists>s. copy_stream (\<lambda>k b. (length b, None)) int None [(''ab'', More), (''c'', Eof)] \<lparr>cp_bytes = [], cp_count = 0, cp_last = 0\<rparr> = (s, True, Some None)
     \<and> cp_bytes s = ''abc''"
  using copy_delivers [of "\<lambda>k b. (length b, None)" "''c''" "[(''ab'', More), (''c'', Eof)]" int None 0] by simp

text \<open>C35: an idle relay is ended in time: when the last progress was at \<open>p\<close> and the watch
  ticks on, it sets the deadlines, later than \<open>p\<close> by less than the idle limit and one interval
  (at most a second, and at most half the limit from two milliseconds on), and never before
  the limit has passed since the last progress.\<close>

theorem idle_closed_in_time:
  assumes "0 < idle" and "start \<le> p" and "\<forall>t. p \<le> t \<longrightarrow> progress t = p"
    and "p + idle + watch_interval idle \<le> start + int n * watch_interval idle"
  shows "\<exists>t. watch idle (map (\<lambda>i. (start + int i * watch_interval idle, progress (start + int i * watch_interval idle))) [1..<Suc n]) = Some t
    \<and> t < p + idle + watch_interval idle \<and> idle \<le> t - progress t"
proof -
  let ?d = "watch_interval idle"
  let ?ticks = "map (\<lambda>i. (start + int i * ?d, progress (start + int i * ?d))) [1..<Suc n]"
  obtain i where i: "p + idle \<le> start + int i * ?d" "start + int i * ?d < p + idle + ?d"
    using assms(1,2) by (elim tick_after [OF watch_interval_bounds(1), of start "p + idle", rotated]) linarith
  have "int i * ?d < int n * ?d" using i(2) assms(4) by linarith
  then have "i < n" using watch_interval_bounds(1) [of idle] by (simp add: mult_less_cancel_right)
  moreover have "0 < i" using i(1) assms(1,2) by (cases i) auto
  ultimately have "(start + int i * ?d, progress (start + int i * ?d)) \<in> set ?ticks" by auto
  moreover have "idle \<le> start + int i * ?d - progress (start + int i * ?d)" using assms(1,3) i(1) by simp
  moreover have "sorted (map fst ?ticks)"
    using watch_interval_bounds(1) [of idle] by (auto simp: sorted_iff_nth_mono simp del: upt_Suc intro!: mult_right_mono)
  ultimately obtain t where t: "watch idle ?ticks = Some t" "t \<le> start + int i * ?d" using watch_fires by blast
  from watch_not_early [OF t(1)] have "idle \<le> t - progress t" by auto
  with t i(2) show ?thesis by auto
qed

theorem idle_closed_in_time_witness:
  "\<exists>t. watch (2 * second) (map (\<lambda>i. (int i * second, 0)) [1..<4]) = Some t \<and> t < 3 * second"
proof -
  have w: "watch_interval (2 * second) = second" by (simp add: watch_interval_def second_def millisecond_def)
  have s: "0 < second" by (simp add: second_def)
  from idle_closed_in_time [of "2 * second" 0 0 "\<lambda>_. 0" 3] w s show ?thesis by (simp add: numeral_eq_Suc)
qed

end
