(* ===== verification/Server.thy ===== *)
theory Server
  imports Upstream CA Relay
begin

text \<open>
  \<^verbatim>\<open>internal/proxy/server.go\<close>: the daemon's state, what happens to a connection from
  acceptance to its end, status, reloading and stopping.  Every critical section of
  \<^verbatim>\<open>s.mu\<close> is one function on the record \<open>server\<close>; \<open>daemon_step\<close> interleaves them as the
  accept loops, the handlers, the control socket and the shutdown do.  A snapshot names its
  authority by its generation, since handlers keep using the authority of the snapshot they
  started with: \<open>sv_authorities\<close> is that store.  TLS towards the client is the library's: the
  arguments of a step are what it reports.  Counters and identifiers are \<open>nat\<close>: they are
  \<^verbatim>\<open>uint64\<close> and grow by one per connection.  Log output is left out.
\<close>

section \<open>State\<close>

record snapshot =
  sn_config :: config
  sn_generation :: nat

record connection =
  cn_id :: nat
  cn_started :: int
  cn_client :: string
  cn_sni :: string
  cn_upstream :: string
  cn_profile :: string
  cn_mods :: "string list"
  cn_client_tls :: nat
  cn_upstream_tls :: nat
  cn_client_alpn :: string
  cn_upstream_alpn :: string
  cn_sent :: int
  cn_received :: int
  cn_state :: string

text \<open>\<open>ac_cancel\<close>: the handler has a cancel function; \<open>ac_canceled\<close>, \<open>ac_closed\<close>: it was called, the
  client's connection was closed.\<close>

record active =
  ac_record :: connection
  ac_cancel :: bool
  ac_canceled :: bool
  ac_closed :: bool
  ac_sent :: int
  ac_received :: int

record server =
  sv_snapshot :: snapshot
  sv_authorities :: "nat \<Rightarrow> authority"
  sv_resolver :: resolver
  sv_level :: int
  sv_version :: string
  sv_path :: string
  sv_connections :: "(nat \<times> active) list"
  sv_failures :: "(string \<times> nat) list"
  sv_started :: int
  sv_total :: nat
  sv_next :: nat
  sv_sent :: int
  sv_received :: int
  sv_stopping :: bool

text \<open>What \<^verbatim>\<open>dns.New\<close> and \<^verbatim>\<open>Configure\<close> see of the clock and of discovery.\<close>

record refresh_env =
  re_now :: int
  re_later :: int
  re_found :: "discovery \<times> go_error option"

definition level_of :: "config \<Rightarrow> int" where
  "level_of c =
     (if c_log_level c = ''debug'' then - 4 else if c_log_level c = ''warn'' then 4 else if c_log_level c = ''error'' then 8 else 0)"

definition new_server :: "crypto \<Rightarrow> int \<Rightarrow> refresh_env \<Rightarrow> config \<Rightarrow> string \<Rightarrow> string \<Rightarrow> int \<Rightarrow> server io" where
  "new_server C now re c path version level =
     bind_io (ca_load C now (c_ca_cert c) (c_ca_key c)) (\<lambda>a.
     ret \<lparr>sv_snapshot = \<lparr>sn_config = c, sn_generation = 1\<rparr>, sv_authorities = (\<lambda>_. a),
       sv_resolver = new_resolver (re_now re) (re_later re) (re_found re) (c_dns c), sv_level = level, sv_version = version, sv_path = path,
       sv_connections = [], sv_failures = [], sv_started = now, sv_total = 0, sv_next = 0, sv_sent = 0, sv_received = 0, sv_stopping = False\<rparr>)"

section \<open>Status\<close>

record status_report =
  ss_health :: string
  ss_reasons :: "string list"
  ss_config :: config
  ss_generation :: nat
  ss_active :: nat
  ss_total :: nat
  ss_sent :: int
  ss_received :: int
  ss_failures :: "(string \<times> nat) list"
  ss_dns :: dns_state

definition sum_over :: "('a \<Rightarrow> int) \<Rightarrow> (nat \<times> 'a) list \<Rightarrow> int" where
  "sum_over f xs = sum_list (map (\<lambda>p. f (snd p)) xs)"

definition server_status :: "server \<Rightarrow> status_report" where
  "server_status s =
     (let d = fst (dns_status (sv_resolver s));
          h0 = (if sv_stopping s then (''stopping'', [''daemon is shutting down'']) else (''ready'', []));
          h = (if st_error d \<noteq> [] then (''degraded'', snd h0 @ [st_error d]) else h0)
      in \<lparr>ss_health = fst h, ss_reasons = snd h, ss_config = sn_config (sv_snapshot s), ss_generation = sn_generation (sv_snapshot s),
          ss_active = length (sv_connections s), ss_total = sv_total s,
          ss_sent = sv_sent s + sum_over ac_sent (sv_connections s),
          ss_received = sv_received s + sum_over ac_received (sv_connections s),
          ss_failures = sv_failures s, ss_dns = d\<rparr>)"

definition connection_list :: "server \<Rightarrow> connection list" where
  "connection_list s =
     sort_key cn_id (map (\<lambda>(i, a). (ac_record a)\<lparr>cn_sent := ac_sent a, cn_received := ac_received a\<rparr>) (sv_connections s))"

section \<open>Reloading\<close>

definition reload :: "crypto \<Rightarrow> int \<Rightarrow> refresh_env \<Rightarrow> config res \<Rightarrow> server \<Rightarrow> world \<Rightarrow> (unit res \<times> server) \<times> world" where
  "reload C now re loaded s w =
     (case loaded of
       Inl e \<Rightarrow> ((Inl e, s), w)
     | Inr c \<Rightarrow>
         let old = sv_snapshot s in
         if restart_required (sn_config old) c
         then ((Inl (New ''restart_required: listener, upstream port, CA/runtime paths or log format changed''), s), w)
         else
           (case ca_load C now (c_ca_cert c) (c_ca_key c) w of
             (Inl e, w') \<Rightarrow> ((Inl e, s), w')
           | (Inr a, w') \<Rightarrow>
               let g = sn_generation old + 1 in
               ((Inr (), s\<lparr>sv_snapshot := \<lparr>sn_config = c, sn_generation = g\<rparr>, sv_authorities := (sv_authorities s)(g := a),
                   sv_resolver := reconfigure (re_now re) (re_later re) (re_found re) (c_dns c) (sv_resolver s),
                   sv_level := level_of c\<rparr>), w')))"

section \<open>Accepting\<close>

definition failure :: "string \<Rightarrow> server \<Rightarrow> server" where
  "failure kind s =
     s\<lparr>sv_failures := AList.update kind (Suc (case map_of (sv_failures s) kind of None \<Rightarrow> 0 | Some n \<Rightarrow> n)) (sv_failures s)\<rparr>"

definition new_connection :: "nat \<Rightarrow> int \<Rightarrow> string \<Rightarrow> config \<Rightarrow> connection" where
  "new_connection i now remote c =
     \<lparr>cn_id = i, cn_started = now, cn_client = remote, cn_sni = [], cn_upstream = [], cn_profile = up_profile (c_upstream c),
      cn_mods = [], cn_client_tls = 0, cn_upstream_tls = 0, cn_client_alpn = [], cn_upstream_alpn = [], cn_sent = 0, cn_received = 0,
      cn_state = ''handshake''\<rparr>"

text \<open>\<open>snap\<close> is the snapshot loaded on entry; the lock is taken after the client was checked.\<close>

definition client_allowed :: "snapshot \<Rightarrow> string \<Rightarrow> bool" where
  "client_allowed snap remote =
     (case parse_addr_port remote of None \<Rightarrow> False | Some (a, port) \<Rightarrow> allows_client (sn_config snap) a)"

definition accept_conn :: "snapshot \<Rightarrow> int \<Rightarrow> string \<Rightarrow> server \<Rightarrow> nat option \<times> server" where
  "accept_conn snap now remote s =
     (if \<not> client_allowed snap remote then (None, failure ''client_denied'' s)
      else if sv_stopping s \<or> int (length (sv_connections s)) \<ge> rt_max_connections (c_runtime (sn_config snap))
      then (None, failure ''connection_limit'' s)
      else
        let i = Suc (sv_next s);
            a = \<lparr>ac_record = new_connection i now remote (sn_config snap), ac_cancel = False, ac_canceled = False, ac_closed = False,
                 ac_sent = 0, ac_received = 0\<rparr>
        in (Some i, s\<lparr>sv_next := i, sv_total := Suc (sv_total s), sv_connections := (i, a) # sv_connections s\<rparr>))"

text \<open>\<^verbatim>\<open>errors.As(err, &n)\<close> for a \<^verbatim>\<open>net.Error\<close>: the first error of the chain that is one, with its
  \<^verbatim>\<open>Timeout\<close>.\<close>

fun net_timeout :: "go_error \<Rightarrow> bool option" where
  "net_timeout (Os n) = (if n = ECANCELED then None else Some (n = ETIMEDOUT \<or> n = EWOULDBLOCK))"
| "net_timeout (New s) = None"
| "net_timeout (Wrapf s e) = net_timeout e"
| "net_timeout (Join es) =
     (case filter (\<lambda>r. r \<noteq> None) (map net_timeout es) of [] \<Rightarrow> None | r # _ \<Rightarrow> r)"

definition failure_kinds :: "string list" where
  "failure_kinds = [''sni_missing'', ''domain_denied'', ''upstream_loop'', ''alpn_mismatch'', ''unsupported_alps'', ''dns_'',
     ''upstream_connect'', ''upstream_tls'']"

definition category :: "go_error \<Rightarrow> string" where
  "category e =
     (case find (\<lambda>k. contains_str (error_text e) k) failure_kinds of
       Some k \<Rightarrow> trim_suffix k ''_''
     | None \<Rightarrow> if net_timeout e = Some True then ''timeout'' else ''connection'')"

text \<open>The end of a handler: the counters move to the server, the connection goes, the error is counted
  unless it is the shutdown's own doing.\<close>

definition finish_conn :: "nat \<Rightarrow> go_error option \<Rightarrow> server \<Rightarrow> server" where
  "finish_conn i err s =
     (case map_of (sv_connections s) i of
       None \<Rightarrow> s
     | Some a \<Rightarrow>
         let s' = s\<lparr>sv_sent := sv_sent s + ac_sent a, sv_received := sv_received s + ac_received a,
                    sv_connections := AList.delete i (sv_connections s)\<rparr>
         in case err of
           None \<Rightarrow> s'
         | Some e \<Rightarrow>
             if sv_stopping s \<and> (error_is e (Os ECLOSED) \<or> error_is e (Os ECANCELED)) then s' else failure (category e) s')"

section \<open>Handling\<close>

definition update_conn :: "nat \<Rightarrow> (active \<Rightarrow> active) \<Rightarrow> server \<Rightarrow> server" where
  "update_conn i f s = s\<lparr>sv_connections := map (\<lambda>(j, a). (j, if j = i then f a else a)) (sv_connections s)\<rparr>"

definition update_record :: "nat \<Rightarrow> (connection \<Rightarrow> connection) \<Rightarrow> server \<Rightarrow> server" where
  "update_record i f = update_conn i (\<lambda>a. a\<lparr>ac_record := f (ac_record a)\<rparr>)"

definition set_cancel :: "nat \<Rightarrow> server \<Rightarrow> server" where
  "set_cancel i = update_conn i (\<lambda>a. a\<lparr>ac_cancel := True\<rparr>)"

text \<open>The checks of the ClientHello callback: a name, a valid one, a configured one.\<close>

definition hello_check :: "(string \<Rightarrow> string res) \<Rightarrow> config \<Rightarrow> string \<Rightarrow> string res" where
  "hello_check to_ascii c name =
     (if name = [] then Inl (New ''sni_missing'')
      else
        case domain to_ascii name of
          Inl e \<Rightarrow> Inl e
        | Inr host \<Rightarrow> if \<not> allows_domain c host then Inl (New (''domain_denied: '' @ host)) else Inr host)"

definition set_sni :: "nat \<Rightarrow> string \<Rightarrow> server \<Rightarrow> server" where
  "set_sni i host = update_record i (\<lambda>r. r\<lparr>cn_sni := host\<rparr>)"

text \<open>\<^verbatim>\<open>snap.authority.Certificate(host)\<close>.\<close>

definition take_certificate :: "crypto \<Rightarrow> issue_env \<Rightarrow> snapshot \<Rightarrow> string \<Rightarrow> server \<Rightarrow> tls_cert res \<times> server" where
  "take_certificate C e snap host s =
     (case certificate C e host (sv_authorities s (sn_generation snap)) of
       (r, a) \<Rightarrow> (r, s\<lparr>sv_authorities := (sv_authorities s)(sn_generation snap := a)\<rparr>))"

definition set_upstream :: "nat \<Rightarrow> 'x upstream \<Rightarrow> server \<Rightarrow> server" where
  "set_upstream i u = update_record i (\<lambda>r. r\<lparr>cn_upstream := us_address u, cn_mods := us_mods u,
     cn_upstream_tls := cs_version (us_state u), cn_upstream_alpn := cs_protocol (us_state u)\<rparr>)"

text \<open>The configuration the callback returns to the TLS library.\<close>

record tls_config =
  tc_min_version :: nat
  tc_certificate :: tls_cert
  tc_protocols :: "string list"

definition tls_config_for :: "tls_cert \<Rightarrow> 'x upstream \<Rightarrow> tls_config" where
  "tls_config_for cert u =
     \<lparr>tc_min_version = VersionTLS12, tc_certificate = cert,
      tc_protocols = (if cs_protocol (us_state u) \<noteq> [] then [cs_protocol (us_state u)] else [])\<rparr>"

text \<open>
  The whole callback by one handler: \<open>dial\<close> is \<^verbatim>\<open>s.dial\<close> on the resolver; the third component is
  the variable \<^verbatim>\<open>upstream\<close>.
\<close>

definition hello_callback :: "crypto \<Rightarrow> (string \<Rightarrow> string res) \<Rightarrow> issue_env
    \<Rightarrow> (config \<Rightarrow> string \<Rightarrow> string list \<Rightarrow> resolver \<Rightarrow> 'x upstream res \<times> dial_trace \<times> resolver)
    \<Rightarrow> nat \<Rightarrow> snapshot \<Rightarrow> 'x upstream option \<Rightarrow> string \<Rightarrow> string list \<Rightarrow> server \<Rightarrow> tls_config res \<times> 'x upstream option \<times> server" where
  "hello_callback C to_ascii e dial i snap up name offered s =
     (if up \<noteq> None then (Inl (New ''repeated ClientHello callback''), up, s)
      else
        case hello_check to_ascii (sn_config snap) name of
          Inl err \<Rightarrow> (Inl err, up, s)
        | Inr host \<Rightarrow>
            let s1 = set_sni i host s in
            (case take_certificate C e snap host s1 of
              (Inl err, s2) \<Rightarrow> (Inl err, up, s2)
            | (Inr cert, s2) \<Rightarrow>
                (case dial (sn_config snap) host offered (sv_resolver s2) of
                  (Inl err, t, r) \<Rightarrow> (Inl err, up, s2\<lparr>sv_resolver := r\<rparr>)
                | (Inr u, t, r) \<Rightarrow> (Inr (tls_config_for cert u), Some u, set_upstream i u (s2\<lparr>sv_resolver := r\<rparr>)))))"

definition set_relaying :: "nat \<Rightarrow> conn_state \<Rightarrow> server \<Rightarrow> server" where
  "set_relaying i st = update_record i (\<lambda>r. r\<lparr>cn_client_tls := cs_version st, cn_client_alpn := cs_protocol st, cn_state := ''relaying''\<rparr>)"

text \<open>After the handshake with the client: \<open>shaken\<close> is its result.\<close>

definition after_handshake :: "conn_state res \<Rightarrow> 'x upstream option \<Rightarrow> conn_state res" where
  "after_handshake shaken up =
     (case shaken of
       Inl e \<Rightarrow> Inl e
     | Inr st \<Rightarrow>
         (case up of
           None \<Rightarrow> Inl (New ''upstream handshake missing'')
         | Some u \<Rightarrow> if cs_protocol st \<noteq> cs_protocol (us_state u) then Inl (New ''alpn_mismatch after client handshake'') else Inr st))"

definition add_progress :: "nat \<Rightarrow> nat \<Rightarrow> nat \<Rightarrow> server \<Rightarrow> server" where
  "add_progress i sent received = update_conn i (\<lambda>a. a\<lparr>ac_sent := ac_sent a + int sent, ac_received := ac_received a + int received\<rparr>)"

text \<open>Stopping: no more connections; when the time is over every connection is cancelled and closed.\<close>

definition stop :: "server \<Rightarrow> server" where
  "stop s = s\<lparr>sv_stopping := True\<rparr>"

definition close_all :: "server \<Rightarrow> server" where
  "close_all s = s\<lparr>sv_connections := map (\<lambda>(i, a). (i, a\<lparr>ac_canceled := ac_canceled a \<or> ac_cancel a, ac_closed := True\<rparr>)) (sv_connections s)\<rparr>"

end
