(* ===== verification/Daemon.thy ===== *)
theory Daemon
  imports Server
begin

text \<open>
  The daemon of \<^verbatim>\<open>internal/proxy/server.go\<close> as a transition system: the server, one
  handler per accepted connection with what its local variables hold, the snapshots that were ever
  current (a handler or an accept loop may still hold an old one) and the clock.  The bytes moved in
  both directions since the start are remembered to state what the counters mean; they are not part
  of the program.  A handler may end at any moment with any error.  The lemmas: the books are exact
  in every reachable state, and a connection only relays after every check of the code.
\<close>

section \<open>Steps\<close>

datatype 'x phase =
    Greeting
  | Named string "string list"
  | Certified string "string list" tls_cert
  | Answered string "string list" tls_cert "'x upstream"
  | Relaying string "string list" tls_cert "'x upstream" conn_state

record 'x handler =
  h_snap :: snapshot
  h_remote :: string
  h_phase :: "'x phase"

record 'x daemon =
  d_server :: server
  d_handlers :: "(nat \<times> 'x handler) list"
  d_history :: "snapshot list"
  d_clock :: int
  d_sent :: int
  d_received :: int

text \<open>Replace the value of one key.\<close>

definition set_at :: "nat \<Rightarrow> 'v \<Rightarrow> (nat \<times> 'v) list \<Rightarrow> (nat \<times> 'v) list" where
  "set_at i v = map (\<lambda>(j, x). (j, if j = i then v else x))"

definition go_to :: "nat \<Rightarrow> 'x handler \<Rightarrow> 'x phase \<Rightarrow> 'x daemon \<Rightarrow> 'x daemon" where
  "go_to i h p d = d\<lparr>d_handlers := set_at i (h\<lparr>h_phase := p\<rparr>) (d_handlers d)\<rparr>"

definition daemon_init :: "crypto \<Rightarrow> (string \<Rightarrow> string res) \<Rightarrow> 'x daemon \<Rightarrow> bool" where
  "daemon_init C to_ascii d =
     (crypto_ok C \<and> (\<exists>now re c0 c path version level w s w'.
        validate to_ascii c0 = (c, None) \<and> new_server C now re c path version level w = (Inr s, w')
        \<and> d = \<lparr>d_server = s, d_handlers = [], d_history = [sv_snapshot s], d_clock = now, d_sent = 0, d_received = 0\<rparr>))"

inductive daemon_step :: "crypto \<Rightarrow> (string \<Rightarrow> string res) \<Rightarrow> 'x daemon \<Rightarrow> 'x daemon \<Rightarrow> bool" for C to_ascii where
  step_accept: "snap \<in> set (d_history d) \<Longrightarrow> accept_conn snap now remote (d_server d) = (Some i, s) \<Longrightarrow>
    daemon_step C to_ascii d (d\<lparr>d_server := s,
      d_handlers := (i, \<lparr>h_snap = snap, h_remote = remote, h_phase = Greeting\<rparr>) # d_handlers d\<rparr>)"
| step_refuse: "snap \<in> set (d_history d) \<Longrightarrow> accept_conn snap now remote (d_server d) = (None, s) \<Longrightarrow>
    daemon_step C to_ascii d (d\<lparr>d_server := s\<rparr>)"
| step_begin: "map_of (d_handlers d) i = Some h \<Longrightarrow> daemon_step C to_ascii d (d\<lparr>d_server := set_cancel i (d_server d)\<rparr>)"
| step_hello: "map_of (d_handlers d) i = Some h \<Longrightarrow> h_phase h = Greeting \<Longrightarrow>
    hello_check to_ascii (sn_config (h_snap h)) name = Inr host \<Longrightarrow>
    daemon_step C to_ascii d (go_to i h (Named host offered) (d\<lparr>d_server := set_sni i host (d_server d)\<rparr>))"
| step_certificate: "map_of (d_handlers d) i = Some h \<Longrightarrow> h_phase h = Named host offered \<Longrightarrow> d_clock d \<le> dr_now e \<Longrightarrow>
    take_certificate C e (h_snap h) host (d_server d) = (Inr cert, s) \<Longrightarrow>
    daemon_step C to_ascii d (go_to i h (Certified host offered cert) (d\<lparr>d_server := s, d_clock := dr_now e\<rparr>))"
| step_no_certificate: "map_of (d_handlers d) i = Some h \<Longrightarrow> h_phase h = Named host offered \<Longrightarrow> d_clock d \<le> dr_now e \<Longrightarrow>
    take_certificate C e (h_snap h) host (d_server d) = (Inl err, s) \<Longrightarrow>
    daemon_step C to_ascii d (d\<lparr>d_server := s, d_clock := dr_now e\<rparr>)"
| step_dial: "map_of (d_handlers d) i = Some h \<Longrightarrow> h_phase h = Certified host offered cert \<Longrightarrow>
    dial_upstream (lookup_retry env1 now later found env2) E (sn_config (h_snap h)) host offered (sv_resolver (d_server d)) = (Inr u, t, r) \<Longrightarrow>
    daemon_step C to_ascii d (go_to i h (Answered host offered cert u)
      (d\<lparr>d_server := set_upstream i u ((d_server d)\<lparr>sv_resolver := r\<rparr>)\<rparr>))"
| step_no_dial: "map_of (d_handlers d) i = Some h \<Longrightarrow> h_phase h = Certified host offered cert \<Longrightarrow>
    dial_upstream (lookup_retry env1 now later found env2) (E :: 'x net_env) (sn_config (h_snap h)) host offered (sv_resolver (d_server d)) = (Inl err, t, r) \<Longrightarrow>
    daemon_step C to_ascii d (d\<lparr>d_server := (d_server d)\<lparr>sv_resolver := r\<rparr>\<rparr>)"
| step_shake: "map_of (d_handlers d) i = Some h \<Longrightarrow> h_phase h = Answered host offered cert u \<Longrightarrow>
    after_handshake shaken (Some u) = Inr st \<Longrightarrow>
    daemon_step C to_ascii d (go_to i h (Relaying host offered cert u st) (d\<lparr>d_server := set_relaying i st (d_server d)\<rparr>))"
| step_progress: "map_of (d_handlers d) i = Some h \<Longrightarrow> h_phase h = Relaying host offered cert u st \<Longrightarrow>
    daemon_step C to_ascii d (d\<lparr>d_server := add_progress i m n (d_server d), d_sent := d_sent d + int m, d_received := d_received d + int n\<rparr>)"
| step_end: "map_of (d_handlers d) i = Some h \<Longrightarrow>
    daemon_step C to_ascii d (d\<lparr>d_server := finish_conn i err (d_server d), d_handlers := AList.delete i (d_handlers d)\<rparr>)"
| step_reload: "d_clock d \<le> now \<Longrightarrow> validate to_ascii c0 = (c, None) \<Longrightarrow>
    reload C now re (Inr c) (d_server d) w = ((Inr x, s), w') \<Longrightarrow>
    daemon_step C to_ascii d (d\<lparr>d_server := s, d_history := sv_snapshot s # d_history d, d_clock := now\<rparr>)"
| step_no_reload: "reload C now re loaded (d_server d) w = ((Inl e, s), w') \<Longrightarrow> daemon_step C to_ascii d (d\<lparr>d_server := s\<rparr>)"
| step_refresh: "daemon_step C to_ascii d (d\<lparr>d_server := (d_server d)\<lparr>sv_resolver := fst (refresh now later found (sv_resolver (d_server d)))\<rparr>\<rparr>)"
| step_stop: "daemon_step C to_ascii d (d\<lparr>d_server := stop (d_server d)\<rparr>)"
| step_close_all: "sv_stopping (d_server d) \<Longrightarrow> daemon_step C to_ascii d (d\<lparr>d_server := close_all (d_server d)\<rparr>)"

section \<open>Connections and handlers side by side\<close>

text \<open>What the record of a connection shows in each phase of its handler.\<close>

fun phase_record :: "'x phase \<Rightarrow> connection \<Rightarrow> bool" where
  "phase_record Greeting r = (cn_state r = ''handshake'')"
| "phase_record (Named host offered) r = (cn_state r = ''handshake'' \<and> cn_sni r = host)"
| "phase_record (Certified host offered cert) r = (cn_state r = ''handshake'' \<and> cn_sni r = host)"
| "phase_record (Answered host offered cert u) r =
     (cn_state r = ''handshake'' \<and> cn_sni r = host \<and> cn_upstream r = us_address u \<and> cn_upstream_alpn r = cs_protocol (us_state u))"
| "phase_record (Relaying host offered cert u st) r =
     (cn_state r = ''relaying'' \<and> cn_sni r = host \<and> cn_upstream r = us_address u \<and> cn_upstream_alpn r = cs_protocol (us_state u)
      \<and> cn_client_alpn r = cs_protocol st)"

definition linked :: "nat \<times> active \<Rightarrow> nat \<times> 'x handler \<Rightarrow> bool" where
  "linked x y =
     (fst x = fst y \<and> cn_id (ac_record (snd x)) = fst x \<and> cn_client (ac_record (snd x)) = h_remote (snd y)
      \<and> phase_record (h_phase (snd y)) (ac_record (snd x)))"

definition change_at :: "nat \<Rightarrow> ('v \<Rightarrow> 'v) \<Rightarrow> (nat \<times> 'v) list \<Rightarrow> (nat \<times> 'v) list" where
  "change_at i f = map (\<lambda>(j, x). (j, if j = i then f x else x))"

lemma update_conn_change: "sv_connections (update_conn i f s) = change_at i f (sv_connections s)"
  by (simp add: update_conn_def change_at_def)

lemma map_fst_change [simp]: "map fst (change_at i f xs) = map fst xs" "map fst (set_at i v xs) = map fst xs"
  by (simp_all add: change_at_def set_at_def comp_def case_prod_beta)

lemma linked_keys: "list_all2 linked xs ys \<Longrightarrow> map fst xs = map fst ys"
  by (induction rule: list_all2_induct) (auto simp: linked_def)

lemma linked_update:
  assumes "list_all2 linked xs ys" "distinct (map fst ys)" "map_of ys i = Some h"
    and "\<And>a. linked (i, a) (i, h) \<Longrightarrow> linked (i, f a) (i, h')"
  shows "list_all2 linked (change_at i f xs) (set_at i h' ys)"
  using assms
proof (induction rule: list_all2_induct)
  case (Cons x xs y ys)
  obtain j a k g where xy: "x = (j, a)" "y = (k, g)" by (cases x, cases y)
  with Cons.hyps(1) have jk: "k = j" by (simp add: linked_def)
  show ?case
  proof (cases "j = i")
    case True
    with Cons.prems xy jk have gh: "g = h" "i \<notin> fst ` set ys" by auto
    then have ys: "set_at i h' ys = ys" by (force simp: set_at_def intro: map_idI)
    from gh(2) linked_keys [OF Cons.hyps(2)] have "i \<notin> fst ` set xs" by (metis list.set_map)
    then have "change_at i f xs = xs" by (force simp: change_at_def intro: map_idI)
    with ys True xy jk gh Cons.hyps Cons.prems(3) show ?thesis by (simp add: change_at_def set_at_def)
  next
    case False
    with Cons xy jk show ?thesis by (simp add: change_at_def set_at_def)
  qed
qed simp

lemma linked_change:
  assumes "list_all2 linked xs ys" "\<And>a. ac_record (f a) = ac_record a"
  shows "list_all2 linked (change_at i f xs) ys" "list_all2 linked (map (\<lambda>(j, a). (j, f a)) xs) ys"
  using assms(1) by (induction rule: list_all2_induct) (auto simp: change_at_def linked_def assms(2))

lemma linked_delete: "list_all2 linked xs ys \<Longrightarrow> list_all2 linked (AList.delete i xs) (AList.delete i ys)"
  by (induction rule: list_all2_induct) (auto simp: linked_def AList.delete_eq)

section \<open>The books\<close>

lemma sum_over_simps [simp]: "sum_over f [] = 0" "sum_over f (x # xs) = f (snd x) + sum_over f xs"
  by (simp_all add: sum_over_def)

lemma sum_over_change: "(\<And>a. f (g a) = f a) \<Longrightarrow> sum_over f (change_at i g xs) = sum_over f xs"
  by (induction xs) (auto simp: change_at_def)

lemma sum_over_add:
  "distinct (map fst xs) \<Longrightarrow> i \<in> fst ` set xs \<Longrightarrow> (\<And>a. f (g a) = f a + n) \<Longrightarrow> sum_over f (change_at i g xs) = sum_over f xs + n"
proof (induction xs)
  case (Cons x xs)
  obtain j a where x: "x = (j, a)" by (cases x)
  show ?case
  proof (cases "j = i")
    case True
    with Cons.prems x have "i \<notin> fst ` set xs" by auto
    then have "change_at i g xs = xs" by (force simp: change_at_def intro: map_idI)
    with True x Cons.prems(3) show ?thesis by (simp add: change_at_def)
  next
    case False
    with Cons x show ?thesis by (auto simp: change_at_def)
  qed
qed simp

lemma sum_over_delete:
  "distinct (map fst xs) \<Longrightarrow> map_of xs i = Some a \<Longrightarrow> sum_over f xs = f a + sum_over f (AList.delete i xs)"
  by (induction xs) (auto simp: AList.delete_eq intro!: arg_cong [where f = "sum_over f"] filter_True [symmetric], force)

text \<open>
  Identifiers, totals and bytes: one handler per connection, identifiers distinct and counted, the
  counters exact, and the configurations that were ever current valid and alike in what only a
  restart may change.
\<close>

definition snapshots_ok :: "'x daemon \<Rightarrow> bool" where
  "snapshots_ok d =
     (sv_snapshot (d_server d) \<in> set (d_history d) \<and> distinct (map sn_generation (d_history d))
      \<and> (\<forall>snap \<in> set (d_history d). settings_ok (sn_config snap) \<and> sn_generation snap \<le> sn_generation (sv_snapshot (d_server d))
           \<and> \<not> restart_required (sn_config (sv_snapshot (d_server d))) (sn_config snap)))"

definition books_inv :: "'x daemon \<Rightarrow> bool" where
  "books_inv d =
     (let s = d_server d in
      list_all2 linked (sv_connections s) (d_handlers d) \<and> distinct (map fst (sv_connections s))
      \<and> (\<forall>i \<in> fst ` set (sv_connections s). i \<le> sv_next s) \<and> sv_total s = sv_next s
      \<and> length (sv_connections s) \<le> 65536
      \<and> sv_sent s + sum_over ac_sent (sv_connections s) = d_sent d
      \<and> sv_received s + sum_over ac_received (sv_connections s) = d_received d
      \<and> snapshots_ok d)"

text \<open>What a step leaves of the server's books.\<close>

definition same_books :: "server \<Rightarrow> server \<Rightarrow> bool" where
  "same_books s s' =
     (sv_next s' = sv_next s \<and> sv_total s' = sv_total s \<and> sv_sent s' = sv_sent s \<and> sv_received s' = sv_received s
      \<and> sv_snapshot s' = sv_snapshot s)"

lemma restart_required_trans:
  "\<not> restart_required a b \<Longrightarrow> \<not> restart_required a c \<Longrightarrow> \<not> restart_required c b"
  by (auto simp: restart_required_def)

lemma failure_simps [simp]:
  "sv_connections (failure k s) = sv_connections s" "sv_next (failure k s) = sv_next s" "sv_total (failure k s) = sv_total s"
  "sv_sent (failure k s) = sv_sent s" "sv_received (failure k s) = sv_received s" "sv_snapshot (failure k s) = sv_snapshot s"
  "sv_authorities (failure k s) = sv_authorities s" "sv_resolver (failure k s) = sv_resolver s" "sv_stopping (failure k s) = sv_stopping s"
  by (simp_all add: failure_def)

lemma update_conn_simps [simp]:
  "sv_next (update_conn i f s) = sv_next s" "sv_total (update_conn i f s) = sv_total s"
  "sv_sent (update_conn i f s) = sv_sent s" "sv_received (update_conn i f s) = sv_received s" "sv_snapshot (update_conn i f s) = sv_snapshot s"
  "sv_authorities (update_conn i f s) = sv_authorities s" "sv_resolver (update_conn i f s) = sv_resolver s" "sv_stopping (update_conn i f s) = sv_stopping s"
  by (simp_all add: update_conn_def)

text \<open>A step that changes only the record of one connection, together with its handler.\<close>

lemma books_record:
  assumes inv: "books_inv d" and h: "map_of (d_handlers d) i = Some h"
    and l: "\<And>a. linked (i, a) (i, h) \<Longrightarrow> linked (i, a\<lparr>ac_record := f (ac_record a)\<rparr>) (i, h\<lparr>h_phase := p\<rparr>)"
    and s: "sv_connections s = change_at i (\<lambda>a. a\<lparr>ac_record := f (ac_record a)\<rparr>) (sv_connections (d_server d))" "same_books (d_server d) s"
  shows "books_inv (go_to i h p (d\<lparr>d_server := s, d_clock := t\<rparr>))"
proof -
  let ?f = "\<lambda>a. a\<lparr>ac_record := f (ac_record a)\<rparr>"
  from inv have b: "list_all2 linked (sv_connections (d_server d)) (d_handlers d)" "distinct (map fst (sv_connections (d_server d)))"
    by (simp_all add: books_inv_def Let_def)
  with linked_keys [OF b(1)] have "distinct (map fst (d_handlers d))" by simp
  from linked_update [OF b(1) this h, of ?f "h\<lparr>h_phase := p\<rparr>", OF l] s have
    "list_all2 linked (sv_connections s) (set_at i (h\<lparr>h_phase := p\<rparr>) (d_handlers d))" by simp
  moreover have "map fst (sv_connections s) = map fst (sv_connections (d_server d))" "length (sv_connections s) = length (sv_connections (d_server d))"
    using s(1) by (simp_all add: change_at_def comp_def case_prod_beta)
  moreover have "\<forall>x \<in> set (sv_connections s). fst x \<le> sv_next (d_server d)"
    using inv s(1) by (force simp: books_inv_def Let_def change_at_def)
  moreover have "sum_over ac_sent (sv_connections s) = sum_over ac_sent (sv_connections (d_server d))"
    "sum_over ac_received (sv_connections s) = sum_over ac_received (sv_connections (d_server d))"
    unfolding s(1) by (simp_all add: sum_over_change)
  ultimately show ?thesis using inv s(2) by (simp add: books_inv_def Let_def go_to_def same_books_def snapshots_ok_def)
qed

text \<open>A step that leaves the records alone.\<close>

lemma books_keep:
  assumes "books_inv d" "sv_connections s = sv_connections (d_server d)" "same_books (d_server d) s"
  shows "books_inv (d\<lparr>d_server := s, d_clock := t\<rparr>)"
  using assms by (simp add: books_inv_def Let_def same_books_def snapshots_ok_def)

lemma clock_same [simp]: "d\<lparr>d_server := s, d_clock := d_clock d\<rparr> = d\<lparr>d_server := s\<rparr>" for d :: "'x daemon"
  by simp

lemmas record_defs = set_cancel_def set_sni_def set_upstream_def set_relaying_def update_record_def add_progress_def

lemma accept_cases:
  assumes "accept_conn snap now remote s = (r, s')"
  obtains (refused) k where "r = None" "s' = failure k s"
    | (accepted) a where "r = Some (Suc (sv_next s))" "client_allowed snap remote" "\<not> sv_stopping s"
        "int (length (sv_connections s)) < rt_max_connections (c_runtime (sn_config snap))"
        "ac_record a = new_connection (Suc (sv_next s)) now remote (sn_config snap)" "ac_sent a = 0" "ac_received a = 0"
        "s' = s\<lparr>sv_next := Suc (sv_next s), sv_total := Suc (sv_total s), sv_connections := (Suc (sv_next s), a) # sv_connections s\<rparr>"
proof (cases "client_allowed snap remote \<and> \<not> (sv_stopping s \<or> int (length (sv_connections s)) \<ge> rt_max_connections (c_runtime (sn_config snap)))")
  case True
  with assms show ?thesis by (intro accepted) (auto simp: accept_conn_def Let_def)
next
  case False
  with assms show ?thesis by (auto simp: accept_conn_def Let_def split: if_splits intro: refused)
qed

lemma books_accept:
  assumes inv: "books_inv d" and snap: "snap \<in> set (d_history d)" and run: "accept_conn snap now remote (d_server d) = (Some i, s)"
  shows "books_inv (d\<lparr>d_server := s, d_handlers := (i, \<lparr>h_snap = snap, h_remote = remote, h_phase = Greeting\<rparr>) # d_handlers d\<rparr>)"
  using run
proof (cases rule: accept_cases)
  case (accepted a)
  from inv snap have "rt_max_connections (c_runtime (sn_config snap)) \<le> 65536"
    by (auto simp: books_inv_def Let_def snapshots_ok_def settings_ok_def)
  with accepted(4) have len: "Suc (length (sv_connections (d_server d))) \<le> 65536" by linarith
  from inv have fresh: "Suc (sv_next (d_server d)) \<notin> fst ` set (sv_connections (d_server d))" by (auto simp: books_inv_def Let_def)
  show ?thesis
    using inv len fresh accepted
    by (auto simp: books_inv_def Let_def linked_def new_connection_def snapshots_ok_def)
qed simp

lemma books_change:
  assumes inv: "books_inv d" and f: "\<And>a. ac_record (f a) = ac_record a" "\<And>a. ac_sent (f a) = ac_sent a" "\<And>a. ac_received (f a) = ac_received a"
  shows "books_inv (d\<lparr>d_server := update_conn i f (d_server d)\<rparr>)"
  using inv linked_change(1) [of "sv_connections (d_server d)" "d_handlers d" f i]
  by (auto simp: books_inv_def Let_def snapshots_ok_def update_conn_change f sum_over_change) (force simp: change_at_def)+

lemma books_progress:
  assumes inv: "books_inv d" and h: "map_of (d_handlers d) i = Some h"
  shows "books_inv (d\<lparr>d_server := add_progress i m n (d_server d), d_sent := d_sent d + int m, d_received := d_received d + int n\<rparr>)"
proof -
  let ?f = "\<lambda>a. a\<lparr>ac_sent := ac_sent a + int m, ac_received := ac_received a + int n\<rparr>"
  let ?c = "sv_connections (d_server d)"
  from inv have b: "list_all2 linked ?c (d_handlers d)" "distinct (map fst ?c)" by (simp_all add: books_inv_def Let_def)
  from h have "i \<in> set (map fst (d_handlers d))" by (force dest: map_of_SomeD)
  with linked_keys [OF b(1)] have i: "i \<in> fst ` set ?c" by (metis list.set_map)
  have "sum_over ac_sent (change_at i ?f ?c) = sum_over ac_sent ?c + int m" "sum_over ac_received (change_at i ?f ?c) = sum_over ac_received ?c + int n"
    by (rule sum_over_add [OF b(2) i], simp)+
  moreover have "list_all2 linked (change_at i ?f ?c) (d_handlers d)" by (rule linked_change(1) [OF b(1)]) simp
  moreover have "\<forall>x \<in> set (change_at i ?f ?c). fst x \<le> sv_next (d_server d)" "length (change_at i ?f ?c) = length ?c"
    using inv by (force simp: books_inv_def Let_def change_at_def)+
  ultimately show ?thesis
    using inv by (simp add: books_inv_def Let_def snapshots_ok_def add_progress_def update_conn_change)
qed

lemma books_end:
  assumes inv: "books_inv d" and h: "map_of (d_handlers d) i = Some h"
  shows "books_inv (d\<lparr>d_server := finish_conn i err (d_server d), d_handlers := AList.delete i (d_handlers d)\<rparr>)"
proof -
  let ?c = "sv_connections (d_server d)"
  from inv have b: "list_all2 linked ?c (d_handlers d)" "distinct (map fst ?c)" by (simp_all add: books_inv_def Let_def)
  from h have "i \<in> set (map fst (d_handlers d))" by (force dest: map_of_SomeD)
  with linked_keys [OF b(1)] have "i \<in> fst ` set ?c" by (metis list.set_map)
  then have "map_of ?c i \<noteq> None" by (simp add: map_of_eq_None_iff)
  then obtain a where a: "map_of ?c i = Some a" by blast
  let ?s = "finish_conn i err (d_server d)"
  have s: "sv_connections ?s = AList.delete i ?c" "sv_sent ?s = sv_sent (d_server d) + ac_sent a"
    "sv_received ?s = sv_received (d_server d) + ac_received a" "sv_next ?s = sv_next (d_server d)" "sv_total ?s = sv_total (d_server d)"
    "sv_snapshot ?s = sv_snapshot (d_server d)"
    by (simp_all add: finish_conn_def a Let_def split: option.split)
  have "\<forall>x \<in> set (AList.delete i ?c). fst x \<le> sv_next (d_server d)" "length (AList.delete i ?c) \<le> 65536"
    using inv le_trans [OF length_filter_le, of _ 65536] by (auto simp: books_inv_def Let_def AList.delete_eq)
  with inv s linked_delete [OF b(1), of i] distinct_delete [OF b(2), of i] sum_over_delete [OF b(2) a]
  show ?thesis by (simp add: books_inv_def Let_def snapshots_ok_def)
qed

lemma validated_settings: "validate to_ascii c0 = (c, None) \<Longrightarrow> settings_ok c"
proof -
  assume "validate to_ascii c0 = (c, None)"
  then obtain ds where c: "settings_ok c0" "c = c0\<lparr>c_domains := ds\<rparr>" "list_all2 (\<lambda>s d. domain to_ascii s = Inr d) (c_domains c0) ds"
    by (auto simp: validate_iff)
  from list_all2_lengthD [OF c(3)] c(1) show "settings_ok c" unfolding c(2) by (simp add: settings_ok_def)
qed

lemma books_reload:
  assumes inv: "books_inv d" and v: "validate to_ascii c0 = (c, None)" and run: "reload C now re (Inr c) (d_server d) w = ((Inr x, s), w')"
  shows "books_inv (d\<lparr>d_server := s, d_history := sv_snapshot s # d_history d, d_clock := now\<rparr>)"
proof -
  let ?old = "sv_snapshot (d_server d)"
  from run have r: "\<not> restart_required (sn_config ?old) c" "sv_snapshot s = \<lparr>sn_config = c, sn_generation = Suc (sn_generation ?old)\<rparr>"
    "sv_connections s = sv_connections (d_server d)" "sv_next s = sv_next (d_server d)" "sv_total s = sv_total (d_server d)"
    "sv_sent s = sv_sent (d_server d)" "sv_received s = sv_received (d_server d)"
    by (auto simp: reload_def Let_def split: if_splits sum.splits prod.splits)
  note ok = validated_settings [OF v]
  from inv have sn: "snapshots_ok d" by (simp add: books_inv_def Let_def)
  then have gens: "\<forall>g \<in> set (map sn_generation (d_history d)). g \<le> sn_generation ?old" by (auto simp: snapshots_ok_def)
  then have "Suc (sn_generation ?old) \<notin> set (map sn_generation (d_history d))" by fastforce
  with sn r ok restart_required_trans [of "sn_config ?old" _ c] have "snapshots_ok (d\<lparr>d_server := s, d_history := sv_snapshot s # d_history d, d_clock := now\<rparr>)"
    by (auto simp: snapshots_ok_def le_SucI restart_required_def)
  with inv r show ?thesis by (simp add: books_inv_def Let_def snapshots_ok_def)
qed

text \<open>Every step keeps the books.\<close>

lemma books_step:
  assumes "books_inv d" "daemon_step C to_ascii d d'"
  shows "books_inv d'"
  using assms(2)
proof cases
  case (step_accept snap now remote i s)
  with books_accept [OF assms(1)] show ?thesis by blast
next
  case (step_refuse snap now remote s)
  from step_refuse(3) obtain k where "s = failure k (d_server d)" by (cases rule: accept_cases) auto
  with step_refuse books_keep [OF assms(1), of s "d_clock d"] show ?thesis by (simp add: same_books_def)
next
  case (step_begin i h)
  with books_change [OF assms(1), of "\<lambda>a. a\<lparr>ac_cancel := True\<rparr>" i] show ?thesis by (simp add: set_cancel_def)
next
  case (step_hello i h name host offered)
  have "books_inv (go_to i h (Named host offered) (d\<lparr>d_server := set_sni i host (d_server d), d_clock := d_clock d\<rparr>))"
    by (rule books_record [OF assms(1) step_hello(2), of "\<lambda>r. r\<lparr>cn_sni := host\<rparr>"])
      (use step_hello in \<open>auto simp: linked_def record_defs update_conn_change same_books_def\<close>)
  with step_hello show ?thesis by simp
next
  case (step_certificate i h host offered e cert s)
  have "books_inv (go_to i h (Certified host offered cert) (d\<lparr>d_server := s, d_clock := dr_now e\<rparr>))"
    by (rule books_record [OF assms(1) step_certificate(2), of "\<lambda>r. r"])
      (use step_certificate in \<open>auto simp: linked_def take_certificate_def same_books_def change_at_def split: prod.splits\<close>)
  with step_certificate show ?thesis by simp
next
  case (step_no_certificate i h host offered e err s)
  then have "books_inv (d\<lparr>d_server := s, d_clock := dr_now e\<rparr>)"
    by (intro books_keep [OF assms(1)]) (auto simp: take_certificate_def same_books_def split: prod.splits)
  with step_no_certificate show ?thesis by simp
next
  case (step_dial i h host offered cert env1 now later found env2 E u t r)
  let ?f = "\<lambda>r. r\<lparr>cn_upstream := us_address u, cn_mods := us_mods u, cn_upstream_tls := cs_version (us_state u), cn_upstream_alpn := cs_protocol (us_state u)\<rparr>"
  have "books_inv (go_to i h (Answered host offered cert u) (d\<lparr>d_server := set_upstream i u ((d_server d)\<lparr>sv_resolver := r\<rparr>), d_clock := d_clock d\<rparr>))"
    by (rule books_record [OF assms(1) step_dial(2), of ?f])
      (use step_dial in \<open>auto simp: linked_def record_defs update_conn_change same_books_def\<close>)
  with step_dial show ?thesis by simp
next
  case (step_no_dial i h host offered cert env1 now later found env2 E err t r)
  with books_keep [OF assms(1), of "(d_server d)\<lparr>sv_resolver := r\<rparr>" "d_clock d"] show ?thesis by (simp add: same_books_def)
next
  case (step_shake i h host offered cert u shaken st)
  let ?f = "\<lambda>r. r\<lparr>cn_client_tls := cs_version st, cn_client_alpn := cs_protocol st, cn_state := ''relaying''\<rparr>"
  have "books_inv (go_to i h (Relaying host offered cert u st) (d\<lparr>d_server := set_relaying i st (d_server d), d_clock := d_clock d\<rparr>))"
    by (rule books_record [OF assms(1) step_shake(2), of ?f])
      (use step_shake in \<open>auto simp: linked_def record_defs update_conn_change same_books_def\<close>)
  with step_shake show ?thesis by simp
next
  case (step_progress i h host offered cert u st m n)
  with books_progress [OF assms(1)] show ?thesis by blast
next
  case (step_end i h err)
  with books_end [OF assms(1)] show ?thesis by blast
next
  case (step_reload now c0 c re w x s w')
  with books_reload [OF assms(1)] show ?thesis by blast
next
  case (step_no_reload now re loaded w e s w')
  then have "s = d_server d" by (auto simp: reload_def Let_def split: sum.splits if_splits prod.splits)
  with step_no_reload assms(1) show ?thesis by simp
next
  case (step_refresh now later found)
  with books_keep [OF assms(1), of "(d_server d)\<lparr>sv_resolver := fst (refresh now later found (sv_resolver (d_server d)))\<rparr>" "d_clock d"]
  show ?thesis by (simp add: same_books_def)
next
  case step_stop
  with books_keep [OF assms(1), of "stop (d_server d)" "d_clock d"] show ?thesis by (simp add: same_books_def stop_def)
next
  case step_close_all
  let ?g = "\<lambda>a :: active. a\<lparr>ac_canceled := ac_canceled a \<or> ac_cancel a, ac_closed := True\<rparr>"
  have "sum_over ac_sent (map (\<lambda>(i, a). (i, ?g a)) xs) = sum_over ac_sent xs"
    "sum_over ac_received (map (\<lambda>(i, a). (i, ?g a)) xs) = sum_over ac_received xs"
    "map fst (map (\<lambda>(i, a). (i, ?g a)) xs) = map fst xs" for xs
    by (induction xs) auto
  with step_close_all assms(1) linked_change(2) [of "sv_connections (d_server d)" "d_handlers d" ?g] show ?thesis
    by (auto simp: books_inv_def Let_def snapshots_ok_def close_all_def simp del: map_map)
qed

lemma books_init: "daemon_init C to_ascii d \<Longrightarrow> books_inv d"
  by (auto simp: daemon_init_def books_inv_def Let_def snapshots_ok_def new_server_def io_ok validated_settings restart_required_def)

interpretation books: transition_system "daemon_init C to_ascii" "daemon_step C to_ascii" books_inv for C to_ascii
  by unfold_locales (auto intro: books_init books_step)

section \<open>What a handler has checked\<close>

definition certified_ok :: "crypto \<Rightarrow> (nat \<Rightarrow> authority) \<Rightarrow> snapshot \<Rightarrow> string \<Rightarrow> tls_cert \<Rightarrow> bool" where
  "certified_ok C auth snap host cert =
     (allows_domain (sn_config snap) host
      \<and> serves C (a_cert (auth (sn_generation snap))) (a_key (auth (sn_generation snap))) host cert)"

definition answered_ok :: "snapshot \<Rightarrow> string \<Rightarrow> string list \<Rightarrow> 'x upstream \<Rightarrow> bool" where
  "answered_ok snap host offered u = (\<exists>E ip. verified E (sn_config snap) host offered ip u)"

fun phase_ok :: "crypto \<Rightarrow> (nat \<Rightarrow> authority) \<Rightarrow> snapshot \<Rightarrow> 'x phase \<Rightarrow> bool" where
  "phase_ok C auth snap Greeting = True"
| "phase_ok C auth snap (Named host offered) = allows_domain (sn_config snap) host"
| "phase_ok C auth snap (Certified host offered cert) = certified_ok C auth snap host cert"
| "phase_ok C auth snap (Answered host offered cert u) = (certified_ok C auth snap host cert \<and> answered_ok snap host offered u)"
| "phase_ok C auth snap (Relaying host offered cert u st) =
     (certified_ok C auth snap host cert \<and> answered_ok snap host offered u \<and> cs_protocol st = cs_protocol (us_state u))"

definition handler_ok :: "crypto \<Rightarrow> 'x daemon \<Rightarrow> 'x handler \<Rightarrow> bool" where
  "handler_ok C d h =
     (h_snap h \<in> set (d_history d) \<and> client_allowed (h_snap h) (h_remote h)
      \<and> phase_ok C (sv_authorities (d_server d)) (h_snap h) (h_phase h))"

definition authority_ok :: "crypto \<Rightarrow> 'x daemon \<Rightarrow> nat \<Rightarrow> bool" where
  "authority_ok C d g = (let a = sv_authorities (d_server d) g in ca_good C (a_cert a) (a_key a) (d_clock d) a)"

definition guard_inv :: "crypto \<Rightarrow> 'x daemon \<Rightarrow> bool" where
  "guard_inv C d =
     (cache_nonempty (sv_resolver (d_server d)) \<and> (\<forall>snap \<in> set (d_history d). authority_ok C d (sn_generation snap))
      \<and> (\<forall>x \<in> set (d_handlers d). handler_ok C d (snd x)))"

lemma guard_invD:
  assumes "guard_inv C d"
  shows "cache_nonempty (sv_resolver (d_server d))" "snap \<in> set (d_history d) \<Longrightarrow> authority_ok C d (sn_generation snap)"
    "map_of (d_handlers d) i = Some h \<Longrightarrow> handler_ok C d h"
  using assms by (auto simp: guard_inv_def) (force dest: map_of_SomeD)

lemma ca_good_later: "ca_good C ca key t a \<Longrightarrow> t \<le> t' \<Longrightarrow> ca_good C ca key t' a"
  by (fastforce simp: ca_good_def)

text \<open>Authorities keep their certificate and key.\<close>

lemma phase_ok_same:
  assumes "a_cert (auth' (sn_generation snap)) = a_cert (auth (sn_generation snap))" "a_key (auth' (sn_generation snap)) = a_key (auth (sn_generation snap))"
  shows "phase_ok C auth' snap p = phase_ok C auth snap p"
  by (cases p) (simp_all add: assms certified_ok_def)

lemma set_at_subset: "x \<in> set (set_at i v xs) \<Longrightarrow> x \<in> set xs \<or> x = (i, v)"
  by (auto simp: set_at_def split: if_splits)

text \<open>auth step that changes neither the authorities nor the snapshots, and at most one handler.\<close>

lemma guard_move:
  assumes g: "guard_inv C d" and s: "sv_authorities s = sv_authorities (d_server d)" "cache_nonempty (sv_resolver s)"
    and p: "handler_ok C d (h\<lparr>h_phase := p\<rparr>)"
  shows "guard_inv C (go_to i h p (d\<lparr>d_server := s\<rparr>))"
  using assms by (auto simp: guard_inv_def go_to_def handler_ok_def authority_ok_def dest!: set_at_subset)

lemma guard_goto: "guard_inv C d \<Longrightarrow> handler_ok C d (h\<lparr>h_phase := p\<rparr>) \<Longrightarrow> guard_inv C (go_to i h p d)"
  by (auto simp: guard_inv_def go_to_def handler_ok_def authority_ok_def dest!: set_at_subset)

lemma guard_keep:
  assumes "guard_inv C d" "sv_authorities s = sv_authorities (d_server d)" "cache_nonempty (sv_resolver s)"
  shows "guard_inv C (d\<lparr>d_server := s\<rparr>)" "guard_inv C (d\<lparr>d_server := s, d_sent := m, d_received := n\<rparr>)"
  using assms by (simp_all add: guard_inv_def handler_ok_def authority_ok_def)

lemma guard_certificate:
  assumes g: "guard_inv C d" and h: "map_of (d_handlers d) i = Some h" and t: "d_clock d \<le> dr_now e"
    and run: "take_certificate C e (h_snap h) host (d_server d) = (r, s)"
  shows "guard_inv C (d\<lparr>d_server := s, d_clock := dr_now e\<rparr>)"
    and "r = Inr cert \<Longrightarrow> serves C (a_cert (sv_authorities s (sn_generation (h_snap h)))) (a_key (sv_authorities s (sn_generation (h_snap h)))) host cert"
proof -
  let ?g = "sn_generation (h_snap h)" and ?A = "sv_authorities (d_server d)"
  obtain a where c: "certificate C e host (?A ?g) = (r, a)" and s: "s = (d_server d)\<lparr>sv_authorities := ?A(?g := a)\<rparr>"
    using run by (auto simp: take_certificate_def split: prod.splits)
  from guard_invD(3) [OF g h] have "h_snap h \<in> set (d_history d)" by (simp add: handler_ok_def)
  from guard_invD(2) [OF g this] have good: "ca_good C (a_cert (?A ?g)) (a_key (?A ?g)) (d_clock d) (?A ?g)"
    by (simp add: authority_ok_def Let_def)
  from ca_issuer.issue_good [OF good t c] have good': "ca_good C (a_cert (?A ?g)) (a_key (?A ?g)) (dr_now e) a" .
  then have same: "a_cert a = a_cert (?A ?g)" "a_key a = a_key (?A ?g)" by (simp_all add: ca_good_def)
  have "authority_ok C (d\<lparr>d_server := s, d_clock := dr_now e\<rparr>) (sn_generation snap)" if "snap \<in> set (d_history d)" for snap
    using good' same s guard_invD(2) [OF g that] t by (auto simp: authority_ok_def Let_def intro: ca_good_later)
  moreover have "handler_ok C (d\<lparr>d_server := s, d_clock := dr_now e\<rparr>) k" if "handler_ok C d k" for k
    using that phase_ok_same [of "sv_authorities s" "h_snap k" ?A C "h_phase k"] same s by (auto simp: handler_ok_def)
  ultimately show "guard_inv C (d\<lparr>d_server := s, d_clock := dr_now e\<rparr>)" using g s by (auto simp: guard_inv_def)
  show "serves C (a_cert (sv_authorities s ?g)) (a_key (sv_authorities s ?g)) host cert" if "r = Inr cert"
    using ca_issuer.issue_valid [OF good t c [unfolded that]] same s by simp
qed

lemma guard_reload:
  assumes g: "guard_inv C d" and b: "books_inv d" and ok: "crypto_ok C" and t: "d_clock d \<le> now"
    and run: "reload C now re (Inr c) (d_server d) w = ((Inr x, s), w')"
  shows "guard_inv C (d\<lparr>d_server := s, d_history := sv_snapshot s # d_history d, d_clock := now\<rparr>)"
proof -
  let ?g = "Suc (sn_generation (sv_snapshot (d_server d)))" and ?A = "sv_authorities (d_server d)"
  from run obtain a where
    l: "ca_load C now (c_ca_cert c) (c_ca_key c) w = (Inr a, w')" and
    s: "s = (d_server d)\<lparr>sv_snapshot := \<lparr>sn_config = c, sn_generation = ?g\<rparr>, sv_authorities := ?A(?g := a),
      sv_resolver := reconfigure (re_now re) (re_later re) (re_found re) (c_dns c) (sv_resolver (d_server d)), sv_level := level_of c\<rparr>"
    by (auto simp: reload_def Let_def split: if_splits sum.splits prod.splits)
  from load_good [OF ok l] have a: "ca_good C (a_cert a) (a_key a) now a" by blast
  have old: "sn_generation snap \<noteq> ?g" if "snap \<in> set (d_history d)" for snap
    using b that by (force simp: books_inv_def Let_def snapshots_ok_def)
  have "cache_nonempty (configure (c_dns c) (sv_resolver (d_server d)))" by (simp add: configure_def cache_nonempty_def)
  then have "cache_nonempty (sv_resolver s)" using refresh_nonempty s by (simp add: reconfigure_def)
  moreover have "handler_ok C (d\<lparr>d_server := s, d_history := sv_snapshot s # d_history d, d_clock := now\<rparr>) k" if "handler_ok C d k" for k
    using that old [of "h_snap k"] phase_ok_same [of "sv_authorities s" "h_snap k" ?A C "h_phase k"] s by (auto simp: handler_ok_def)
  moreover have "authority_ok C (d\<lparr>d_server := s, d_history := sv_snapshot s # d_history d, d_clock := now\<rparr>) (sn_generation snap)"
    if "snap \<in> set (d_history d)" for snap
    using guard_invD(2) [OF g that] old [OF that] s t by (auto simp: authority_ok_def Let_def intro: ca_good_later)
  moreover have "authority_ok C (d\<lparr>d_server := s, d_history := sv_snapshot s # d_history d, d_clock := now\<rparr>) (sn_generation (sv_snapshot s))"
    using a s by (simp add: authority_ok_def)
  ultimately show ?thesis using g by (auto simp: guard_inv_def)
qed

definition daemon_inv :: "crypto \<Rightarrow> 'x daemon \<Rightarrow> bool" where
  "daemon_inv C d = (crypto_ok C \<and> books_inv d \<and> guard_inv C d)"

lemma guard_step:
  assumes inv: "daemon_inv C d" and step: "daemon_step C to_ascii d d'"
  shows "guard_inv C d'"
proof -
  from inv have ok: "crypto_ok C" and b: "books_inv d" and g: "guard_inv C d" by (simp_all add: daemon_inv_def)
  note gd = guard_invD [OF g]
  from step show ?thesis
  proof cases
    case (step_accept snap now remote i s)
    from step_accept(3) g step_accept(1,2) show ?thesis
      by (cases rule: accept_cases) (auto simp: guard_inv_def handler_ok_def authority_ok_def)
  next
    case (step_refuse snap now remote s)
    from step_refuse(3) obtain k where "s = failure k (d_server d)" by (cases rule: accept_cases) auto
    with step_refuse g gd(1) show ?thesis by (auto intro: guard_keep)
  next
    case (step_begin i h)
    with g gd(1) show ?thesis by (auto simp: record_defs intro: guard_keep)
  next
    case (step_hello i h name host offered)
    from step_hello(4) have "allows_domain (sn_config (h_snap h)) host"
      by (auto simp: hello_check_def split: if_splits sum.splits)
    with step_hello gd(3) [OF step_hello(2)] g gd(1) show ?thesis
      by (auto simp: record_defs handler_ok_def intro!: guard_move)
  next
    case (step_certificate i h host offered e cert s)
    note c = guard_certificate [OF g step_certificate(2,4,5)]
    from c(2) [of cert] gd(3) [OF step_certificate(2)] step_certificate(3)
    have "handler_ok C (d\<lparr>d_server := s, d_clock := dr_now e\<rparr>) (h\<lparr>h_phase := Certified host offered cert\<rparr>)"
      by (auto simp: handler_ok_def certified_ok_def)
    with c(1) step_certificate(1) show ?thesis by (simp only: guard_goto)
  next
    case (step_no_certificate i h host offered e err s)
    with guard_certificate(1) [OF g step_no_certificate(2,4,5)] show ?thesis by simp
  next
    case (step_dial i h host offered cert env1 now later found env2 E u t r)
    from resolver.dial_sound [OF gd(1) step_dial(4)] have "cache_nonempty r" "answered_ok (h_snap h) host offered u"
      by (auto simp: answered_ok_def)
    with step_dial gd(3) [OF step_dial(2)] g show ?thesis by (auto simp: record_defs handler_ok_def intro!: guard_move)
  next
    case (step_no_dial i h host offered cert env1 now later found env2 E err t r)
    from resolver.dial_sound [OF gd(1) step_no_dial(4)] have "cache_nonempty r" by blast
    with step_no_dial(1) g show ?thesis by (auto intro: guard_keep)
  next
    case (step_shake i h host offered cert u shaken st)
    from step_shake(4) have "cs_protocol st = cs_protocol (us_state u)"
      by (auto simp: after_handshake_def split: sum.splits if_splits)
    with step_shake gd(3) [OF step_shake(2)] g gd(1) show ?thesis by (auto simp: record_defs handler_ok_def intro!: guard_move)
  next
    case (step_progress i h host offered cert u st m n)
    with g gd(1) show ?thesis by (auto simp: record_defs intro: guard_keep)
  next
    case (step_end i h err)
    have "sv_authorities (finish_conn i err s) = sv_authorities s \<and> sv_resolver (finish_conn i err s) = sv_resolver s" for s
      by (simp add: finish_conn_def Let_def split: option.split)
    with step_end g show ?thesis by (auto simp: guard_inv_def handler_ok_def authority_ok_def AList.delete_eq)
  next
    case (step_reload now c0 c re w x s w')
    with guard_reload [OF g b ok] show ?thesis by blast
  next
    case (step_no_reload now re loaded w e s w')
    then have "s = d_server d" by (auto simp: reload_def Let_def split: sum.splits if_splits prod.splits)
    with step_no_reload g show ?thesis by simp
  next
    case (step_refresh now later found)
    with g refresh_nonempty [OF gd(1), of now later found] show ?thesis by (auto intro: guard_keep)
  next
    case step_stop
    with g gd(1) show ?thesis by (auto simp: stop_def intro: guard_keep)
  next
    case step_close_all
    with g gd(1) show ?thesis by (auto simp: close_all_def intro: guard_keep)
  qed
qed

lemma guard_init:
  assumes "daemon_init C to_ascii d"
  shows "guard_inv C d"
proof -
  from assms obtain now re c path version level w s w' where
    ok: "crypto_ok C" and n: "new_server C now re c path version level w = (Inr s, w')" and
    d: "d = \<lparr>d_server = s, d_handlers = [], d_history = [sv_snapshot s], d_clock = now, d_sent = 0, d_received = 0\<rparr>"
    unfolding daemon_init_def by blast
  from n obtain a w1 where l: "ca_load C now (c_ca_cert c) (c_ca_key c) w = (Inr a, w1)" and
    s: "sv_authorities s = (\<lambda>_. a)" "sv_resolver s = new_resolver (re_now re) (re_later re) (re_found re) (c_dns c)"
    by (auto simp: new_server_def io_ok)
  have "cache_nonempty (fresh_resolver (c_dns c))" by (simp add: fresh_resolver_def cache_nonempty_def)
  from refresh_nonempty [OF this] load_good [OF ok l] d s show ?thesis
    by (simp add: guard_inv_def authority_ok_def new_resolver_def)
qed

interpretation proxy: transition_system "daemon_init C to_ascii" "daemon_step C to_ascii" "daemon_inv C" for C to_ascii
proof
  show "daemon_inv C d" if "daemon_init C to_ascii d" for d :: "'a daemon"
    using books_init [OF that] guard_init [OF that] that by (simp add: daemon_inv_def daemon_init_def)
  show "daemon_inv C d'" if "daemon_inv C d" "daemon_step C to_ascii d d'" for d d' :: "'a daemon"
    using books_step [OF _ that(2)] guard_step [OF that] that(1) by (simp add: daemon_inv_def)
qed

section \<open>Facts for the properties\<close>

lemma linked_map_of:
  "list_all2 linked xs ys \<Longrightarrow> map_of ys i = Some h \<Longrightarrow> \<exists>a. (i, a) \<in> set xs \<and> linked (i, a) (i, h)"
proof (induction rule: list_all2_induct)
  case (Cons x xs y ys)
  obtain j a k g where "x = (j, a)" "y = (k, g)" by (cases x, cases y)
  with Cons show ?case by (auto simp: linked_def split: if_splits)
qed simp

lemma map_insort_key: "map k (insort_key k x ys) = insort (k x) (map k ys)"
  by (induction ys) auto

lemma map_sort_key: "map k (sort_key k xs) = sort (map k xs)"
  by (induction xs) (auto simp: map_insort_key)

lemma r_cfg_reconfigure: "r_cfg (reconfigure now later found c r) = c"
  by (auto simp: reconfigure_def configure_def refresh_def refresh_finish_def Let_def split: prod.splits)

lemma connection_list_ids:
  assumes "books_inv d"
  shows "map cn_id (connection_list (d_server d)) = sort (map fst (sv_connections (d_server d)))"
proof -
  let ?f = "\<lambda>(i, a). (ac_record a)\<lparr>cn_sent := ac_sent a, cn_received := ac_received a\<rparr>"
  from assms have "list_all2 linked (sv_connections (d_server d)) (d_handlers d)" by (simp add: books_inv_def Let_def)
  then have "map (\<lambda>x. cn_id (?f x)) (sv_connections (d_server d)) = map fst (sv_connections (d_server d))"
    by (induction rule: list_all2_induct) (auto simp: linked_def)
  then show ?thesis by (simp only: connection_list_def map_sort_key map_map comp_def)
qed

text \<open>Once stopping, the daemon accepts nothing and stays stopping.\<close>

lemma finish_stopping: "sv_stopping (finish_conn i err s) = sv_stopping s"
  by (simp add: finish_conn_def Let_def split: option.split)

lemma set_at_keys: "fst ` set (set_at i v xs) = fst ` set xs"
  by (metis list.set_map map_fst_change(2))

lemma stopping_step:
  assumes "daemon_step C to_ascii d d'" "sv_stopping (d_server d)"
  shows "sv_stopping (d_server d') \<and> fst ` set (d_handlers d') \<subseteq> fst ` set (d_handlers d)"
  using assms(1)
proof cases
  case (step_accept snap now remote i s)
  from step_accept(3) assms(2) show ?thesis by (cases rule: accept_cases) auto
next
  case (step_refuse snap now remote s)
  from step_refuse(3) step_refuse(1) assms(2) show ?thesis by (cases rule: accept_cases) auto
next
  case (step_reload now c0 c re w x s w')
  with assms(2) show ?thesis by (auto simp: reload_def Let_def split: if_splits sum.splits prod.splits)
next
  case (step_no_reload now re loaded w e s w')
  with assms(2) show ?thesis by (auto simp: reload_def Let_def split: if_splits sum.splits prod.splits)
qed (use assms(2) in \<open>auto simp: record_defs go_to_def set_at_keys take_certificate_def stop_def close_all_def finish_stopping AList.delete_eq
    split: prod.splits if_splits\<close>)

text \<open>Ending the handlers one after the other empties the daemon.\<close>

lemma handlers_end: "\<exists>d'. (daemon_step C to_ascii)\<^sup>*\<^sup>* d d' \<and> d_handlers d' = []"
proof (induction "length (d_handlers d)" arbitrary: d rule: less_induct)
  case less
  show ?case
  proof (cases "d_handlers d")
    case (Cons x hs)
    obtain i h where x: "x = (i, h)" by (cases x)
    let ?d = "d\<lparr>d_server := finish_conn i None (d_server d), d_handlers := AList.delete i (d_handlers d)\<rparr>"
    have step: "daemon_step C to_ascii d ?d" by (rule step_end [of d i h]) (simp add: Cons x)
    have "length (d_handlers ?d) < length (d_handlers d)" using length_filter_le [of "\<lambda>(k, v). i \<noteq> k" hs] by (simp add: Cons x AList.delete_eq le_imp_less_Suc)
    from less [OF this] obtain d' where "(daemon_step C to_ascii)\<^sup>*\<^sup>* ?d d'" "d_handlers d' = []" by blast
    with step show ?thesis by (meson converse_rtranclp_into_rtranclp)
  qed auto
qed

section \<open>Properties\<close>

text \<open>C1: nothing is relayed unchecked.  In every reachable state of the daemon, however accept
  loops, handlers, reloads and shutdown interleave, a connection that relays belongs to a client
  its snapshot's configuration admits, for a host that configuration lists; the client got a
  certificate of the snapshot's authority for exactly that host; the upstream connection was
  verified for that host; both sides agreed on the same protocol, one the client offered or none;
  and the connection list shows it as relaying with this name and address.\<close>

theorem relays_only_checked:
  assumes "reach (daemon_init C to_ascii) (daemon_step C to_ascii) d"
    and "map_of (d_handlers d) i = Some h" and "h_phase h = Relaying host offered cert u st"
  shows "h_snap h \<in> set (d_history d) \<and> client_allowed (h_snap h) (h_remote h)
    \<and> allows_domain (sn_config (h_snap h)) host
    \<and> (\<exists>a. sv_authorities (d_server d) (sn_generation (h_snap h)) = a \<and> serves C (a_cert a) (a_key a) host cert)
    \<and> (\<exists>E ip. verified E (sn_config (h_snap h)) host offered ip u)
    \<and> cs_protocol st = cs_protocol (us_state u) \<and> compatible (cs_protocol st) offered
    \<and> (\<exists>r \<in> set (connection_list (d_server d)). cn_id r = i \<and> cn_client r = h_remote h \<and> cn_state r = ''relaying'' \<and> cn_sni r = host
         \<and> cn_upstream r = us_address u \<and> cn_client_alpn r = cn_upstream_alpn r)"
proof -
  from proxy.inv_reach [OF assms(1)] have b: "books_inv d" and g: "guard_inv C d" by (simp_all add: daemon_inv_def)
  from guard_invD(3) [OF g assms(2)] assms(3) have ok: "h_snap h \<in> set (d_history d)" "client_allowed (h_snap h) (h_remote h)"
    "certified_ok C (sv_authorities (d_server d)) (h_snap h) host cert" "answered_ok (h_snap h) host offered u" "cs_protocol st = cs_protocol (us_state u)"
    by (simp_all add: handler_ok_def)
  from b have "list_all2 linked (sv_connections (d_server d)) (d_handlers d)" by (simp add: books_inv_def Let_def)
  from linked_map_of [OF this assms(2)] obtain a where a: "(i, a) \<in> set (sv_connections (d_server d))" "linked (i, a) (i, h)" by blast
  let ?r = "(ac_record a)\<lparr>cn_sent := ac_sent a, cn_received := ac_received a\<rparr>"
  have "?r \<in> set (connection_list (d_server d))" using a(1) by (force simp: connection_list_def)
  with a(2) assms(3) ok show ?thesis
    by (auto simp: linked_def certified_ok_def answered_ok_def verified_def intro!: bexI [of _ ?r])
qed

text \<open>C12: the books are exact in every reachable state: the byte counts of the status are the
  bytes moved since the start, over finished and active connections together; the number of active
  connections is the number of running handlers; every identifier was given out once, the list is in
  their order; and there are never more than 65536 connections.\<close>

theorem status_exact:
  assumes "reach (daemon_init C to_ascii) (daemon_step C to_ascii) d"
  shows "ss_sent (server_status (d_server d)) = d_sent d \<and> ss_received (server_status (d_server d)) = d_received d
    \<and> ss_active (server_status (d_server d)) = length (d_handlers d) \<and> ss_active (server_status (d_server d)) \<le> 65536
    \<and> sorted_wrt (<) (map cn_id (connection_list (d_server d)))
    \<and> set (map cn_id (connection_list (d_server d))) = fst ` set (d_handlers d)
    \<and> list_all (\<lambda>r. cn_id r \<le> ss_total (server_status (d_server d))) (connection_list (d_server d))"
proof -
  from books.inv_reach [OF assms] have b: "books_inv d" .
  note ids = connection_list_ids [OF b]
  from b have l: "list_all2 linked (sv_connections (d_server d)) (d_handlers d)" "distinct (map fst (sv_connections (d_server d)))"
    by (simp_all add: books_inv_def Let_def)
  from linked_keys [OF l(1)] have k: "fst ` set (sv_connections (d_server d)) = fst ` set (d_handlers d)" by (metis list.set_map)
  have "sorted_wrt (<) (map cn_id (connection_list (d_server d)))" using l(2) by (simp add: ids strict_sorted_iff)
  moreover have s: "set (map cn_id (connection_list (d_server d))) = fst ` set (d_handlers d)" by (simp only: ids set_sort list.set_map k)
  moreover have "list_all (\<lambda>r. cn_id r \<le> sv_total (d_server d)) (connection_list (d_server d))"
  proof -
    have "j \<le> sv_total (d_server d)" if "j \<in> set (map cn_id (connection_list (d_server d)))" for j
      using that b unfolding s k [symmetric] by (auto simp: books_inv_def Let_def)
    then show ?thesis by (simp add: list_all_iff)
  qed
  ultimately show ?thesis
    using b list_all2_lengthD [OF l(1)] by (simp add: server_status_def Let_def books_inv_def)
qed


text \<open>C36: a reload either fails and changes nothing, or installs the loaded configuration with
  the next generation and leaves connections, counters and failures alone; and the configurations a
  running daemon ever had are all valid and agree in what only a restart may change.\<close>

theorem reload_safe:
  assumes "reach (daemon_init C to_ascii) (daemon_step C to_ascii) (d :: 'x daemon)"
    and "reload C now re loaded (d_server d) w = ((r, s), w')"
  shows "(case r of
      Inl e \<Rightarrow> s = d_server d
    | Inr _ \<Rightarrow> (\<exists>c. loaded = Inr c \<and> sn_config (sv_snapshot s) = c \<and> \<not> restart_required (sn_config (sv_snapshot (d_server d))) c)
        \<and> sn_generation (sv_snapshot s) = Suc (sn_generation (sv_snapshot (d_server d)))
        \<and> connection_list s = connection_list (d_server d) \<and> sv_failures s = sv_failures (d_server d)
        \<and> ss_sent (server_status s) = ss_sent (server_status (d_server d)) \<and> r_cfg (sv_resolver s) = c_dns (sn_config (sv_snapshot s)))
    \<and> list_all (\<lambda>snap. settings_ok (sn_config snap) \<and> \<not> restart_required (sn_config (sv_snapshot (d_server d))) (sn_config snap)) (d_history d)"
proof -
  from books.inv_reach [OF assms(1)] have "snapshots_ok d" by (simp add: books_inv_def Let_def)
  then show ?thesis
    using assms(2) by (auto simp: r_cfg_reconfigure reload_def Let_def connection_list_def server_status_def snapshots_ok_def list_all_iff
        split: if_splits sum.splits prod.splits)
qed

text \<open>C37: stopping drains: from a stopping daemon no step leads to a connection that was not there,
  and it stays stopping; and whenever its handlers end, which nothing prevents, no connection is
  left.\<close>

theorem stopping_drains:
  assumes "reach (daemon_init C to_ascii) (daemon_step C to_ascii) d" and "sv_stopping (d_server d)"
  shows "(\<forall>d'. (daemon_step C to_ascii)\<^sup>*\<^sup>* d d' \<longrightarrow>
        sv_stopping (d_server d') \<and> fst ` set (sv_connections (d_server d')) \<subseteq> fst ` set (sv_connections (d_server d)))
    \<and> (\<exists>d'. (daemon_step C to_ascii)\<^sup>*\<^sup>* d d' \<and> sv_connections (d_server d') = [])"
proof -
  have keys: "fst ` set (sv_connections (d_server e)) = fst ` set (d_handlers e)" if "books_inv e" for e :: "'a daemon"
    using that linked_keys by (metis books_inv_def list.set_map)
  have b: "books_inv e" if "(daemon_step C to_ascii)\<^sup>*\<^sup>* d e" for e
    using books.inv_steps [OF that] books.inv_reach [OF assms(1)] by blast
  have "sv_stopping (d_server e) \<and> fst ` set (d_handlers e) \<subseteq> fst ` set (d_handlers d)" if "(daemon_step C to_ascii)\<^sup>*\<^sup>* d e" for e
    using that by (induction rule: rtranclp_induct) (use assms(2) in simp, meson stopping_step subset_trans)
  moreover obtain e where "(daemon_step C to_ascii)\<^sup>*\<^sup>* d e" "d_handlers e = []" using handlers_end by blast
  moreover from this b [OF this(1)] have "sv_connections (d_server e) = []" by (simp add: books_inv_def Let_def)
  ultimately show ?thesis using keys b by (metis rtranclp.rtrancl_refl)
qed

section \<open>A run\<close>

text \<open>A configuration for one host, resolved by hand.\<close>

definition sample_config :: config where
  "sample_config = (defaults Linux)\<lparr>c_domains := [''a''], c_dns := sample_cfg\<rparr>"

lemma sample_domain: "domain Inr ''a'' = Inr ''a''"
  by (simp add: domain_def Let_def to_lower_def lower_char_def char_evals code_def trim_suffix_dot split_on_def label_ok_def label_char_def is_lower_def
        netip_evals)

lemma sample_config_valid: "validate Inr sample_config = (sample_config, None)"
proof -
  have "settings_ok (defaults Linux)" using defaults_accepted [of Inr Linux] by (simp add: validate_iff)
  moreover have "server_ok ''9.9.9.9:53''"
    by (simp add: server_ok_def netip_evals)
  ultimately have "settings_ok sample_config"
    by (simp add: settings_ok_def sample_config_def sample_cfg_def day_def second_def)
  with sample_domain show ?thesis by (auto simp: validate_iff sample_config_def intro!: exI [of _ "[''a'']"])
qed

definition sample_disk :: world where
  "sample_disk = bare_world\<lparr>w_fs := [c_ca_key sample_config \<mapsto> \<lparr>n_type = Regular, n_data = sample_pem ''PRIVATE KEY'' ''K'', n_perm = 384,
       n_uid = 0, n_gid = 0, n_ino = 5, n_xattrs = Some []\<rparr>,
     c_ca_cert sample_config \<mapsto> \<lparr>n_type = Regular, n_data = sample_pem ''CERTIFICATE'' ''CA'', n_perm = 420,
       n_uid = 0, n_gid = 0, n_ino = 6, n_xattrs = Some []\<rparr>]\<rparr>"

definition sample_authority :: authority where
  "sample_authority = \<lparr>a_cert = sample_ca, a_key = sample_key, a_cache = [], a_max = 4096\<rparr>"

definition sample_server :: server where
  "sample_server = \<lparr>sv_snapshot = \<lparr>sn_config = sample_config, sn_generation = 1\<rparr>, sv_authorities = (\<lambda>_. sample_authority),
     sv_resolver = sample_resolver [], sv_level = 0, sv_version = ''1'', sv_path = ''c'',
     sv_connections = [], sv_failures = [], sv_started = 1000 * second, sv_total = 0, sv_next = 0, sv_sent = 0, sv_received = 0, sv_stopping = False\<rparr>"

definition sample_start :: "nat daemon" where
  "sample_start = \<lparr>d_server = sample_server, d_handlers = [], d_history = [\<lparr>sn_config = sample_config, sn_generation = 1\<rparr>],
     d_clock = 1000 * second, d_sent = 0, d_received = 0\<rparr>"

lemma sample_load: "ca_load sample_crypto (1000 * second) (c_ca_cert sample_config) (c_ca_key sample_config) sample_disk = (Inr sample_authority, sample_disk)"
proof -
  let ?kn = "\<lparr>n_type = Regular, n_data = sample_pem ''PRIVATE KEY'' ''K'', n_perm = 384, n_uid = 0, n_gid = 0, n_ino = 5, n_xattrs = Some []\<rparr>"
  let ?cn = "\<lparr>n_type = Regular, n_data = sample_pem ''CERTIFICATE'' ''CA'', n_perm = 420, n_uid = 0, n_gid = 0, n_ino = 6, n_xattrs = Some []\<rparr>"
  have ne: "c_ca_key sample_config \<noteq> c_ca_cert sample_config"
    by (simp add: sample_config_def defaults_def Let_def) (subst path_join_inject, simp_all add: plain_name_def)
  have ad: "adopt_pair sample_crypto (1000 * second) [''CA''] (Ecdsa sample_key) = Inr sample_authority"
    by (simp add: adopt_pair_def sample_crypto_def sample_ca_def ca_template_def KeyUsageCertSign_def KeyUsageCRLSign_def
        valid_at_iff minute_def second_def hour_def sample_authority_def)
  have kp: "cr_key_pair sample_crypto (n_data ?cn) (n_data ?kn) = Inr ([''CA''], Ecdsa sample_key)"
    by (simp add: sample_crypto_def sample_unpem_pem)
  show ?thesis
    by (rule load_run [OF _ _ _ _ _ _ kp ad]) (use ne in \<open>simp_all add: quiet_def sample_disk_def mask_others_def\<close>)
qed

definition sample_refresh :: refresh_env where
  "sample_refresh = \<lparr>re_now = 0, re_later = 0, re_found = (\<lparr>d_source = [], d_routing = [], d_groups = []\<rparr>, None)\<rparr>"

lemma sample_new_resolver: "new_resolver 0 0 found sample_cfg = sample_resolver []"
  by (simp add: new_resolver_def refresh_def refresh_skips_def refresh_finish_def obtain_discovery_def fresh_resolver_def zero_state_def zero_cfg_def
      sample_cfg_def sample_resolver_def Let_def)

lemma sample_init: "daemon_init sample_crypto Inr sample_start"
proof -
  have "new_server sample_crypto (1000 * second) sample_refresh sample_config ''c'' ''1'' 0 sample_disk = (Inr sample_server, sample_disk)"
    using sample_load by (simp add: new_server_def bind_io_def ret_def sample_server_def sample_refresh_def sample_config_def sample_new_resolver)
  with sample_crypto_ok sample_config_valid show ?thesis
    unfolding daemon_init_def sample_start_def by (auto simp: sample_server_def) blast
qed

lemma sample_client: "client_allowed \<lparr>sn_config = sample_config, sn_generation = 1\<rparr> ''127.0.0.1:5000''"
proof -
  have "parse_addr_port ''127.0.0.1:5000'' = Some (V4 0x7F000001, 5000)"
    unfolding parse_addr_port_def using parse_addr_v4_string [of "0x7F000001"]
    by (simp add: cut_last_def local_address [symmetric] parse_uint_def dec_val_def digit_val_def code_def is_digit_def)
  then show ?thesis
    by (simp add: client_allowed_def allows_client_def sample_config_def defaults_def Let_def local_prefix)
qed

text \<open>Accepted, named, certified, dialled and relaying, with seven bytes sent.\<close>

abbreviation sample_reach :: "nat daemon \<Rightarrow> bool" where
  "sample_reach \<equiv> reach (daemon_init sample_crypto Inr) (daemon_step sample_crypto Inr)"

abbreviation sample_snap :: snapshot where
  "sample_snap \<equiv> \<lparr>sn_config = sample_config, sn_generation = 1\<rparr>"

definition sample_handler :: "nat phase \<Rightarrow> nat handler" where
  "sample_handler p = \<lparr>h_snap = sample_snap, h_remote = ''127.0.0.1:5000'', h_phase = p\<rparr>"

definition sample_cert :: tls_cert where
  "sample_cert = \<lparr>t_chain = [''LEAF''], t_key = Ecdsa sample_key, t_leaf = sample_leaf\<rparr>"

lemma sample_certificate: "\<exists>a. certificate sample_crypto sample_issue ''a'' sample_authority = (Inr sample_cert, a)"
proof -
  have "issue_leaf sample_crypto sample_issue ''a'' sample_authority = Inr sample_cert"
    by (simp add: issue_leaf_def sample_issue_def sample_crypto_def public_key_def sample_key_def sample_authority_def sample_cert_def)
      (simp add: ca_template_def leaf_template_def zero_cert_def)
  moreover have "valid_at (dr_now sample_issue) sample_ca"
    by (simp add: sample_issue_def sample_ca_def ca_template_def valid_at_iff minute_def second_def hour_def)
  ultimately show ?thesis by (simp add: certificate_def sample_authority_def)
qed

lemma sample_dial: "\<exists>u t r. dial_upstream sample_ask sample_net sample_config ''a'' [''http/1.1''] (sample_resolver []) = (Inr u, t, r)
    \<and> cs_protocol (us_state u) = ''http/1.1''"
proof -
  have ask: "\<exists>r. sample_ask ''a'' (sample_resolver []) = (Inr [V4 0x09090909], r)"
    by (simp add: lookup_retry_def lookup_with_def sample_attempt_def lookup_once_def sample_lookup sample_flight_query)
      (simp add: sample_query_def)
  have v: "v4_string 0x09090909 = ''9.9.9.9''"
    by (simp add: v4_string_def v4_bytes_def dotted_def dec.simps digit_char_def char_evals)
  have p: "check_destination (ne_ifaddrs sample_net 0) (V4 0x09090909) (c_hosts_address sample_config) = None"
    by (simp add: check_destination_def sample_net_def local_addresses_def v sample_config_def defaults_def Let_def)
  have "handshake_upstream sample_net 0 sample_config ''a'' [''http/1.1''] = handshake_upstream sample_net 0 (defaults Linux) ''a'' [''http/1.1'']"
    by (simp add: handshake_upstream_def sample_config_def)
  moreover have "ne_dial sample_net n a = Inr ()" for n a by (simp add: sample_net_def)
  ultimately show ?thesis using ask by (auto simp: dial_upstream_def p sample_handshake Let_def)
qed

lemma sample_accept:
  "\<exists>s. accept_conn sample_snap (1000 * second) ''127.0.0.1:5000'' sample_server = (Some 1, s)
     \<and> sv_authorities s = (\<lambda>_. sample_authority) \<and> sv_resolver s = sample_resolver []"
  using sample_client by (simp add: accept_conn_def sample_server_def Let_def sample_config_def defaults_def)

lemma sample_step: "sample_reach d \<Longrightarrow> daemon_step sample_crypto Inr d d' \<Longrightarrow> sample_reach d'"
  by (rule reach_step)

lemma set_at_single [simp]: "set_at i v [(i, x)] = [(i, v)]"
  by (simp add: set_at_def)

lemma sample_relaying:
  "\<exists>d u st. sample_reach d \<and> d_handlers d = [(1, sample_handler (Relaying ''a'' [''http/1.1''] sample_cert u st))] \<and> d_sent d = 7"
proof -
  have start: "sample_reach sample_start" using sample_init by (rule reach_init)
  from sample_accept obtain s1 where acc: "accept_conn sample_snap (1000 * second) ''127.0.0.1:5000'' (d_server sample_start) = (Some 1, s1)"
    and s1: "sv_authorities s1 = (\<lambda>_. sample_authority)" "sv_resolver s1 = sample_resolver []" by (auto simp: sample_start_def)
  have "sample_snap \<in> set (d_history sample_start)" by (simp add: sample_start_def)
  note r1 = sample_step [OF start step_accept [OF this acc]]
  define d1 where "d1 = sample_start\<lparr>d_server := s1, d_handlers := [(1, sample_handler Greeting)]\<rparr>"
  have r1: "sample_reach d1" using r1 by (simp add: d1_def sample_handler_def sample_start_def)
  have h1: "map_of (d_handlers d1) 1 = Some (sample_handler Greeting)" by (simp add: d1_def)
  have "hello_check Inr sample_config ''a'' = Inr ''a''"
    by (simp add: hello_check_def sample_domain sample_config_def allows_domain_def)
  then have "hello_check Inr (sn_config (h_snap (sample_handler Greeting))) ''a'' = Inr ''a''" by (simp add: sample_handler_def)
  note r2 = sample_step [OF r1 step_hello [OF h1 _ this, where offered = "[''http/1.1'']"]]
  define d2 where "d2 = d1\<lparr>d_server := set_sni 1 ''a'' s1, d_handlers := [(1, sample_handler (Named ''a'' [''http/1.1'']))]\<rparr>"
  have r2: "sample_reach d2" using r2 by (simp add: d2_def d1_def go_to_def sample_handler_def)
  have h2: "map_of (d_handlers d2) 1 = Some (sample_handler (Named ''a'' [''http/1.1'']))" by (simp add: d2_def)
  from sample_certificate obtain a where c: "certificate sample_crypto sample_issue ''a'' sample_authority = (Inr sample_cert, a)" by blast
  define s3 where "s3 = (set_sni 1 ''a'' s1)\<lparr>sv_authorities := (\<lambda>_. sample_authority)(1 := a)\<rparr>"
  have "take_certificate sample_crypto sample_issue (h_snap (sample_handler (Named ''a'' [''http/1.1'']))) ''a'' (d_server d2) = (Inr sample_cert, s3)"
    using c by (simp add: take_certificate_def sample_handler_def d2_def s3_def s1 record_defs)
  note r3 = sample_step [OF r2 step_certificate [OF h2 _ _ this]]
  define d3 where "d3 = d2\<lparr>d_server := s3, d_clock := 2000 * second, d_handlers := [(1, sample_handler (Certified ''a'' [''http/1.1''] sample_cert))]\<rparr>"
  have r3: "sample_reach d3"
    using r3 by (simp add: d3_def d2_def d1_def sample_start_def go_to_def sample_handler_def sample_issue_def second_def)
  have h3: "map_of (d_handlers d3) 1 = Some (sample_handler (Certified ''a'' [''http/1.1''] sample_cert))" by (simp add: d3_def)
  from sample_dial obtain u t r where dl: "dial_upstream sample_ask sample_net sample_config ''a'' [''http/1.1''] (sample_resolver []) = (Inr u, t, r)"
    and u: "cs_protocol (us_state u) = ''http/1.1''" by blast
  have "dial_upstream sample_ask sample_net (sn_config (h_snap (sample_handler (Certified ''a'' [''http/1.1''] sample_cert)))) ''a'' [''http/1.1''] (sv_resolver (d_server d3)) = (Inr u, t, r)"
    using dl by (simp add: sample_handler_def d3_def s3_def s1 record_defs)
  note r4 = sample_step [OF r3 step_dial [OF h3 _ this]]
  define d4 where "d4 = d3\<lparr>d_server := set_upstream 1 u (s3\<lparr>sv_resolver := r\<rparr>), d_handlers := [(1, sample_handler (Answered ''a'' [''http/1.1''] sample_cert u))]\<rparr>"
  have r4: "sample_reach d4" using r4 by (simp add: d4_def d3_def go_to_def sample_handler_def)
  have h4: "map_of (d_handlers d4) 1 = Some (sample_handler (Answered ''a'' [''http/1.1''] sample_cert u))" by (simp add: d4_def)
  let ?st = "\<lparr>cs_version = 772, cs_protocol = ''http/1.1'', cs_settings = []\<rparr>"
  have "after_handshake (Inr ?st) (Some u) = Inr ?st" using u by (simp add: after_handshake_def)
  note r5 = sample_step [OF r4 step_shake [OF h4 _ this]]
  define d5 where "d5 = d4\<lparr>d_server := set_relaying 1 ?st (d_server d4), d_handlers := [(1, sample_handler (Relaying ''a'' [''http/1.1''] sample_cert u ?st))]\<rparr>"
  have r5: "sample_reach d5" using r5 by (simp add: d5_def d4_def go_to_def sample_handler_def)
  have h5: "map_of (d_handlers d5) 1 = Some (sample_handler (Relaying ''a'' [''http/1.1''] sample_cert u ?st))" by (simp add: d5_def)
  have "h_phase (sample_handler (Relaying ''a'' [''http/1.1''] sample_cert u ?st)) = Relaying ''a'' [''http/1.1''] sample_cert u ?st"
    by (simp add: sample_handler_def)
  note r6 = sample_step [OF r5 step_progress [OF h5 this, where m = 7 and n = 0]]
  moreover have "d_handlers d5 = [(1, sample_handler (Relaying ''a'' [''http/1.1''] sample_cert u ?st))]" "d_sent d5 = 0"
    by (simp_all add: d5_def d4_def d3_def d2_def d1_def sample_start_def)
  ultimately show ?thesis by (intro exI conjI) (assumption, simp_all)
qed

theorem relays_only_checked_witness:
  "\<exists>d r. sample_reach d \<and> r \<in> set (connection_list (d_server d)) \<and> cn_state r = ''relaying'' \<and> cn_sni r = ''a''"
proof -
  from sample_relaying obtain d u st where d: "sample_reach d" "d_handlers d = [(1, sample_handler (Relaying ''a'' [''http/1.1''] sample_cert u st))]"
    by blast
  then have "map_of (d_handlers d) 1 = Some (sample_handler (Relaying ''a'' [''http/1.1''] sample_cert u st))" by simp
  from relays_only_checked [OF d(1) this] d(1) show ?thesis by (auto simp: sample_handler_def)
qed

theorem status_exact_witness:
  "\<exists>d. sample_reach d \<and> ss_sent (server_status (d_server d)) = 7 \<and> ss_active (server_status (d_server d)) = 1"
proof -
  from sample_relaying obtain d u st where d: "sample_reach d" "d_handlers d = [(1, sample_handler (Relaying ''a'' [''http/1.1''] sample_cert u st))]"
    "d_sent d = 7" by blast
  from status_exact [OF d(1)] d show ?thesis by auto
qed


theorem reload_safe_witness:
  "\<exists>s w. reload sample_crypto (1000 * second) sample_refresh (Inr sample_config) (d_server sample_start) sample_disk = ((Inr (), s), w)
     \<and> sn_generation (sv_snapshot s) = 2"
proof -
  have start: "sample_reach sample_start" using sample_init by (rule reach_init)
  have "\<not> restart_required (sn_config (sv_snapshot (d_server sample_start))) sample_config"
    by (simp add: restart_required_def sample_start_def sample_server_def)
  then obtain s w where run: "reload sample_crypto (1000 * second) sample_refresh (Inr sample_config) (d_server sample_start) sample_disk = ((Inr (), s), w)"
    using sample_load by (simp add: reload_def Let_def)
  from reload_safe [OF start run] run show ?thesis by (auto simp: sample_start_def sample_server_def)
qed

theorem stopping_drains_witness:
  "\<exists>d. sample_reach d \<and> sv_stopping (d_server d) \<and> d_handlers d \<noteq> []
     \<and> (\<exists>d'. (daemon_step sample_crypto Inr)\<^sup>*\<^sup>* d d' \<and> sv_connections (d_server d') = [])"
proof -
  from sample_relaying obtain d u st where d: "sample_reach d" "d_handlers d = [(1, sample_handler (Relaying ''a'' [''http/1.1''] sample_cert u st))]"
    by blast
  let ?d = "d\<lparr>d_server := stop (d_server d)\<rparr>"
  have r: "sample_reach ?d" by (rule sample_step [OF d(1) step_stop])
  have s: "sv_stopping (d_server ?d)" by (simp add: stop_def)
  from stopping_drains [OF r s] r s d(2) show ?thesis by (intro exI [of _ ?d]) simp
qed

end
