(* ===== verification/Durations.thy ===== *)
theory Durations
  imports GoStrings
begin

text \<open>
  \<^verbatim>\<open>time.ParseDuration\<close>: a sign and numbers with units, summed up in nanoseconds.  The sum is
  kept in 64 bits as the library does; a fraction is scaled in \<^verbatim>\<open>float64\<close>, whose rounding to 53
  bits is written out (without a limit for the exponent, which no text of a configuration reaches).
\<close>

section \<open>Floating point\<close>

text \<open>The number \<open>m * 2 ^ e\<close>.\<close>

type_synonym float_num = "nat \<times> int"

fun bits :: "nat \<Rightarrow> nat" where
  "bits n = (if n = 0 then 0 else Suc (bits (n div 2)))"

declare bits.simps [simp del]

definition round_even :: "nat \<Rightarrow> nat \<Rightarrow> nat" where
  "round_even n d =
     (let q = n div d; r = n mod d in if 2 * r < d \<or> (2 * r = d \<and> even q) then q else Suc q)"

text \<open>The quotient rounded to 53 bits, ties to even.\<close>

definition fl_quot :: "nat \<Rightarrow> nat \<Rightarrow> float_num" where
  "fl_quot n d =
     (if n = 0 then (0, 0)
      else
        let scaled = (\<lambda>e. if e \<ge> 0 then (n, d * 2 ^ nat e) else (n * 2 ^ nat (- e), d));
            e0 = int (bits n) - int (bits d) - 53;
            e = (if fst (scaled e0) div snd (scaled e0) \<ge> 2 ^ 53 then e0 + 1 else e0)
        in (round_even (fst (scaled e)) (snd (scaled e)), e))"

definition fl_of :: "nat \<Rightarrow> float_num" where
  "fl_of n = fl_quot n 1"

definition fl_mul :: "float_num \<Rightarrow> float_num \<Rightarrow> float_num" where
  "fl_mul a b = (let (m, e) = fl_of (fst a * fst b) in (m, e + snd a + snd b))"

definition fl_div :: "float_num \<Rightarrow> float_num \<Rightarrow> float_num" where
  "fl_div a b = (let (m, e) = fl_quot (fst a) (fst b) in (m, e + snd a - snd b))"

definition fl_trunc :: "float_num \<Rightarrow> nat" where
  "fl_trunc a = (if snd a \<ge> 0 then fst a * 2 ^ nat (snd a) else fst a div 2 ^ nat (- snd a))"

section \<open>Parsing\<close>

definition units :: "(string \<times> nat) list" where
  "units = [(''ns'', 1), (''us'', 1000), ([CHR 0xC2, CHR 0xB5, CHR ''s''], 1000), ([CHR 0xCE, CHR 0xBC, CHR ''s''], 1000),
     (''ms'', 1000000), (''s'', 1000000000), (''m'', 60000000000), (''h'', 3600000000000)]"

text \<open>\<^verbatim>\<open>leadingFraction\<close>: digits are counted until the number would leave 63 bits.\<close>

fun fraction :: "string \<Rightarrow> nat \<Rightarrow> float_num \<Rightarrow> nat \<times> float_num" where
  "fraction [] x scale = (x, scale)"
| "fraction (c # cs) x scale =
     (if x > (2 ^ 63 - 1) div 10 \<or> x * 10 + digit_val c > 2 ^ 63 then (x, scale)
      else fraction cs (x * 10 + digit_val c) (fl_mul scale (fl_of 10)))"

definition bad_duration :: "string \<Rightarrow> go_error" where
  "bad_duration orig = New (''time: invalid duration '' @ quote orig)"

definition unit_char :: "char \<Rightarrow> bool" where
  "unit_char c = (c \<noteq> CHR ''.'' \<and> \<not> is_digit c)"

text \<open>One number with its unit: its nanoseconds and the rest of the text.\<close>

definition duration_part :: "string \<Rightarrow> string \<Rightarrow> (nat \<times> string) res" where
  "duration_part orig s =
     (let i = takeWhile is_digit s;
          s1 = drop (length i) s;
          dot = (s1 \<noteq> [] \<and> hd s1 = CHR ''.'');
          f = (if dot then takeWhile is_digit (tl s1) else []);
          s2 = (if dot then drop (length f) (tl s1) else s1);
          u = takeWhile unit_char s2
      in if dec_val i > 2 ^ 63 \<or> (i = [] \<and> f = []) then Inl (bad_duration orig)
         else if u = [] then Inl (New (''time: missing unit in duration '' @ quote orig))
         else
           case map_of units u of
             None \<Rightarrow> Inl (New (''time: unknown unit '' @ quote u @ '' in duration '' @ quote orig))
           | Some unit \<Rightarrow>
               if dec_val i > 2 ^ 63 div unit then Inl (bad_duration orig)
               else
                 let (x, scale) = fraction f 0 (fl_of 1);
                     v = dec_val i * unit + (if x > 0 then fl_trunc (fl_mul (fl_of x) (fl_div (fl_of unit) scale)) else 0)
                 in if v > 2 ^ 63 then Inl (bad_duration orig) else Inr (v, drop (length u) s2))"

lemma duration_part_shorter:
  assumes "duration_part orig s = Inr (v, r)"
  shows "length r < length s"
proof -
  define i where "i = takeWhile is_digit s"
  define s1 where "s1 = drop (length i) s"
  define dot where "dot = (s1 \<noteq> [] \<and> hd s1 = CHR ''.'')"
  define f where "f = (if dot then takeWhile is_digit (tl s1) else [])"
  define s2 where "s2 = (if dot then drop (length f) (tl s1) else s1)"
  define u where "u = takeWhile unit_char s2"
  have u: "u \<noteq> [] \<and> r = drop (length u) s2"
    using assms unfolding duration_part_def Let_def
    unfolding i_def [symmetric] unfolding s1_def [symmetric] unfolding dot_def [symmetric]
    unfolding f_def [symmetric] unfolding s2_def [symmetric] unfolding u_def [symmetric]
    by (simp split: if_split_asm option.split_asm prod.split_asm)
  have "length u \<le> length s2" unfolding u_def by (rule length_takeWhile_le)
  moreover have "length s2 \<le> length s1" by (simp add: s2_def)
  moreover have "length s1 \<le> length s" by (simp add: s1_def)
  moreover have "0 < length u" "length r = length s2 - length u" using u by simp_all
  ultimately show ?thesis by linarith
qed

function duration_sum :: "string \<Rightarrow> string \<Rightarrow> nat \<Rightarrow> nat res" where
  "duration_sum orig s d =
     (if s = [] then Inr d
      else
        case duration_part orig s of
          Inl e \<Rightarrow> Inl e
        | Inr (v, r) \<Rightarrow>
            let d' = (d + v) mod 2 ^ 64 in if d' > 2 ^ 63 then Inl (bad_duration orig) else duration_sum orig r d')"
  by pat_completeness auto
termination
  by (relation "measure (\<lambda>(orig, s, d). length s)") (auto dest: duration_part_shorter)

declare duration_sum.simps [simp del]

definition parse_duration :: "string \<Rightarrow> int res" where
  "parse_duration orig =
     (let neg = (orig \<noteq> [] \<and> hd orig = CHR ''-'');
          s = (if orig \<noteq> [] \<and> (hd orig = CHR ''-'' \<or> hd orig = CHR ''+'') then tl orig else orig)
      in if s = ''0'' then Inr 0
         else if s = [] then Inl (bad_duration orig)
         else
           case duration_sum orig s 0 of
             Inl e \<Rightarrow> Inl e
           | Inr d \<Rightarrow>
               if neg then Inr (- int d) else if d > 2 ^ 63 - 1 then Inl (bad_duration orig) else Inr (int d))"

end
