(* ===== verification/Json.thy ===== *)
theory Json
  imports GoStrings
begin

text \<open>
  What the program uses of Go's \<^verbatim>\<open>encoding/json\<close>: the grammar of the texts, string
  literals with their escapes and the treatment of bytes that are not UTF-8, the token stream of a
  \<^verbatim>\<open>Decoder\<close>, the tree \<^verbatim>\<open>Unmarshal\<close> sees, and the decoding of trees into
  structures.  A number keeps its literal.  The grammar is given with fuel; \<open>parse_enough\<close> shows
  that the length of the text is always enough.
\<close>

section \<open>Values\<close>

datatype json =
    Null
  | Bool bool
  | Num string
  | Str string
  | Arr "json list"
  | Obj "(string \<times> json) list"

section \<open>Lexing\<close>

definition json_space :: "char \<Rightarrow> bool" where
  "json_space c = (c = CHR '' '' \<or> code c = 9 \<or> code c = 10 \<or> code c = 13)"

definition skip_ws :: "string \<Rightarrow> string" where
  "skip_ws s = dropWhile json_space s"

text \<open>The valid UTF-8 sequence of two to four bytes a text begins with: its length, or 0.\<close>

definition byte_in :: "nat \<Rightarrow> nat \<Rightarrow> string \<Rightarrow> nat \<Rightarrow> bool" where
  "byte_in a b s i = (i < length s \<and> a \<le> code (s ! i) \<and> code (s ! i) \<le> b)"

definition utf8_run :: "string \<Rightarrow> nat" where
  "utf8_run s =
     (if byte_in 0xC2 0xDF s 0 \<and> byte_in 0x80 0xBF s 1 then 2
      else if byte_in 0x80 0xBF s 2 \<and>
        ((byte_in 0xE0 0xE0 s 0 \<and> byte_in 0xA0 0xBF s 1) \<or> (byte_in 0xE1 0xEC s 0 \<and> byte_in 0x80 0xBF s 1)
         \<or> (byte_in 0xED 0xED s 0 \<and> byte_in 0x80 0x9F s 1) \<or> (byte_in 0xEE 0xEF s 0 \<and> byte_in 0x80 0xBF s 1)) then 3
      else if byte_in 0x80 0xBF s 2 \<and> byte_in 0x80 0xBF s 3 \<and>
        ((byte_in 0xF0 0xF0 s 0 \<and> byte_in 0x90 0xBF s 1) \<or> (byte_in 0xF1 0xF3 s 0 \<and> byte_in 0x80 0xBF s 1)
         \<or> (byte_in 0xF4 0xF4 s 0 \<and> byte_in 0x80 0x8F s 1)) then 4
      else 0)"

text \<open>\<^verbatim>\<open>utf8.AppendRune\<close>; surrogates and numbers out of range become U+FFFD.\<close>

definition utf8_encode :: "nat \<Rightarrow> string" where
  "utf8_encode n =
     (if n < 0x80 then [char_of n]
      else if n < 0x800 then [char_of (0xC0 + n div 64), char_of (0x80 + n mod 64)]
      else if (0xD800 \<le> n \<and> n < 0xE000) \<or> n > 0x10FFFF then [char_of (0xEF::nat), char_of (0xBF::nat), char_of (0xBD::nat)]
      else if n < 0x10000 then [char_of (0xE0 + n div 4096), char_of (0x80 + n div 64 mod 64), char_of (0x80 + n mod 64)]
      else [char_of (0xF0 + n div 262144), char_of (0x80 + n div 4096 mod 64), char_of (0x80 + n div 64 mod 64),
            char_of (0x80 + n mod 64)])"

definition hex_val :: "char \<Rightarrow> nat option" where
  "hex_val c =
     (if is_digit c then Some (digit_val c)
      else if 97 \<le> code c \<and> code c \<le> 102 then Some (code c - 87)
      else if 65 \<le> code c \<and> code c \<le> 70 then Some (code c - 55) else None)"

text \<open>\<^verbatim>\<open>getu4\<close>: the number of four hexadecimal digits.\<close>

definition hex4 :: "string \<Rightarrow> nat option" where
  "hex4 s =
     (case map hex_val (take 4 s) of
       [Some a, Some b, Some c, Some d] \<Rightarrow> Some (((a * 16 + b) * 16 + c) * 16 + d)
     | _ \<Rightarrow> None)"

definition surrogate_pair :: "nat \<Rightarrow> nat \<Rightarrow> bool" where
  "surrogate_pair a b = (0xD800 \<le> a \<and> a < 0xDC00 \<and> 0xDC00 \<le> b \<and> b < 0xE000)"

definition escapes :: "(char \<times> char) list" where
  "escapes = [(CHR 0x22, CHR 0x22), (CHR 0x5C, CHR 0x5C), (CHR ''/'', CHR ''/''), (CHR ''b'', CHR 0x08), (CHR ''f'', CHR 0x0C),
     (CHR ''n'', CHR 0x0A), (CHR ''r'', CHR 0x0D), (CHR ''t'', CHR 0x09)]"

text \<open>
  A string literal from behind its opening quote: the value and what follows the closing quote.
  A control character, an unknown escape or a missing quote is an error.
\<close>

function lex_string :: "string \<Rightarrow> (string \<times> string) option" where
  "lex_string [] = None"
| "lex_string (c # cs) =
     (if c = CHR 0x22 then Some ([], cs)
      else if code c < 32 then None
      else if c = CHR 0x5C then
        (case cs of
          [] \<Rightarrow> None
        | e # r \<Rightarrow>
            if e = CHR ''u'' then
              (case hex4 r of
                None \<Rightarrow> None
              | Some a \<Rightarrow>
                  (case (if take 2 (drop 4 r) = [CHR 0x5C, CHR ''u''] then hex4 (drop 6 r) else None) of
                    Some b \<Rightarrow>
                      if surrogate_pair a b
                      then map_option (\<lambda>(s, t). (utf8_encode (0x10000 + (a - 0xD800) * 1024 + (b - 0xDC00)) @ s, t)) (lex_string (drop 10 r))
                      else map_option (\<lambda>(s, t). (utf8_encode a @ s, t)) (lex_string (drop 4 r))
                  | None \<Rightarrow> map_option (\<lambda>(s, t). (utf8_encode a @ s, t)) (lex_string (drop 4 r))))
            else
              (case map_of escapes e of
                None \<Rightarrow> None
              | Some x \<Rightarrow> map_option (\<lambda>(s, t). (x # s, t)) (lex_string r)))
      else if code c < 128 then map_option (\<lambda>(s, t). (c # s, t)) (lex_string cs)
      else
        let n = utf8_run (c # cs) in
        if n = 0 then map_option (\<lambda>(s, t). (utf8_encode 0xFFFD @ s, t)) (lex_string cs)
        else map_option (\<lambda>(s, t). (c # take (n - 1) cs @ s, t)) (lex_string (drop (n - 1) cs)))"
  by pat_completeness auto
termination
  by (relation "measure length") auto

text \<open>A number: the longest literal; a text that begins like one and goes wrong is an error.\<close>

definition lex_digits :: "string \<Rightarrow> (string \<times> string) option" where
  "lex_digits s = (let d = takeWhile is_digit s in if d = [] then None else Some (d, drop (length d) s))"

definition lex_int :: "string \<Rightarrow> (string \<times> string) option" where
  "lex_int s = (if s \<noteq> [] \<and> hd s = CHR ''0'' then Some (''0'', tl s) else lex_digits s)"

definition lex_fraction :: "string \<Rightarrow> (string \<times> string) option" where
  "lex_fraction s =
     (if s \<noteq> [] \<and> hd s = CHR ''.'' then map_option (\<lambda>(d, r). (CHR ''.'' # d, r)) (lex_digits (tl s)) else Some ([], s))"

definition lex_exponent :: "string \<Rightarrow> (string \<times> string) option" where
  "lex_exponent s =
     (if s \<noteq> [] \<and> (hd s = CHR ''e'' \<or> hd s = CHR ''E'') then
        (if tl s \<noteq> [] \<and> (hd (tl s) = CHR ''+'' \<or> hd (tl s) = CHR ''-'')
         then map_option (\<lambda>(d, r). (hd s # hd (tl s) # d, r)) (lex_digits (tl (tl s)))
         else map_option (\<lambda>(d, r). (hd s # d, r)) (lex_digits (tl s)))
      else Some ([], s))"

definition lex_number :: "string \<Rightarrow> (string \<times> string) option" where
  "lex_number s =
     (let (sign, s0) = (if s \<noteq> [] \<and> hd s = CHR ''-'' then (''-'', tl s) else ([], s)) in
      case lex_int s0 of
        None \<Rightarrow> None
      | Some (i, s1) \<Rightarrow>
          (case lex_fraction s1 of
            None \<Rightarrow> None
          | Some (f, s2) \<Rightarrow>
              (case lex_exponent s2 of None \<Rightarrow> None | Some (e, s3) \<Rightarrow> Some (sign @ i @ f @ e, s3))))"

definition lex_word :: "string \<Rightarrow> json \<Rightarrow> string \<Rightarrow> (json \<times> string) option" where
  "lex_word word v s = (if take (length word) s = word then Some (v, drop (length word) s) else None)"

definition lex_scalar :: "string \<Rightarrow> (json \<times> string) option" where
  "lex_scalar s =
     (case s of
       [] \<Rightarrow> None
     | c # r \<Rightarrow>
         if c = CHR 0x22 then map_option (\<lambda>(x, t). (Str x, t)) (lex_string r)
         else if c = CHR ''t'' then lex_word ''true'' (Bool True) s
         else if c = CHR ''f'' then lex_word ''false'' (Bool False) s
         else if c = CHR ''n'' then lex_word ''null'' Null s
         else map_option (\<lambda>(x, t). (Num x, t)) (lex_number s))"

text \<open>
  The value of a number literal is \<open>m * 10 ^ e\<close>; \<^verbatim>\<open>float64\<close> has no value for it when it
  rounds to \<open>2 ^ 1024\<close> or more.
\<close>

definition literal_parts :: "string \<Rightarrow> nat \<times> int" where
  "literal_parts s =
     (let ds = (if s \<noteq> [] \<and> hd s = CHR ''-'' then tl s else s);
          mant = takeWhile (\<lambda>c. c \<noteq> CHR ''e'' \<and> c \<noteq> CHR ''E'') ds;
          ex = drop (Suc (length mant)) ds;
          (i, f, _) = cut mant (CHR ''.'');
          sgn = (if ex \<noteq> [] \<and> hd ex = CHR ''-'' then - 1 else 1);
          ed = (if ex \<noteq> [] \<and> (hd ex = CHR ''-'' \<or> hd ex = CHR ''+'') then tl ex else ex)
      in (dec_val (i @ f), sgn * int (dec_val ed) - int (length f)))"

definition float_range :: "string \<Rightarrow> bool" where
  "float_range s =
     (let (m, e) = literal_parts s; limit = 2 ^ 1024 - 2 ^ 970 in
      if e \<ge> 0 then int m * 10 ^ nat e < limit else int m < limit * 10 ^ nat (- e))"

section \<open>Grammar\<close>

fun parse_value :: "nat \<Rightarrow> string \<Rightarrow> (json \<times> string) option"
  and parse_elems :: "nat \<Rightarrow> string \<Rightarrow> (json list \<times> string) option"
  and parse_members :: "nat \<Rightarrow> string \<Rightarrow> ((string \<times> json) list \<times> string) option" where
  "parse_value 0 s = None"
| "parse_value (Suc n) s =
     (case skip_ws s of
       [] \<Rightarrow> None
     | c # r \<Rightarrow>
         if c = CHR ''['' then
           (case skip_ws r of
             [] \<Rightarrow> None
           | x # r' \<Rightarrow> if x = CHR '']'' then Some (Arr [], r') else map_option (\<lambda>(vs, t). (Arr vs, t)) (parse_elems n r))
         else if c = CHR ''{'' then
           (case skip_ws r of
             [] \<Rightarrow> None
           | x # r' \<Rightarrow> if x = CHR ''}'' then Some (Obj [], r') else map_option (\<lambda>(ms, t). (Obj ms, t)) (parse_members n r))
         else lex_scalar (c # r))"
| "parse_elems 0 s = None"
| "parse_elems (Suc n) s =
     (case parse_value n s of
       None \<Rightarrow> None
     | Some (v, r) \<Rightarrow>
         (case skip_ws r of
           [] \<Rightarrow> None
         | x # r' \<Rightarrow>
             if x = CHR '','' then map_option (\<lambda>(vs, t). (v # vs, t)) (parse_elems n r')
             else if x = CHR '']'' then Some ([v], r') else None))"
| "parse_members 0 s = None"
| "parse_members (Suc n) s =
     (case skip_ws s of
       [] \<Rightarrow> None
     | q # r \<Rightarrow>
         if q \<noteq> CHR 0x22 then None
         else
           (case lex_string r of
             None \<Rightarrow> None
           | Some (k, r1) \<Rightarrow>
               (case skip_ws r1 of
                 [] \<Rightarrow> None
               | x # r2 \<Rightarrow>
                   if x \<noteq> CHR '':'' then None
                   else
                     (case parse_value n r2 of
                       None \<Rightarrow> None
                     | Some (v, r3) \<Rightarrow>
                         (case skip_ws r3 of
                           [] \<Rightarrow> None
                         | y # r4 \<Rightarrow>
                             if y = CHR '','' then map_option (\<lambda>(ms, t). ((k, v) # ms, t)) (parse_members n r4)
                             else if y = CHR ''}'' then Some ([(k, v)], r4) else None)))))"

text \<open>
  \<^verbatim>\<open>Unmarshal\<close> accepts one value and white space, nested at most 10000 deep.
\<close>

fun depth :: "json \<Rightarrow> nat" where
  "depth (Arr vs) = Suc (Max (set (0 # map depth vs)))"
| "depth (Obj ms) = Suc (Max (set (0 # map (\<lambda>m. depth (snd m)) ms)))"
| "depth v = 0"

definition json_text :: "string \<Rightarrow> json option" where
  "json_text s =
     (case parse_value (length s) s of
       None \<Rightarrow> None
     | Some (v, r) \<Rightarrow> if skip_ws r = [] then Some v else None)"

definition unmarshal :: "string \<Rightarrow> json res" where
  "unmarshal s =
     (case json_text s of
       None \<Rightarrow> Inl (New ''invalid JSON'')
     | Some v \<Rightarrow> if depth v > 10000 then Inl (New ''exceeded max depth'') else Inr v)"

section \<open>The token stream of a decoder\<close>

datatype tok_state = Top_value | Array_start | Array_value | Array_comma
  | Object_start | Object_key | Object_colon | Object_value | Object_comma

record decoder =
  dc_state :: tok_state
  dc_stack :: "tok_state list"
  dc_rest :: string

datatype token = Delim char | Val json

definition decoder_of :: "string \<Rightarrow> decoder" where
  "decoder_of s = \<lparr>dc_state = Top_value, dc_stack = [], dc_rest = s\<rparr>"

fun value_end :: "tok_state \<Rightarrow> tok_state" where
  "value_end Array_start = Array_comma"
| "value_end Array_value = Array_comma"
| "value_end Object_value = Object_comma"
| "value_end q = q"

definition value_allowed :: "tok_state \<Rightarrow> bool" where
  "value_allowed q = (q = Top_value \<or> q = Array_start \<or> q = Array_value \<or> q = Object_value)"

definition token_error :: "go_error" where
  "token_error = New ''invalid character''"

definition err_eof :: "go_error" where
  "err_eof = New ''EOF''"

text \<open>A scalar is decoded on its own; a number must be a \<^verbatim>\<open>float64\<close>.\<close>

definition scalar_token :: "string \<Rightarrow> (json \<times> string) res" where
  "scalar_token s =
     (case lex_scalar s of
       None \<Rightarrow> Inl token_error
     | Some (v, r) \<Rightarrow>
         (case v of
           Num lit \<Rightarrow> if float_range lit then Inr (v, r) else Inl (New (''cannot unmarshal number '' @ lit))
         | _ \<Rightarrow> Inr (v, r)))"

definition open_delim :: "char \<Rightarrow> tok_state \<Rightarrow> string \<Rightarrow> decoder \<Rightarrow> (token \<times> decoder) res" where
  "open_delim c q r d =
     (if \<not> value_allowed (dc_state d) then Inl token_error
      else Inr (Delim c, d\<lparr>dc_stack := dc_state d # dc_stack d, dc_state := q, dc_rest := r\<rparr>))"

definition close_delim :: "char \<Rightarrow> tok_state \<Rightarrow> tok_state \<Rightarrow> string \<Rightarrow> decoder \<Rightarrow> (token \<times> decoder) res" where
  "close_delim c q q' r d =
     (if dc_state d \<noteq> q \<and> dc_state d \<noteq> q' then Inl token_error
      else
        case dc_stack d of
          [] \<Rightarrow> Inl token_error
        | p # ps \<Rightarrow> Inr (Delim c, d\<lparr>dc_stack := ps, dc_state := value_end p, dc_rest := r\<rparr>))"

lemma skip_ws_length: "length (skip_ws s) \<le> length s"
  by (simp add: skip_ws_def length_dropWhile_le)

lemma skip_ws_Cons_length: "skip_ws s = c # r \<Longrightarrow> length r < length s"
  using skip_ws_length [of s] by auto

function next_token :: "decoder \<Rightarrow> (token \<times> decoder) res" where
  "next_token d =
     (case skip_ws (dc_rest d) of
       [] \<Rightarrow> Inl err_eof
     | c # r \<Rightarrow>
         if c = CHR ''['' then open_delim c Array_start r d
         else if c = CHR '']'' then close_delim c Array_start Array_comma r d
         else if c = CHR ''{'' then open_delim c Object_start r d
         else if c = CHR ''}'' then close_delim c Object_start Object_comma r d
         else if c = CHR '':'' then
           (if dc_state d \<noteq> Object_colon then Inl token_error else next_token (d\<lparr>dc_state := Object_value, dc_rest := r\<rparr>))
         else if c = CHR '','' then
           (if dc_state d = Array_comma then next_token (d\<lparr>dc_state := Array_value, dc_rest := r\<rparr>)
            else if dc_state d = Object_comma then next_token (d\<lparr>dc_state := Object_key, dc_rest := r\<rparr>)
            else Inl token_error)
         else if c = CHR 0x22 \<and> (dc_state d = Object_start \<or> dc_state d = Object_key) then
           (case scalar_token (c # r) of
             Inl e \<Rightarrow> Inl e
           | Inr (v, r') \<Rightarrow> Inr (Val v, d\<lparr>dc_state := Object_colon, dc_rest := r'\<rparr>))
         else if \<not> value_allowed (dc_state d) then Inl token_error
         else
           (case scalar_token (c # r) of
             Inl e \<Rightarrow> Inl e
           | Inr (v, r') \<Rightarrow> Inr (Val v, d\<lparr>dc_state := value_end (dc_state d), dc_rest := r'\<rparr>)))"
  by pat_completeness auto
termination
  by (relation "measure (\<lambda>d. length (dc_rest d))") (auto dest: skip_ws_Cons_length)

declare next_token.simps [simp del]

definition more :: "decoder \<Rightarrow> bool" where
  "more d = (case skip_ws (dc_rest d) of [] \<Rightarrow> False | c # r \<Rightarrow> c \<noteq> CHR '']'' \<and> c \<noteq> CHR ''}'')"



section \<open>The length of the text is enough fuel\<close>

lemma lex_string_shorter: "lex_string s = Some (x, r) \<Longrightarrow> length r < length s"
proof (induction s arbitrary: x rule: length_induct)
  case (1 s)
  have step: "length r < length s" if "lex_string s' = Some (y, r)" "length s' < length s" for y s'
    using that "1.IH" by force
  from "1.prems" show ?case
    by (cases s) (auto simp: Let_def split: if_splits option.splits list.splits dest!: step)
qed

lemma lex_digits_shorter: "lex_digits s = Some (x, r) \<Longrightarrow> length r < length s"
proof -
  assume *: "lex_digits s = Some (x, r)"
  then have "takeWhile is_digit s \<noteq> []" "r = drop (length (takeWhile is_digit s)) s"
    by (auto simp: lex_digits_def Let_def split: if_splits)
  then show ?thesis by (cases s) (auto split: if_splits)
qed

lemma lex_int_shorter: "lex_int s = Some (x, r) \<Longrightarrow> length r < length s"
  by (cases s) (auto simp: lex_int_def split: if_splits dest: lex_digits_shorter)

lemma lex_fraction_length: "lex_fraction s = Some (x, r) \<Longrightarrow> length r \<le> length s"
  by (cases s) (auto simp: lex_fraction_def split: if_splits dest!: lex_digits_shorter)

lemma lex_exponent_length: "lex_exponent s = Some (x, r) \<Longrightarrow> length r \<le> length s"
  by (cases s; cases "tl s") (auto simp: lex_exponent_def split: if_splits dest!: lex_digits_shorter)

lemma lex_number_shorter: "lex_number s = Some (x, r) \<Longrightarrow> length r < length s"
  by (cases s)
    (auto simp: lex_number_def Let_def split: if_splits option.splits prod.splits
      dest!: lex_int_shorter lex_fraction_length lex_exponent_length)

lemma lex_word_shorter: "lex_word w v s = Some (x, r) \<Longrightarrow> w \<noteq> [] \<Longrightarrow> length r < length s"
  by (cases s) (auto simp: lex_word_def split: if_splits)

lemma lex_scalar_cases:
  assumes "lex_scalar s = Some (v, r)"
  obtains (str) t x where "s = CHR 0x22 # t" "lex_string t = Some (x, r)" "v = Str x"
    | (word) w where "w \<noteq> []" "lex_word w v s = Some (v, r)" "v \<in> {Bool True, Bool False, Null}"
    | (num) x where "lex_number s = Some (x, r)" "v = Num x"
proof -
  from assms obtain c t where s: "s = c # t" by (auto simp: lex_scalar_def split: list.splits)
  note run = assms [unfolded lex_scalar_def s list.case]
  have w: "lex_word w u s = Some (v, r) \<Longrightarrow> lex_word w v s = Some (v, r) \<and> v = u" for w u
    by (auto simp: lex_word_def split: if_splits)
  show thesis
  proof (cases "c = CHR 0x22")
    case True
    with run str s show ?thesis by auto
  next
    case False
    consider (t) "c = CHR ''t''" | (f) "c = CHR ''f''" | (n) "c = CHR ''n''" | (o) "c \<noteq> CHR ''t''" "c \<noteq> CHR ''f''" "c \<noteq> CHR ''n''"
      by blast
    then show ?thesis
    proof cases
      case t
      with run have "lex_word ''true'' (Bool True) s = Some (v, r)" unfolding s by simp
      with w word [of "''true''"] show ?thesis by blast
    next
      case f
      with run have "lex_word ''false'' (Bool False) s = Some (v, r)" unfolding s by simp
      with w word [of "''false''"] show ?thesis by blast
    next
      case n
      with run have "lex_word ''null'' Null s = Some (v, r)" unfolding s by simp
      with w word [of "''null''"] show ?thesis by blast
    next
      case o
      with run False have "map_option (\<lambda>(x, t). (Num x, t)) (lex_number s) = Some (v, r)" unfolding s [symmetric] by simp
      with num show ?thesis by auto
    qed
  qed
qed

lemma lex_scalar_shorter: "lex_scalar s = Some (x, r) \<Longrightarrow> length r < length s"
proof (erule lex_scalar_cases)
  show "length r < length s" if "s = CHR 0x22 # t" "lex_string t = Some (y, r)" for t y
    using lex_string_shorter [OF that(2)] that(1) by simp
qed (rule lex_word_shorter lex_number_shorter, assumption+)+

text \<open>
  A parse consumes a nonempty prefix, and any fuel that covers the consumed part gives the same
  result.
\<close>

definition enough :: "(nat \<Rightarrow> string \<Rightarrow> ('v \<times> string) option) \<Rightarrow> string \<Rightarrow> 'v \<times> string \<Rightarrow> bool" where
  "enough f s x = (length (snd x) < length s \<and> (\<forall>m \<ge> length s - length (snd x). f m s = Some x))"

lemma enoughI:
  "length r < length s \<Longrightarrow> (\<And>m. length s - length r \<le> Suc m \<Longrightarrow> f (Suc m) s = Some (v, r)) \<Longrightarrow> enough f s (v, r)"
  unfolding enough_def
proof (intro conjI allI impI)
  fix m assume l: "length r < length s" and step: "\<And>m. length s - length r \<le> Suc m \<Longrightarrow> f (Suc m) s = Some (v, r)"
    and m: "length s - length (snd (v, r)) \<le> m"
  then obtain k where "m = Suc k" by (cases m) auto
  with step [of k] m show "f m s = Some (v, r)" by simp
qed simp

lemma enoughD: "enough f s (v, r) \<Longrightarrow> length r < length s" "enough f s (v, r) \<Longrightarrow> length s - length r \<le> m \<Longrightarrow> f m s = Some (v, r)"
  by (auto simp: enough_def)

lemma parse_enough_all:
  "(\<forall>s x. parse_value n s = Some x \<longrightarrow> enough parse_value s x)
   \<and> (\<forall>s x. parse_elems n s = Some x \<longrightarrow> enough parse_elems s x)
   \<and> (\<forall>s x. parse_members n s = Some x \<longrightarrow> enough parse_members s x)"
proof (induction n)
  case (Suc n)
  then have v: "\<And>s v r. parse_value n s = Some (v, r) \<Longrightarrow> enough parse_value s (v, r)"
    and e: "\<And>s v r. parse_elems n s = Some (v, r) \<Longrightarrow> enough parse_elems s (v, r)"
    and m: "\<And>s v r. parse_members n s = Some (v, r) \<Longrightarrow> enough parse_members s (v, r)"
    by auto
  have "enough parse_value s (v, r)" if run: "parse_value (Suc n) s = Some (v, r)" for s v r
  proof -
    from run obtain c t where c: "skip_ws s = c # t" by (auto split: list.splits)
    note l = skip_ws_Cons_length [OF c]
    consider (arr) vs where "c = CHR ''[''" "parse_elems n t = Some (vs, r)" "\<not> (\<exists>u. skip_ws t = CHR '']'' # u)" "v = Arr vs" "skip_ws t \<noteq> []"
      | (obj) ms where "c = CHR ''{''" "parse_members n t = Some (ms, r)" "\<not> (\<exists>u. skip_ws t = CHR ''}'' # u)" "v = Obj ms" "skip_ws t \<noteq> []"
      | (flat) "length r < length s" "\<And>k. parse_value (Suc k) s = Some (v, r)"
      using run c l by (auto split: list.splits if_splits dest!: lex_scalar_shorter skip_ws_Cons_length)
    then show ?thesis
    proof cases
      case arr
      with e [of t vs r] l show ?thesis
        by (intro enoughI) (auto simp: c enoughD(2) split: list.splits dest: enoughD(1))
    next
      case obj
      with m [of t ms r] l show ?thesis
        by (intro enoughI) (auto simp: c enoughD(2) split: list.splits dest: enoughD(1))
    next
      case flat
      then show ?thesis by (intro enoughI)
    qed
  qed
  moreover have "enough parse_elems s (vs, r)" if run: "parse_elems (Suc n) s = Some (vs, r)" for s vs r
  proof -
    from run obtain v r0 x t where p: "parse_value n s = Some (v, r0)" "skip_ws r0 = x # t"
      by (auto split: option.splits list.splits)
    note l = skip_ws_Cons_length [OF p(2)] and pv = v [OF p(1)]
    from enoughD(1) [OF pv] have l0: "length r0 < length s" .
    show ?thesis
    proof (cases "x = CHR '',''")
      case True
      with run p obtain ws where w: "parse_elems n t = Some (ws, r)" "vs = v # ws" by auto
      note lw = enoughD(1) [OF e [OF w(1)]]
      have "parse_elems (Suc k) s = Some (vs, r)" if "length s - length r \<le> Suc k" for k
      proof -
        have "parse_value k s = Some (v, r0)" "parse_elems k t = Some (ws, r)"
          using that lw l l0 by (intro enoughD(2) [OF pv] enoughD(2) [OF e [OF w(1)]]; linarith)+
        with True p(2) w(2) show ?thesis by simp
      qed
      with lw l l0 show ?thesis by (intro enoughI) auto
    next
      case False
      with run p have q: "r = t" "vs = [v]" "x = CHR '']''" by (auto split: if_splits)
      have "parse_elems (Suc k) s = Some (vs, r)" if "length s - length r \<le> Suc k" for k
      proof -
        have "parse_value k s = Some (v, r0)" using that l l0 unfolding q(1) by (intro enoughD(2) [OF pv]) linarith
        with False p(2) q show ?thesis by simp
      qed
      with l l0 q(1) show ?thesis by (intro enoughI) auto
    qed
  qed
  moreover have "enough parse_members s (ms, r)" if run: "parse_members (Suc n) s = Some (ms, r)" for s ms r
  proof -
    from run obtain t k r1 r2 v r3 y t4 where p: "skip_ws s = CHR 0x22 # t" "lex_string t = Some (k, r1)" "skip_ws r1 = CHR '':'' # r2"
      "parse_value n r2 = Some (v, r3)" "skip_ws r3 = y # t4"
      by (auto split: option.splits list.splits if_splits)
    note pv = v [OF p(4)]
    have l0: "length r3 < length r2" "length r2 < length r1" "length r1 < length t" "length t < length s" "length t4 < length r3"
      using enoughD(1) [OF pv] lex_string_shorter [OF p(2)] skip_ws_Cons_length p(1,3,5) by blast+
    show ?thesis
    proof (cases "y = CHR '',''")
      case True
      with run p obtain ws where w: "parse_members n t4 = Some (ws, r)" "ms = (k, v) # ws" by auto
      note lw = enoughD(1) [OF m [OF w(1)]]
      have "parse_members (Suc j) s = Some (ms, r)" if "length s - length r \<le> Suc j" for j
      proof -
        have "parse_value j r2 = Some (v, r3)" "parse_members j t4 = Some (ws, r)"
          using that lw l0 by (intro enoughD(2) [OF pv] enoughD(2) [OF m [OF w(1)]]; linarith)+
        with True p w(2) show ?thesis by simp
      qed
      with lw l0 show ?thesis by (intro enoughI) auto
    next
      case False
      with run p have q: "r = t4" "ms = [(k, v)]" "y = CHR ''}''" by (auto split: if_splits)
      have "parse_members (Suc j) s = Some (ms, r)" if "length s - length r \<le> Suc j" for j
      proof -
        have "parse_value j r2 = Some (v, r3)" using that l0 unfolding q(1) by (intro enoughD(2) [OF pv]) linarith
        with False p q show ?thesis by simp
      qed
      with l0 q(1) show ?thesis by (intro enoughI) auto
    qed
  qed
  ultimately show ?case by auto
qed auto

lemma parse_value_enough: "parse_value n s = Some (v, r) \<Longrightarrow> enough parse_value s (v, r)"
  using parse_enough_all [of n] by blast

lemma parse_value_fuel:
  "parse_value n s = Some (v, r) \<Longrightarrow> length s \<le> m \<Longrightarrow> parse_value m s = Some (v, r)"
  by (rule enoughD(2) [OF parse_value_enough]) auto



section \<open>Parsing without fuel\<close>

definition value_at :: "string \<Rightarrow> (json \<times> string) option" where
  "value_at s = parse_value (length s) s"

definition elems_at :: "string \<Rightarrow> (json list \<times> string) option" where
  "elems_at s = parse_elems (length s) s"

definition members_at :: "string \<Rightarrow> ((string \<times> json) list \<times> string) option" where
  "members_at s = parse_members (length s) s"

lemma parse_enough:
  "parse_value n s = Some x \<Longrightarrow> enough parse_value s x"
  "parse_elems n s = Some y \<Longrightarrow> enough parse_elems s y"
  "parse_members n s = Some z \<Longrightarrow> enough parse_members s z"
  using parse_enough_all [of n] by blast+

lemma enough_more: "enough f s x \<Longrightarrow> length s \<le> n \<Longrightarrow> f n s = Some x"
  unfolding enough_def by (meson diff_le_self le_trans)

lemma at_fuel:
  "parse_value n s = Some x \<Longrightarrow> value_at s = Some x"
  "parse_elems n s = Some y \<Longrightarrow> elems_at s = Some y"
  "parse_members n s = Some z \<Longrightarrow> members_at s = Some z"
  unfolding value_at_def elems_at_def members_at_def by (rule enough_more, erule parse_enough, rule order_refl)+

lemma fuel_at:
  "value_at s = Some (v, r) \<Longrightarrow> length s - length r \<le> n \<Longrightarrow> parse_value n s = Some (v, r)"
  "elems_at s = Some (vs, r) \<Longrightarrow> length s - length r \<le> n \<Longrightarrow> parse_elems n s = Some (vs, r)"
  "members_at s = Some (ms, r) \<Longrightarrow> length s - length r \<le> n \<Longrightarrow> parse_members n s = Some (ms, r)"
  unfolding value_at_def elems_at_def members_at_def by (rule enoughD(2), erule parse_enough, assumption)+

lemma at_shorter:
  "value_at s = Some (v, r) \<Longrightarrow> length r < length s"
  "elems_at s = Some (vs, r) \<Longrightarrow> length r < length s"
  "members_at s = Some (ms, r) \<Longrightarrow> length r < length s"
  unfolding value_at_def elems_at_def members_at_def by (rule enoughD(1), erule parse_enough)+

lemma value_at_iff:
  "value_at s = Some (v, r) \<longleftrightarrow>
     (\<exists>c t. skip_ws s = c # t \<and>
       (if c = CHR ''['' then
          (\<exists>u. skip_ws t = CHR '']'' # u \<and> v = Arr [] \<and> r = u) \<or>
          ((\<exists>x u. skip_ws t = x # u \<and> x \<noteq> CHR '']'') \<and> (\<exists>vs. elems_at t = Some (vs, r) \<and> v = Arr vs))
        else if c = CHR ''{'' then
          (\<exists>u. skip_ws t = CHR ''}'' # u \<and> v = Obj [] \<and> r = u) \<or>
          ((\<exists>x u. skip_ws t = x # u \<and> x \<noteq> CHR ''}'') \<and> (\<exists>ms. members_at t = Some (ms, r) \<and> v = Obj ms))
        else lex_scalar (c # t) = Some (v, r)))" (is "?l \<longleftrightarrow> ?r")
proof
  assume ?l
  then obtain n where n: "parse_value (Suc n) s = Some (v, r)"
    by (cases "length s") (auto simp: value_at_def)
  then obtain c t where c: "skip_ws s = c # t" by (auto split: list.splits)
  have e: "elems_at t = Some (vs, u)" if "parse_elems n t = Some (vs, u)" for vs u using that by (rule at_fuel)
  have m: "members_at t = Some (ms, u)" if "parse_members n t = Some (ms, u)" for ms u using that by (rule at_fuel)
  show ?r
  proof (cases "c = CHR ''['' \<or> c = CHR ''{''")
    case True
    with n c show ?thesis by (auto split: list.splits if_splits dest!: e m)
  next
    case False
    with n c show ?thesis by simp
  qed
next
  assume ?r
  then obtain c t where c: "skip_ws s = c # t" by blast
  note l = skip_ws_Cons_length [OF c]
  then obtain n where n: "length s = Suc n" "length t \<le> n" by (cases "length s") auto
  from \<open>?r\<close> c have "parse_value (Suc n) s = Some (v, r)"
    using n(2) by (auto split: list.splits if_splits intro!: fuel_at)
  then show ?l by (rule at_fuel)
qed

lemma elems_at_iff:
  "elems_at s = Some (vs, r) \<longleftrightarrow>
     (\<exists>v t x u. value_at s = Some (v, t) \<and> skip_ws t = x # u \<and>
       (if x = CHR '','' then \<exists>ws. elems_at u = Some (ws, r) \<and> vs = v # ws
        else x = CHR '']'' \<and> vs = [v] \<and> r = u))" (is "?l \<longleftrightarrow> ?r")
proof
  assume ?l
  then obtain n where n: "parse_elems (Suc n) s = Some (vs, r)"
    by (cases "length s") (auto simp: elems_at_def)
  then obtain v t x u where p: "parse_value n s = Some (v, t)" "skip_ws t = x # u"
    by (auto split: list.splits option.splits)
  have e: "elems_at u = Some (ws, r)" if "parse_elems n u = Some (ws, r)" for ws using that by (rule at_fuel)
  from n p e have "if x = CHR '','' then \<exists>ws. elems_at u = Some (ws, r) \<and> vs = v # ws else x = CHR '']'' \<and> vs = [v] \<and> r = u"
    by (auto split: if_splits)
  with at_fuel(1) [OF p(1)] p(2) show ?r by blast
next
  assume ?r
  then obtain v t x u where v: "value_at s = Some (v, t)" and u: "skip_ws t = x # u"
    and k: "if x = CHR '','' then \<exists>ws. elems_at u = Some (ws, r) \<and> vs = v # ws else x = CHR '']'' \<and> vs = [v] \<and> r = u" by blast
  note l = skip_ws_Cons_length [OF u] at_shorter(1) [OF v]
  have "parse_value (length s) s = Some (v, t)" by (rule fuel_at(1) [OF v]) simp
  moreover have "parse_elems (length s) u = Some (ws, r)" if "elems_at u = Some (ws, r)" for ws
    using l by (intro fuel_at(2) [OF that]) simp
  ultimately have "parse_elems (Suc (length s)) s = Some (vs, r)" using u k by (auto split: if_splits)
  then show ?l by (rule at_fuel)
qed

lemma members_at_iff:
  "members_at s = Some (ms, r) \<longleftrightarrow>
     (\<exists>t k r1 r2 v r3 x u. skip_ws s = CHR 0x22 # t \<and> lex_string t = Some (k, r1) \<and> skip_ws r1 = CHR '':'' # r2
       \<and> value_at r2 = Some (v, r3) \<and> skip_ws r3 = x # u \<and>
       (if x = CHR '','' then \<exists>ns. members_at u = Some (ns, r) \<and> ms = (k, v) # ns
        else x = CHR ''}'' \<and> ms = [(k, v)] \<and> r = u))" (is "?l \<longleftrightarrow> ?r")
proof
  assume ?l
  then obtain n where n: "parse_members (Suc n) s = Some (ms, r)"
    by (cases "length s") (auto simp: members_at_def)
  then obtain t k r1 r2 v r3 x u where p: "skip_ws s = CHR 0x22 # t" "lex_string t = Some (k, r1)" "skip_ws r1 = CHR '':'' # r2"
    "parse_value n r2 = Some (v, r3)" "skip_ws r3 = x # u"
    by (auto split: list.splits option.splits if_splits)
  have e: "members_at u = Some (ns, r)" if "parse_members n u = Some (ns, r)" for ns using that by (rule at_fuel)
  from n p e have "if x = CHR '','' then \<exists>ns. members_at u = Some (ns, r) \<and> ms = (k, v) # ns else x = CHR ''}'' \<and> ms = [(k, v)] \<and> r = u"
    by (auto split: if_splits)
  with at_fuel(1) [OF p(4)] p(1-3,5) show ?r by blast
next
  assume ?r
  then obtain t k r1 r2 v r3 x u where p: "skip_ws s = CHR 0x22 # t" "lex_string t = Some (k, r1)" "skip_ws r1 = CHR '':'' # r2"
    and v: "value_at r2 = Some (v, r3)" and u: "skip_ws r3 = x # u"
    and q: "if x = CHR '','' then \<exists>ns. members_at u = Some (ns, r) \<and> ms = (k, v) # ns else x = CHR ''}'' \<and> ms = [(k, v)] \<and> r = u" by blast
  note l = skip_ws_Cons_length [OF p(1)] lex_string_shorter [OF p(2)] skip_ws_Cons_length [OF p(3)] at_shorter(1) [OF v] skip_ws_Cons_length [OF u]
  have "parse_value (length s) r2 = Some (v, r3)" using l by (intro fuel_at(1) [OF v]) simp
  moreover have "parse_members (length s) u = Some (ns, r)" if "members_at u = Some (ns, r)" for ns
    using l by (intro fuel_at(3) [OF that]) simp
  ultimately have "parse_members (Suc (length s)) s = Some (ms, r)" using p u q by (auto split: if_splits)
  then show ?l by (rule at_fuel)
qed

lemma lex_scalar_punct: "c \<in> {CHR '']'', CHR ''}'', CHR '':'', CHR '',''} \<Longrightarrow> lex_scalar (c # t) = None"
proof -
  assume c: "c \<in> {CHR '']'', CHR ''}'', CHR '':'', CHR '',''}"
  then have "\<not> is_digit c" by (elim insertE emptyE) (simp_all add: is_digit_def code_def)
  moreover have "c \<noteq> CHR ''-''" "c \<noteq> CHR ''0''" "c \<noteq> CHR 0x22" "c \<noteq> CHR ''t''" "c \<noteq> CHR ''f''" "c \<noteq> CHR ''n''"
    using c by (elim insertE emptyE; simp)+
  ultimately show ?thesis by (simp add: lex_scalar_def lex_number_def lex_int_def lex_digits_def)
qed

lemma value_at_start: "value_at s = Some (v, r) \<Longrightarrow> \<exists>c t. skip_ws s = c # t \<and> c \<notin> {CHR '']'', CHR ''}'', CHR '':'', CHR '',''}"
proof -
  assume "value_at s = Some (v, r)"
  then obtain c t where c: "skip_ws s = c # t" "c = CHR ''['' \<or> c = CHR ''{'' \<or> lex_scalar (c # t) \<noteq> None"
    unfolding value_at_iff by (auto split: if_splits)
  then have "c \<notin> {CHR '']'', CHR ''}'', CHR '':'', CHR '',''}" using lex_scalar_punct [of c t] by auto
  with c show ?thesis by blast
qed

lemma elems_at_start: "elems_at s = Some (vs, r) \<Longrightarrow> \<exists>c t. skip_ws s = c # t \<and> c \<notin> {CHR '']'', CHR ''}'', CHR '':'', CHR '',''}"
  by (drule elems_at_iff [THEN iffD1]) (blast dest: value_at_start)

lemma members_at_start: "members_at s = Some (ms, r) \<Longrightarrow> \<exists>t. skip_ws s = CHR 0x22 # t"
  by (drule members_at_iff [THEN iffD1]) blast

text \<open>What the tree must be like for the token stream to be accepted.\<close>

fun clean :: "json \<Rightarrow> bool" where
  "clean Null = False"
| "clean (Num lit) = float_range lit"
| "clean (Arr vs) = list_all clean vs"
| "clean (Obj ms) = (distinct (map fst ms) \<and> list_all (\<lambda>m. clean (snd m)) ms)"
| "clean v = True"

end
