(* ===== verification/Decode.thy ===== *)
theory Decode
  imports Json
begin

text \<open>
  Decoding a tree into a structure, as \<^verbatim>\<open>Unmarshal\<close> does: a value of the wrong type or an
  unknown name is remembered, the first one, and reported at the end, while an error of an
  \<^verbatim>\<open>UnmarshalJSON\<close> method stops at once.  A decoder of one value changes the structure; a
  table of decoders by name is one structure type.  \<^verbatim>\<open>null\<close> leaves a value alone.  A name
  that is not in the table may match one without regard to (ASCII) case.
\<close>

type_synonym 'c decoding = "'c \<times> go_error option"
type_synonym 'c field_dec = "json \<Rightarrow> 'c decoding \<Rightarrow> 'c decoding res"

definition save_error :: "go_error \<Rightarrow> 'c decoding \<Rightarrow> 'c decoding" where
  "save_error e st = (fst st, case snd st of None \<Rightarrow> Some e | Some e0 \<Rightarrow> Some e0)"

definition type_error :: go_error where
  "type_error = New ''json: cannot unmarshal value into Go value''"

definition dec_string :: "((string \<Rightarrow> string) \<Rightarrow> 'c \<Rightarrow> 'c) \<Rightarrow> 'c field_dec" where
  "dec_string upd v st =
     (case v of Str s \<Rightarrow> Inr (upd (\<lambda>_. s) (fst st), snd st) | Null \<Rightarrow> Inr st | _ \<Rightarrow> Inr (save_error type_error st))"

definition dec_int :: "((int \<Rightarrow> int) \<Rightarrow> 'c \<Rightarrow> 'c) \<Rightarrow> 'c field_dec" where
  "dec_int upd v st =
     (case v of
       Num lit \<Rightarrow> (case atoi lit of None \<Rightarrow> Inr (save_error type_error st) | Some i \<Rightarrow> Inr (upd (\<lambda>_. i) (fst st), snd st))
     | Null \<Rightarrow> Inr st
     | _ \<Rightarrow> Inr (save_error type_error st))"

text \<open>The elements of a slice: \<^verbatim>\<open>null\<close> keeps the old element.\<close>

fun dec_elems :: "string list \<Rightarrow> json list \<Rightarrow> string list \<times> bool" where
  "dec_elems old [] = ([], True)"
| "dec_elems old (v # vs) =
     (let (xs, good) = dec_elems (drop 1 old) vs; was = (if old = [] then [] else hd old) in
      case v of Str s \<Rightarrow> (s # xs, good) | Null \<Rightarrow> (was # xs, good) | _ \<Rightarrow> (was # xs, False))"

definition dec_strings :: "((string list \<Rightarrow> string list) \<Rightarrow> 'c \<Rightarrow> 'c) \<Rightarrow> ('c \<Rightarrow> string list) \<Rightarrow> 'c field_dec" where
  "dec_strings upd get v st =
     (case v of
       Arr vs \<Rightarrow>
         let (xs, good) = dec_elems (get (fst st)) vs; st' = (upd (\<lambda>_. xs) (fst st), snd st)
         in Inr (if good then st' else save_error type_error st')
     | Null \<Rightarrow> Inr (upd (\<lambda>_. []) (fst st), snd st)
     | _ \<Rightarrow> Inr (save_error type_error st))"

definition field_of :: "(string \<times> 'a) list \<Rightarrow> string \<Rightarrow> 'a option" where
  "field_of fs k =
     (case map_of fs k of Some f \<Rightarrow> Some f | None \<Rightarrow> map_of (map (\<lambda>(n, f). (to_lower n, f)) fs) (to_lower k))"

fun dec_members :: "bool \<Rightarrow> (string \<times> 'c field_dec) list \<Rightarrow> (string \<times> json) list \<Rightarrow> 'c decoding \<Rightarrow> 'c decoding res" where
  "dec_members strict fs [] st = Inr st"
| "dec_members strict fs ((k, v) # ms) st =
     (case field_of fs k of
       None \<Rightarrow> dec_members strict fs ms (if strict then save_error (New (''json: unknown field '' @ quote k)) st else st)
     | Some f \<Rightarrow> (case f v st of Inl e \<Rightarrow> Inl e | Inr st' \<Rightarrow> dec_members strict fs ms st'))"

text \<open>\<open>strict\<close> is \<^verbatim>\<open>DisallowUnknownFields\<close>.\<close>

definition dec_struct :: "bool \<Rightarrow> (string \<times> 'c field_dec) list \<Rightarrow> 'c field_dec" where
  "dec_struct strict fs v st =
     (case v of Obj ms \<Rightarrow> dec_members strict fs ms st | Null \<Rightarrow> Inr st | _ \<Rightarrow> Inr (save_error type_error st))"

definition dec_result :: "'c decoding res \<Rightarrow> 'c res" where
  "dec_result r =
     (case r of Inl e \<Rightarrow> Inl e | Inr (c, Some e) \<Rightarrow> Inl e | Inr (c, None) \<Rightarrow> Inr c)"

subsection \<open>What a decoded structure holds\<close>

text \<open>A decoder never forgets an error; a view it does not touch.\<close>

definition remembers :: "'c field_dec \<Rightarrow> bool" where
  "remembers f = (\<forall>v st st'. f v st = Inr st' \<longrightarrow> snd st' = None \<longrightarrow> snd st = None)"

definition leaves :: "('c \<Rightarrow> 'a) \<Rightarrow> 'c field_dec \<Rightarrow> bool" where
  "leaves get f = (\<forall>v st st'. f v st = Inr st' \<longrightarrow> get (fst st') = get (fst st))"

definition sets_to :: "('c \<Rightarrow> 'a) \<Rightarrow> (json \<Rightarrow> 'a \<Rightarrow> 'a \<Rightarrow> bool) \<Rightarrow> 'c field_dec \<Rightarrow> bool" where
  "sets_to get R f = (\<forall>v st st'. f v st = Inr st' \<longrightarrow> snd st' = None \<longrightarrow> v \<noteq> Null \<longrightarrow> R v (get (fst st)) (get (fst st')))"

lemma remembersD: "remembers f \<Longrightarrow> f v st = Inr st' \<Longrightarrow> snd st' = None \<Longrightarrow> snd st = None"
  unfolding remembers_def by blast

lemma leavesD: "leaves get f \<Longrightarrow> f v st = Inr st' \<Longrightarrow> get (fst st') = get (fst st)"
  unfolding leaves_def by blast

lemma sets_toD: "sets_to get R f \<Longrightarrow> f v st = Inr st' \<Longrightarrow> snd st' = None \<Longrightarrow> v \<noteq> Null \<Longrightarrow> R v (get (fst st)) (get (fst st'))"
  unfolding sets_to_def by blast

lemma save_error_simps [simp]: "fst (save_error e st) = fst st" "snd (save_error e st) = None \<longleftrightarrow> False"
  by (auto simp: save_error_def split: option.splits)

lemma remembersI: "(\<And>v st st'. f v st = Inr st' \<Longrightarrow> snd st' = None \<Longrightarrow> snd st = None) \<Longrightarrow> remembers f"
  unfolding remembers_def by blast

lemma leavesI: "(\<And>v st st'. f v st = Inr st' \<Longrightarrow> get (fst st') = get (fst st)) \<Longrightarrow> leaves get f"
  unfolding leaves_def by blast

lemma dec_string_cases:
  assumes "dec_string u v st = Inr st'"
  obtains (set) s where "v = Str s" "st' = (u (\<lambda>_. s) (fst st), snd st)" | (null) "v = Null" "st' = st"
    | (wrong) "st' = save_error type_error st"
  using assms by (cases v) (simp_all add: dec_string_def)

lemma dec_int_cases:
  assumes "dec_int u v st = Inr st'"
  obtains (set) lit i where "v = Num lit" "atoi lit = Some i" "st' = (u (\<lambda>_. i) (fst st), snd st)" | (null) "v = Null" "st' = st"
    | (wrong) "st' = save_error type_error st"
  using assms by (cases v) (simp_all add: dec_int_def split: option.splits)

lemma dec_strings_cases:
  assumes "dec_strings u g v st = Inr st'"
  obtains (set) vs xs where "v = Arr vs" "dec_elems (g (fst st)) vs = (xs, True)" "st' = (u (\<lambda>_. xs) (fst st), snd st)"
    | (null) "v = Null" "st' = (u (\<lambda>_. []) (fst st), snd st)"
    | (part) xs where "st' = save_error type_error (u (\<lambda>_. xs) (fst st), snd st)"
    | (wrong) "st' = save_error type_error st"
proof (cases v)
  case (Arr vs)
  obtain xs good where e: "dec_elems (g (fst st)) vs = (xs, good)" by (cases "dec_elems (g (fst st)) vs")
  with Arr assms set part show ?thesis by (cases good) (auto simp: dec_strings_def Let_def)
qed (use assms null wrong in \<open>simp_all add: dec_strings_def\<close>)

lemma remembers_basic [simp]:
  "remembers (dec_string u)" "remembers (dec_int w)" "remembers (dec_strings x g)"
  by (rule remembersI; erule dec_string_cases dec_int_cases dec_strings_cases; simp)+

lemma leaves_basic [simp]:
  "(\<And>h c. get (u h c) = get c) \<Longrightarrow> leaves get (dec_string u)"
  "(\<And>h c. get (w h c) = get c) \<Longrightarrow> leaves get (dec_int w)"
  "(\<And>h c. get (x h c) = get c) \<Longrightarrow> leaves get (dec_strings x g)"
  by (rule leavesI; erule dec_string_cases dec_int_cases dec_strings_cases; simp)+

lemma field_of_in: "field_of fs k = Some f \<Longrightarrow> f \<in> snd ` set fs"
  by (force simp: field_of_def split: option.splits dest!: map_of_SomeD)

lemma remembers_members:
  assumes "list_all (\<lambda>f. remembers (snd f)) fs" "dec_members strict fs ms st = Inr st'" "snd st' = None"
  shows "snd st = None"
  using assms(2,3)
proof (induction ms arbitrary: st)
  case (Cons m ms)
  obtain k v where m: "m = (k, v)" by (cases m)
  show ?case
  proof (cases "field_of fs k")
    case None
    with Cons m have "snd (if strict then save_error (New (''json: unknown field '' @ quote k)) st else st) = None" by simp
    then show ?thesis by (auto split: if_splits)
  next
    case (Some f)
    with Cons.prems m obtain st1 where s: "f v st = Inr st1" "dec_members strict fs ms st1 = Inr st'"
      by (auto split: sum.splits)
    from assms(1) field_of_in [OF Some] have "remembers f" by (auto simp: list_all_iff)
    with s Cons.IH [OF s(2)] Cons.prems(2) show ?thesis by (auto dest: remembersD)
  qed
qed simp

lemma remembers_struct [simp]: "list_all (\<lambda>f. remembers (snd f)) fs \<Longrightarrow> remembers (dec_struct strict fs)"
proof (rule remembersI)
  fix v st st'
  assume fs: "list_all (\<lambda>f. remembers (snd f)) fs" and run: "dec_struct strict fs v st = Inr st'" and e: "snd st' = None"
  show "snd st = None"
  proof (cases v)
    case (Obj ms)
    with run show ?thesis using remembers_members [OF fs _ e] by (simp add: dec_struct_def)
  qed (use run e in \<open>auto simp: dec_struct_def\<close>)
qed

lemma leaves_members:
  assumes "list_all (\<lambda>f. leaves get (snd f)) fs" "dec_members strict fs ms st = Inr st'"
  shows "get (fst st') = get (fst st)"
  using assms(2)
proof (induction ms arbitrary: st)
  case (Cons m ms)
  obtain k v where m: "m = (k, v)" by (cases m)
  show ?case
  proof (cases "field_of fs k")
    case None
    with Cons.prems m have "dec_members strict fs ms (if strict then save_error (New (''json: unknown field '' @ quote k)) st else st) = Inr st'"
      by simp
    from Cons.IH [OF this] show ?thesis by (simp split: if_splits)
  next
    case (Some f)
    with Cons.prems m obtain st1 where s: "f v st = Inr st1" "dec_members strict fs ms st1 = Inr st'"
      by (auto split: sum.splits)
    from assms(1) field_of_in [OF Some] have "leaves get f" by (auto simp: list_all_iff)
    from leavesD [OF this s(1)] Cons.IH [OF s(2)] show ?thesis by simp
  qed
qed simp

lemma leaves_struct [simp]: "list_all (\<lambda>f. leaves get (snd f)) fs \<Longrightarrow> leaves get (dec_struct strict fs)"
proof (rule leavesI)
  fix v st st'
  assume fs: "list_all (\<lambda>f. leaves get (snd f)) fs" and run: "dec_struct strict fs v st = Inr st'"
  show "get (fst st') = get (fst st)"
  proof (cases v)
    case (Obj ms)
    with run show ?thesis using leaves_members [OF fs] by (simp add: dec_struct_def)
  qed (use run in \<open>auto simp: dec_struct_def\<close>)
qed

text \<open>
  With distinct names that are all in the table, a view that only the decoder of \<open>k\<close> touches
  holds what that decoder made of the member \<open>k\<close>, and is as before where there is none.
\<close>

lemma dec_members_view:
  assumes "list_all (\<lambda>f. remembers (snd f)) fs"
    and "list_all (\<lambda>f. fst f = k \<or> leaves get (snd f)) fs"
    and "map_of fs k = Some f" "sets_to get R f"
    and "dec_members strict fs ms st = Inr st'" "snd st' = None"
    and "distinct (map fst ms)" "list_all (\<lambda>m. fst m \<in> fst ` set fs \<and> snd m \<noteq> Null) ms"
  shows "case map_of ms k of None \<Rightarrow> get (fst st') = get (fst st) | Some v \<Rightarrow> R v (get (fst st)) (get (fst st'))"
  using assms(5-8)
proof (induction ms arbitrary: st)
  case (Cons m ms)
  obtain k' v where m: "m = (k', v)" by (cases m)
  with Cons.prems(4) obtain g where g: "map_of fs k' = Some g" by (cases "map_of fs k'") (auto simp: map_of_eq_None_iff)
  then have "field_of fs k' = Some g" by (simp add: field_of_def)
  with Cons.prems(1) m obtain st1 where s: "g v st = Inr st1" "dec_members strict fs ms st1 = Inr st'"
    by (auto split: sum.splits)
  have e: "snd st1 = None" by (rule remembers_members [OF assms(1) s(2) Cons.prems(2)])
  note IH = Cons.IH [OF s(2) Cons.prems(2)]
  show ?case
  proof (cases "k' = k")
    case True
    with g assms(3,4) have "sets_to get R g" by simp
    with s(1) e Cons.prems(4) m have "R v (get (fst st)) (get (fst st1))" by (auto dest: sets_toD)
    moreover have "map_of ms k = None" using Cons.prems(3) m True by (force simp: map_of_eq_None_iff)
    ultimately show ?thesis using IH Cons.prems m True by simp
  next
    case False
    have "(k', g) \<in> set fs" using g by (rule map_of_SomeD)
    with assms(2) False have "leaves get g" by (auto simp: list_all_iff)
    with s(1) have "get (fst st1) = get (fst st)" by (auto dest: leavesD)
    then show ?thesis using IH Cons.prems m False by (cases "map_of ms k") simp_all
  qed
qed simp

end
