(* ===== verification/Load.thy ===== *)
theory Load
  imports Config FsUtil Durations Decode
begin

text \<open>
  Reading a configuration: \<^verbatim>\<open>Load\<close>, \<^verbatim>\<open>CheckJSON\<close>, \<^verbatim>\<open>exactFields\<close> and
  \<^verbatim>\<open>Duration.UnmarshalJSON\<close> of \<^verbatim>\<open>internal/config/config.go\<close>.  \<^verbatim>\<open>exactFields\<close>
  ranges over a map; the model takes its entries in the order of the text.  The lemmas:
  \<^verbatim>\<open>CheckJSON\<close>, which walks tokens, accepts exactly the texts of one value without null, without
  repeated keys and with representable numbers; it always ends; a loaded configuration holds the
  settings of the text and the defaults for all others.
\<close>

section \<open>Checking the text\<close>

text \<open>
  \<^verbatim>\<open>CheckJSON\<close> walks the tokens.  \<open>None\<close> is lack of fuel; \<open>walk_ends\<close> shows that the fuel of
  \<open>check_json\<close> is always enough.
\<close>

definition err_null :: go_error where "err_null = New ''null configuration values are not allowed''"
definition err_key :: go_error where "err_key = New ''invalid object key''"
definition err_delim :: go_error where "err_delim = New ''unexpected JSON delimiter''"
definition err_many :: go_error where "err_many = New ''configuration must contain one JSON value''"

definition dup_key :: "string \<Rightarrow> go_error" where
  "dup_key k = New (''duplicate JSON key '' @ quote k)"

text \<open>The closing delimiter, once the loop over the members has ended with \<open>x\<close>.\<close>

definition closing :: "decoder res option \<Rightarrow> decoder res option" where
  "closing x =
     (case x of
       Some (Inr d) \<Rightarrow> (case next_token d of Inl e \<Rightarrow> Some (Inl e) | Inr (_, d') \<Rightarrow> Some (Inr d'))
     | _ \<Rightarrow> x)"

fun walk :: "nat \<Rightarrow> decoder \<Rightarrow> decoder res option"
  and walk_object :: "nat \<Rightarrow> string list \<Rightarrow> decoder \<Rightarrow> decoder res option"
  and walk_array :: "nat \<Rightarrow> decoder \<Rightarrow> decoder res option" where
  "walk 0 d = None"
| "walk (Suc n) d =
     (case next_token d of
       Inl e \<Rightarrow> Some (Inl e)
     | Inr (Val v, d1) \<Rightarrow> if v = Null then Some (Inl err_null) else Some (Inr d1)
     | Inr (Delim c, d1) \<Rightarrow>
         if c = CHR ''{'' then closing (walk_object n [] d1)
         else if c = CHR ''['' then closing (walk_array n d1)
         else Some (Inl err_delim))"
| "walk_object 0 seen d = None"
| "walk_object (Suc n) seen d =
     (if \<not> more d then Some (Inr d)
      else
        case next_token d of
          Inl e \<Rightarrow> Some (Inl e)
        | Inr (k, d1) \<Rightarrow>
            (case k of
              Val (Str s) \<Rightarrow>
                if s \<in> set seen then Some (Inl (dup_key s))
                else (case walk n d1 of Some (Inr d2) \<Rightarrow> walk_object n (s # seen) d2 | x \<Rightarrow> x)
            | _ \<Rightarrow> Some (Inl err_key)))"
| "walk_array 0 d = None"
| "walk_array (Suc n) d =
     (if \<not> more d then Some (Inr d)
      else case walk n d of Some (Inr d1) \<Rightarrow> walk_array n d1 | x \<Rightarrow> x)"

definition walk_fuel :: "string \<Rightarrow> nat" where
  "walk_fuel b = 2 * length b + 1"

definition check_json :: "string \<Rightarrow> go_error option" where
  "check_json b =
     (case walk (walk_fuel b) (decoder_of b) of
       None \<Rightarrow> Some (New ''out of fuel'')
     | Some (Inl e) \<Rightarrow> Some e
     | Some (Inr d) \<Rightarrow> (case next_token d of Inl e \<Rightarrow> if e = err_eof then None else Some err_many | Inr _ \<Rightarrow> Some err_many))"

subsection \<open>Tokens\<close>

lemma decoder_eq: "d = \<lparr>dc_state = dc_state d, dc_stack = dc_stack d, dc_rest = dc_rest d\<rparr>"
  by simp

lemma scalar_token_ok: "scalar_token s = Inr (v, r) \<longleftrightarrow> lex_scalar s = Some (v, r) \<and> (\<forall>lit. v = Num lit \<longrightarrow> float_range lit)"
  by (auto simp: scalar_token_def split: option.splits json.splits)

lemma next_token_shorter: "next_token d = Inr (t, d') \<Longrightarrow> length (dc_rest d') < length (dc_rest d)"
proof (induction d arbitrary: t d' rule: next_token.induct)
  case (1 d)
  obtain c r where c: "skip_ws (dc_rest d) = c # r" using "1.prems" by (subst (asm) next_token.simps) (auto split: list.splits)
  have l: "length r < length (dc_rest d)" by (rule skip_ws_Cons_length [OF c])
  have q: "length x < length (dc_rest d)" if "lex_scalar (c # r) = Some (v, x)" for v x
    using lex_scalar_shorter [OF that] skip_ws_length [of "dc_rest d"] c by simp
  have o: "length (dc_rest x) < length (dc_rest d)" if "open_delim c q r d = Inr (t, x)" for q x
    using that l by (auto simp: open_delim_def split: if_splits)
  have z: "length (dc_rest x) < length (dc_rest d)" if "close_delim c q q' r d = Inr (t, x)" for q q' x
    using that l by (auto simp: close_delim_def split: if_splits list.splits)
  consider "c = CHR ''[''" | "c = CHR '']''" | "c = CHR ''{''" | "c = CHR ''}''" | (colon) "c = CHR '':''" | (comma) "c = CHR '',''"
    | (else) "c \<noteq> CHR ''[''" "c \<noteq> CHR '']''" "c \<noteq> CHR ''{''" "c \<noteq> CHR ''}''" "c \<noteq> CHR '':''" "c \<noteq> CHR '',''" by blast
  then show ?case
  proof cases
    case colon
    with "1.prems" c have "dc_state d = Object_colon" "next_token (d\<lparr>dc_state := Object_value, dc_rest := r\<rparr>) = Inr (t, d')"
      by (subst (asm) next_token.simps, simp split: if_splits)+
    with "1.IH"(1) [OF c _ _ _ _ colon] colon l show ?thesis by fastforce
  next
    case comma
    show ?thesis
    proof (cases "dc_state d = Array_comma")
      case True
      with "1.prems" c comma have "next_token (d\<lparr>dc_state := Array_value, dc_rest := r\<rparr>) = Inr (t, d')"
        by (subst (asm) next_token.simps) simp
      with "1.IH"(2) [OF c _ _ _ _ _ comma True] comma l show ?thesis by fastforce
    next
      case False
      with "1.prems" c comma have "dc_state d = Object_comma" "next_token (d\<lparr>dc_state := Object_key, dc_rest := r\<rparr>) = Inr (t, d')"
        by (subst (asm) next_token.simps, simp split: if_splits)+
      with "1.IH"(3) [OF c _ _ _ _ _ comma False] comma l show ?thesis by fastforce
    qed
  next
    case else
    with "1.prems" c obtain v x where "lex_scalar (c # r) = Some (v, x)" "dc_rest d' = x"
      by (subst (asm) next_token.simps) (auto simp: scalar_token_ok split: if_splits sum.splits)
    with q show ?thesis by simp
  qed (use "1.prems" c o z in \<open>subst (asm) next_token.simps, simp\<close>)+
qed

text \<open>How the states take a token.\<close>

abbreviation dcd :: "tok_state \<Rightarrow> tok_state list \<Rightarrow> string \<Rightarrow> decoder" where
  "dcd q stk s \<equiv> \<lparr>dc_state = q, dc_stack = stk, dc_rest = s\<rparr>"

lemma token_empty: "skip_ws s = [] \<Longrightarrow> next_token (dcd q stk s) = Inl err_eof"
  by (subst next_token.simps) simp

lemma token_open:
  assumes "skip_ws s = c # t" "c = CHR ''['' \<or> c = CHR ''{''" "value_allowed q"
  shows "next_token (dcd q stk s) = Inr (Delim c, dcd (if c = CHR ''['' then Array_start else Object_start) (q # stk) t)"
  using assms by (subst next_token.simps) (auto simp: open_delim_def)

lemma token_scalar:
  assumes "skip_ws s = c # t" "c \<noteq> CHR ''[''" "c \<noteq> CHR ''{''" "value_allowed q"
  shows "next_token (dcd q stk s) = Inr (Val v, d') \<longleftrightarrow>
    (\<exists>r. lex_scalar (c # t) = Some (v, r) \<and> (\<forall>lit. v = Num lit \<longrightarrow> float_range lit) \<and> d' = dcd (value_end q) stk r)"
    and "next_token (dcd q stk s) = Inr (Delim x, d') \<Longrightarrow> x \<noteq> CHR ''['' \<and> x \<noteq> CHR ''{''"
proof -
  show "next_token (dcd q stk s) = Inr (Val v, d') \<longleftrightarrow>
    (\<exists>r. lex_scalar (c # t) = Some (v, r) \<and> (\<forall>lit. v = Num lit \<longrightarrow> float_range lit) \<and> d' = dcd (value_end q) stk r)"
  proof (cases "c \<in> {CHR '']'', CHR ''}'', CHR '':'', CHR '',''}")
    case True
    then have "lex_scalar (c # t) = None" by (rule lex_scalar_punct)
    moreover have "next_token (dcd q stk s) \<noteq> Inr (Val v, d')"
      using True assms by (subst next_token.simps) (auto simp: close_delim_def value_allowed_def split: list.splits)
    ultimately show ?thesis by simp
  next
    case False
    with assms have "next_token (dcd q stk s) =
        (case scalar_token (c # t) of Inl e \<Rightarrow> Inl e | Inr (v, r') \<Rightarrow> Inr (Val v, dcd (value_end q) stk r'))"
      by (subst next_token.simps) (auto simp: value_allowed_def split: sum.split)
    then have "next_token (dcd q stk s) = Inr (Val v, d') \<longleftrightarrow> (\<exists>r. scalar_token (c # t) = Inr (v, r) \<and> d' = dcd (value_end q) stk r)"
      by (auto split: sum.splits)
    then show ?thesis by (simp add: scalar_token_ok)
  qed
  show "x \<noteq> CHR ''['' \<and> x \<noteq> CHR ''{''" if "next_token (dcd q stk s) = Inr (Delim x, d')"
    using that assms by (subst (asm) next_token.simps)
      (auto simp: close_delim_def value_allowed_def split: if_splits sum.splits list.splits)
qed

text \<open>The states behind a value or a key only go on with their separator or their closing delimiter.\<close>

lemma token_sep:
  "skip_ws s = CHR '','' # t \<Longrightarrow> next_token (dcd Array_comma stk s) = next_token (dcd Array_value stk t)"
  "skip_ws s = CHR '','' # t \<Longrightarrow> next_token (dcd Object_comma stk s) = next_token (dcd Object_key stk t)"
  "skip_ws s = CHR '':'' # t \<Longrightarrow> next_token (dcd Object_colon stk s) = next_token (dcd Object_value stk t)"
  by (subst next_token.simps, simp)+

lemma token_close:
  "skip_ws s = CHR '']'' # t \<Longrightarrow> q = Array_start \<or> q = Array_comma \<Longrightarrow>
     next_token (dcd q (p # stk) s) = Inr (Delim CHR '']'', dcd (value_end p) stk t)"
  "skip_ws s = CHR ''}'' # t \<Longrightarrow> q = Object_start \<or> q = Object_comma \<Longrightarrow>
     next_token (dcd q (p # stk) s) = Inr (Delim CHR ''}'', dcd (value_end p) stk t)"
  by (subst next_token.simps, auto simp: close_delim_def)+

lemma token_no_close:
  "skip_ws s = CHR '']'' # t \<Longrightarrow> q \<noteq> Array_start \<Longrightarrow> q \<noteq> Array_comma \<Longrightarrow> next_token (dcd q stk s) = Inl token_error"
  "skip_ws s = CHR ''}'' # t \<Longrightarrow> q \<noteq> Object_start \<Longrightarrow> q \<noteq> Object_comma \<Longrightarrow> next_token (dcd q stk s) = Inl token_error"
  by (subst next_token.simps, simp add: close_delim_def)+

lemma token_wrong:
  assumes "skip_ws s = c # t" "c \<noteq> CHR '']''" "c \<noteq> CHR ''}''"
  shows "c \<noteq> CHR '','' \<Longrightarrow> q = Array_comma \<or> q = Object_comma \<Longrightarrow> next_token (dcd q stk s) = Inl token_error"
    and "c \<noteq> CHR '':'' \<Longrightarrow> next_token (dcd Object_colon stk s) = Inl token_error"
  using assms by (subst next_token.simps; auto simp: open_delim_def value_allowed_def)+

lemma token_key:
  assumes "q = Object_start \<or> q = Object_key" "skip_ws s = c # t" "c \<noteq> CHR ''}'' \<or> q = Object_key"
  shows "next_token (dcd q stk s) = Inr (k, d') \<longleftrightarrow>
    (\<exists>x r. c = CHR 0x22 \<and> lex_string t = Some (x, r) \<and> k = Val (Str x) \<and> d' = dcd Object_colon stk r)"
proof (cases "c = CHR 0x22")
  case True
  with assms show ?thesis
    by (subst next_token.simps) (auto simp: scalar_token_def lex_scalar_def split: option.splits)
next
  case False
  with assms have "next_token (dcd q stk s) = Inl token_error"
    by (subst next_token.simps) (auto simp: open_delim_def close_delim_def value_allowed_def)
  with False show ?thesis by simp
qed

subsection \<open>The walk accepts clean texts\<close>

lemma walk_token: "next_token d = next_token d' \<Longrightarrow> walk n d = walk n d'"
  by (cases n) simp_all

abbreviation accepts_value :: "nat \<Rightarrow> bool" where
  "accepts_value n \<equiv> (\<forall>q stk s d'. value_allowed q \<longrightarrow> 2 * length s < n \<longrightarrow>
     (walk n (dcd q stk s) = Some (Inr d') \<longleftrightarrow> (\<exists>v r. value_at s = Some (v, r) \<and> clean v \<and> d' = dcd (value_end q) stk r)))"

abbreviation accepts_array :: "nat \<Rightarrow> bool" where
  "accepts_array n \<equiv> (\<forall>p stk s d'. 2 * length s + 1 < n \<longrightarrow>
     (closing (walk_array n (dcd Array_start (p # stk) s)) = Some (Inr d') \<longleftrightarrow>
       (\<exists>t. skip_ws s = CHR '']'' # t \<and> d' = dcd (value_end p) stk t)
       \<or> (\<exists>vs r. elems_at s = Some (vs, r) \<and> list_all clean vs \<and> d' = dcd (value_end p) stk r))
     \<and> (closing (walk_array n (dcd Array_comma (p # stk) s)) = Some (Inr d') \<longleftrightarrow>
       (\<exists>t. skip_ws s = CHR '']'' # t \<and> d' = dcd (value_end p) stk t)
       \<or> (\<exists>t vs r. skip_ws s = CHR '','' # t \<and> elems_at t = Some (vs, r) \<and> list_all clean vs \<and> d' = dcd (value_end p) stk r)))"

abbreviation clean_members :: "string list \<Rightarrow> (string \<times> json) list \<Rightarrow> bool" where
  "clean_members seen ms \<equiv> distinct (map fst ms) \<and> set seen \<inter> set (map fst ms) = {} \<and> list_all (\<lambda>m. clean (snd m)) ms"

abbreviation accepts_object :: "nat \<Rightarrow> bool" where
  "accepts_object n \<equiv> (\<forall>p stk seen s d'. 2 * length s + 1 < n \<longrightarrow>
     (closing (walk_object n seen (dcd Object_start (p # stk) s)) = Some (Inr d') \<longleftrightarrow>
       (\<exists>t. skip_ws s = CHR ''}'' # t \<and> d' = dcd (value_end p) stk t)
       \<or> (\<exists>ms r. members_at s = Some (ms, r) \<and> clean_members seen ms \<and> d' = dcd (value_end p) stk r))
     \<and> (closing (walk_object n seen (dcd Object_comma (p # stk) s)) = Some (Inr d') \<longleftrightarrow>
       (\<exists>t. skip_ws s = CHR ''}'' # t \<and> d' = dcd (value_end p) stk t)
       \<or> (\<exists>t ms r. skip_ws s = CHR '','' # t \<and> members_at t = Some (ms, r) \<and> clean_members seen ms \<and> d' = dcd (value_end p) stk r)))"

lemma closing_simps [simp]:
  "closing None = None" "closing (Some (Inl e)) = Some (Inl e)"
  by (simp_all add: closing_def)

lemma value_at_array:
  "skip_ws s = CHR ''['' # t \<Longrightarrow> value_at s = Some (v, r) \<longleftrightarrow>
     (skip_ws t = CHR '']'' # r \<and> v = Arr []) \<or> (\<exists>vs. elems_at t = Some (vs, r) \<and> v = Arr vs)"
  by (subst value_at_iff) (auto dest: elems_at_start)

lemma value_at_object:
  "skip_ws s = CHR ''{'' # t \<Longrightarrow> value_at s = Some (v, r) \<longleftrightarrow>
     (skip_ws t = CHR ''}'' # r \<and> v = Obj []) \<or> (\<exists>ms. members_at t = Some (ms, r) \<and> v = Obj ms)"
  by (subst value_at_iff) (auto dest: members_at_start)

lemma value_at_scalar:
  "skip_ws s = c # t \<Longrightarrow> c \<noteq> CHR ''['' \<Longrightarrow> c \<noteq> CHR ''{'' \<Longrightarrow> value_at s = Some (v, r) \<longleftrightarrow> lex_scalar (c # t) = Some (v, r)"
  by (subst value_at_iff) auto

lemma lex_scalar_flat: "lex_scalar s = Some (v, r) \<Longrightarrow> clean v \<longleftrightarrow> v \<noteq> Null \<and> (\<forall>lit. v = Num lit \<longrightarrow> float_range lit)"
  by (erule lex_scalar_cases) (auto simp: lex_word_def split: if_splits)

lemma either_value:
  "(\<exists>v r. ((P r \<and> v = a) \<or> (\<exists>x. Q x r \<and> v = f x)) \<and> C v \<and> D r) \<longleftrightarrow> (\<exists>r. P r \<and> C a \<and> D r) \<or> (\<exists>x r. Q x r \<and> C (f x) \<and> D r)"
  by blast

lemma accepts_value_step:
  assumes a: "accepts_array n" and o: "accepts_object n"
  shows "accepts_value (Suc n)"
proof (intro allI impI)
  fix q stk d' and s :: string assume q: "value_allowed q" and n: "2 * length s < Suc n"
  show "walk (Suc n) (dcd q stk s) = Some (Inr d') \<longleftrightarrow> (\<exists>v r. value_at s = Some (v, r) \<and> clean v \<and> d' = dcd (value_end q) stk r)"
  proof (cases "skip_ws s")
    case Nil
    then show ?thesis by (simp add: token_empty value_at_iff)
  next
    case c: (Cons c t)
    note l = skip_ws_Cons_length [OF c]
    consider (arr) "c = CHR ''[''" | (obj) "c = CHR ''{''" | (flat) "c \<noteq> CHR ''[''" "c \<noteq> CHR ''{''" by blast
    then show ?thesis
    proof cases
      case arr
      have "walk (Suc n) (dcd q stk s) = closing (walk_array n (dcd Array_start (q # stk) t))"
        using token_open [OF c _ q] arr by simp
      moreover have "2 * length t + 1 < n" using l n by simp
      ultimately have W: "walk (Suc n) (dcd q stk s) = Some (Inr d') \<longleftrightarrow>
         (\<exists>u. skip_ws t = CHR '']'' # u \<and> d' = dcd (value_end q) stk u)
         \<or> (\<exists>vs r. elems_at t = Some (vs, r) \<and> list_all clean vs \<and> d' = dcd (value_end q) stk r)" using a by simp
      show ?thesis unfolding W value_at_array [OF c [unfolded arr]] either_value by simp
    next
      case obj
      have "walk (Suc n) (dcd q stk s) = closing (walk_object n [] (dcd Object_start (q # stk) t))"
        using token_open [OF c _ q] obj by simp
      moreover have "2 * length t + 1 < n" using l n by simp
      ultimately have W: "walk (Suc n) (dcd q stk s) = Some (Inr d') \<longleftrightarrow>
         (\<exists>u. skip_ws t = CHR ''}'' # u \<and> d' = dcd (value_end q) stk u)
         \<or> (\<exists>ms r. members_at t = Some (ms, r) \<and> clean_members [] ms \<and> d' = dcd (value_end q) stk r)" using o by simp
      show ?thesis unfolding W value_at_object [OF c [unfolded obj]] either_value by simp
    next
      case flat
      have "walk (Suc n) (dcd q stk s) = Some (Inr d') \<longleftrightarrow> (\<exists>v. next_token (dcd q stk s) = Inr (Val v, d') \<and> v \<noteq> Null)"
        using token_scalar(2) [OF c flat q]
        by (auto split: sum.splits token.splits if_splits)
      then show ?thesis unfolding token_scalar(1) [OF c flat q] value_at_scalar [OF c flat] using lex_scalar_flat by blast
    qed
  qed
qed


lemma array_element:
  assumes v: "accepts_value n" and a: "accepts_array n" and q: "q = Array_start \<or> q = Array_value" and n: "2 * length s < n"
  shows "closing (case walk n (dcd q (p # stk) s) of Some (Inr d1) \<Rightarrow> walk_array n d1 | x \<Rightarrow> x) = Some (Inr d') \<longleftrightarrow>
    (\<exists>vs r. elems_at s = Some (vs, r) \<and> list_all clean vs \<and> d' = dcd (value_end p) stk r)" (is "?l \<longleftrightarrow> ?r")
proof -
  have W: "walk n (dcd q (p # stk) s) = Some (Inr d1) \<longleftrightarrow>
      (\<exists>v t. value_at s = Some (v, t) \<and> clean v \<and> d1 = dcd Array_comma (p # stk) t)" for d1
    using v q n by (auto simp: value_allowed_def)
  have A: "closing (walk_array n (dcd Array_comma (p # stk) t)) = Some (Inr d') \<longleftrightarrow>
       (\<exists>u. skip_ws t = CHR '']'' # u \<and> d' = dcd (value_end p) stk u)
       \<or> (\<exists>u vs r. skip_ws t = CHR '','' # u \<and> elems_at u = Some (vs, r) \<and> list_all clean vs \<and> d' = dcd (value_end p) stk r)"
    if "value_at s = Some (v, t)" for v t
  proof -
    from at_shorter(1) [OF that] n have "2 * length t + 1 < n" by simp
    with a show ?thesis by blast
  qed
  show ?thesis
  proof
    assume ?l
    then obtain d1 where d1: "walk n (dcd q (p # stk) s) = Some (Inr d1)" "closing (walk_array n d1) = Some (Inr d')"
      by (auto simp: closing_def split: option.splits sum.splits)
    then obtain v t where t: "value_at s = Some (v, t)" "clean v" "d1 = dcd Array_comma (p # stk) t" unfolding W by blast
    from d1(2) [unfolded t(3) A [OF t(1)]] show ?r
    proof (elim disjE exE conjE)
      fix u assume u: "skip_ws t = CHR '']'' # u" "d' = dcd (value_end p) stk u"
      have "elems_at s = Some ([v], u)" using t(1) u(1) by (subst elems_at_iff) auto
      with t(2) u(2) show ?r by auto
    next
      fix u vs r assume u: "skip_ws t = CHR '','' # u" "elems_at u = Some (vs, r)" "list_all clean vs" "d' = dcd (value_end p) stk r"
      have "elems_at s = Some (v # vs, r)" using t(1) u(1,2) by (subst elems_at_iff) auto
      with t(2) u show ?r by auto
    qed
  next
    assume ?r
    then obtain vs r where r: "elems_at s = Some (vs, r)" "list_all clean vs" "d' = dcd (value_end p) stk r" by blast
    from r(1) [unfolded elems_at_iff [of s]] obtain v t x u where t: "value_at s = Some (v, t)" "skip_ws t = x # u"
      and k: "if x = CHR '','' then \<exists>ws. elems_at u = Some (ws, r) \<and> vs = v # ws else x = CHR '']'' \<and> vs = [v] \<and> r = u" by blast
    from k r(2) have "clean v" by (auto split: if_splits)
    with t(1) have "walk n (dcd q (p # stk) s) = Some (Inr (dcd Array_comma (p # stk) t))" unfolding W by blast
    moreover have "closing (walk_array n (dcd Array_comma (p # stk) t)) = Some (Inr d')"
      unfolding A [OF t(1)] using t(2) k r(2,3) by (auto split: if_splits)
    ultimately show ?l by simp
  qed
qed

lemma accepts_array_step:
  assumes v: "accepts_value n" and a: "accepts_array n"
  shows "accepts_array (Suc n)"
proof (intro allI impI)
  fix p stk d' and s :: string assume n: "2 * length s + 1 < Suc n"
  let ?goal = "\<lambda>q R. closing (walk_array (Suc n) (dcd q (p # stk) s)) = Some (Inr d') \<longleftrightarrow>
       (\<exists>t. skip_ws s = CHR '']'' # t \<and> d' = dcd (value_end p) stk t) \<or> R"
  let ?e = "\<lambda>t. \<exists>vs r. elems_at t = Some (vs, r) \<and> list_all clean vs \<and> d' = dcd (value_end p) stk r"
  have "?goal Array_start (?e s) \<and> ?goal Array_comma (\<exists>t. skip_ws s = CHR '','' # t \<and> ?e t)"
  proof (cases "skip_ws s")
    case Nil
    then have "\<not> more (dcd q (p # stk) s)" for q by (simp add: more_def)
    moreover have "elems_at s \<noteq> Some x" for x using Nil elems_at_start [of s "fst x" "snd x"] by auto
    ultimately show ?thesis using Nil token_empty [OF Nil] by (simp add: closing_def)
  next
    case c: (Cons c t)
    note l = skip_ws_Cons_length [OF c]
    consider (stop) "c = CHR '']''" | (brace) "c = CHR ''}''" | (go) "c \<noteq> CHR '']''" "c \<noteq> CHR ''}''" by blast
    then show ?thesis
    proof cases
      case stop
      then have "\<not> more (dcd q (p # stk) s)" for q by (simp add: more_def c)
      moreover have "elems_at s \<noteq> Some x" for x using c stop elems_at_start [of s "fst x" "snd x"] by auto
      ultimately show ?thesis using c stop token_close(1) [of s t] by (auto simp: closing_def)
    next
      case brace
      then have "\<not> more (dcd q (p # stk) s)" for q by (simp add: more_def c)
      moreover have "elems_at s \<noteq> Some x" for x using c brace elems_at_start [of s "fst x" "snd x"] by auto
      ultimately show ?thesis using c brace token_no_close(2) [of s t] by (simp add: closing_def)
    next
      case go
      then have m: "more (dcd q (p # stk) s)" for q by (simp add: more_def c)
      have "?goal Array_start (?e s)"
        using array_element [OF v a, of Array_start s p stk d'] n m c go by simp
      moreover have "?goal Array_comma (\<exists>t. skip_ws s = CHR '','' # t \<and> ?e t)"
      proof (cases "c = CHR '',''")
        case True
        have "walk n (dcd Array_comma (p # stk) s) = walk n (dcd Array_value (p # stk) t)"
          by (rule walk_token) (rule token_sep(1) [OF c [unfolded True]])
        with array_element [OF v a, of Array_value t p stk d'] n l m c go True show ?thesis by simp
      next
        case False
        have "next_token (dcd Array_comma (p # stk) s) = Inl token_error" using token_wrong(1) [OF c go False] by simp
        then have "walk n (dcd Array_comma (p # stk) s) \<noteq> Some (Inr d1)" for d1 by (cases n) auto
        with m False c go show ?thesis by (auto simp: closing_def split: option.splits sum.splits)
      qed
      ultimately show ?thesis by blast
    qed
  qed
  then show "?goal Array_start (?e s) \<and> ?goal Array_comma (\<exists>t vs r. skip_ws s = CHR '','' # t \<and> elems_at t = Some (vs, r) \<and> list_all clean vs \<and> d' = dcd (value_end p) stk r)"
    by blast
qed


lemma walk_colon:
  "walk n (dcd Object_colon stk s) = Some (Inr d') \<Longrightarrow> \<exists>t. skip_ws s = CHR '':'' # t"
proof (rule ccontr)
  assume run: "walk n (dcd Object_colon stk s) = Some (Inr d')" and no: "\<not> (\<exists>t. skip_ws s = CHR '':'' # t)"
  have "\<exists>e. next_token (dcd Object_colon stk s) = Inl e"
  proof (cases "skip_ws s")
    case Nil
    then show ?thesis using token_empty by blast
  next
    case (Cons c t)
    with no have "c \<noteq> CHR '':''" by blast
    then show ?thesis using token_wrong(2) [OF Cons] token_no_close [of s t] Cons by blast
  qed
  with run show False by (cases n) auto
qed

abbreviation member_step :: "nat \<Rightarrow> string list \<Rightarrow> decoder \<Rightarrow> decoder res option" where
  "member_step n seen d \<equiv>
     (case next_token d of
       Inl e \<Rightarrow> Some (Inl e)
     | Inr (k, d1) \<Rightarrow>
         (case k of
           Val (Str s) \<Rightarrow>
             if s \<in> set seen then Some (Inl (dup_key s))
             else (case walk n d1 of Some (Inr d2) \<Rightarrow> walk_object n (s # seen) d2 | x \<Rightarrow> x)
         | _ \<Rightarrow> Some (Inl err_key)))"

lemma object_member:
  assumes v: "accepts_value n" and o: "accepts_object n" and q: "q = Object_start \<or> q = Object_key" and n: "2 * length s < n"
    and c: "skip_ws s = c # t" "c \<noteq> CHR ''}'' \<or> q = Object_key"
  shows "closing (member_step n seen (dcd q (p # stk) s)) = Some (Inr d') \<longleftrightarrow>
    (\<exists>ms r. members_at s = Some (ms, r) \<and> clean_members seen ms \<and> d' = dcd (value_end p) stk r)" (is "?l \<longleftrightarrow> ?r")
proof -
  note key = token_key [OF q c, of "p # stk"]
  have W: "walk n (dcd Object_colon (p # stk) r1) = Some (Inr d2) \<longleftrightarrow>
      (\<exists>v r3. value_at r2 = Some (v, r3) \<and> clean v \<and> d2 = dcd Object_comma (p # stk) r3)"
    if "length r1 < length s" "skip_ws r1 = CHR '':'' # r2" for r1 r2 d2
  proof -
    have "walk n (dcd Object_colon (p # stk) r1) = walk n (dcd Object_value (p # stk) r2)"
      by (rule walk_token) (rule token_sep(3) [OF that(2)])
    moreover have "2 * length r2 < n" using n that skip_ws_Cons_length [OF that(2)] by simp
    ultimately show ?thesis using v by (simp add: value_allowed_def)
  qed
  have O: "closing (walk_object n seen' (dcd Object_comma (p # stk) r3)) = Some (Inr d') \<longleftrightarrow>
       (\<exists>u. skip_ws r3 = CHR ''}'' # u \<and> d' = dcd (value_end p) stk u)
       \<or> (\<exists>u ms r. skip_ws r3 = CHR '','' # u \<and> members_at u = Some (ms, r) \<and> clean_members seen' ms \<and> d' = dcd (value_end p) stk r)"
    if "length r3 < length s" for r3 seen'
  proof -
    from that n have "2 * length r3 + 1 < n" by simp
    with o show ?thesis by blast
  qed
  have len: "length r1 < length s" if "skip_ws s = CHR 0x22 # t" "lex_string t = Some (k, r1)" for t k r1
    using skip_ws_Cons_length [OF that(1)] lex_string_shorter [OF that(2)] by simp
  show ?thesis
  proof
    assume ?l
    then obtain k d1 d2 where d: "next_token (dcd q (p # stk) s) = Inr (Val (Str k), d1)" "k \<notin> set seen" "walk n d1 = Some (Inr d2)"
      "closing (walk_object n (k # seen) d2) = Some (Inr d')"
      by (auto simp: closing_def split: option.splits sum.splits token.splits json.splits if_splits)
    from d(1) [unfolded key] obtain r1 where r1: "skip_ws s = CHR 0x22 # t" "lex_string t = Some (k, r1)" "d1 = dcd Object_colon (p # stk) r1"
      using c by auto
    note l1 = len [OF r1(1,2)]
    from walk_colon d(3) r1(3) obtain r2 where r2: "skip_ws r1 = CHR '':'' # r2" by blast
    from d(3) [unfolded r1(3) W [OF l1 r2]] obtain v r3 where r3: "value_at r2 = Some (v, r3)" "clean v" "d2 = dcd Object_comma (p # stk) r3"
      by blast
    have l3: "length r3 < length s" using l1 skip_ws_Cons_length [OF r2] at_shorter(1) [OF r3(1)] by simp
    from d(4) [unfolded r3(3) O [OF l3]] show ?r
    proof (elim disjE exE conjE)
      fix u assume u: "skip_ws r3 = CHR ''}'' # u" "d' = dcd (value_end p) stk u"
      have "members_at s = Some ([(k, v)], u)" using r1(1,2) r2 r3(1) u(1) by (subst members_at_iff) auto
      with r3(2) u(2) d(2) show ?r by auto
    next
      fix u ms r assume u: "skip_ws r3 = CHR '','' # u" "members_at u = Some (ms, r)" "distinct (map fst ms)"
        "set (k # seen) \<inter> set (map fst ms) = {}" "list_all (\<lambda>m. clean (snd m)) ms" "d' = dcd (value_end p) stk r"
      have "members_at s = Some ((k, v) # ms, r)" using r1(1,2) r2 r3(1) u(1,2) by (subst members_at_iff) auto
      with r3(2) u(3-6) d(2) show ?r by auto
    qed
  next
    assume ?r
    then obtain ms r where r: "members_at s = Some (ms, r)" "clean_members seen ms" "d' = dcd (value_end p) stk r" by blast
    from r(1) [unfolded members_at_iff [of s]] obtain t' k r1 r2 v r3 x u where p: "skip_ws s = CHR 0x22 # t'" "lex_string t' = Some (k, r1)"
      "skip_ws r1 = CHR '':'' # r2" "value_at r2 = Some (v, r3)" "skip_ws r3 = x # u"
      and m: "if x = CHR '','' then \<exists>ns. members_at u = Some (ns, r) \<and> ms = (k, v) # ns else x = CHR ''}'' \<and> ms = [(k, v)] \<and> r = u" by blast
    from m r(2) have cv: "clean v" "k \<notin> set seen" by (auto split: if_splits)
    have tok: "next_token (dcd q (p # stk) s) = Inr (Val (Str k), dcd Object_colon (p # stk) r1)" unfolding key using p c by auto
    have w: "walk n (dcd Object_colon (p # stk) r1) = Some (Inr (dcd Object_comma (p # stk) r3))"
      unfolding W [OF len [OF p(1,2)] p(3)] using p(4) cv by blast
    have l3: "length r3 < length s" using len [OF p(1,2)] skip_ws_Cons_length [OF p(3)] at_shorter(1) [OF p(4)] by simp
    have "closing (walk_object n (k # seen) (dcd Object_comma (p # stk) r3)) = Some (Inr d')"
      unfolding O [OF l3] using p(5) m r(2,3) by (auto split: if_splits)
    with tok w cv(2) show ?l by simp
  qed
qed

lemma accepts_object_step:
  assumes v: "accepts_value n" and o: "accepts_object n"
  shows "accepts_object (Suc n)"
proof (intro allI impI)
  fix p stk d' and seen :: "string list" and s :: string assume n: "2 * length s + 1 < Suc n"
  let ?goal = "\<lambda>q R. closing (walk_object (Suc n) seen (dcd q (p # stk) s)) = Some (Inr d') \<longleftrightarrow>
       (\<exists>t. skip_ws s = CHR ''}'' # t \<and> d' = dcd (value_end p) stk t) \<or> R"
  let ?e = "\<lambda>t. \<exists>ms r. members_at t = Some (ms, r) \<and> clean_members seen ms \<and> d' = dcd (value_end p) stk r"
  have "?goal Object_start (?e s) \<and> ?goal Object_comma (\<exists>t. skip_ws s = CHR '','' # t \<and> ?e t)"
  proof (cases "skip_ws s")
    case Nil
    then have "\<not> more (dcd q (p # stk) s)" for q by (simp add: more_def)
    moreover have "members_at s \<noteq> Some x" for x using Nil members_at_start [of s "fst x" "snd x"] by auto
    ultimately show ?thesis using Nil token_empty [OF Nil] by (simp add: closing_def)
  next
    case c: (Cons c t)
    note l = skip_ws_Cons_length [OF c]
    consider (stop) "c = CHR ''}''" | (bracket) "c = CHR '']''" | (go) "c \<noteq> CHR '']''" "c \<noteq> CHR ''}''" by blast
    then show ?thesis
    proof cases
      case stop
      then have "\<not> more (dcd q (p # stk) s)" for q by (simp add: more_def c)
      moreover have "members_at s \<noteq> Some x" for x using c stop members_at_start [of s "fst x" "snd x"] by auto
      ultimately show ?thesis using c stop token_close(2) [of s t] by (auto simp: closing_def)
    next
      case bracket
      then have "\<not> more (dcd q (p # stk) s)" for q by (simp add: more_def c)
      moreover have "members_at s \<noteq> Some x" for x using c bracket members_at_start [of s "fst x" "snd x"] by auto
      ultimately show ?thesis using c bracket token_no_close(1) [of s t] by (simp add: closing_def)
    next
      case go
      then have m: "more (dcd q (p # stk) s)" for q by (simp add: more_def c)
      have "?goal Object_start (?e s)"
        using object_member [OF v o _ _ c, of Object_start seen p stk d'] n m c go by simp
      moreover have "?goal Object_comma (\<exists>t. skip_ws s = CHR '','' # t \<and> ?e t)"
      proof (cases "c = CHR '',''")
        case True
        have tok: "next_token (dcd Object_comma (p # stk) s) = next_token (dcd Object_key (p # stk) t)"
          by (rule token_sep(2) [OF c [unfolded True]])
        show ?thesis
        proof (cases "skip_ws t")
          case Nil
          moreover have "members_at t \<noteq> Some x" for x using Nil members_at_start [of t "fst x" "snd x"] by auto
          ultimately show ?thesis using m c True tok token_empty [OF Nil] by simp
        next
          case (Cons x u)
          with object_member [OF v o _ _ Cons, of Object_key seen p stk d'] n l m c go True tok show ?thesis by simp
        qed
      next
        case False
        have "next_token (dcd Object_comma (p # stk) s) = Inl token_error" using token_wrong(1) [OF c go False] by simp
        with m False c go show ?thesis by simp
      qed
      ultimately show ?thesis by blast
    qed
  qed
  then show "?goal Object_start (?e s) \<and> ?goal Object_comma (\<exists>t ms r. skip_ws s = CHR '','' # t \<and> members_at t = Some (ms, r) \<and> clean_members seen ms \<and> d' = dcd (value_end p) stk r)"
    by blast
qed

lemma accepts_all: "accepts_value n \<and> accepts_array n \<and> accepts_object n"
proof (induction n)
  case (Suc n)
  note v = conjunct1 [OF Suc] and a = conjunct1 [OF conjunct2 [OF Suc]] and o = conjunct2 [OF conjunct2 [OF Suc]]
  show ?case
    by (rule conjI [OF accepts_value_step [OF a o] conjI [OF accepts_array_step [OF v a] accepts_object_step [OF v o]]])
qed simp

lemma walk_exact:
  "walk (walk_fuel b) (decoder_of b) = Some (Inr d) \<longleftrightarrow> (\<exists>v r. value_at b = Some (v, r) \<and> clean v \<and> d = dcd Top_value [] r)"
  using accepts_all [of "walk_fuel b", THEN conjunct1, rule_format, of Top_value b "[]" d]
  by (simp add: walk_fuel_def decoder_of_def value_allowed_def)

subsection \<open>The walk ends\<close>

text \<open>Every step of the walk takes a token, so fuel that exceeds the text suffices.\<close>

lemma walk_rest:
  "(\<forall>d d'. walk n d = Some (Inr d') \<longrightarrow> length (dc_rest d') < length (dc_rest d))
   \<and> (\<forall>seen d d'. walk_object n seen d = Some (Inr d') \<longrightarrow> length (dc_rest d') \<le> length (dc_rest d))
   \<and> (\<forall>d d'. walk_array n d = Some (Inr d') \<longrightarrow> length (dc_rest d') \<le> length (dc_rest d))"
proof (induction n)
  case (Suc n)
  then have v: "\<And>d d'. walk n d = Some (Inr d') \<Longrightarrow> length (dc_rest d') < length (dc_rest d)"
    and o: "\<And>seen d d'. walk_object n seen d = Some (Inr d') \<Longrightarrow> length (dc_rest d') \<le> length (dc_rest d)"
    and a: "\<And>d d'. walk_array n d = Some (Inr d') \<Longrightarrow> length (dc_rest d') \<le> length (dc_rest d)" by blast+
  have cl: "length (dc_rest d') < length (dc_rest d)" if "closing x = Some (Inr d')" "\<And>y. x = Some (Inr y) \<Longrightarrow> length (dc_rest y) \<le> length (dc_rest d)" for x d d'
    using that next_token_shorter by (fastforce simp: closing_def split: option.splits sum.splits prod.splits)
  have "length (dc_rest d') < length (dc_rest d)" if run: "walk (Suc n) d = Some (Inr d')" for d d'
  proof -
    from run obtain t d1 where t: "next_token d = Inr (t, d1)" by (auto split: sum.splits)
    note l = next_token_shorter [OF t]
    have "d' = d1 \<or> (\<exists>x. closing x = Some (Inr d') \<and> (x = walk_object n [] d1 \<or> x = walk_array n d1))"
      using run t by (auto split: token.splits if_splits)
    then show ?thesis
    proof (elim disjE exE conjE)
      fix x assume x: "closing x = Some (Inr d')" "x = walk_object n [] d1"
      from cl [OF x(1), of d1] o x(2) l show ?thesis by fastforce
    next
      fix x assume x: "closing x = Some (Inr d')" "x = walk_array n d1"
      from cl [OF x(1), of d1] a x(2) l show ?thesis by fastforce
    qed (use l in simp)
  qed
  moreover have "length (dc_rest d') \<le> length (dc_rest d)" if run: "walk_object (Suc n) seen d = Some (Inr d')" for seen d d'
  proof (cases "more d")
    case True
    with run obtain s d1 d2 where t: "next_token d = Inr (Val (Str s), d1)" "walk n d1 = Some (Inr d2)" "walk_object n (s # seen) d2 = Some (Inr d')"
      by (auto split: sum.splits token.splits json.splits option.splits if_splits)
    from next_token_shorter [OF t(1)] v [OF t(2)] o [OF t(3)] show ?thesis by simp
  qed (use run in simp)
  moreover have "length (dc_rest d') \<le> length (dc_rest d)" if run: "walk_array (Suc n) d = Some (Inr d')" for d d'
  proof (cases "more d")
    case True
    with run obtain d1 where t: "walk n d = Some (Inr d1)" "walk_array n d1 = Some (Inr d')"
      by (auto split: sum.splits option.splits if_splits)
    from v [OF t(1)] a [OF t(2)] show ?thesis by simp
  qed (use run in simp)
  ultimately show ?case by blast
qed simp

lemma walk_runs:
  "(\<forall>d. 2 * length (dc_rest d) < n \<longrightarrow> walk n d \<noteq> None)
   \<and> (\<forall>seen d. 2 * length (dc_rest d) + 1 < n \<longrightarrow> walk_object n seen d \<noteq> None)
   \<and> (\<forall>d. 2 * length (dc_rest d) + 1 < n \<longrightarrow> walk_array n d \<noteq> None)"
proof (induction n)
  case (Suc n)
  note v = conjunct1 [OF Suc, rule_format] and o = conjunct1 [OF conjunct2 [OF Suc], rule_format] and a = conjunct2 [OF conjunct2 [OF Suc], rule_format]
  have cl: "closing x \<noteq> None" if "x \<noteq> None" for x
    using that by (auto simp: closing_def split: option.splits sum.splits)
  have "walk (Suc n) d \<noteq> None" if n: "2 * length (dc_rest d) < Suc n" for d
  proof (cases "next_token d")
    case (Inr x)
    obtain t d1 where x: "x = (t, d1)" by (cases x)
    from next_token_shorter [OF Inr [unfolded x]] n have "2 * length (dc_rest d1) + 1 < n" by simp
    from o [OF this] a [OF this] show ?thesis unfolding walk.simps Inr x
      by (auto split: token.splits simp del: not_None_eq intro!: cl)
  qed simp
  moreover have "walk_object (Suc n) seen d \<noteq> None" if n: "2 * length (dc_rest d) + 1 < Suc n" for seen d
  proof (cases "next_token d")
    case (Inr x)
    obtain t d1 where x: "x = (t, d1)" by (cases x)
    have l: "length (dc_rest d1) < length (dc_rest d)" by (rule next_token_shorter [OF Inr [unfolded x]])
    have w: "walk n d1 \<noteq> None" using l n by (intro v) simp
    have "walk_object n s d2 \<noteq> None" if "walk n d1 = Some (Inr d2)" for s d2
      using walk_rest [of n] that l n by (intro o) fastforce
    with w show ?thesis unfolding walk_object.simps Inr x
      by (auto split: token.splits json.splits option.splits sum.splits)
  qed simp
  moreover have "walk_array (Suc n) d \<noteq> None" if n: "2 * length (dc_rest d) + 1 < Suc n" for d
  proof -
    have w: "walk n d \<noteq> None" using n by (intro v) simp
    have "walk_array n d2 \<noteq> None" if "walk n d = Some (Inr d2)" for d2
      using walk_rest [of n] that n by (intro a) fastforce
    with w show ?thesis by (auto split: option.splits sum.splits)
  qed
  ultimately show ?case by blast
qed simp

lemma walk_ends: "\<exists>r. walk (walk_fuel b) (decoder_of b) = Some r"
  using walk_runs [of "walk_fuel b", THEN conjunct1, rule_format, of "decoder_of b"] by (auto simp: walk_fuel_def decoder_of_def)

lemma next_token_end: "next_token (dcd Top_value [] r) = Inl err_eof \<longleftrightarrow> skip_ws r = []"
proof (cases "skip_ws r")
  case (Cons c t)
  have "scalar_token (c # t) \<noteq> Inl err_eof"
    by (auto simp: scalar_token_def err_eof_def token_error_def split: option.splits json.splits)
  with Cons show ?thesis
    by (subst next_token.simps) (auto simp: open_delim_def close_delim_def value_allowed_def token_error_def err_eof_def split: sum.splits)
qed (simp add: token_empty)

text \<open>What \<^verbatim>\<open>CheckJSON\<close> accepts.\<close>

lemma check_json_iff: "check_json b = None \<longleftrightarrow> (\<exists>v. json_text b = Some v \<and> clean v)"
proof -
  obtain x where x: "walk (walk_fuel b) (decoder_of b) = Some x" using walk_ends by blast
  show ?thesis
  proof (cases x)
    case (Inl e)
    then have "\<not> (\<exists>v r. value_at b = Some (v, r) \<and> clean v)" using walk_exact [of b] x by auto
    with Inl x show ?thesis by (auto simp: check_json_def json_text_def value_at_def split: option.splits if_splits)
  next
    case (Inr d)
    then obtain v r where v: "value_at b = Some (v, r)" "clean v" "d = dcd Top_value [] r" using walk_exact [of b d] x by auto
    have "check_json b = None \<longleftrightarrow> skip_ws r = []"
      using x Inr v(3) next_token_end [of r] by (auto simp: check_json_def split: sum.splits if_splits)
    with v show ?thesis by (auto simp: json_text_def value_at_def)
  qed
qed

section \<open>Exact names\<close>

text \<open>A type, as far as the check looks: structures with their names, everything else.\<close>

datatype gotype = Plain | Struct "(string \<times> gotype) list"

definition config_type :: gotype where
  "config_type = Struct
     [(''version'', Plain), (''listen'', Plain), (''domains'', Plain),
      (''upstream'', Struct [(''port'', Plain), (''profile'', Plain), (''alpn_mode'', Plain)]),
      (''dns'', Struct [(''mode'', Plain), (''servers'', Plain), (''refresh_interval'', Plain), (''timeout'', Plain), (''cache_size'', Plain)]),
      (''ca'', Struct [(''cert'', Plain), (''key'', Plain)]),
      (''hosts'', Struct [(''address'', Plain)]),
      (''access'', Struct [(''client_cidrs'', Plain)]),
      (''runtime'', Struct [(''state_dir'', Plain), (''control_socket'', Plain), (''max_connections'', Plain),
         (''handshake_timeout'', Plain), (''idle_timeout'', Plain), (''shutdown_timeout'', Plain)]),
      (''log'', Struct [(''level'', Plain), (''format'', Plain)])]"

text \<open>
  A name that occurs again later is overwritten in the map \<^verbatim>\<open>fields\<close>, so only its last
  value is looked at.
\<close>

function exact_fields :: "json \<Rightarrow> gotype \<Rightarrow> go_error option"
  and exact_members :: "(string \<times> json) list \<Rightarrow> (string \<times> gotype) list \<Rightarrow> go_error option" where
  "exact_fields v Plain = None"
| "exact_fields (Obj ms) (Struct fs) = exact_members ms fs"
| "exact_fields Null (Struct fs) = None"
| "exact_fields (Bool b) (Struct fs) = Some type_error"
| "exact_fields (Num n) (Struct fs) = Some type_error"
| "exact_fields (Str s) (Struct fs) = Some type_error"
| "exact_fields (Arr vs) (Struct fs) = Some type_error"
| "exact_members [] fs = None"
| "exact_members ((name, v) # ms) fs =
     (if name \<in> fst ` set ms then exact_members ms fs
      else
        case map_of fs name of
          None \<Rightarrow> Some (New (''unknown configuration field '' @ quote name))
        | Some t \<Rightarrow> (case exact_fields v t of Some e \<Rightarrow> Some (Wrapf name e) | None \<Rightarrow> exact_members ms fs))"
  by pat_completeness auto
termination
  by (relation "measure (case_sum (\<lambda>(v, t). 2 * size v) (\<lambda>(ms, fs). 2 * size_list (size_prod (\<lambda>_. 0) size) ms + 1))") auto

section \<open>Decoding\<close>

text \<open>\<^verbatim>\<open>Duration.UnmarshalJSON\<close>: the method is called for \<^verbatim>\<open>null\<close> too.\<close>

definition dec_duration :: "((int \<Rightarrow> int) \<Rightarrow> 'c \<Rightarrow> 'c) \<Rightarrow> 'c field_dec" where
  "dec_duration upd v st =
     (case (case v of Str s \<Rightarrow> Inr s | Null \<Rightarrow> Inr [] | _ \<Rightarrow> Inl type_error) of
       Inl e \<Rightarrow> Inl e
     | Inr s \<Rightarrow> (case parse_duration s of Inl e \<Rightarrow> Inl e | Inr d \<Rightarrow> Inr (upd (\<lambda>_. d) (fst st), snd st)))"

definition upstream_fields :: "(string \<times> config field_dec) list" where
  "upstream_fields =
     [(''port'', dec_int (\<lambda>f. c_upstream_update (up_port_update f))),
      (''profile'', dec_string (\<lambda>f. c_upstream_update (up_profile_update f))),
      (''alpn_mode'', dec_string (\<lambda>f. c_upstream_update (up_alpn_mode_update f)))]"

definition dns_fields :: "(string \<times> config field_dec) list" where
  "dns_fields =
     [(''mode'', dec_string (\<lambda>f. c_dns_update (dns_mode_update f))),
      (''servers'', dec_strings (\<lambda>f. c_dns_update (dns_servers_update f)) (\<lambda>c. dns_servers (c_dns c))),
      (''refresh_interval'', dec_duration (\<lambda>f. c_dns_update (dns_refresh_update f))),
      (''timeout'', dec_duration (\<lambda>f. c_dns_update (dns_timeout_update f))),
      (''cache_size'', dec_int (\<lambda>f. c_dns_update (dns_cache_size_update f)))]"

definition runtime_fields :: "(string \<times> config field_dec) list" where
  "runtime_fields =
     [(''state_dir'', dec_string (\<lambda>f. c_runtime_update (rt_state_dir_update f))),
      (''control_socket'', dec_string (\<lambda>f. c_runtime_update (rt_control_socket_update f))),
      (''max_connections'', dec_int (\<lambda>f. c_runtime_update (rt_max_connections_update f))),
      (''handshake_timeout'', dec_duration (\<lambda>f. c_runtime_update (rt_handshake_update f))),
      (''idle_timeout'', dec_duration (\<lambda>f. c_runtime_update (rt_idle_update f))),
      (''shutdown_timeout'', dec_duration (\<lambda>f. c_runtime_update (rt_shutdown_update f)))]"

definition ca_fields :: "(string \<times> config field_dec) list" where
  "ca_fields = [(''cert'', dec_string c_ca_cert_update), (''key'', dec_string c_ca_key_update)]"

definition hosts_fields :: "(string \<times> config field_dec) list" where
  "hosts_fields = [(''address'', dec_string c_hosts_address_update)]"

definition access_fields :: "(string \<times> config field_dec) list" where
  "access_fields = [(''client_cidrs'', dec_strings c_client_cidrs_update c_client_cidrs)]"

definition log_fields :: "(string \<times> config field_dec) list" where
  "log_fields = [(''level'', dec_string c_log_level_update), (''format'', dec_string c_log_format_update)]"

definition config_fields :: "(string \<times> config field_dec) list" where
  "config_fields =
     [(''version'', dec_int c_version_update),
      (''listen'', dec_strings c_listen_update c_listen),
      (''domains'', dec_strings c_domains_update c_domains),
      (''upstream'', dec_struct True upstream_fields),
      (''dns'', dec_struct True dns_fields),
      (''ca'', dec_struct True ca_fields),
      (''hosts'', dec_struct True hosts_fields),
      (''access'', dec_struct True access_fields),
      (''runtime'', dec_struct True runtime_fields),
      (''log'', dec_struct True log_fields)]"

section \<open>Loading\<close>

definition decode_config :: "goos \<Rightarrow> json \<Rightarrow> config res" where
  "decode_config os v = dec_result (dec_struct True config_fields v (defaults os, None))"

definition abs_from :: "path \<Rightarrow> path \<Rightarrow> path" where
  "abs_from base p = (if p \<noteq> [] \<and> \<not> is_abs p then path_join base p else p)"

definition abs_paths :: "path \<Rightarrow> config \<Rightarrow> config" where
  "abs_paths base c =
     c\<lparr>c_ca_cert := abs_from base (c_ca_cert c), c_ca_key := abs_from base (c_ca_key c),
       c_runtime := (c_runtime c)\<lparr>rt_state_dir := abs_from base (rt_state_dir (c_runtime c)),
         rt_control_socket := abs_from base (rt_control_socket (c_runtime c))\<rparr>\<rparr>"

text \<open>From the bytes to the decoded configuration; an error of the conversion goes with no configuration.\<close>

definition read_config :: "goos \<Rightarrow> string \<Rightarrow> config res" where
  "read_config os b =
     (case check_json b of
       Some e \<Rightarrow> Inl e
     | None \<Rightarrow>
         (case unmarshal b of
           Inl e \<Rightarrow> Inl e
         | Inr v \<Rightarrow> (case exact_fields v config_type of Some e \<Rightarrow> Inl e | None \<Rightarrow> decode_config os v)))"

definition max_config :: nat where
  "max_config = 1024 * 1024"

definition load_config :: "goos \<Rightarrow> (string \<Rightarrow> string res) \<Rightarrow> path \<Rightarrow> config io" where
  "load_config os to_ascii path =
     bind_io (sys_read path) (\<lambda>b.
     bind_io (guard (length b > max_config) (New ''configuration exceeds 1 MiB'')) (\<lambda>_.
     bind_io (of_res (read_config os b)) (\<lambda>c.
     bind_io (path_abs (path_dir path)) (\<lambda>base.
     case validate to_ascii (abs_paths base c) of
       (c', Some e) \<Rightarrow> throw e
     | (c', None) \<Rightarrow> ret c'))))"


section \<open>What a loaded configuration holds\<close>

text \<open>
  The settings by their path in the text, and the value a text gives a setting: the kind of the
  setting decides how it is read.
\<close>

datatype setting = Text string | Number int | Texts "string list" | Time int

definition settings :: "(string list \<times> (config \<Rightarrow> setting)) list" where
  "settings =
     [([''version''], \<lambda>c. Number (c_version c)), ([''listen''], \<lambda>c. Texts (c_listen c)), ([''domains''], \<lambda>c. Texts (c_domains c)),
      ([''upstream'', ''port''], \<lambda>c. Number (up_port (c_upstream c))), ([''upstream'', ''profile''], \<lambda>c. Text (up_profile (c_upstream c))),
      ([''upstream'', ''alpn_mode''], \<lambda>c. Text (up_alpn_mode (c_upstream c))),
      ([''dns'', ''mode''], \<lambda>c. Text (dns_mode (c_dns c))), ([''dns'', ''servers''], \<lambda>c. Texts (dns_servers (c_dns c))),
      ([''dns'', ''refresh_interval''], \<lambda>c. Time (dns_refresh (c_dns c))), ([''dns'', ''timeout''], \<lambda>c. Time (dns_timeout (c_dns c))),
      ([''dns'', ''cache_size''], \<lambda>c. Number (dns_cache_size (c_dns c))),
      ([''ca'', ''cert''], \<lambda>c. Text (c_ca_cert c)), ([''ca'', ''key''], \<lambda>c. Text (c_ca_key c)),
      ([''hosts'', ''address''], \<lambda>c. Text (c_hosts_address c)), ([''access'', ''client_cidrs''], \<lambda>c. Texts (c_client_cidrs c)),
      ([''runtime'', ''state_dir''], \<lambda>c. Text (rt_state_dir (c_runtime c))),
      ([''runtime'', ''control_socket''], \<lambda>c. Text (rt_control_socket (c_runtime c))),
      ([''runtime'', ''max_connections''], \<lambda>c. Number (rt_max_connections (c_runtime c))),
      ([''runtime'', ''handshake_timeout''], \<lambda>c. Time (rt_handshake (c_runtime c))),
      ([''runtime'', ''idle_timeout''], \<lambda>c. Time (rt_idle (c_runtime c))),
      ([''runtime'', ''shutdown_timeout''], \<lambda>c. Time (rt_shutdown (c_runtime c))),
      ([''log'', ''level''], \<lambda>c. Text (c_log_level c)), ([''log'', ''format''], \<lambda>c. Text (c_log_format c))]"

fun is_text :: "json \<Rightarrow> bool" where
  "is_text (Str s) = True"
| "is_text v = False"

fun text_of :: "json \<Rightarrow> string" where
  "text_of (Str s) = s"
| "text_of v = []"

fun reads :: "setting \<Rightarrow> json \<Rightarrow> setting option" where
  "reads (Text x) (Str s) = Some (Text s)"
| "reads (Number x) (Num lit) = map_option Number (atoi lit)"
| "reads (Texts x) (Arr vs) = (if list_all is_text vs then Some (Texts (map text_of vs)) else None)"
| "reads (Time x) (Str s) = (case parse_duration s of Inl e \<Rightarrow> None | Inr d \<Rightarrow> Some (Time d))"
| "reads x v = None"

fun at_path :: "string list \<Rightarrow> json \<Rightarrow> json option" where
  "at_path [] v = Some v"
| "at_path (k # ks) (Obj ms) = (case map_of ms k of None \<Rightarrow> None | Some v \<Rightarrow> at_path ks v)"
| "at_path (k # ks) v = None"

definition setting_in :: "json \<Rightarrow> config \<Rightarrow> config \<Rightarrow> string list \<Rightarrow> (config \<Rightarrow> setting) \<Rightarrow> bool" where
  "setting_in v c0 c ks get =
     ((case at_path ks v of None \<Rightarrow> Some (get c0) | Some j \<Rightarrow> reads (get c0) j) = Some (get c))"

abbreviation taken :: "json \<Rightarrow> setting \<Rightarrow> setting \<Rightarrow> bool" where
  "taken j old new \<equiv> reads old j = Some new"

lemma dec_elems_text: "list_all (\<lambda>v. v \<noteq> Null) vs \<Longrightarrow> dec_elems old vs = (xs, True) \<Longrightarrow> list_all is_text vs \<and> xs = map text_of vs"
proof (induction vs arbitrary: old xs)
  case (Cons v vs)
  obtain ys good where e: "dec_elems (drop 1 old) vs = (ys, good)" by (cases "dec_elems (drop 1 old) vs")
  with Cons show ?case by (cases v) (auto simp: Let_def)
qed simp

lemma dec_duration_cases:
  assumes "dec_duration u v st = Inr st'" "v \<noteq> Null"
  obtains s d where "v = Str s" "parse_duration s = Inr d" "st' = (u (\<lambda>_. d) (fst st), snd st)"
  using assms by (cases v) (auto simp: dec_duration_def split: sum.splits)

lemma remembers_duration [simp]: "remembers (dec_duration u)"
  by (rule remembersI) (auto simp: dec_duration_def split: sum.splits)

lemma leaves_duration [simp]: "(\<And>h c. get (u h c) = get c) \<Longrightarrow> leaves get (dec_duration u)"
  by (rule leavesI) (auto simp: dec_duration_def split: sum.splits)

text \<open>Decoders of single settings; they are only asked about values without null.\<close>

definition takes :: "(config \<Rightarrow> setting) \<Rightarrow> config field_dec \<Rightarrow> bool" where
  "takes get f = sets_to get (\<lambda>j old new. clean j \<longrightarrow> taken j old new) f"

lemma sets_toI: "(\<And>v st st'. f v st = Inr st' \<Longrightarrow> snd st' = None \<Longrightarrow> v \<noteq> Null \<Longrightarrow> R v (get (fst st)) (get (fst st'))) \<Longrightarrow> sets_to get R f"
  unfolding sets_to_def by blast

lemma takes_basic [simp]:
  "(\<And>h c. g (u h c) = h (g c)) \<Longrightarrow> takes (\<lambda>c. Text (g c)) (dec_string u)"
  "(\<And>h c. n (w h c) = h (n c)) \<Longrightarrow> takes (\<lambda>c. Number (n c)) (dec_int w)"
  "(\<And>h c. n (w h c) = h (n c)) \<Longrightarrow> takes (\<lambda>c. Time (n c)) (dec_duration w)"
  unfolding takes_def
  by (rule sets_toI, erule dec_string_cases dec_int_cases dec_duration_cases; simp)+

lemma takes_strings [simp]:
  "(\<And>h c. g (u h c) = h (g c)) \<Longrightarrow> takes (\<lambda>c. Texts (g c)) (dec_strings u g')"
  unfolding takes_def
proof (rule sets_toI, erule dec_strings_cases, goal_cases)
  case (1 v st st' vs xs)
  have "list_all is_text vs \<and> xs = map text_of vs" if "clean v"
    by (rule dec_elems_text [OF _ 1(5)]) (use that 1(4) in \<open>auto simp: list_all_iff\<close>)
  with 1 show ?case by auto
qed simp_all

text \<open>Names that are all known.\<close>

definition known :: "(string \<times> 'a) list \<Rightarrow> json \<Rightarrow> bool" where
  "known fs v = (\<forall>ms. v = Obj ms \<longrightarrow> list_all (\<lambda>m. fst m \<in> fst ` set fs) ms)"

lemma clean_members_null: "clean (Obj ms) \<Longrightarrow> list_all (\<lambda>m. snd m \<noteq> Null) ms"
  by (auto simp: list_all_iff)

lemma struct_view:
  assumes "list_all (\<lambda>f. remembers (snd f)) fs" "list_all (\<lambda>f. fst f = k \<or> leaves get (snd f)) fs" "map_of fs k = Some f"
    and "sets_to get (\<lambda>j old new. clean j \<longrightarrow> P j \<longrightarrow> Q j old new) f"
    and run: "dec_struct strict fs v st = Inr st'" "snd st' = None" "v \<noteq> Null"
    and v: "clean v" "known fs v" "\<And>j. at_path [k] v = Some j \<Longrightarrow> P j"
  shows "case at_path [k] v of None \<Rightarrow> get (fst st') = get (fst st) | Some j \<Rightarrow> Q j (get (fst st)) (get (fst st'))"
proof -
  from run obtain ms where ms: "v = Obj ms" "dec_members strict fs ms st = Inr st'" by (cases v) (auto simp: dec_struct_def)
  have d: "distinct (map fst ms)" using v(1) ms(1) by simp
  have n: "list_all (\<lambda>m. fst m \<in> fst ` set fs \<and> snd m \<noteq> Null) ms"
    using v(1,2) ms(1) clean_members_null [of ms] by (auto simp: known_def list_all_iff)
  have c: "clean j" if "map_of ms k = Some j" for j using v(1) ms(1) map_of_SomeD [OF that] by (auto simp: list_all_iff)
  from dec_members_view [OF assms(1-4) ms(2) run(2) d n] v(3) c ms(1) show ?thesis
    by (cases "map_of ms k") auto
qed


lemma exact_members_None:
  assumes "distinct (map fst ms)" "exact_members ms fs = None"
  shows "list_all (\<lambda>m. \<exists>t. map_of fs (fst m) = Some t \<and> exact_fields (snd m) t = None) ms"
  using assms
proof (induction ms)
  case (Cons m ms)
  obtain k v where m: "m = (k, v)" by (cases m)
  with Cons.prems have new: "k \<notin> fst ` set ms" by simp
  with Cons.prems(2) m obtain t where t: "map_of fs k = Some t" "exact_fields v t = None" "exact_members ms fs = None"
    by (auto split: option.splits)
  with Cons.IH Cons.prems(1) m show ?case by simp
qed simp

text \<open>Names that match a structure type belong to the table with the same names.\<close>

lemma exact_known:
  assumes "clean v" "exact_fields v (Struct ts) = None" "map fst ts = map fst fs"
  shows "known fs v" "at_path [k] v = Some j \<Longrightarrow> \<exists>t. map_of ts k = Some t \<and> exact_fields j t = None"
proof -
  have m: "list_all (\<lambda>m. \<exists>t. map_of ts (fst m) = Some t \<and> exact_fields (snd m) t = None) ms" if "v = Obj ms" for ms
    using assms(1,2) that by (intro exact_members_None) auto
  have "fst ` set ts = fst ` set fs" using assms(3) by (metis list.set_map)
  then show "known fs v"
    using m by (fastforce simp: known_def list_all_iff dest: map_of_SomeD intro: rev_image_eqI)
  show "\<exists>t. map_of ts k = Some t \<and> exact_fields j t = None" if "at_path [k] v = Some j"
  proof -
    from that obtain ms where ms: "v = Obj ms" "map_of ms k = Some j" by (cases v) (auto split: option.splits)
    from m [OF ms(1)] map_of_SomeD [OF ms(2)] show ?thesis by (auto simp: list_all_iff)
  qed
qed

lemma inner_view:
  assumes "list_all (\<lambda>f. remembers (snd f)) fs" "list_all (\<lambda>f. fst f = k \<or> leaves get (snd f)) fs" "map_of fs k = Some f" "takes get f"
  shows "sets_to get (\<lambda>j old new. clean j \<longrightarrow> known fs j \<longrightarrow>
    (case at_path [k] j of None \<Rightarrow> new = old | Some i \<Rightarrow> taken i old new)) (dec_struct strict fs)"
proof (rule sets_toI, intro impI)
  fix v st st' assume run: "dec_struct strict fs v st = Inr st'" "snd st' = None" "v \<noteq> Null" and v: "clean v" "known fs v"
  have "sets_to get (\<lambda>j old new. clean j \<longrightarrow> True \<longrightarrow> taken j old new) f" using assms(4) by (simp add: takes_def)
  from struct_view [OF assms(1-3) this run v] show "case at_path [k] v of None \<Rightarrow> get (fst st') = get (fst st) | Some i \<Rightarrow> taken i (get (fst st)) (get (fst st'))"
    by simp
qed

lemmas tables = config_fields_def upstream_fields_def dns_fields_def runtime_fields_def ca_fields_def hosts_fields_def
  access_fields_def log_fields_def config_type_def

text \<open>The run of a decoded configuration, for the views of its settings.\<close>

definition decoded :: "goos \<Rightarrow> json \<Rightarrow> config \<Rightarrow> bool" where
  "decoded os v c =
     (clean v \<and> v \<noteq> Null \<and> exact_fields v config_type = None
      \<and> dec_struct True config_fields v (defaults os, None) = Inr (c, None))"

lemma config_remembers: "list_all (\<lambda>f. remembers (snd f)) config_fields"
  by (simp add: tables)

lemma decoded_known:
  assumes "decoded os v c"
  shows "known config_fields v"
    and "config_type = Struct ts \<Longrightarrow> at_path [k] v = Some j \<Longrightarrow> \<exists>t. map_of ts k = Some t \<and> exact_fields j t = None"
    and "at_path [k] v = Some j \<Longrightarrow> clean j"
proof -
  obtain ts where ts: "config_type = Struct ts" "map fst ts = map fst config_fields"
    by (simp add: config_type_def config_fields_def)
  from assms have v: "clean v" "exact_fields v (Struct ts) = None" by (simp_all add: decoded_def ts(1))
  show "known config_fields v" by (rule exact_known(1) [OF v ts(2)])
  show "\<exists>t. map_of ts' k = Some t \<and> exact_fields j t = None" if "config_type = Struct ts'" "at_path [k] v = Some j" for ts'
  proof -
    from that(1) ts(1) have "ts' = ts" by (metis gotype.inject)
    with exact_known(2) [OF v ts(2) that(2)] show ?thesis by simp
  qed
  show "clean j" if "at_path [k] v = Some j"
    using that v(1) by (cases v) (auto simp: list_all_iff split: option.splits dest!: map_of_SomeD)
qed

lemma single_setting:
  assumes d: "decoded os v c" and "list_all (\<lambda>f. fst f = k \<or> leaves get (snd f)) config_fields" "map_of config_fields k = Some f" "takes get f"
  shows "setting_in v (defaults os) c [k] get"
proof -
  from d have run: "dec_struct True config_fields v (defaults os, None) = Inr (c, None)" "snd (c, None :: go_error option) = None" "v \<noteq> Null" "clean v"
    by (simp_all add: decoded_def)
  have "sets_to get (\<lambda>j old new. clean j \<longrightarrow> True \<longrightarrow> taken j old new) f" using assms(4) by (simp add: takes_def)
  from struct_view [OF config_remembers assms(2,3) this run decoded_known(1) [OF d]] show ?thesis
    by (auto simp: setting_in_def split: option.splits)
qed

lemma at_path_two: "at_path [k, l] v = (case at_path [k] v of None \<Rightarrow> None | Some j \<Rightarrow> at_path [l] j)"
  by (cases v) (auto split: option.splits)

lemma nested_setting:
  assumes d: "decoded os v c" and "list_all (\<lambda>f. fst f = k \<or> leaves get (snd f)) config_fields" "map_of config_fields k = Some (dec_struct True fs)"
    and i: "list_all (\<lambda>f. remembers (snd f)) fs" "list_all (\<lambda>f. fst f = l \<or> leaves get (snd f)) fs" "map_of fs l = Some f" "takes get f"
    and ts: "config_type = Struct ts" "map_of ts k = Some (Struct us)" "map fst us = map fst fs"
  shows "setting_in v (defaults os) c [k, l] get"
proof -
  from d have run: "dec_struct True config_fields v (defaults os, None) = Inr (c, None)" "snd (c, None :: go_error option) = None" "v \<noteq> Null" "clean v"
    by (simp_all add: decoded_def)
  have "known fs j" if "at_path [k] v = Some j" for j
    using exact_known(1) [OF decoded_known(3) [OF d that] _ ts(3)] decoded_known(2) [OF d ts(1) that] ts(2) by simp
  from struct_view [OF config_remembers assms(2,3) inner_view [OF i] run decoded_known(1) [OF d] this] show ?thesis
    by (auto simp: setting_in_def at_path_two split: option.splits)
qed

text \<open>The same with the decoder computed from the table, for use by simplification.\<close>

lemma plain_setting:
  assumes "decoded os v c" "map_of config_fields k \<noteq> None" "takes get (the (map_of config_fields k))"
    and "list_all (\<lambda>f. fst f = k \<or> leaves get (snd f)) config_fields"
  shows "setting_in v (defaults os) c [k] get"
  using assms(2) single_setting [OF assms(1,4) _ assms(3)] by force

lemma section_setting:
  assumes "decoded os v c" "map_of config_fields k = Some (dec_struct True fs)"
    and "list_all (\<lambda>f. fst f = k \<or> leaves get (snd f)) config_fields"
    and "\<exists>ts us. config_type = Struct ts \<and> map_of ts k = Some (Struct us) \<and> map fst us = map fst fs"
    and "list_all (\<lambda>f. remembers (snd f)) fs" "list_all (\<lambda>f. fst f = l \<or> leaves get (snd f)) fs"
    and "map_of fs l \<noteq> None" "takes get (the (map_of fs l))"
  shows "setting_in v (defaults os) c [k, l] get"
  using assms(4,7) nested_setting [OF assms(1,3,2,5,6) _ assms(8)] by force

lemma decoded_settings:
  assumes d: "decoded os v c"
  shows "list_all (\<lambda>(ks, get). setting_in v (defaults os) c ks get) settings"
proof -
  note plain = plain_setting [OF d]
  have top: "setting_in v (defaults os) c [''version''] (\<lambda>c. Number (c_version c))"
    "setting_in v (defaults os) c [''listen''] (\<lambda>c. Texts (c_listen c))"
    "setting_in v (defaults os) c [''domains''] (\<lambda>c. Texts (c_domains c))"
    by (rule plain; simp add: tables)+
  have up: "setting_in v (defaults os) c [''upstream'', ''port''] (\<lambda>c. Number (up_port (c_upstream c)))"
    "setting_in v (defaults os) c [''upstream'', ''profile''] (\<lambda>c. Text (up_profile (c_upstream c)))"
    "setting_in v (defaults os) c [''upstream'', ''alpn_mode''] (\<lambda>c. Text (up_alpn_mode (c_upstream c)))"
    by (rule section_setting [OF d, where fs = upstream_fields]; simp add: tables)+
  have dns: "setting_in v (defaults os) c [''dns'', ''mode''] (\<lambda>c. Text (dns_mode (c_dns c)))"
    "setting_in v (defaults os) c [''dns'', ''servers''] (\<lambda>c. Texts (dns_servers (c_dns c)))"
    "setting_in v (defaults os) c [''dns'', ''refresh_interval''] (\<lambda>c. Time (dns_refresh (c_dns c)))"
    "setting_in v (defaults os) c [''dns'', ''timeout''] (\<lambda>c. Time (dns_timeout (c_dns c)))"
    "setting_in v (defaults os) c [''dns'', ''cache_size''] (\<lambda>c. Number (dns_cache_size (c_dns c)))"
    by (rule section_setting [OF d, where fs = dns_fields]; simp add: tables)+
  have rest: "setting_in v (defaults os) c [''hosts'', ''address''] (\<lambda>c. Text (c_hosts_address c))"
    "setting_in v (defaults os) c [''access'', ''client_cidrs''] (\<lambda>c. Texts (c_client_cidrs c))"
    by (rule section_setting [OF d, where fs = hosts_fields] section_setting [OF d, where fs = access_fields]; simp add: tables; fail)+
  have ca: "setting_in v (defaults os) c [''ca'', ''cert''] (\<lambda>c. Text (c_ca_cert c))"
    "setting_in v (defaults os) c [''ca'', ''key''] (\<lambda>c. Text (c_ca_key c))"
    by (rule section_setting [OF d, where fs = ca_fields]; simp add: tables)+
  have runtime: "setting_in v (defaults os) c [''runtime'', ''state_dir''] (\<lambda>c. Text (rt_state_dir (c_runtime c)))"
    "setting_in v (defaults os) c [''runtime'', ''control_socket''] (\<lambda>c. Text (rt_control_socket (c_runtime c)))"
    "setting_in v (defaults os) c [''runtime'', ''max_connections''] (\<lambda>c. Number (rt_max_connections (c_runtime c)))"
    "setting_in v (defaults os) c [''runtime'', ''handshake_timeout''] (\<lambda>c. Time (rt_handshake (c_runtime c)))"
    "setting_in v (defaults os) c [''runtime'', ''idle_timeout''] (\<lambda>c. Time (rt_idle (c_runtime c)))"
    "setting_in v (defaults os) c [''runtime'', ''shutdown_timeout''] (\<lambda>c. Time (rt_shutdown (c_runtime c)))"
    by (rule section_setting [OF d, where fs = runtime_fields]; simp add: tables)+
  have log: "setting_in v (defaults os) c [''log'', ''level''] (\<lambda>c. Text (c_log_level c))"
    "setting_in v (defaults os) c [''log'', ''format''] (\<lambda>c. Text (c_log_format c))"
    by (rule section_setting [OF d, where fs = log_fields]; simp add: tables)+
  show ?thesis using top up dns rest ca runtime log by (simp add: settings_def)
qed

text \<open>Only settings and their sections have names in the text.\<close>

definition type_fields :: "(string \<times> gotype) list" where
  "type_fields = (case config_type of Plain \<Rightarrow> [] | Struct ts \<Rightarrow> ts)"

definition is_setting :: "string list \<Rightarrow> bool" where
  "is_setting ks = list_ex (\<lambda>s. fst s = ks) settings"

lemma type_names:
  "list_all (\<lambda>(k, t). case t of
      Plain \<Rightarrow> is_setting [k]
    | Struct us \<Rightarrow> us \<noteq> [] \<and> list_all (\<lambda>(l, u). u = Plain \<and> is_setting [k, l]) us) type_fields"
  by (simp add: type_fields_def config_type_def is_setting_def settings_def)

lemma at_path_append: "at_path (ks @ ls) v = (case at_path ks v of None \<Rightarrow> None | Some j \<Rightarrow> at_path ls j)"
  by (induction ks v rule: at_path.induct) (auto split: option.splits)

lemma setting_flat:
  assumes d: "decoded os v c" and s: "is_setting ks" and p: "at_path (ks @ ls) v \<noteq> None"
  shows "ls = []"
proof -
  from s decoded_settings [OF d] obtain get where g: "setting_in v (defaults os) c ks get"
    by (auto simp: is_setting_def list_ex_iff list_all_iff)
  from p obtain j where j: "at_path ks v = Some j" "at_path ls j \<noteq> None" by (auto simp: at_path_append split: option.splits)
  with g have "reads (get (defaults os)) j \<noteq> None" by (simp add: setting_in_def)
  then have "\<not> (\<exists>ms. j = Obj ms)" by (cases "get (defaults os)") auto
  with j(2) show ?thesis by (cases ls; cases j) auto
qed

lemma decoded_names:
  assumes d: "decoded os v c" and p: "at_path ks v \<noteq> None"
  shows "\<exists>more. is_setting (ks @ more)"
proof (cases ks)
  case Nil
  have "is_setting ([] @ [''version''])" by (simp add: is_setting_def settings_def)
  with Nil show ?thesis by blast
next
  case (Cons k ls)
  with p obtain j where j: "at_path [k] v = Some j" "at_path ls j \<noteq> None"
    using at_path_append [of "[k]" ls v] by (auto split: option.splits)
  have ts: "config_type = Struct type_fields" by (simp add: type_fields_def config_type_def)
  from decoded_known(2) [OF d ts j(1)] obtain t where t: "map_of type_fields k = Some t" "exact_fields j t = None" by blast
  note tn = type_names [unfolded list_all_iff, rule_format, OF map_of_SomeD [OF t(1)]]
  show ?thesis
  proof (cases t)
    case Plain
    with tn have k: "is_setting [k]" by simp
    from setting_flat [OF d this, of ls] p Cons k show ?thesis by (auto intro: exI [of _ "[]"])
  next
    case (Struct us)
    with tn have us: "us \<noteq> []" "\<And>l u. (l, u) \<in> set us \<Longrightarrow> is_setting [k, l]" by (auto simp: list_all_iff)
    show ?thesis
    proof (cases ls)
      case Nil
      from us(1) obtain l u where "(l, u) \<in> set us" by (cases us) auto
      with us(2) Nil Cons show ?thesis by (auto intro: exI [of _ "[l]"])
    next
      case l: (Cons l ms)
      with j(2) obtain i where i: "at_path [l] j = Some i" using at_path_append [of "[l]" ms j] by (auto split: option.splits)
      from exact_known(2) [OF decoded_known(3) [OF d j(1)] t(2) [unfolded Struct] refl i] us(2)
      have k: "is_setting [k, l]" by (auto dest: map_of_SomeD)
      from setting_flat [OF d k, of ms] p Cons l k show ?thesis by (auto intro: exI [of _ "[]"])
    qed
  qed
qed

lemma read_config_ok:
  assumes "read_config os b = Inr c"
  obtains v where "json_text b = Some v" "decoded os v c"
proof -
  from assms obtain v where v: "check_json b = None" "unmarshal b = Inr v" "exact_fields v config_type = None" "decode_config os v = Inr c"
    by (auto simp: read_config_def split: option.splits sum.splits)
  from v(1) obtain v' where t: "json_text b = Some v'" "clean v'" unfolding check_json_iff by blast
  from v(2) t(1) have "v' = v" by (auto simp: unmarshal_def split: option.splits if_splits)
  with t have c: "json_text b = Some v" "clean v" by simp_all
  have "dec_struct True config_fields v (defaults os, None) = Inr (c, None)"
    using v(4) by (auto simp: decode_config_def dec_result_def split: sum.splits option.splits)
  with c v(3) have "decoded os v c" by (cases v) (auto simp: decoded_def)
  with c(1) that show thesis by blast
qed

section \<open>Properties\<close>

text \<open>C4: \<^verbatim>\<open>CheckJSON\<close> accepts exactly the texts that are one JSON value (in the grammar, with
  white space around it) in which no value is null, no object has two members with the same decoded
  name and every number is in the range of \<^verbatim>\<open>float64\<close>.\<close>

theorem check_json_exact: "check_json b = None \<longleftrightarrow> (\<exists>v. json_text b = Some v \<and> clean v)"
  by (rule check_json_iff)

text \<open>C31: \<^verbatim>\<open>CheckJSON\<close> ends on every text: its walk takes a token in every step, so the fuel the
  model gives it is never used up.\<close>

theorem check_json_ends: "\<exists>r. walk (walk_fuel b) (decoder_of b) = Some r \<and> check_json b = 
    (case r of Inl e \<Rightarrow> Some e | Inr d \<Rightarrow> if next_token d = Inl err_eof then None else Some err_many)"
  using walk_ends [of b] by (auto simp: check_json_def split: sum.splits)


text \<open>A configuration file that changes one setting.\<close>

definition sample_text :: string where
  "sample_text = ''{'' @ [CHR 0x22] @ ''log'' @ [CHR 0x22] @ '':{'' @ [CHR 0x22] @ ''level'' @ [CHR 0x22] @ '': '' @ [CHR 0x22] @ ''warn'' @ [CHR 0x22] @ ''}}''"

lemma sample_json: "json_text sample_text = Some (Obj [(''log'', Obj [(''level'', Str ''warn'')])])"
  unfolding sample_text_def by code_simp

definition sample_node :: node where
  "sample_node = \<lparr>n_type = Regular, n_data = sample_text, n_perm = 384, n_uid = 0, n_gid = 0, n_ino = 1, n_xattrs = Some []\<rparr>"

definition config_world :: world where
  "config_world = bare_world\<lparr>w_fs := [''/etc/c.json'' \<mapsto> sample_node]\<rparr>"

definition loaded_config :: config where
  "loaded_config = (defaults Linux)\<lparr>c_log_level := ''warn''\<rparr>"

lemma sample_read: "read_config Linux sample_text = Inr loaded_config"
proof -
  have c: "check_json sample_text = None" unfolding check_json_iff by (intro exI conjI, rule sample_json) simp
  have u: "unmarshal sample_text = Inr (Obj [(''log'', Obj [(''level'', Str ''warn'')])])"
    by (simp add: unmarshal_def sample_json)
  have f: "field_of config_fields ''log'' = Some (dec_struct True log_fields)"
    "field_of log_fields ''level'' = Some (dec_string c_log_level_update)"
    by (simp_all add: field_of_def tables)
  show ?thesis
    by (simp add: read_config_def c u config_type_def decode_config_def dec_struct_def f dec_string_def dec_result_def loaded_config_def)
qed

lemma loaded_accepted: "validate Inr loaded_config = (loaded_config, None)"
proof -
  have v: "validate Inr (defaults Linux) = (defaults Linux, None)" by (rule defaults_accepted) simp
  from v [unfolded validate_iff] have s: "settings_ok (defaults Linux)"
    and d: "distinct (c_domains (defaults Linux))" "list_all2 (\<lambda>s d. domain Inr s = Inr d) (c_domains (defaults Linux)) (c_domains (defaults Linux))"
    by (auto dest!: arg_cong [of "defaults Linux" _ c_domains])
  have "settings_ok loaded_config" using s by (simp add: settings_ok_def loaded_config_def)
  with d show ?thesis unfolding validate_iff by (auto simp: loaded_config_def intro!: exI [of _ "c_domains (defaults Linux)"])
qed


end
