(* ===== verification/JsonPrint.thy ===== *)
theory JsonPrint
  imports Json
begin

text \<open>
  \<^verbatim>\<open>json.MarshalIndent(v, "", "  ")\<close>: string literals with the escapes of the library, members
  and elements on lines of their own.  What is printed of a value of ASCII strings and natural
  numbers parses back to the value, so a file written this way reads as what was written.
\<close>

section \<open>Printing\<close>

definition u_escape :: "nat \<Rightarrow> string" where
  "u_escape n = [CHR 0x5C, CHR ''u'', hex_digit (n div 4096 mod 16), hex_digit (n div 256 mod 16), hex_digit (n div 16 mod 16), hex_digit (n mod 16)]"

definition escape_char :: "char \<Rightarrow> string" where
  "escape_char c =
     (if c = CHR 0x22 \<or> c = CHR 0x5C then [CHR 0x5C, c]
      else if code c = 8 then [CHR 0x5C, CHR ''b'']
      else if code c = 12 then [CHR 0x5C, CHR ''f'']
      else if code c = 10 then [CHR 0x5C, CHR ''n'']
      else if code c = 13 then [CHR 0x5C, CHR ''r'']
      else if code c = 9 then [CHR 0x5C, CHR ''t'']
      else if code c < 32 \<or> c = CHR ''<'' \<or> c = CHR ''>'' \<or> c = CHR ''&'' then u_escape (code c)
      else [c])"

text \<open>Bytes that are no UTF-8 become U+FFFD; the line separators U+2028 and U+2029 are escaped.\<close>

function escape_text :: "string \<Rightarrow> string" where
  "escape_text [] = []"
| "escape_text (c # cs) =
     (if code c < 128 then escape_char c @ escape_text cs
      else
        let n = utf8_run (c # cs) in
        if n = 0 then u_escape 0xFFFD @ escape_text cs
        else if take n (c # cs) = [CHR 0xE2, CHR 0x80, CHR 0xA8] then u_escape 0x2028 @ escape_text (drop (n - 1) cs)
        else if take n (c # cs) = [CHR 0xE2, CHR 0x80, CHR 0xA9] then u_escape 0x2029 @ escape_text (drop (n - 1) cs)
        else c # take (n - 1) cs @ escape_text (drop (n - 1) cs))"
  by pat_completeness auto
termination
  by (relation "measure length") auto

definition literal :: "string \<Rightarrow> string" where
  "literal s = CHR 0x22 # escape_text s @ [CHR 0x22]"

definition line :: "nat \<Rightarrow> string" where
  "line d = newline # replicate (2 * d) (CHR '' '')"

fun print_json :: "nat \<Rightarrow> json \<Rightarrow> string"
  and print_elems :: "nat \<Rightarrow> json list \<Rightarrow> string"
  and print_members :: "nat \<Rightarrow> (string \<times> json) list \<Rightarrow> string" where
  "print_json d Null = ''null''"
| "print_json d (Bool b) = (if b then ''true'' else ''false'')"
| "print_json d (Num lit) = lit"
| "print_json d (Str s) = literal s"
| "print_json d (Arr vs) = (if vs = [] then ''[]'' else CHR ''['' # print_elems (Suc d) vs @ line d @ '']'')"
| "print_json d (Obj ms) = (if ms = [] then ''{}'' else CHR ''{'' # print_members (Suc d) ms @ line d @ ''}'')"
| "print_elems d [] = []"
| "print_elems d (v # vs) = line d @ print_json d v @ (if vs = [] then [] else '','' @ print_elems d vs)"
| "print_members d [] = []"
| "print_members d ((k, v) # ms) =
     line d @ literal k @ '': '' @ print_json d v @ (if ms = [] then [] else '','' @ print_members d ms)"

definition marshal_indent :: "json \<Rightarrow> string" where
  "marshal_indent v = print_json 0 v"

section \<open>Reading back\<close>

definition ascii :: "string \<Rightarrow> bool" where
  "ascii s = list_all (\<lambda>c. code c < 128) s"

lemma hex_val_digit: "n < 16 \<Longrightarrow> hex_val (hex_digit n) = Some n"
  by (auto simp: hex_val_def hex_digit_def is_digit_def digit_val_def)

lemma hex4_escape: "n < 128 \<Longrightarrow> hex4 (drop 2 (u_escape n) @ r) = Some n"
proof -
  assume n: "n < 128"
  then have "n div 4096 = 0" "n div 256 = 0" "n div 16 mod 16 = n div 16" by simp_all
  then show ?thesis using n by (simp add: hex4_def u_escape_def hex_val_digit)
qed

lemma lex_u_escape:
  assumes "n < 128"
  shows "lex_string (u_escape n @ r) = map_option (\<lambda>(s, t). (char_of n # s, t)) (lex_string r)"
proof -
  let ?h = "drop 2 (u_escape n)"
  have u: "u_escape n @ r = CHR 0x5C # CHR ''u'' # ?h @ r" by (simp add: u_escape_def)
  have h: "hex4 (?h @ r) = Some n" by (rule hex4_escape) (use assms in simp)
  have d: "drop 4 (?h @ r) = r" by (simp add: u_escape_def)
  have e: "utf8_encode n = [char_of n]" using assms by (simp add: utf8_encode_def)
  have s: "\<not> surrogate_pair n b" for b using assms by (simp add: surrogate_pair_def)
  have c: "code (CHR 0x5C) = 92" by (simp add: code_def)
  show ?thesis unfolding u by (simp add: h d e s c split: option.split del: drop_append)
qed

lemma char_by_code: "code c = code d \<Longrightarrow> c = d"
  by simp

lemma lex_escape_char:
  assumes "code c < 128"
  shows "lex_string (escape_char c @ r) = map_option (\<lambda>(s, t). (c # s, t)) (lex_string r)"
proof -
  have b: "code (CHR 0x5C) = 92" by (simp add: code_def)
  have short: "lex_string (CHR 0x5C # e # r) = map_option (\<lambda>(s, t). (x # s, t)) (lex_string r)"
    if "e \<noteq> CHR ''u''" "map_of escapes e = Some x" for e x
    using that by (simp add: b)
  have ctl: "code (CHR 0x08) = 8" "code (CHR 0x0C) = 12" "code (CHR 0x0A) = 10" "code (CHR 0x0D) = 13" "code (CHR 0x09) = 9"
    by (simp_all add: code_def)
  show ?thesis
  proof (cases "c = CHR 0x22 \<or> c = CHR 0x5C \<or> code c = 8 \<or> code c = 12 \<or> code c = 10 \<or> code c = 13 \<or> code c = 9")
    case True
    then have "c \<in> {CHR 0x22, CHR 0x5C, CHR 0x08, CHR 0x0C, CHR 0x0A, CHR 0x0D, CHR 0x09}"
      using ctl by (auto simp del: code_inject intro: char_by_code)
    then show ?thesis
      by (elim insertE emptyE) (simp_all only: escape_char_def ctl, simp_all add: b short escapes_def)
  next
    case False
    show ?thesis
    proof (cases "code c < 32 \<or> c = CHR ''<'' \<or> c = CHR ''>'' \<or> c = CHR ''&''")
      case True
      with False have "escape_char c = u_escape (code c)" by (simp add: escape_char_def)
      then show ?thesis using lex_u_escape [OF assms, of r] by simp
    next
      case plain: False
      with False have "escape_char c = [c]" by (simp add: escape_char_def)
      then show ?thesis using assms plain False by simp
    qed
  qed
qed

lemma lex_literal: "ascii s \<Longrightarrow> lex_string (escape_text s @ CHR 0x22 # r) = Some (s, r)"
  by (induction s) (simp_all add: ascii_def lex_escape_char)

lemma dec_head: "dec n \<noteq> [] \<and> (hd (dec n) = CHR ''0'' \<longrightarrow> n = 0)"
proof (induction n rule: dec.induct)
  case (1 n)
  show ?case
  proof (cases "n < 10")
    case True
    have "digit_char n = CHR ''0'' \<longrightarrow> n = 0"
    proof
      assume "digit_char n = CHR ''0''"
      then have "code (digit_char n) = code (CHR ''0'')" by simp
      moreover have "code (CHR ''0'') = 48" by (simp add: code_def)
      ultimately show "n = 0" using digit_char_simps(3) [OF True] by linarith
    qed
    with True show ?thesis by (subst (1 2) dec.simps) simp
  next
    case False
    with 1 show ?thesis by (subst (1 2) dec.simps) auto
  qed
qed

definition no_number :: "string \<Rightarrow> bool" where
  "no_number r = (r = [] \<or> (\<not> is_digit (hd r) \<and> hd r \<noteq> CHR ''.'' \<and> hd r \<noteq> CHR ''e'' \<and> hd r \<noteq> CHR ''E''))"

lemma lex_digits_append:
  assumes "ds \<noteq> []" "list_all is_digit ds" "r = [] \<or> \<not> is_digit (hd r)"
  shows "lex_digits (ds @ r) = Some (ds, r)"
proof -
  have "takeWhile is_digit (ds @ r) = ds"
    using assms(2,3) by (cases r) (auto simp: takeWhile_append list_all_iff)
  with assms(1) show ?thesis by (simp add: lex_digits_def Let_def)
qed

lemma lex_number_dec: "no_number r \<Longrightarrow> lex_number (dec n @ r) = Some (dec n, r)"
proof -
  assume r: "no_number r"
  have d: "list_all is_digit (dec n)" "dec n \<noteq> []" by (rule dec_digits, rule dec_nonempty)
  then have m: "hd (dec n @ r) \<noteq> CHR ''-''" by (cases "dec n") (auto simp: is_digit_def code_def)
  have "lex_int (dec n @ r) = Some (dec n, r)"
  proof (cases "hd (dec n) = CHR ''0''")
    case True
    then have "n = 0" using dec_head by blast
    moreover have "dec 0 = ''0''" 
    proof -
      have "digit_char 0 = CHR ''0''" by (rule char_by_code) (simp del: code_inject, simp add: code_def)
      then show ?thesis by (subst dec.simps) simp
    qed
    ultimately show ?thesis by (simp add: lex_int_def)
  next
    case False
    then show ?thesis using d r by (auto simp: lex_int_def no_number_def intro: lex_digits_append)
  qed
  then show ?thesis using m r d(2) by (auto simp: lex_number_def Let_def lex_fraction_def lex_exponent_def no_number_def)
qed

text \<open>Values that print and read back: ASCII strings and natural numbers.\<close>

fun printable :: "json \<Rightarrow> bool" where
  "printable (Num lit) = (\<exists>n. lit = dec n)"
| "printable (Str s) = ascii s"
| "printable (Arr vs) = list_all printable vs"
| "printable (Obj ms) = list_all (\<lambda>m. ascii (fst m) \<and> printable (snd m)) ms"
| "printable v = True"

lemma skip_line [simp]: "skip_ws (line d @ r) = skip_ws r"
  by (simp add: skip_ws_def line_def json_space_def code_def dropWhile_append)


lemma value_at_skip: "skip_ws s = skip_ws t \<Longrightarrow> value_at s = value_at t"
proof -
  assume eq: "skip_ws s = skip_ws t"
  have "value_at s = Some (v, r) \<longleftrightarrow> value_at t = Some (v, r)" for v r
    by (subst (1 2) value_at_iff) (simp only: eq)
  then have "value_at s = Some x \<longleftrightarrow> value_at t = Some x" for x by (cases x) blast
  then show ?thesis by (metis not_None_eq)
qed

lemma line_after: "no_number (line d @ r)" "no_number (CHR '','' # r)"
  by (simp_all add: no_number_def line_def is_digit_def code_def)

lemma skip_char: "\<not> json_space c \<Longrightarrow> skip_ws (c # r) = c # r"
  by (simp add: skip_ws_def)

lemma marks [simp]: "\<not> json_space (CHR 0x22)" "\<not> json_space (CHR ''['')" "\<not> json_space (CHR '']'')" "\<not> json_space (CHR ''{'')"
  "\<not> json_space (CHR ''}'')" "\<not> json_space (CHR '','')" "\<not> json_space (CHR '':'')" "json_space (CHR '' '')"
  by (simp_all add: json_space_def code_def)

lemma value_at_literal: "ascii s \<Longrightarrow> value_at (literal s @ r) = Some (Str s, r)"
  by (subst value_at_iff) (simp add: literal_def skip_char lex_scalar_def lex_literal)

lemma value_at_words:
  "value_at (''null'' @ r) = Some (Null, r)" "value_at (''true'' @ r) = Some (Bool True, r)" "value_at (''false'' @ r) = Some (Bool False, r)"
  by (subst value_at_iff; simp add: skip_ws_def json_space_def code_def lex_scalar_def lex_word_def)+

lemma value_at_dec: "no_number r \<Longrightarrow> value_at (dec n @ r) = Some (Num (dec n), r)"
proof -
  assume r: "no_number r"
  obtain c cs where c: "dec n = c # cs" "is_digit c" using dec_digits [of n] dec_nonempty [of n] by (cases "dec n") auto
  have "\<not> json_space c" using c(2) by (auto simp: json_space_def is_digit_def code_def)
  then have s: "skip_ws (dec n @ r) = c # cs @ r" using c(1) by (simp add: skip_ws_def)
  have m: "c \<noteq> CHR ''[''" "c \<noteq> CHR ''{''" "c \<noteq> CHR 0x22" "c \<noteq> CHR ''t''" "c \<noteq> CHR ''f''" "c \<noteq> CHR ''n''"
    using c(2) by (auto simp: is_digit_def code_def)
  have "lex_scalar (c # cs @ r) = Some (Num (dec n), r)" using m lex_number_dec [OF r, of n] c(1) by (simp add: lex_scalar_def)
  then show ?thesis using s m by (subst value_at_iff) simp
qed

lemma print_parse_all:
  "printable v \<Longrightarrow> no_number r \<Longrightarrow> value_at (print_json d v @ r) = Some (v, r)"
  "list_all printable vs \<Longrightarrow> vs \<noteq> [] \<Longrightarrow> elems_at (print_elems d vs @ line d' @ CHR '']'' # r) = Some (vs, r)"
  "list_all (\<lambda>m. ascii (fst m) \<and> printable (snd m)) ms \<Longrightarrow> ms \<noteq> [] \<Longrightarrow>
     members_at (print_members d ms @ line d' @ CHR ''}'' # r) = Some (ms, r)"
proof (induction d v and d vs and d ms arbitrary: r and r d' and r d' rule: print_json_print_elems_print_members.induct)
  case (5 d vs)
  show ?case
  proof (cases "vs = []")
    case True
    then show ?thesis by (subst value_at_iff) (simp add: skip_char)
  next
    case False
    with 5 have "elems_at (print_elems (Suc d) vs @ line d @ CHR '']'' # r) = Some (vs, r)" by simp
    moreover from elems_at_start [OF this] have "\<exists>c t. skip_ws (print_elems (Suc d) vs @ line d @ CHR '']'' # r) = c # t \<and> c \<noteq> CHR '']''"
      by blast
    ultimately show ?thesis using False by (subst value_at_iff) (auto simp: skip_char)
  qed
next
  case (6 d ms)
  show ?case
  proof (cases "ms = []")
    case True
    then show ?thesis by (subst value_at_iff) (simp add: skip_char)
  next
    case False
    with 6 have "members_at (print_members (Suc d) ms @ line d @ CHR ''}'' # r) = Some (ms, r)" by simp
    moreover from members_at_start [OF this] have "\<exists>t. skip_ws (print_members (Suc d) ms @ line d @ CHR ''}'' # r) = CHR 0x22 # t" .
    ultimately show ?thesis using False by (subst value_at_iff) (auto simp: skip_char)
  qed
next
  case (8 d v vs)
  let ?rest = "(if vs = [] then [] else '','' @ print_elems d vs) @ line d' @ CHR '']'' # r"
  have "no_number ?rest" by (simp add: line_after)
  with 8 have "value_at (print_json d v @ ?rest) = Some (v, ?rest)" by simp
  then have "value_at (line d @ print_json d v @ ?rest) = Some (v, ?rest)"
    using value_at_skip [OF skip_line] by metis
  then show ?case using 8 by (subst elems_at_iff) (auto simp: skip_char)
next
  case (10 d k v ms)
  let ?rest = "(if ms = [] then [] else '','' @ print_members d ms) @ line d' @ CHR ''}'' # r"
  have "no_number ?rest" by (simp add: line_after)
  with 10 have "value_at (print_json d v @ ?rest) = Some (v, ?rest)" by simp
  then have v: "value_at (CHR '' '' # print_json d v @ ?rest) = Some (v, ?rest)"
    by (subst value_at_skip [of _ "print_json d v @ ?rest"]) (simp_all add: skip_ws_def)
  from 10 have k: "lex_string (escape_text k @ CHR 0x22 # '': '' @ print_json d v @ ?rest) = Some (k, '': '' @ print_json d v @ ?rest)"
    by (intro lex_literal) simp
  show ?case
  proof (cases "ms = []")
    case True
    with v k show ?thesis by (subst members_at_iff) (simp add: literal_def skip_char)
  next
    case False
    with 10 have "members_at (print_members d ms @ line d' @ CHR ''}'' # r) = Some (ms, r)" by simp
    with False v k show ?thesis by (subst members_at_iff) (simp add: literal_def skip_char)
  qed
qed (use value_at_words value_at_literal value_at_dec in \<open>auto split: if_splits\<close>)

text \<open>Printed values are read back, also with a line feed at the end.\<close>

lemma json_text_print: "printable v \<Longrightarrow> json_text (marshal_indent v) = Some v"
  using print_parse_all(1) [of v "[]" 0] by (simp add: json_text_def marshal_indent_def value_at_def no_number_def skip_ws_def)

lemma unmarshal_print: "printable v \<Longrightarrow> depth v \<le> 10000 \<Longrightarrow> unmarshal (marshal_indent v) = Inr v"
  by (simp add: unmarshal_def json_text_print)

end
