(* ===== verification/Tools.thy ===== *)
theory Tools
  imports FsUtil
begin

text \<open>
  What the commands that change the system share: running other programs, and operations that yield
  a report besides their error.  Running a program is a parameter of the model, a function of its
  input, path and arguments to the outcome that \<^verbatim>\<open>exec.CommandContext\<close> shows the code: the
  combined output, the error, whether that is an exit status, and the state of the context
  afterwards.
\<close>

section \<open>Programs\<close>

record outcome =
  oc_out :: string
  oc_err :: "go_error option"
  oc_exit :: bool
  oc_ctx :: "go_error option"

type_synonym runner = "string \<Rightarrow> path \<Rightarrow> string list \<Rightarrow> world \<Rightarrow> outcome \<times> world"

definition running :: "runner \<Rightarrow> string \<Rightarrow> path \<Rightarrow> string list \<Rightarrow> outcome io" where
  "running run input path args w = (case run input path args w of (oc, w') \<Rightarrow> (Inr oc, w'))"

section \<open>Operations with a report\<close>

text \<open>
  \<open>try_step f r m k\<close> stops with the report \<open>r\<close> made so far when \<open>m\<close> fails; \<open>f\<close> is what the error becomes.
  \<open>and_then\<close> is a deferred call.
\<close>

type_synonym 'r run = "world \<Rightarrow> ('r \<times> go_error option) \<times> world"

definition stop_with :: "'r \<Rightarrow> go_error \<Rightarrow> 'r run" where
  "stop_with r e w = ((r, Some e), w)"

definition finish :: "'r \<Rightarrow> 'r run" where
  "finish r w = ((r, None), w)"

definition try_step :: "(go_error \<Rightarrow> go_error) \<Rightarrow> 'r \<Rightarrow> 'a io \<Rightarrow> ('a \<Rightarrow> 'r run) \<Rightarrow> 'r run" where
  "try_step f r m k w = (case m w of (Inl e, w') \<Rightarrow> stop_with r (f e) w' | (Inr x, w') \<Rightarrow> k x w')"

definition and_then :: "unit io \<Rightarrow> 'r run \<Rightarrow> 'r run" where
  "and_then c m w = (case m w of (x, w') \<Rightarrow> (x, snd (c w')))"

text \<open>Run \<open>c\<close> when \<open>m\<close> has failed, as the error paths of a function that keeps what it opened do.\<close>

definition on_failure :: "unit io \<Rightarrow> 'a io \<Rightarrow> 'a io" where
  "on_failure c m w = (case m w of (Inl e, w') \<Rightarrow> (Inl e, snd (c w')) | (Inr x, w') \<Rightarrow> (Inr x, w'))"

definition errs :: "go_error option \<Rightarrow> go_error list" where
  "errs e = (case e of None \<Rightarrow> [] | Some e \<Rightarrow> [e])"

text \<open>\<^verbatim>\<open>errors.Join\<close> drops what is nil.\<close>

definition join_errors :: "go_error option \<Rightarrow> go_error option \<Rightarrow> go_error option" where
  "join_errors a b = (case errs a @ errs b of [] \<Rightarrow> None | es \<Rightarrow> Some (Join es))"

definition err_of :: "'a res \<Rightarrow> go_error option" where
  "err_of r = (case r of Inl e \<Rightarrow> Some e | Inr _ \<Rightarrow> None)"

section \<open>Lemmas\<close>

lemma case_res_ok:
  "(case x of Inl e \<Rightarrow> f e | Inr y \<Rightarrow> g y) w = (Inr z, w') \<longleftrightarrow>
     (\<exists>e. x = Inl e \<and> f e w = (Inr z, w')) \<or> (\<exists>y. x = Inr y \<and> g y w = (Inr z, w'))"
  by (simp split: sum.split)

lemma on_failure_ok: "on_failure c m w = (Inr x, w') \<longleftrightarrow> m w = (Inr x, w')"
  by (auto simp: on_failure_def split: prod.splits sum.splits)

context io_frame begin

lemma stays_on_failure: "stays R c \<Longrightarrow> stays R m \<Longrightarrow> stays R (on_failure c m)"
  unfolding stays_def on_failure_def
  by (auto split: prod.splits sum.splits) (metis frame_trans snd_conv)+

end

end
