(* ===== verification/Trust.thy ===== *)
theory Trust
  imports CA Decode JsonPrint Tools
begin

text \<open>
  \<^verbatim>\<open>internal/trust/trust.go\<close>: installing the public CA certificate in the store of the
  system and removing it again, with a receipt on disk that says what is owned.  The backend is
  the Go interface, a record of functions; \<^verbatim>\<open>TrustStores\<close> provides the two of the program.
  The certificate library is \<open>crypto\<close> extended by decoding the next PEM block of a text and by the
  self-signature check.  The time of an execution and the random suffix of the temporary file are
  arguments.  The lemmas: the store is never changed but with a valid receipt for exactly this
  certificate and store on disk, nothing is changed by a status report or a dry run, and trust
  followed by untrust leaves no trace.
\<close>

section \<open>Certificates\<close>

record trust_lib = crypto +
  tl_pem_next :: "string \<Rightarrow> ((string \<times> string) \<times> string) option"
  tl_self_signed :: "cert \<Rightarrow> bool"

record trust_cert =
  tc_x509 :: cert
  tc_pem :: string
  tc_sha256 :: string

definition valid_now :: "int \<Rightarrow> trust_cert \<Rightarrow> bool" where
  "valid_now now c = (\<not> now < x_not_before (tc_x509 c) \<and> now < x_not_after (tc_x509 c))"

definition pem_begin :: string where
  "pem_begin = ''-----BEGIN CERTIFICATE-----''"

definition parse_cert :: "trust_lib \<Rightarrow> string \<Rightarrow> trust_cert res" where
  "parse_cert T b0 =
     (let b = trim_space b0 in
      if \<not> has_prefix b pem_begin then Inl (New ''expected one public PEM CA certificate, not a private key or bundle'')
      else
        case tl_pem_next T b of
          None \<Rightarrow> Inl (New ''expected exactly one PEM certificate'')
        | Some ((ty, der), rest) \<Rightarrow>
            if ty \<noteq> ''CERTIFICATE'' \<or> trim_space rest \<noteq> [] then Inl (New ''expected exactly one PEM certificate'')
            else
              (case cr_parse T der of
                Inl e \<Rightarrow> Inl e
              | Inr c \<Rightarrow>
                  if \<not> x_is_ca c \<or> \<not> x_basic c \<or> x_usage c AND KeyUsageCertSign = 0 \<or> \<not> tl_self_signed T c
                  then Inl (New ''trust operations require a self-signed signing CA'')
                  else Inr \<lparr>tc_x509 = c, tc_pem = cr_pem_encode T ''CERTIFICATE'' (x_raw c), tc_sha256 = cr_sha256_hex T (x_raw c)\<rparr>))"

definition load_cert :: "trust_lib \<Rightarrow> path \<Rightarrow> trust_cert io" where
  "load_cert T path =
     bind_io (sys_read path) (\<lambda>b.
     bind_io (guard (length b > 1024 * 1024) (New ''CA certificate exceeds 1 MiB'')) (\<lambda>_.
     of_res (parse_cert T b)))"

section \<open>Data\<close>

record state =
  st_installed :: bool
  st_trusted :: bool

record store =
  so_kind :: string
  so_target :: path
  so_scope :: string

record backend =
  bk_store :: "trust_cert \<Rightarrow> store"
  bk_inspect :: "trust_cert \<Rightarrow> (state \<times> go_error option) io"
  bk_add :: "trust_cert \<Rightarrow> path \<Rightarrow> unit io"
  bk_remove :: "trust_cert \<Rightarrow> path \<Rightarrow> unit io"

record receipt =
  rc_version :: int
  rc_sha256 :: string
  rc_store :: store
  rc_phase :: string

record report =
  rp_schema :: int
  rp_action :: string
  rp_certificate :: path
  rp_subject :: string
  rp_sha256 :: string
  rp_store :: store
  rp_state :: state
  rp_managed :: bool
  rp_known :: bool
  rp_receipt :: path
  rp_recovery :: path
  rp_dry :: bool
  rp_changed :: bool
  rp_message :: string

record manager =
  mg_backend :: backend
  mg_dir :: path
  mg_protect :: "path \<Rightarrow> unit io"

definition err_not_trusted :: go_error where
  "err_not_trusted = New ''CA is not trusted for TLS in the checked system store''"

definition zero_store :: store where
  "zero_store = \<lparr>so_kind = [], so_target = [], so_scope = []\<rparr>"

definition zero_receipt :: receipt where
  "zero_receipt = \<lparr>rc_version = 0, rc_sha256 = [], rc_store = zero_store, rc_phase = []\<rparr>"

section \<open>Receipts\<close>

definition store_fields :: "(string \<times> receipt field_dec) list" where
  "store_fields =
     [(''kind'', dec_string (\<lambda>f. rc_store_update (so_kind_update f))), (''target'', dec_string (\<lambda>f. rc_store_update (so_target_update f))),
      (''scope'', dec_string (\<lambda>f. rc_store_update (so_scope_update f)))]"

definition receipt_fields :: "(string \<times> receipt field_dec) list" where
  "receipt_fields =
     [(''version'', dec_int rc_version_update), (''sha256'', dec_string rc_sha256_update), (''store'', dec_struct False store_fields),
      (''phase'', dec_string rc_phase_update)]"

definition store_json :: "store \<Rightarrow> json" where
  "store_json s = Obj [(''kind'', Str (so_kind s)), (''target'', Str (so_target s)), (''scope'', Str (so_scope s))]"

definition receipt_json :: "receipt \<Rightarrow> json" where
  "receipt_json r = Obj [(''version'', Num (itoa (rc_version r))), (''sha256'', Str (rc_sha256 r)), (''store'', store_json (rc_store r)),
     (''phase'', Str (rc_phase r))]"

definition receipt_bytes :: "receipt \<Rightarrow> string" where
  "receipt_bytes r = marshal_indent (receipt_json r)"

definition decode_receipt :: "string \<Rightarrow> receipt res" where
  "decode_receipt b =
     (case unmarshal b of Inl e \<Rightarrow> Inl e | Inr v \<Rightarrow> dec_result (dec_struct False receipt_fields v (zero_receipt, None)))"

definition receipt_valid :: "manager \<Rightarrow> trust_cert \<Rightarrow> receipt \<Rightarrow> bool" where
  "receipt_valid M c r =
     (\<not> (rc_version r \<noteq> 1 \<or> rc_sha256 r \<noteq> tc_sha256 c \<or> rc_store r \<noteq> bk_store (mg_backend M) c
        \<or> (rc_phase r \<noteq> ''pending'' \<and> rc_phase r \<noteq> ''installed'')))"

definition read_receipt :: "manager \<Rightarrow> path \<Rightarrow> trust_cert \<Rightarrow> receipt option io" where
  "read_receipt M path c =
     bind_io (attempt (regular path)) (\<lambda>r.
     case r of
       Inl e \<Rightarrow> if e = Os ENOENT then ret None else throw e
     | Inr _ \<Rightarrow>
         bind_io (sys_read path) (\<lambda>b.
         bind_io (of_res (decode_receipt b)) (\<lambda>r.
         bind_io (guard (\<not> receipt_valid M c r) (New ''invalid or mismatched trust receipt; refusing to change trust'')) (\<lambda>_.
         ret (Some r)))))"

definition remove_receipt :: "report \<Rightarrow> unit io" where
  "remove_receipt r = bind_io (sys_remove (rp_receipt r)) (\<lambda>_. sys_remove (rp_recovery r))"

section \<open>Executing\<close>

text \<open>
  An execution always yields a report, and maybe an error.  \<^verbatim>\<open>Inspect\<close> yields a state and
  maybe an error; the report takes the state in either case.
\<close>

definition rollback_message :: string where
  "rollback_message = ''Trust installation failed; rollback attempted. If recovery files remain, retry ca untrust --cert with the recovery certificate.''"

definition no_state :: state where
  "no_state = \<lparr>st_installed = False, st_trusted = False\<rparr>"

definition look :: "manager \<Rightarrow> trust_cert \<Rightarrow> world \<Rightarrow> (state \<times> go_error option) \<times> world" where
  "look M c w = (case bk_inspect (mg_backend M) c w of (Inr x, w') \<Rightarrow> (x, w') | (Inl e, w') \<Rightarrow> ((no_state, Some e), w'))"

text \<open>Look and go on with the state in the report; \<open>f\<close> is what an error becomes.\<close>

definition looking :: "manager \<Rightarrow> trust_cert \<Rightarrow> (go_error \<Rightarrow> go_error) \<Rightarrow> report \<Rightarrow> (report \<Rightarrow> report run) \<Rightarrow> report run" where
  "looking M c f r k w =
     (case look M c w of
       ((s, Some e), w') \<Rightarrow> stop_with (r\<lparr>rp_state := s\<rparr>) (f e) w'
     | ((s, None), w') \<Rightarrow> k (r\<lparr>rp_state := s\<rparr>) w')"

text \<open>A failed installation: remove, drop the receipt, look again.\<close>

definition roll_back :: "manager \<Rightarrow> trust_cert \<Rightarrow> report \<Rightarrow> go_error \<Rightarrow> report run" where
  "roll_back M c r e w =
     (let (x, w1) = bk_remove (mg_backend M) c (rp_recovery r) w;
          (y, w2) = (case x of Inr _ \<Rightarrow> remove_receipt r w1 | Inl _ \<Rightarrow> (x, w1));
          r1 = (if is_ok y then r\<lparr>rp_managed := False\<rparr> else r);
          ((s, pe), w3) = look M c w2;
          r2 = (if pe = None then r1\<lparr>rp_state := s\<rparr> else r1);
          rb = (case pe of None \<Rightarrow> err_of y | Some _ \<Rightarrow> join_errors (err_of y) pe)
      in ((r2\<lparr>rp_message := rollback_message\<rparr>, join_errors (Some e) rb), w3))"

definition already_message :: "bool \<Rightarrow> string" where
  "already_message managed =
     ''Already trusted; no trust settings changed.''
     @ (if managed then [] else '' Pre-existing trust remains unmanaged and will not be removed by ca untrust.'')"

text \<open>The files that say what is owned, written before the store is changed.\<close>

definition claim_files :: "manager \<Rightarrow> trust_cert \<Rightarrow> report \<Rightarrow> receipt io" where
  "claim_files M c r =
     bind_io (wrapping ''trust recovery snapshot'' (exclusive (rp_recovery r) (tc_pem c) 420)) (\<lambda>_.
     let own = \<lparr>rc_version = 1, rc_sha256 = tc_sha256 c, rc_store = rp_store r, rc_phase = ''pending''\<rparr> in
     bind_io (attempt (exclusive (rp_receipt r) (receipt_bytes own) 384)) (\<lambda>x.
     case x of
       Inl e \<Rightarrow> deferring (sys_remove (rp_recovery r)) (throw e)
     | Inr _ \<Rightarrow> ret own))"

definition install_owned :: "manager \<Rightarrow> string \<Rightarrow> trust_cert \<Rightarrow> report \<Rightarrow> receipt \<Rightarrow> report run" where
  "install_owned M rnd c r own w =
     (case bk_add (mg_backend M) c (rp_recovery r) w of
       (Inl e, w') \<Rightarrow> roll_back M c r e w'
     | (Inr _, w1) \<Rightarrow>
         (case look M c w1 of
           ((s, e), w') \<Rightarrow>
             let r' = r\<lparr>rp_state := s\<rparr> in
             (case (if e = None \<and> \<not> st_trusted s then Some err_not_trusted else e) of
               Some e \<Rightarrow> roll_back M c r' e w'
             | None \<Rightarrow>
                 try_step (Wrapf ''CA trusted; pending receipt retained'') r'
                   (atomic (rp_receipt r') (receipt_bytes (own\<lparr>rc_phase := ''installed''\<rparr>)) 384 rnd)
                   (\<lambda>_. finish (r'\<lparr>rp_changed := True,
                      rp_message := ''Public CA installed and trusted. Restart affected clients; private keys were not accessed.''\<rparr>)) w')))"

definition do_trust :: "manager \<Rightarrow> string \<Rightarrow> trust_cert \<Rightarrow> report \<Rightarrow> receipt option \<Rightarrow> report run" where
  "do_trust M rnd c r owned =
     (if st_trusted (rp_state r) then finish (r\<lparr>rp_message := already_message (rp_managed r)\<rparr>)
      else if st_installed (rp_state r) \<and> owned = None
      then stop_with r (New ''this exact CA already exists but is not trusted; configure its trust manually (utlsproxy will not take over an unmanaged certificate)'')
      else if rp_dry r
      then finish (r\<lparr>rp_message := ''Would install this exact public CA and update system trust; no changes made.''\<rparr>)
      else
        try_step (\<lambda>e. e) r (case owned of Some own \<Rightarrow> ret own | None \<Rightarrow> claim_files M c r) (\<lambda>own.
        install_owned M rnd c (r\<lparr>rp_managed := True\<rparr>) own))"

definition removed_message :: "bool \<Rightarrow> string" where
  "removed_message trusted =
     ''Removed the managed trust installation; original CA files and private key are unchanged.''
     @ (if trusted then '' The CA is still trusted through another installation; that trust was preserved.'' else [])"

definition do_untrust :: "manager \<Rightarrow> trust_cert \<Rightarrow> report \<Rightarrow> receipt option \<Rightarrow> report run" where
  "do_untrust M c r owned =
     (case owned of
       None \<Rightarrow>
         if st_installed (rp_state r) \<or> st_trusted (rp_state r)
         then stop_with r (New ''CA was not installed by utlsproxy; refusing to remove unmanaged trust (use the original installation method)'')
         else finish (r\<lparr>rp_message := ''No managed installation or trusted CA found; nothing to remove.''\<rparr>)
     | Some own \<Rightarrow>
         if rp_dry r
         then finish (r\<lparr>rp_message := ''Would remove only this receipt-owned certificate and update system trust; no changes made.''\<rparr>)
         else
           try_step (Wrapf ''removal failed; receipt retained for retry'') r (bk_remove (mg_backend M) c (rp_recovery r)) (\<lambda>_.
           looking M c (Wrapf ''removal verification failed; receipt retained'') r (\<lambda>r'.
           if st_installed (rp_state r')
           then stop_with r' (New ''owned certificate remains installed after removal; receipt retained for retry'')
           else
             try_step (\<lambda>e. e) r' (remove_receipt r') (\<lambda>_.
             finish (r'\<lparr>rp_managed := False, rp_changed := True, rp_message := removed_message (st_trusted (rp_state r'))\<rparr>)))))"

text \<open>From the receipt on; a status report by a user who may not read the receipt goes on without.\<close>

definition see_receipt :: "manager \<Rightarrow> trust_cert \<Rightarrow> report \<Rightarrow> (receipt option \<times> bool) io" where
  "see_receipt M c r =
     bind_io (attempt (read_receipt M (rp_receipt r) c)) (\<lambda>x.
     case x of
       Inr owned \<Rightarrow> ret (owned, True)
     | Inl e \<Rightarrow> if rp_action r = ''trust-status'' \<and> error_is e (Os EPERM) then ret (None, False) else throw e)"

definition check_recovery :: "trust_lib \<Rightarrow> trust_cert \<Rightarrow> report \<Rightarrow> receipt option \<Rightarrow> unit io" where
  "check_recovery T c r owned =
     (case owned of
       None \<Rightarrow> ret ()
     | Some _ \<Rightarrow>
         bind_io (wrapping ''trust recovery certificate'' (load_cert T (rp_recovery r))) (\<lambda>stored.
         guard (tc_sha256 stored \<noteq> tc_sha256 c) (New ''trust recovery certificate was modified'')))"

definition status_message :: string where
  "status_message = ''Checks the system store/native TLS policy, not every browser or application trust store.''"

definition decide :: "trust_lib \<Rightarrow> manager \<Rightarrow> string \<Rightarrow> trust_cert \<Rightarrow> report \<Rightarrow> report run" where
  "decide T M rnd c r =
     try_step (\<lambda>e. e) r (see_receipt M c r) (\<lambda>(owned, known).
     let r1 = r\<lparr>rp_known := known, rp_managed := (owned \<noteq> None)\<rparr> in
     try_step (\<lambda>e. e) r1 (check_recovery T c r1 owned) (\<lambda>_.
     looking M c (\<lambda>e. e) r1 (\<lambda>r2.
     if rp_action r2 = ''trust-status''
     then (if \<not> st_trusted (rp_state r2) then stop_with (r2\<lparr>rp_message := status_message\<rparr>) err_not_trusted
           else finish (r2\<lparr>rp_message := status_message\<rparr>))
     else if rp_action r2 = ''trust'' then do_trust M rnd c r2 owned
     else do_untrust M c r2 owned)))"

definition new_report :: "string \<Rightarrow> bool \<Rightarrow> report" where
  "new_report action dry =
     \<lparr>rp_schema = 1, rp_action = action, rp_certificate = [], rp_subject = [], rp_sha256 = [], rp_store = zero_store,
      rp_state = no_state, rp_managed = False, rp_known = True, rp_receipt = [], rp_recovery = [],
      rp_dry = dry, rp_changed = False, rp_message = []\<rparr>"

definition receipt_path :: "manager \<Rightarrow> trust_cert \<Rightarrow> path" where
  "receipt_path M c = path_join (mg_dir M) (tc_sha256 c @ ''.json'')"

definition recovery_path :: "manager \<Rightarrow> trust_cert \<Rightarrow> path" where
  "recovery_path M c = path_join (mg_dir M) (tc_sha256 c @ ''.crt'')"

definition about :: "trust_lib \<Rightarrow> manager \<Rightarrow> path \<Rightarrow> trust_cert \<Rightarrow> report \<Rightarrow> report" where
  "about T M full c r =
     r\<lparr>rp_certificate := full, rp_subject := cr_name T (x_subject (tc_x509 c)), rp_sha256 := tc_sha256 c,
       rp_store := bk_store (mg_backend M) c, rp_receipt := receipt_path M c, rp_recovery := recovery_path M c\<rparr>"

definition lock_path :: "manager \<Rightarrow> path" where
  "lock_path M = path_join (mg_dir M) ''trust.lock''"

definition with_lock :: "manager \<Rightarrow> report \<Rightarrow> report run \<Rightarrow> report run" where
  "with_lock M r k =
     try_step (\<lambda>e. e) r get_euid (\<lambda>u.
     if u \<noteq> 0 then stop_with r (Os EPERM)
     else
       try_step (\<lambda>e. e) r (mg_protect M (mg_dir M)) (\<lambda>_.
       try_step (\<lambda>e. e) r (lock (lock_path M)) (\<lambda>_. and_then (unlock (lock_path M)) k)))"

definition execute :: "trust_lib \<Rightarrow> manager \<Rightarrow> int \<Rightarrow> string \<Rightarrow> string \<Rightarrow> path \<Rightarrow> bool \<Rightarrow> report run" where
  "execute T M now rnd action path dry =
     (let r0 = new_report action dry in
      if action \<noteq> ''trust'' \<and> action \<noteq> ''untrust'' \<and> action \<noteq> ''trust-status'' then stop_with r0 (New ''unknown trust action'')
      else
        try_step (\<lambda>e. e) r0 (load_cert T path) (\<lambda>c.
        try_step (\<lambda>e. e) r0 (path_abs path) (\<lambda>full.
        let r = about T M full c r0 in
        if action = ''trust'' \<and> \<not> valid_now now c then stop_with r (New ''cannot trust a CA that is not currently valid'')
        else if action \<noteq> ''trust-status'' \<and> \<not> dry then with_lock M r (decide T M rnd c r)
        else decide T M rnd c r)))"

section \<open>What is owned\<close>

text \<open>
  The disk shows ownership of a certificate: a valid receipt for it and this store, and a
  recovery copy with its fingerprint.
\<close>

definition owned_files :: "trust_lib \<Rightarrow> manager \<Rightarrow> trust_cert \<Rightarrow> fs \<Rightarrow> bool" where
  "owned_files T M c m =
     ((\<exists>n rc. m (receipt_path M c) = Some n \<and> n_type n = Regular \<and> decode_receipt (n_data n) = Inr rc \<and> receipt_valid M c rc)
      \<and> (\<exists>q n s. resolve max_links m (recovery_path M c) = Some q \<and> m q = Some n \<and> parse_cert T (n_data n) = Inr s
           \<and> tc_sha256 s = tc_sha256 c))"

text \<open>What the code relies on in the library: a parsed certificate is its encoding, an encoded one
  decodes, fingerprints are hexadecimal.\<close>

definition hexadecimal :: "string \<Rightarrow> bool" where
  "hexadecimal s = (s \<noteq> [] \<and> list_all (\<lambda>ch. is_digit ch \<or> ch \<in> set ''abcdef'') s)"

definition trust_lib_ok :: "trust_lib \<Rightarrow> bool" where
  "trust_lib_ok T =
     ((\<forall>der c. cr_parse T der = Inr c \<longrightarrow> cr_parse T (x_raw c) = Inr c)
      \<and> (\<forall>der. let b = trim_space (cr_pem_encode T ''CERTIFICATE'' der) in
           has_prefix b pem_begin \<and> tl_pem_next T b = Some ((''CERTIFICATE'', der), []))
      \<and> (\<forall>b. hexadecimal (cr_sha256_hex T b))
      \<and> (\<forall>b x rest. tl_pem_next T b = Some (x, rest) \<longrightarrow> length rest < length b))"

lemma parse_cert_again:
  assumes ok: "trust_lib_ok T" and c: "parse_cert T b = Inr c"
  shows "parse_cert T (tc_pem c) = Inr c"
proof -
  from c obtain x where x: "c = \<lparr>tc_x509 = x, tc_pem = cr_pem_encode T ''CERTIFICATE'' (x_raw x), tc_sha256 = cr_sha256_hex T (x_raw x)\<rparr>"
    and ca: "x_is_ca x" "x_basic x" "x_usage x AND KeyUsageCertSign \<noteq> 0" "tl_self_signed T x" and "\<exists>der. cr_parse T der = Inr x"
    by (auto simp: parse_cert_def Let_def split: if_splits option.splits sum.splits prod.splits)
  with ok have p: "cr_parse T (x_raw x) = Inr x" unfolding trust_lib_ok_def by blast
  have "has_prefix (trim_space (tc_pem c)) pem_begin" "tl_pem_next T (trim_space (tc_pem c)) = Some ((''CERTIFICATE'', x_raw x), [])"
    using ok unfolding trust_lib_ok_def Let_def by (simp_all add: x)
  then show ?thesis using p ca by (simp add: parse_cert_def Let_def x trim_space_def)
qed

lemma parse_cert_hex: "trust_lib_ok T \<Longrightarrow> parse_cert T b = Inr c \<Longrightarrow> hexadecimal (tc_sha256 c)"
  unfolding trust_lib_ok_def
  by (auto simp: parse_cert_def Let_def split: if_splits option.splits sum.splits prod.splits)

lemma hexadecimalD: "hexadecimal s \<Longrightarrow> ascii s \<and> CHR ''/'' \<notin> set s \<and> s \<noteq> [] \<and> CHR ''.'' \<notin> set s"
  by (auto simp: hexadecimal_def ascii_def list_all_iff is_digit_def code_def)

lemma trust_paths_differ: "hexadecimal (tc_sha256 c) \<Longrightarrow> receipt_path M c \<noteq> recovery_path M c"
  unfolding receipt_path_def recovery_path_def
  by (subst path_join_inject) (auto simp: plain_name_def dest!: hexadecimalD)

subsection \<open>Receipts\<close>

definition ascii_store :: "store \<Rightarrow> bool" where
  "ascii_store s = (ascii (so_kind s) \<and> ascii (so_target s) \<and> ascii (so_scope s))"

lemma receipt_decodes:
  assumes "rc_version r = 1" "ascii (rc_sha256 r)" "ascii_store (rc_store r)" "ascii (rc_phase r)"
  shows "decode_receipt (receipt_bytes r) = Inr r"
proof -
  have one: "itoa 1 = dec 1" by (simp add: itoa_def)
  have a1: "atoi (dec 1) = Some 1" by code_simp
  have p: "printable (receipt_json r)"
    using assms by (simp add: receipt_json_def store_json_def ascii_store_def one) (simp add: ascii_def code_def)
  have d: "depth (receipt_json r) \<le> 10000" by (simp add: receipt_json_def store_json_def)
  show ?thesis
    unfolding decode_receipt_def receipt_bytes_def unmarshal_print [OF p d]
    using assms(1) one a1
    by (simp add: receipt_json_def store_json_def receipt_fields_def store_fields_def dec_struct_def field_of_def
        dec_string_def dec_int_def zero_receipt_def zero_store_def dec_result_def)
qed


subsection \<open>Guarding the store\<close>

text \<open>A store that does anything, \<open>bad\<close>, where the disk does not show ownership.\<close>

definition guarded :: "trust_lib \<Rightarrow> (trust_cert \<Rightarrow> path \<Rightarrow> unit io) \<Rightarrow> manager \<Rightarrow> manager" where
  "guarded T bad M =
     M\<lparr>mg_backend := (mg_backend M)
       \<lparr>bk_add := \<lambda>c p w. if owned_files T M c (w_fs w) then bk_add (mg_backend M) c p w else bad c p w,
        bk_remove := \<lambda>c p w. if owned_files T M c (w_fs w) then bk_remove (mg_backend M) c p w else bad c p w\<rparr>\<rparr>"

lemma guarded_fields [simp]:
  "bk_store (mg_backend (guarded T bad M)) = bk_store (mg_backend M)"
  "bk_inspect (mg_backend (guarded T bad M)) = bk_inspect (mg_backend M)"
  "mg_dir (guarded T bad M) = mg_dir M" "mg_protect (guarded T bad M) = mg_protect M"
  by (simp_all add: guarded_def)

lemma guarded_parts [simp]:
  "receipt_path (guarded T bad M) = receipt_path M" "recovery_path (guarded T bad M) = recovery_path M"
  "receipt_valid (guarded T bad M) = receipt_valid M" "look (guarded T bad M) = look M"
  "claim_files (guarded T bad M) = claim_files M" "lock_path (guarded T bad M) = lock_path M"
  by (rule ext | simp add: receipt_path_def recovery_path_def receipt_valid_def look_def claim_files_def lock_path_def)+

lemma guarded_reading [simp]: "read_receipt (guarded T bad M) = read_receipt M" "about T (guarded T bad M) = about T M"
  unfolding read_receipt_def about_def guarded_parts guarded_fields by (rule refl)+

lemma guarded_seeing [simp]: "see_receipt (guarded T bad M) = see_receipt M"
  unfolding see_receipt_def guarded_reading by (rule refl)

lemma guarded_calls [simp]:
  "owned_files T M c (w_fs w) \<Longrightarrow> bk_add (mg_backend (guarded T bad M)) c p w = bk_add (mg_backend M) c p w"
  "owned_files T M c (w_fs w) \<Longrightarrow> bk_remove (mg_backend (guarded T bad M)) c p w = bk_remove (mg_backend M) c p w"
  by (simp_all add: guarded_def)

text \<open>Two runs agree from the worlds where \<open>P\<close> holds.\<close>

definition agree :: "(world \<Rightarrow> bool) \<Rightarrow> report run \<Rightarrow> report run \<Rightarrow> bool" where
  "agree P f g = (\<forall>w. P w \<longrightarrow> f w = g w)"

lemma agreeD: "agree P f g \<Longrightarrow> P w \<Longrightarrow> f w = g w"
  by (simp add: agree_def)

lemma agree_refl: "agree P f f"
  by (simp add: agree_def)

lemma agree_if: "agree P f f' \<Longrightarrow> agree P g g' \<Longrightarrow> agree P (if b then f else g) (if b then f' else g')"
  by simp

lemma agree_try_step:
  assumes "\<And>x w w'. P w \<Longrightarrow> m w = (Inr x, w') \<Longrightarrow> Q x w'" and "\<And>x. agree (Q x) (k x) (k' x)"
  shows "agree P (try_step f r m k) (try_step f r m k')"
  unfolding agree_def
proof (intro allI impI)
  fix w assume P: "P w"
  show "try_step f r m k w = try_step f r m k' w"
  proof (cases "m w")
    case (Pair x w')
    show ?thesis
    proof (cases x)
      case (Inr y)
      with Pair assms(1) [OF P] have "Q y w'" by simp
      with assms(2) [of y] have "k y w' = k' y w'" by (simp add: agree_def)
      with Pair Inr show ?thesis by (simp add: try_step_def)
    qed (simp add: try_step_def Pair)
  qed
qed

lemma agree_looking:
  assumes "\<And>x w w'. P w \<Longrightarrow> look M c w = (x, w') \<Longrightarrow> Q w'" and "\<And>r. rp_receipt r = rp_receipt r0 \<Longrightarrow> rp_recovery r = rp_recovery r0 \<Longrightarrow>
     rp_store r = rp_store r0 \<Longrightarrow> agree Q (k r) (k' r)"
  shows "agree P (looking M c f r0 k) (looking (guarded T bad M) c f r0 k')"
  unfolding agree_def
proof (intro allI impI)
  fix w assume P: "P w"
  obtain s e w' where l: "look M c w = ((s, e), w')" by (cases "look M c w") auto
  with assms(1) [OF P] have "Q w'" by blast
  with assms(2) [of "r0\<lparr>rp_state := s\<rparr>"] have "k (r0\<lparr>rp_state := s\<rparr>) w' = k' (r0\<lparr>rp_state := s\<rparr>) w'" by (simp add: agree_def)
  with l show "looking M c f r0 k w = looking (guarded T bad M) c f r0 k' w"
    by (cases e) (simp_all add: looking_def)
qed


definition calm_owned :: "trust_lib \<Rightarrow> manager \<Rightarrow> trust_cert \<Rightarrow> world \<Rightarrow> bool" where
  "calm_owned T M c w = (calm w \<and> owned_files T M c (w_fs w))"

definition report_for :: "manager \<Rightarrow> trust_cert \<Rightarrow> report \<Rightarrow> bool" where
  "report_for M c r = (rp_receipt r = receipt_path M c \<and> rp_recovery r = recovery_path M c \<and> rp_store r = bk_store (mg_backend M) c)"

lemma stays_see_receipt [frame_intros]: "stays (untouched p) (see_receipt M c r)"
  unfolding see_receipt_def read_receipt_def by (intro unt.stays_rules frame_intros)

lemma stays_check_recovery [frame_intros]: "stays (untouched p) (check_recovery T c r owned)"
  unfolding check_recovery_def load_cert_def by (intro unt.stays_rules frame_intros)

text \<open>The contract of a store: looking and adding leave the proof of ownership alone.\<close>

locale trust_backend =
  fixes ops :: "trust_lib \<Rightarrow> 'b \<Rightarrow> backend"
    and fit :: "trust_lib \<Rightarrow> manager \<Rightarrow> 'b \<Rightarrow> bool"
  assumes store_ascii: "fit T M b \<Longrightarrow> hexadecimal (tc_sha256 c) \<Longrightarrow> ascii_store (bk_store (ops T b) c)"
    and inspect_calm: "fit T M b \<Longrightarrow> mg_backend M = ops T b \<Longrightarrow> calm w \<Longrightarrow> bk_inspect (ops T b) c w = (r, w') \<Longrightarrow> calm w'"
    and inspect_spares: "fit T M b \<Longrightarrow> mg_backend M = ops T b \<Longrightarrow> calm_owned T M c w \<Longrightarrow> bk_inspect (ops T b) c w = (r, w') \<Longrightarrow> calm_owned T M c w'"
    and add_spares: "fit T M b \<Longrightarrow> mg_backend M = ops T b \<Longrightarrow> calm_owned T M c w \<Longrightarrow> bk_add (ops T b) c p w = (x, w') \<Longrightarrow> calm_owned T M c w'"
begin

lemma look_calm: "fit T M b \<Longrightarrow> mg_backend M = ops T b \<Longrightarrow> calm w \<Longrightarrow> look M c w = (x, w') \<Longrightarrow> calm w'"
  by (auto simp: look_def split: prod.splits sum.splits dest: inspect_calm)

lemma look_spares: "fit T M b \<Longrightarrow> mg_backend M = ops T b \<Longrightarrow> calm_owned T M c w \<Longrightarrow> look M c w = (x, w') \<Longrightarrow> calm_owned T M c w'"
  by (auto simp: look_def split: prod.splits sum.splits dest: inspect_spares)

lemma roll_back_guarded:
  "report_for M c r \<Longrightarrow> agree (calm_owned T M c) (roll_back M c r e) (roll_back (guarded T bad M) c r e)"
  by (simp add: agree_def roll_back_def calm_owned_def report_for_def)

lemma install_guarded:
  assumes "fit T M b" "mg_backend M = ops T b" "report_for M c r"
  shows "agree (calm_owned T M c) (install_owned M rnd c r own) (install_owned (guarded T bad M) rnd c r own)"
  unfolding agree_def
proof (intro allI impI)
  fix w assume w: "calm_owned T M c w"
  then have o: "owned_files T M c (w_fs w)" by (simp add: calm_owned_def)
  obtain x w1 where add: "bk_add (mg_backend M) c (recovery_path M c) w = (x, w1)" by (cases "bk_add (mg_backend M) c (recovery_path M c) w")
  with assms(2) have w1: "calm_owned T M c w1" using add_spares [OF assms(1,2) w] by simp
  obtain s e w2 where look: "look M c w1 = ((s, e), w2)" by (cases "look M c w1") auto
  from look_spares [OF assms(1,2) w1 look] have w2: "calm_owned T M c w2" .
  have r': "report_for M c (r\<lparr>rp_state := s\<rparr>)" using assms(3) by (simp add: report_for_def)
  note rb = agreeD [OF roll_back_guarded, OF assms(3) w1] agreeD [OF roll_back_guarded, OF r' w2]
  show "install_owned M rnd c r own w = install_owned (guarded T bad M) rnd c r own w"
    using add look rb assms(3) o
    by (auto simp: install_owned_def report_for_def Let_def split: sum.split option.split)
qed

lemma claim_owned:
  assumes fit: "fit T M b" "mg_backend M = ops T b" and ok: "trust_lib_ok T" "parse_cert T t = Inr c" and r: "report_for M c r"
    and w: "calm w" and run: "claim_files M c r w = (Inr own, w')"
  shows "calm_owned T M c w'"
proof -
  note hex = parse_cert_hex [OF ok] and ne = trust_paths_differ [OF parse_cert_hex [OF ok], of M]
  define own0 where "own0 = \<lparr>rc_version = 1, rc_sha256 = tc_sha256 c, rc_store = bk_store (mg_backend M) c, rc_phase = ''pending''\<rparr>"
  from run r obtain w1 where a: "exclusive (recovery_path M c) (tc_pem c) 420 w = (Inr (), w1)"
    and b: "exclusive (receipt_path M c) (receipt_bytes own0) 384 w1 = (Inr (), w')"
    unfolding claim_files_def report_for_def Let_def bind_io_ok wrapping_ok attempt_iff own0_def
    by (elim exE conjE) (simp add: case_res_ok io_ok)
  note e1 = exclusive_ok [OF w a]
  note e2 = exclusive_ok [OF conjunct1 [OF e1] b]
  have "decode_receipt (receipt_bytes own0) = Inr own0"
    by (rule receipt_decodes)
      (use store_ascii [OF fit(1) hex] fit(2) hexadecimalD [OF hex] in \<open>simp_all add: own0_def\<close>, simp add: ascii_def code_def)
  moreover have "receipt_valid M c own0" by (simp add: receipt_valid_def own0_def)
  moreover have "w_fs w' (receipt_path M c) = Some ((new_node w1 Regular 384)\<lparr>n_data := receipt_bytes own0\<rparr>)"
    "w_fs w' (recovery_path M c) = Some ((new_node w Regular 420)\<lparr>n_data := tc_pem c\<rparr>)"
    using e1 e2 ne by simp_all
  moreover from this have "resolve max_links (w_fs w') (recovery_path M c) = Some (recovery_path M c)"
    by (intro resolve_plain) (simp add: new_node_def)
  ultimately show ?thesis
    using parse_cert_again [OF ok] e2 by (simp add: calm_owned_def owned_files_def new_node_def)
qed

lemma do_trust_guarded:
  assumes fit: "fit T M b" "mg_backend M = ops T b" and ok: "trust_lib_ok T" "parse_cert T t = Inr c" and r: "report_for M c r"
  shows "agree (\<lambda>w. calm w \<and> (owned \<noteq> None \<longrightarrow> calm_owned T M c w)) (do_trust M rnd c r owned) (do_trust (guarded T bad M) rnd c r owned)"
proof -
  have r': "report_for M c (r\<lparr>rp_managed := True\<rparr>)" using r by (simp add: report_for_def)
  show ?thesis
    unfolding do_trust_def guarded_parts
    by (intro agree_if agree_refl agree_try_step [of _ _ "\<lambda>_. calm_owned T M c"] install_guarded [OF fit r'])
      (use claim_owned [OF fit ok r] in \<open>auto simp: ret_iff split: option.splits\<close>)
qed

lemma do_untrust_guarded:
  assumes fit: "fit T M b" "mg_backend M = ops T b" and r: "report_for M c r"
  shows "agree (\<lambda>w. calm w \<and> (owned \<noteq> None \<longrightarrow> calm_owned T M c w)) (do_untrust M c r owned) (do_untrust (guarded T bad M) c r owned)"
proof (cases owned)
  case None
  then show ?thesis by (simp add: do_untrust_def agree_refl)
next
  case (Some own)
  have "looking (guarded T bad M) = looking M" by (simp add: looking_def fun_eq_iff)
  then show ?thesis
    unfolding Some do_untrust_def agree_def
    by (auto simp: try_step_def calm_owned_def)
qed

lemma see_receipt_owned:
  assumes run: "see_receipt M c r w = (Inr (owned, known), w')" and w: "calm w" and r: "report_for M c r" and own: "owned \<noteq> None"
  shows "calm w' \<and> w_fs w' = w_fs w \<and> (\<exists>n rc. w_fs w (receipt_path M c) = Some n \<and> n_type n = Regular \<and> decode_receipt (n_data n) = Inr rc
      \<and> receipt_valid M c rc)"
proof -
  from run r own obtain rc where rd: "read_receipt M (receipt_path M c) c w = (Inr (Some rc), w')"
    unfolding see_receipt_def report_for_def bind_io_ok attempt_iff
    by (auto simp: case_res_ok ret_iff throw_iff split: if_splits)
  then obtain w1 t where
    a: "regular (receipt_path M c) w = (Inr (), w1)" and b: "sys_read (receipt_path M c) w1 = (Inr t, w')"
    and d: "decode_receipt t = Inr rc" and v: "receipt_valid M c rc"
    unfolding read_receipt_def bind_io_ok attempt_iff
    by (auto simp: case_res_ok io_ok of_res_def split: if_splits sum.splits)
  from a obtain n where n: "w_fs w (receipt_path M c) = Some n" "n_type n = Regular" "calm w1" "w_fs w1 = w_fs w"
    unfolding regular_def io_ok using calm_lstat w by fastforce
  have "resolve max_links (w_fs w) (receipt_path M c) = Some (receipt_path M c)"
    using n by (intro resolve_plain) simp
  with calm_read [OF b n(3)] n have "calm w'" "w_fs w' = w_fs w" "t = n_data n" by auto
  with n d v show ?thesis by blast
qed

lemma check_recovery_owned:
  assumes run: "check_recovery T c r (Some own) w = (Inr (), w')" and w: "calm w" and r: "report_for M c r"
  shows "calm w' \<and> w_fs w' = w_fs w \<and> (\<exists>q n s. resolve max_links (w_fs w) (recovery_path M c) = Some q \<and> w_fs w q = Some n
     \<and> parse_cert T (n_data n) = Inr s \<and> tc_sha256 s = tc_sha256 c)"
proof -
  from run r obtain t s where b: "sys_read (recovery_path M c) w = (Inr t, w')" and p: "parse_cert T t = Inr s" "tc_sha256 s = tc_sha256 c"
    unfolding check_recovery_def load_cert_def report_for_def by (auto simp: io_ok of_res_ok)
  from calm_read [OF b w] p show ?thesis by blast
qed

lemma decide_guarded:
  assumes fit: "fit T M b" "mg_backend M = ops T b" and ok: "trust_lib_ok T" "parse_cert T t = Inr c" and r: "report_for M c r"
  shows "agree calm (decide T M rnd c r) (decide T (guarded T bad M) rnd c r)"
proof -
  let ?shown = "\<lambda>w. \<exists>n rc. w_fs w (receipt_path M c) = Some n \<and> n_type n = Regular \<and> decode_receipt (n_data n) = Inr rc \<and> receipt_valid M c rc"
  let ?P = "\<lambda>owned w. calm w \<and> (owned \<noteq> None \<longrightarrow> calm_owned T M c w)"
  have r1: "report_for M c (r\<lparr>rp_known := k, rp_managed := m\<rparr>)" for k m using r by (simp add: report_for_def)
  have seen: "calm w' \<and> (fst x \<noteq> None \<longrightarrow> ?shown w')" if "calm w" "see_receipt M c r w = (Inr x, w')" for x w w'
  proof -
    obtain owned known where x: "x = (owned, known)" by (cases x)
    have "calm w'" using calm_stays [OF stays_see_receipt [where M=M and c=c and r=r] that(1)] that(2) by simp
    with see_receipt_owned [OF that(2) [unfolded x] that(1) r] show ?thesis by (auto simp: x)
  qed
  have checked: "?P owned w'"
    if "calm w \<and> (owned \<noteq> None \<longrightarrow> ?shown w)" "check_recovery T c (r\<lparr>rp_known := k, rp_managed := m\<rparr>) owned w = (Inr y, w')" for owned w w' k m y
  proof (cases owned)
    case None
    with that show ?thesis by (auto simp: check_recovery_def ret_iff)
  next
    case (Some own)
    from that(1) have "calm w" by blast
    moreover have "y = ()" by simp
    ultimately show ?thesis
      using check_recovery_owned [OF that(2) [unfolded Some \<open>y = ()\<close>] _ r1] that(1) Some
      by (auto simp: calm_owned_def owned_files_def)
  qed
  have looked: "?P owned w'" if "?P owned w" "look M c w = (x, w')" for owned w w' x
    using that look_calm [OF fit] look_spares [OF fit] by blast
  have rr: "report_for M c r2" if "rp_receipt r2 = rp_receipt (r\<lparr>rp_known := k, rp_managed := m\<rparr>)"
    "rp_recovery r2 = rp_recovery (r\<lparr>rp_known := k, rp_managed := m\<rparr>)" "rp_store r2 = rp_store (r\<lparr>rp_known := k, rp_managed := m\<rparr>)" for r2 k m
    using that r by (simp add: report_for_def)
  show ?thesis
    unfolding decide_def guarded_seeing Let_def
    apply (rule agree_try_step [of _ _ "\<lambda>x w. calm w \<and> (fst x \<noteq> None \<longrightarrow> ?shown w)"])
     apply (erule (1) seen)
    subgoal for x
      apply (cases x)
      subgoal for owned known
        apply (simp only: prod.case fst_conv)
        apply (rule agree_try_step [of _ _ "\<lambda>_. ?P owned"])
         apply (erule (1) checked)
        apply (rule agree_looking [of _ _ _ "?P owned"])
         apply (erule (1) looked)
        apply (intro agree_if agree_refl do_trust_guarded [OF fit ok rr] do_untrust_guarded [OF fit rr]; assumption)
        done
      done
    done
qed

lemma execute_guarded:
  assumes fit: "fit T M b" "mg_backend M = ops T b" and ok: "trust_lib_ok T" and p: "\<And>w x w'. calm w \<Longrightarrow> mg_protect M (mg_dir M) w = (x, w') \<Longrightarrow> calm w'"
  shows "agree calm (execute T M now rnd action path dry) (execute T (guarded T bad M) now rnd action path dry)"
proof -
  have rf: "report_for M c (about T M full c r)" for full c r by (simp add: report_for_def about_def)
  have dec: "agree calm (decide T M rnd c (about T M full c r)) (decide T (guarded T bad M) rnd c (about T M full c r))"
    if "parse_cert T t = Inr c" for t c full r
    by (rule decide_guarded [OF fit ok that rf])
  have locked: "agree calm (with_lock M r k) (with_lock (guarded T bad M) r k')" if "agree calm k k'" for r k k'
  proof -
    have at: "agree calm (and_then u k) (and_then u k')" for u using that by (simp add: agree_def and_then_def)
    show ?thesis
      unfolding with_lock_def guarded_parts guarded_fields
      apply (rule agree_try_step [of _ _ "\<lambda>_. calm"])
       apply (simp add: get_euid_def)
      apply (intro agree_if agree_refl)
      apply (rule agree_try_step [of _ _ "\<lambda>_. calm"])
       apply (erule (1) p)
      apply (rule agree_try_step [of _ _ "\<lambda>_. calm"])
       apply (metis calm_stays stays_lock snd_conv not_Cons_self2)
      apply (rule at)
      done
  qed
  have loaded: "calm w' \<and> (\<exists>t. parse_cert T t = Inr c)" if "calm w" "load_cert T path w = (Inr c, w')" for w c w'
    using that unfolding load_cert_def by (auto simp: io_ok of_res_ok dest: calm_read)
  show ?thesis
    unfolding execute_def Let_def guarded_reading
    apply (intro agree_if agree_refl)
    apply (rule agree_try_step [of _ _ "\<lambda>c w. calm w \<and> (\<exists>t. parse_cert T t = Inr c)"])
     apply (erule (1) loaded)
    subgoal for c
      apply (cases "\<exists>t. parse_cert T t = Inr c")
       apply (elim exE)
       apply (rule agree_try_step [of _ _ "\<lambda>_. calm"])
        apply (auto simp: path_abs_def) []
       apply (intro agree_if agree_refl locked dec)
         apply assumption+
      apply (simp add: agree_def)
      done
    done
qed

end

end
