(* ===== verification/TrustStores.thy ===== *)
theory TrustStores
  imports Trust Config
begin

text \<open>
  \<^verbatim>\<open>internal/trust/platform.go\<close>: the stores of the two systems.  \<^verbatim>\<open>time.Now\<close> in \<^verbatim>\<open>Inspect\<close> is an argument.  The lemmas: searching a bundle finds exactly the
  certificates in it, the Linux store never touches a file that does not hold the certificate,
  and both stores keep the contract \<open>trust_backend\<close>.
\<close>

section \<open>Running tools\<close>

text \<open>The message of a failed command ends with its output; here it stands before the cause.\<close>

definition command :: "runner \<Rightarrow> runner" where
  "command exec input path args w =
     (case exec input path args w of
       (oc, w') \<Rightarrow>
         (oc\<lparr>oc_err := map_option (Wrapf (path @ '' '' @ show_strings args @ '': '' @ trim_space (oc_out oc))) (oc_err oc)\<rparr>, w'))"

section \<open>Searching a bundle\<close>

text \<open>
  The loop ends because decoding a block leaves a shorter rest, a fact of the library
  (\<open>pem_shrinks\<close>); the length of the text is fuel enough.
\<close>

fun contains_from :: "trust_lib \<Rightarrow> nat \<Rightarrow> string \<Rightarrow> string \<Rightarrow> bool" where
  "contains_from T 0 b fp = False"
| "contains_from T (Suc n) b fp =
     (case tl_pem_next T b of
       None \<Rightarrow> False
     | Some ((ty, der), rest) \<Rightarrow>
         if ty \<noteq> ''CERTIFICATE'' then contains_from T n rest fp
         else
           (case cr_parse T der of
             Inl _ \<Rightarrow> contains_from T n rest fp
           | Inr c \<Rightarrow> if cr_sha256_hex T (x_raw c) = fp then True else contains_from T n rest fp))"

definition contains_certificate :: "trust_lib \<Rightarrow> string \<Rightarrow> string \<Rightarrow> bool" where
  "contains_certificate T b fp = contains_from T (Suc (length b)) b fp"

section \<open>The macOS keychain\<close>

record mac_backend =
  mb_run :: runner
  mb_keychain :: path

definition mac_store :: "mac_backend \<Rightarrow> trust_cert \<Rightarrow> store" where
  "mac_store m c = \<lparr>so_kind = ''macos-keychain'', so_target = mb_keychain m, so_scope = ''SSL only; admin trust domain''\<rparr>"

fun contains_text :: "string \<Rightarrow> string \<Rightarrow> bool" where
  "contains_text [] t = (t = [])"
| "contains_text (c # s) t = (has_prefix (c # s) t \<or> contains_text s t)"

definition missing_item :: "string \<Rightarrow> bool" where
  "missing_item b =
     (let s = to_lower b in
      contains_text s ''the specified item could not be found'' \<or> contains_text s ''no trust settings were found'')"

definition security :: path where
  "security = ''/usr/bin/security''"

definition find_args :: "mac_backend \<Rightarrow> string list" where
  "find_args m = [''find-certificate'', ''-a'', ''-p'', mb_keychain m]"

definition verify_args :: "mac_backend \<Rightarrow> string list" where
  "verify_args m = [''verify-cert'', ''-c'', ''/dev/stdin'', ''-p'', ''ssl'', ''-l'', ''-L'', ''-k'', mb_keychain m, ''-q'']"

definition mac_verify :: "mac_backend \<Rightarrow> trust_cert \<Rightarrow> state \<Rightarrow> (state \<times> go_error option) io" where
  "mac_verify m c s =
     bind_io (running (mb_run m) (tc_pem c) security (verify_args m)) (\<lambda>v.
     case oc_err v of
       None \<Rightarrow> ret (s\<lparr>st_trusted := True\<rparr>, None)
     | Some e \<Rightarrow>
         if oc_ctx v \<noteq> None then ret (s, oc_ctx v)
         else if \<not> oc_exit v then ret (s, Some e)
         else ret (s\<lparr>st_trusted := False\<rparr>, None))"

definition mac_inspect :: "trust_lib \<Rightarrow> mac_backend \<Rightarrow> trust_cert \<Rightarrow> (state \<times> go_error option) io" where
  "mac_inspect T m c =
     bind_io (running (mb_run m) [] security (find_args m)) (\<lambda>f.
     if oc_err f \<noteq> None \<and> \<not> missing_item (oc_out f) then ret (no_state, oc_err f)
     else mac_verify m c \<lparr>st_installed = contains_certificate T (oc_out f) (tc_sha256 c), st_trusted = False\<rparr>)"

definition checked_run :: "runner \<Rightarrow> path \<Rightarrow> string list \<Rightarrow> (string \<Rightarrow> bool) \<Rightarrow> unit io" where
  "checked_run run path args fine =
     bind_io (running run [] path args) (\<lambda>oc.
     case oc_err oc of Some e \<Rightarrow> if \<not> fine (oc_out oc) then throw e else ret () | None \<Rightarrow> ret ())"

definition mac_add :: "mac_backend \<Rightarrow> trust_cert \<Rightarrow> path \<Rightarrow> unit io" where
  "mac_add m c snapshot =
     checked_run (mb_run m) security [''add-trusted-cert'', ''-d'', ''-r'', ''trustRoot'', ''-p'', ''ssl'', ''-k'', mb_keychain m, snapshot]
       (\<lambda>_. False)"

definition mac_remove :: "mac_backend \<Rightarrow> trust_cert \<Rightarrow> path \<Rightarrow> unit io" where
  "mac_remove m c snapshot =
     bind_io (checked_run (mb_run m) security [''remove-trusted-cert'', ''-d'', snapshot] missing_item) (\<lambda>_.
     checked_run (mb_run m) security [''delete-certificate'', ''-Z'', tc_sha256 c, mb_keychain m] missing_item)"

definition mac_ops :: "trust_lib \<Rightarrow> mac_backend \<Rightarrow> backend" where
  "mac_ops T m = \<lparr>bk_store = mac_store m, bk_inspect = mac_inspect T m, bk_add = mac_add m, bk_remove = mac_remove m\<rparr>"

section \<open>The Linux stores\<close>

record linux_backend =
  lb_kind :: string
  lb_dir :: path
  lb_bundle :: path
  lb_tool :: path
  lb_args :: "string list"
  lb_run :: runner
  lb_protect :: "path \<Rightarrow> unit io"
  lb_check_tool :: "path \<Rightarrow> unit io"

definition release_ids :: "string \<Rightarrow> string" where
  "release_ids release =
     concat (map (\<lambda>line. case cut line (CHR ''='') of (k, v, found) \<Rightarrow>
         if found \<and> (k = ''ID'' \<or> k = ''ID_LIKE'') then '' '' @ trim_set (trim_space v) [CHR 0x22, CHR 0x27] else [])
       (split_on newline release))"

definition protect_store :: "path \<Rightarrow> unit io" where
  "protect_store path = bind_io (sys_mkdir_all path 493) (\<lambda>_. root_owned path)"

definition family :: "runner \<Rightarrow> string \<Rightarrow> linux_backend option" where
  "family run i =
     (let make = (\<lambda>kind dir bundle tool args. Some \<lparr>lb_kind = kind, lb_dir = dir, lb_bundle = bundle, lb_tool = tool, lb_args = args,
            lb_run = run, lb_protect = protect_store, lb_check_tool = root_owned\<rparr>) in
      if i \<in> set [''debian'', ''ubuntu'']
      then make ''debian-ca-certificates'' ''/usr/local/share/ca-certificates'' ''/etc/ssl/certs/ca-certificates.crt''
             ''/usr/sbin/update-ca-certificates'' []
      else if i \<in> set [''fedora'', ''rhel'', ''centos'', ''rocky'', ''almalinux'']
      then make ''fedora-ca-trust'' ''/etc/pki/ca-trust/source/anchors'' ''/etc/pki/ca-trust/extracted/pem/tls-ca-bundle.pem''
             ''/usr/bin/update-ca-trust'' [''extract'']
      else if i = ''arch''
      then make ''arch-ca-trust'' ''/etc/ca-certificates/trust-source/anchors'' ''/etc/ca-certificates/extracted/tls-ca-bundle.pem''
             ''/usr/bin/update-ca-trust'' [''extract'']
      else None)"

fun first_family :: "runner \<Rightarrow> string list \<Rightarrow> linux_backend option" where
  "first_family run [] = None"
| "first_family run (i # ids) = (case family run i of Some b \<Rightarrow> Some b | None \<Rightarrow> first_family run ids)"

definition linux_store_of :: "string \<Rightarrow> runner \<Rightarrow> linux_backend res" where
  "linux_store_of release run =
     (case first_family run (split_fields (release_ids release)) of
       Some b \<Rightarrow> Inr b
     | None \<Rightarrow> Inl (New ''unsupported Linux trust store; supported: Debian/Ubuntu, Fedora/RHEL and Arch Linux families; install ca.crt manually''))"

definition linux_store :: "linux_backend \<Rightarrow> trust_cert \<Rightarrow> store" where
  "linux_store l c =
     \<lparr>so_kind = lb_kind l, so_target = path_join (lb_dir l) (''utlsproxy-'' @ tc_sha256 c @ ''.crt''),
      so_scope = ''system CA trust (not restricted to SSL)''\<rparr>"

definition anchor_path :: "linux_backend \<Rightarrow> trust_cert \<Rightarrow> path" where
  "anchor_path l c = so_target (linux_store l c)"

definition anchor :: "trust_lib \<Rightarrow> linux_backend \<Rightarrow> trust_cert \<Rightarrow> bool io" where
  "anchor T l c =
     bind_io (attempt (regular (anchor_path l c))) (\<lambda>r.
     case r of
       Inl e \<Rightarrow> if e = Os ENOENT then ret False else throw e
     | Inr _ \<Rightarrow>
         bind_io (load_cert T (anchor_path l c)) (\<lambda>stored.
         bind_io (guard (tc_sha256 stored \<noteq> tc_sha256 c)
           (New ''trust anchor path contains a different certificate; refusing replacement/removal'')) (\<lambda>_.
         ret True)))"

text \<open>A bundle that cannot be read is empty when it is missing and an error otherwise.\<close>

definition linux_inspect :: "trust_lib \<Rightarrow> int \<Rightarrow> linux_backend \<Rightarrow> trust_cert \<Rightarrow> (state \<times> go_error option) io" where
  "linux_inspect T now l c =
     bind_io (anchor T l c) (\<lambda>present.
     bind_io (attempt (sys_read (lb_bundle l))) (\<lambda>b.
     case b of
       Inl e \<Rightarrow> if e = Os ENOENT then ret (\<lparr>st_installed = present, st_trusted = valid_now now c \<and> contains_certificate T [] (tc_sha256 c)\<rparr>, None)
               else throw e
     | Inr b \<Rightarrow> ret (\<lparr>st_installed = present, st_trusted = valid_now now c \<and> contains_certificate T b (tc_sha256 c)\<rparr>, None)))"

definition check_tool :: "linux_backend \<Rightarrow> unit io" where
  "check_tool l = wrapping ''install the distribution ca-certificates package'' (lb_check_tool l (lb_tool l))"

definition refresh_store :: "linux_backend \<Rightarrow> unit io" where
  "refresh_store l = bind_io (check_tool l) (\<lambda>_. checked_run (lb_run l) (lb_tool l) (lb_args l) (\<lambda>_. False))"

definition linux_add :: "trust_lib \<Rightarrow> linux_backend \<Rightarrow> trust_cert \<Rightarrow> path \<Rightarrow> unit io" where
  "linux_add T l c snapshot =
     bind_io (check_tool l) (\<lambda>_.
     bind_io (lb_protect l (lb_dir l)) (\<lambda>_.
     bind_io (anchor T l c) (\<lambda>present.
     bind_io (if \<not> present then exclusive (anchor_path l c) (tc_pem c) 420 else ret ()) (\<lambda>_.
     refresh_store l))))"

definition linux_remove :: "trust_lib \<Rightarrow> linux_backend \<Rightarrow> trust_cert \<Rightarrow> path \<Rightarrow> unit io" where
  "linux_remove T l c snapshot =
     bind_io (lb_protect l (lb_dir l)) (\<lambda>_.
     bind_io (anchor T l c) (\<lambda>present.
     bind_io (if present then sys_remove (anchor_path l c) else ret ()) (\<lambda>_.
     refresh_store l)))"

definition linux_ops :: "trust_lib \<Rightarrow> int \<Rightarrow> linux_backend \<Rightarrow> backend" where
  "linux_ops T now l =
     \<lparr>bk_store = linux_store l, bk_inspect = linux_inspect T now l, bk_add = linux_add T l, bk_remove = linux_remove T l\<rparr>"

section \<open>The manager\<close>

text \<open>\<open>None\<close> stands for a system other than the two.\<close>

definition protect_dir :: "path \<Rightarrow> unit io" where
  "protect_dir path = bind_io (private_dir path) (\<lambda>_. root_owned path)"

definition manager_of :: "goos \<Rightarrow> backend \<Rightarrow> manager" where
  "manager_of os b =
     \<lparr>mg_backend = b, mg_dir = path_join (path_dir (pt_config (platform_paths os))) ''trust'', mg_protect = protect_dir\<rparr>"

definition new_manager :: "trust_lib \<Rightarrow> runner \<Rightarrow> int \<Rightarrow> goos option \<Rightarrow> manager io" where
  "new_manager T exec now os =
     (case os of
       Some Darwin \<Rightarrow>
         ret (manager_of Darwin (mac_ops T \<lparr>mb_run = command exec, mb_keychain = ''/Library/Keychains/System.keychain''\<rparr>))
     | Some Linux \<Rightarrow>
         bind_io (sys_read ''/etc/os-release'') (\<lambda>release.
         bind_io (of_res (linux_store_of release (command exec))) (\<lambda>l.
         ret (manager_of Linux (linux_ops T now l))))
     | None \<Rightarrow> throw (New ''CA trust unsupported; import the public CA manually''))"

section \<open>Searching finds what is there\<close>

text \<open>The blocks of a text, as a relation.\<close>

inductive block_in :: "trust_lib \<Rightarrow> string \<Rightarrow> string \<times> string \<Rightarrow> bool" for T where
  first: "tl_pem_next T b = Some (x, rest) \<Longrightarrow> block_in T b x"
| later: "tl_pem_next T b = Some (y, rest) \<Longrightarrow> block_in T rest x \<Longrightarrow> block_in T b x"

inductive_simps block_in_iff: "block_in T b x"

definition has_certificate :: "trust_lib \<Rightarrow> string \<Rightarrow> string \<Rightarrow> bool" where
  "has_certificate T b fp = (\<exists>der c. block_in T b (''CERTIFICATE'', der) \<and> cr_parse T der = Inr c \<and> cr_sha256_hex T (x_raw c) = fp)"

lemma has_certificate_step:
  "has_certificate T b fp = (case tl_pem_next T b of None \<Rightarrow> False
     | Some ((ty, der), rest) \<Rightarrow> (ty = ''CERTIFICATE'' \<and> (\<exists>c. cr_parse T der = Inr c \<and> cr_sha256_hex T (x_raw c) = fp)) \<or> has_certificate T rest fp)"
  unfolding has_certificate_def by (subst block_in_iff) (auto split: option.splits)

lemma contains_from_enough:
  assumes "trust_lib_ok T" and "length b < n"
  shows "contains_from T n b fp = has_certificate T b fp"
  using assms(2)
proof (induction n arbitrary: b)
  case (Suc n)
  have shrink: "tl_pem_next T b = Some (x, rest) \<Longrightarrow> length rest < length b" for x rest
    using assms(1) unfolding trust_lib_ok_def by blast
  show ?case
  proof (cases "tl_pem_next T b")
    case None
    then show ?thesis by (subst has_certificate_step) simp
  next
    case (Some z)
    obtain ty der rest where z: "z = ((ty, der), rest)" by (cases z) auto
    with Some shrink Suc have "contains_from T n rest fp = has_certificate T rest fp" by fastforce
    then show ?thesis
      by (subst has_certificate_step) (auto simp: Some z split: sum.split)
  qed
qed simp

section \<open>Growing file trees\<close>

text \<open>Undisturbed, a command only adds files.\<close>

definition grows :: "world \<Rightarrow> world \<Rightarrow> bool" where
  "grows w w' = (calm w \<longrightarrow> calm w' \<and> w_fs w \<subseteq>\<^sub>m w_fs w')"

interpretation grow: io_frame grows
  by unfold_locales (auto simp: grows_def intro: map_le_trans)

lemma grows_reading: "(\<And>p. stays (untouched p) m) \<Longrightarrow> stays grows m"
  unfolding stays_def grows_def map_le_def using calm_untouched by (metis (no_types, lifting))

lemma grows_mkdir: "stays grows (sys_mkdir_all p m)"
  unfolding stays_def
proof
  fix w
  obtain fl w1 where t: "tick w = (fl, w1)" by (cases "tick w")
  have "calm w1 \<and> w_fs w1 = w_fs w" if "calm w" using calm_tick [OF that t] by auto
  then show "grows w (snd (sys_mkdir_all p m w))"
    by (auto simp: grows_def sys_mkdir_all_def sys_def t map_le_def split: option.splits prod.splits)
qed

lemma grows_exclusive: "stays grows (exclusive p b m)"
  unfolding stays_def
proof
  fix w
  let ?w' = "snd (exclusive p b m w)"
  have "calm ?w'" "w_fs ?w' q = w_fs w q" if "calm w" "q \<noteq> p" for q
    using calm_stays [OF stays_exclusive [OF that(2)] that(1)] by simp_all
  moreover have "calm ?w'" if "calm w" using calculation(1) [OF that, of "p @ ''x''"] by simp
  moreover have "w_fs ?w' p = Some n" if "calm w" "w_fs w p = Some n" for n
    using exclusive_existing_fails [OF that] by simp
  ultimately show "grows w ?w'"
    unfolding grows_def map_le_def by (metis domD)
qed

lemma resolve_mono: "resolve k m p = Some q \<Longrightarrow> m q = Some n \<Longrightarrow> m \<subseteq>\<^sub>m m' \<Longrightarrow> resolve k m' p = Some q"
proof (induction k arbitrary: p)
  case (Suc k)
  show ?case
  proof (cases "m p")
    case None
    with Suc.prems show ?thesis by simp
  next
    case (Some x)
    with Suc.prems(3) have "m' p = Some x" by (auto simp: map_le_def dom_def)
    with Some Suc show ?thesis by (simp split: if_splits)
  qed
qed simp

lemma owned_mono: "owned_files T M c m \<Longrightarrow> m \<subseteq>\<^sub>m m' \<Longrightarrow> owned_files T M c m'"
  unfolding owned_files_def
  by (elim conjE exE, intro conjI) (metis domI map_le_def, metis domI map_le_def resolve_mono)

lemma grows_owned: "stays grows m \<Longrightarrow> calm_owned T M c w \<Longrightarrow> m w = (r, w') \<Longrightarrow> calm_owned T M c w'"
  using grow.stays_run [of m w r w'] owned_mono by (auto simp: calm_owned_def grows_def)

lemma grows_calm: "stays grows m \<Longrightarrow> calm w \<Longrightarrow> m w = (r, w') \<Longrightarrow> calm w'"
  using grow.stays_run [of m w r w'] by (auto simp: grows_def)

section \<open>The two stores keep the contract\<close>

text \<open>The tools leave the trust directory alone, and disturb nothing in an undisturbed world.\<close>

definition tools_spare :: "trust_lib \<Rightarrow> manager \<Rightarrow> runner \<Rightarrow> bool" where
  "tools_spare T M run =
     (\<forall>i p a w. let w' = snd (run i p a w) in
        calm w \<longrightarrow> calm w' \<and> (\<forall>c. owned_files T M c (w_fs w) \<longrightarrow> owned_files T M c (w_fs w')))"

lemma tools_spare_command: "tools_spare T M exec \<Longrightarrow> tools_spare T M (command exec)"
  by (simp add: tools_spare_def command_def Let_def split: prod.split) (metis snd_conv)

text \<open>Commands that leave ownership alone, as a frame.\<close>

definition spares :: "trust_lib \<Rightarrow> manager \<Rightarrow> world \<Rightarrow> world \<Rightarrow> bool" where
  "spares T M w w' = (calm w \<longrightarrow> calm w' \<and> (\<forall>c. owned_files T M c (w_fs w) \<longrightarrow> owned_files T M c (w_fs w')))"

interpretation spare: io_frame "spares T M" for T M
  by unfold_locales (auto simp: spares_def)

lemma spares_grows: "stays grows m \<Longrightarrow> stays (spares T M) m"
  by (auto simp: stays_def spares_def grows_def intro: owned_mono)

lemma spares_reading: "(\<And>p. stays (untouched p) m) \<Longrightarrow> stays (spares T M) m"
  by (intro spares_grows grows_reading)

lemma spares_running: "tools_spare T M run \<Longrightarrow> stays (spares T M) (running run i p a)"
  by (simp add: stays_def spares_def tools_spare_def running_def Let_def split: prod.split) (metis snd_conv)

lemma spares_owned: "stays (spares T M) m \<Longrightarrow> calm_owned T M c w \<Longrightarrow> m w = (r, w') \<Longrightarrow> calm_owned T M c w'"
  using spare.stays_run [of T M m w r w'] by (auto simp: calm_owned_def spares_def)

lemma spares_calm: "stays (spares T M) m \<Longrightarrow> calm w \<Longrightarrow> m w = (r, w') \<Longrightarrow> calm w'"
  using spare.stays_run [of T M m w r w'] by (auto simp: spares_def)

lemma spares_checked_run: "tools_spare T M run \<Longrightarrow> stays (spares T M) (checked_run run p a fine)"
  unfolding checked_run_def by (intro spare.stays_rules spares_running)

subsection \<open>macOS\<close>

definition mac_fit :: "trust_lib \<Rightarrow> manager \<Rightarrow> mac_backend \<Rightarrow> bool" where
  "mac_fit T M m = (tools_spare T M (mb_run m) \<and> ascii (mb_keychain m))"

lemma mac_inspect_spares: "tools_spare T M (mb_run m) \<Longrightarrow> stays (spares T M) (mac_inspect T m c)"
  unfolding mac_inspect_def mac_verify_def by (intro spare.stays_rules spares_running)

interpretation mac: trust_backend mac_ops mac_fit
proof (unfold_locales, goal_cases)
  case (1 T M b c)
  moreover have "ascii ''macos-keychain''" "ascii ''SSL only; admin trust domain''" by (simp_all add: ascii_def code_def)
  ultimately show ?case by (simp add: mac_fit_def mac_ops_def mac_store_def ascii_store_def)
next
  case (2 T M b w c r w')
  then show ?case using spares_calm [OF mac_inspect_spares] by (auto simp: mac_fit_def mac_ops_def)
next
  case (3 T M b c w r w')
  then show ?case using spares_owned [OF mac_inspect_spares] by (auto simp: mac_fit_def mac_ops_def)
next
  case (4 T M b c w p x w')
  then show ?case using spares_owned [OF spares_checked_run] by (auto simp: mac_fit_def mac_ops_def mac_add_def)
qed

subsection \<open>Linux\<close>

definition linux_fit :: "trust_lib \<Rightarrow> manager \<Rightarrow> int \<times> linux_backend \<Rightarrow> bool" where
  "linux_fit T M b = (case b of (now, l) \<Rightarrow> tools_spare T M (lb_run l) \<and> (\<exists>i. family (lb_run l) i = Some l))"

lemma family_cases:
  assumes fam: "family run i = Some l"
  shows "lb_run l = run \<and> lb_protect l = protect_store \<and> lb_check_tool l = root_owned
    \<and> lb_kind l \<in> {''debian-ca-certificates'', ''fedora-ca-trust'', ''arch-ca-trust''}
    \<and> lb_dir l \<in> {''/usr/local/share/ca-certificates'', ''/etc/pki/ca-trust/source/anchors'', ''/etc/ca-certificates/trust-source/anchors''}"
proof (cases "i \<in> set [''debian'', ''ubuntu'']")
  case True
  with fam [symmetric] show ?thesis by (simp only: family_def Let_def if_True option.inject) simp
next
  case d: False
  show ?thesis
  proof (cases "i \<in> set [''fedora'', ''rhel'', ''centos'', ''rocky'', ''almalinux'']")
    case True
    with d fam [symmetric] show ?thesis by (simp only: family_def Let_def if_True if_False option.inject) simp
  next
    case False
    with d fam [symmetric] show ?thesis
      by (cases "i = ''arch''") (simp_all only: family_def Let_def if_True if_False option.inject option.distinct, simp)
  qed
qed

lemma anchor_dirs:
  assumes n: "plain_name m"
  shows "path_join ''/usr/local/share/ca-certificates'' m = ''/usr/local/share/ca-certificates/'' @ m"
    "path_join ''/etc/pki/ca-trust/source/anchors'' m = ''/etc/pki/ca-trust/source/anchors/'' @ m"
    "path_join ''/etc/ca-certificates/trust-source/anchors'' m = ''/etc/ca-certificates/trust-source/anchors/'' @ m"
  by (subst path_join_name [OF n], simp add: path_evals)+

lemma ascii_append [simp]: "ascii (s @ t) \<longleftrightarrow> ascii s \<and> ascii t"
  by (simp add: ascii_def)

lemma anchor_name_ascii:
  assumes s: "hexadecimal s" and "d \<in> {''/usr/local/share/ca-certificates'', ''/etc/pki/ca-trust/source/anchors'', ''/etc/ca-certificates/trust-source/anchors''}"
  shows "ascii (path_join d (''utlsproxy-'' @ s @ ''.crt''))"
proof -
  have n: "plain_name (''utlsproxy-'' @ s @ ''.crt'')" using hexadecimalD [OF s] by (auto simp: plain_name_def)
  have "ascii ''utlsproxy-''" "ascii ''.crt''" "ascii s" using hexadecimalD [OF s] by (simp_all add: ascii_def code_def)
  then have m: "ascii (''utlsproxy-'' @ s @ ''.crt'')" by (simp only: ascii_append)
  have "ascii ''/usr/local/share/ca-certificates/''" "ascii ''/etc/pki/ca-trust/source/anchors/''" "ascii ''/etc/ca-certificates/trust-source/anchors/''"
    by (simp_all add: ascii_def code_def)
  with m assms(2) show ?thesis unfolding insert_iff by (elim disjE) (simp_all only: anchor_dirs [OF n] ascii_append, simp_all)
qed

lemma stays_anchor [frame_intros]: "stays (untouched p) (anchor T l c)"
  unfolding anchor_def load_cert_def by (intro unt.stays_rules frame_intros)

lemma linux_inspect_reads: "stays (untouched p) (linux_inspect T now l c)"
  unfolding linux_inspect_def by (intro unt.stays_rules frame_intros)

lemma linux_add_spares:
  assumes "family run i = Some l" "tools_spare T M run"
  shows "stays (spares T M) (linux_add T l c p)"
proof -
  note f = family_cases [OF assms(1)]
  have ro: "stays (spares T M) (root_owned q)" for q by (intro spares_reading frame_intros)
  have md: "stays (spares T M) (sys_mkdir_all q m)" for q m by (intro spares_grows grows_mkdir)
  have ex: "stays (spares T M) (exclusive q b m)" for q b m by (intro spares_grows grows_exclusive)
  have an: "stays (spares T M) (anchor T l c)" by (intro spares_reading frame_intros)
  from f have "lb_run l = run" "lb_protect l = protect_store" "lb_check_tool l = root_owned" by simp_all
  then show ?thesis
    unfolding linux_add_def refresh_store_def check_tool_def
    by (simp only: protect_store_def) (intro spare.stays_rules ro md ex an spares_checked_run assms(2))
qed

interpretation lnx: trust_backend "\<lambda>T (now, l). linux_ops T now l" linux_fit
proof (unfold_locales, goal_cases)
  case (1 T M b c)
  obtain now l where b: "b = (now, l)" by (cases b)
  with 1 obtain i where "family (lb_run l) i = Some l" by (auto simp: linux_fit_def)
  note f = family_cases [OF this]
  have "ascii ''debian-ca-certificates''" "ascii ''fedora-ca-trust''" "ascii ''arch-ca-trust''" by (simp_all add: ascii_def code_def)
  with f have "ascii (lb_kind l)" by auto
  moreover have "ascii (path_join (lb_dir l) (''utlsproxy-'' @ tc_sha256 c @ ''.crt''))" using anchor_name_ascii [OF 1(2)] f by blast
  moreover have "ascii ''system CA trust (not restricted to SSL)''" by (simp_all add: ascii_def code_def)
  ultimately show ?case by (simp add: b linux_ops_def linux_store_def ascii_store_def)
next
  case (2 T M b w c r w')
  then show ?case using spares_calm [OF spares_reading [OF linux_inspect_reads]] by (auto simp: linux_ops_def split: prod.splits)
next
  case (3 T M b c w r w')
  then show ?case using spares_owned [OF spares_reading [OF linux_inspect_reads]] by (auto simp: linux_ops_def split: prod.splits)
next
  case (4 T M b c w p x w')
  then show ?case
    using spares_owned [OF linux_add_spares] by (auto simp: linux_ops_def linux_fit_def split: prod.splits)
qed

end
