(* ===== verification/TrustSafety.thy ===== *)
theory TrustSafety
  imports TrustStores
begin

text \<open>
  The properties of \<^verbatim>\<open>internal/trust\<close> as a whole, over the manager \<^verbatim>\<open>New\<close> makes on either
  system: the store changes only with a proof of ownership on disk, reports and dry runs change
  nothing, what a report calls changed has happened, and a file that is not the certificate is
  never replaced or removed.  The assumptions: the library is as documented (\<open>trust_lib_ok\<close>) and the
  tools of the system leave the trust directory alone (\<open>tools_spare\<close>).
\<close>

section \<open>Runs without an error\<close>

lemma run_ok:
  "try_step f r m k w = ((r', None), w') \<longleftrightarrow> (\<exists>x w1. m w = (Inr x, w1) \<and> k x w1 = ((r', None), w'))"
  "looking M c f r kr w = ((r', None), w') \<longleftrightarrow> (\<exists>s w1. look M c w = ((s, None), w1) \<and> kr (r\<lparr>rp_state := s\<rparr>) w1 = ((r', None), w'))"
  "stop_with r e w \<noteq> ((r', None), w')"
  "finish r w = ((r', None), w') \<longleftrightarrow> r' = r \<and> w' = w"
  "and_then u k' w = ((r', None), w') \<longleftrightarrow> (\<exists>w1. k' w = ((r', None), w1) \<and> w' = snd (u w1))"
  by (auto simp: try_step_def looking_def stop_with_def finish_def and_then_def split: prod.splits sum.splits option.splits)

text \<open>Names after the last slash.\<close>

definition after_slash :: "path \<Rightarrow> string" where
  "after_slash p = rev (takeWhile (\<lambda>c. c \<noteq> CHR ''/'') (rev p))"

lemma after_slash_name: "CHR ''/'' \<notin> set n \<Longrightarrow> p = [] \<or> last p = CHR ''/'' \<Longrightarrow> after_slash (p @ n) = n"
proof -
  assume n: "CHR ''/'' \<notin> set n" and p: "p = [] \<or> last p = CHR ''/''"
  have all: "\<forall>c \<in> set (rev n). c \<noteq> CHR ''/''" using n by auto
  then have tw: "takeWhile (\<lambda>c. c \<noteq> CHR ''/'') (rev n @ t) = rev n @ takeWhile (\<lambda>c. c \<noteq> CHR ''/'') t" for t
    by (intro takeWhile_append2) blast
  show ?thesis
  proof (cases p rule: rev_cases)
    case Nil
    with tw [of "[]"] show ?thesis by (simp only: after_slash_def append_Nil append_Nil2 takeWhile.simps rev_rev_ident)
  next
    case (snoc q x)
    with p have "x = CHR ''/''" by simp
    with tw [of "CHR ''/'' # rev q"] snoc show ?thesis by (simp add: after_slash_def)
  qed
qed

lemma join_after_slash: "plain_name n \<Longrightarrow> after_slash (path_join d n) = n"
  unfolding path_join_name Let_def
  by (rule after_slash_name) (auto simp: plain_name_def)

lemma receipt_not_temporary:
  assumes "hexadecimal (tc_sha256 c)" "CHR ''/'' \<notin> set rnd"
  shows "receipt_path M c \<noteq> temp_name (path_dir (receipt_path M c)) ''.utlsproxy-'' rnd"
proof
  assume eq: "receipt_path M c = temp_name (path_dir (receipt_path M c)) ''.utlsproxy-'' rnd"
  let ?n = "tc_sha256 c @ ''.json''" and ?d = "path_dir (receipt_path M c)"
  have "plain_name ?n" using hexadecimalD [OF assms(1)] by (auto simp: plain_name_def)
  then have "after_slash (receipt_path M c) = ?n" by (simp add: receipt_path_def join_after_slash)
  moreover have "after_slash (temp_name ?d ''.utlsproxy-'' rnd) = ''.utlsproxy-'' @ rnd"
    unfolding temp_name_def using assms(2) after_slash_name [of "''.utlsproxy-'' @ rnd"] by auto
  ultimately have e: "?n = ''.utlsproxy-'' @ rnd" using eq by simp
  from hexadecimalD [OF assms(1)] obtain ch cs where "tc_sha256 c = ch # cs" "ch \<noteq> CHR ''.''" by (cases "tc_sha256 c") auto
  with e show False by simp
qed

lemma remove_receipt_ok:
  assumes "calm w" "remove_receipt r w = (Inr (), w')" "rp_receipt r \<noteq> rp_recovery r"
  shows "calm w' \<and> w_fs w' (rp_receipt r) = None \<and> w_fs w' (rp_recovery r) = None"
proof -
  from assms(2) obtain w1 where a: "sys_remove (rp_receipt r) w = (Inr (), w1)" and b: "sys_remove (rp_recovery r) w1 = (Inr (), w')"
    unfolding remove_receipt_def io_ok by auto
  from calm_remove [OF a assms(1)] calm_remove [OF b] assms(3) show ?thesis by auto
qed

lemma roll_back_fails: "roll_back M c r e w \<noteq> ((r', None), w')"
  by (auto simp: roll_back_def join_errors_def errs_def Let_def split: prod.splits list.splits)

lemma install_ok:
  assumes "install_owned M rnd c r own w = ((r', None), w')"
  obtains s w1 w2 where "bk_add (mg_backend M) c (rp_recovery r) w = (Inr (), w1)" "look M c w1 = ((s, None), w2)" "st_trusted s"
    "atomic (rp_receipt r) (receipt_bytes (own\<lparr>rc_phase := ''installed''\<rparr>)) 384 rnd w2 = (Inr (), w')"
    "r' = r\<lparr>rp_state := s, rp_changed := True,
       rp_message := ''Public CA installed and trusted. Restart affected clients; private keys were not accessed.''\<rparr>"
proof -
  obtain x w1 where add: "bk_add (mg_backend M) c (rp_recovery r) w = (x, w1)" by (cases "bk_add (mg_backend M) c (rp_recovery r) w")
  with assms have x: "x = Inr ()" by (cases x) (auto simp: install_owned_def roll_back_fails)
  obtain s e w2 where look: "look M c w1 = ((s, e), w2)" by (cases "look M c w1") auto
  with assms add x have e: "e = None" "st_trusted s"
    by (auto simp: install_owned_def Let_def roll_back_fails split: option.splits if_splits)
  with assms add x look that show thesis
    by (auto simp: install_owned_def Let_def run_ok)
qed

lemma see_receipt_valid: "see_receipt M c r w = (Inr (Some rc, k), w') \<Longrightarrow> receipt_valid M c rc"
  unfolding see_receipt_def read_receipt_def bind_io_ok attempt_iff
  by (auto simp: case_res_ok io_ok split: if_splits)

lemma claim_fields:
  "claim_files M c r w = (Inr own, w') \<Longrightarrow> own = \<lparr>rc_version = 1, rc_sha256 = tc_sha256 c, rc_store = rp_store r, rc_phase = ''pending''\<rparr>"
  unfolding claim_files_def Let_def bind_io_ok attempt_iff by (auto simp: case_res_ok io_ok)

context trust_backend begin

lemma do_trust_changed:
  assumes fit: "fit T M b" "mg_backend M = ops T b" and ok: "trust_lib_ok T" "parse_cert T t = Inr c" and r: "report_for M c r" "\<not> rp_changed r"
    and w: "calm w" "\<And>own. owned = Some own \<Longrightarrow> receipt_valid M c own \<and> calm_owned T M c w" and rnd: "CHR ''/'' \<notin> set rnd"
    and run: "do_trust M rnd c r owned w = ((r', None), w')" "rp_changed r'"
  shows "calm w' \<and> st_trusted (rp_state r') \<and> rp_managed r' \<and> rp_receipt r' = receipt_path M c \<and> rp_recovery r' = recovery_path M c
    \<and> (\<exists>n rc. w_fs w' (receipt_path M c) = Some n \<and> n_type n = Regular \<and> decode_receipt (n_data n) = Inr rc \<and> receipt_valid M c rc \<and> rc_phase rc = ''installed'')"
proof -
  note hex = parse_cert_hex [OF ok]
  from run r obtain own w1 where o: "(case owned of Some own \<Rightarrow> ret own | None \<Rightarrow> claim_files M c r) w = (Inr own, w1)"
    and i: "install_owned M rnd c (r\<lparr>rp_managed := True\<rparr>) own w1 = ((r', None), w')"
    unfolding do_trust_def by (auto simp: run_ok split: if_splits)
  have owns: "rc_version own = 1 \<and> rc_sha256 own = tc_sha256 c \<and> rc_store own = bk_store (ops T b) c \<and> calm_owned T M c w1"
  proof (cases owned)
    case None
    with o claim_owned [OF fit ok r(1) w(1)] claim_fields [of M c r w own w1] r(1) fit(2)
    show ?thesis
      by (simp add: report_for_def)
  next
    case (Some own')
    with o w(2) [OF Some] fit(2)
    show ?thesis
      by (auto simp: receipt_valid_def ret_iff)
  qed
  then have own: "rc_version own = 1" "rc_sha256 own = tc_sha256 c" "rc_store own = bk_store (ops T b) c" "calm_owned T M c w1" by blast+
  let ?new = "own\<lparr>rc_phase := ''installed''\<rparr>"
  have dec: "decode_receipt (receipt_bytes ?new) = Inr ?new"
    by (rule receipt_decodes)
      (use own store_ascii [OF fit(1) hex] hexadecimalD [OF hex] in \<open>simp_all add: ascii_def code_def\<close>)
  have val: "receipt_valid M c ?new" using own fit(2) by (simp add: receipt_valid_def)
  from i obtain s w2 w3 where st: "bk_add (mg_backend M) c (recovery_path M c) w1 = (Inr (), w2)" "look M c w2 = ((s, None), w3)" "st_trusted s"
      "atomic (receipt_path M c) (receipt_bytes ?new) 384 rnd w3 = (Inr (), w')"
    and r': "st_trusted (rp_state r')" "rp_managed r'" "rp_receipt r' = receipt_path M c" "rp_recovery r' = recovery_path M c"
    using r(1) by (elim install_ok) (simp add: report_for_def)
  have "calm_owned T M c w2" using add_spares [OF fit own(4)] st(1) fit(2) by simp
  from look_spares [OF fit this st(2)] have "calm w3" by (simp add: calm_owned_def)
  from atomic_ok [OF this st(4) receipt_not_temporary [OF hex rnd]] r' dec val show ?thesis by (auto simp: new_node_def)
qed

lemma do_untrust_changed:
  assumes fit: "fit T M b" "mg_backend M = ops T b" and r: "report_for M c r" "\<not> rp_changed r" and ne: "receipt_path M c \<noteq> recovery_path M c"
    and w: "calm_owned T M c w" and rem: "\<And>w x w'. calm w \<Longrightarrow> bk_remove (ops T b) c (recovery_path M c) w = (x, w') \<Longrightarrow> calm w'"
    and run: "do_untrust M c r (Some own) w = ((r', None), w')" "rp_changed r'"
  shows "calm w' \<and> \<not> st_installed (rp_state r') \<and> \<not> rp_managed r' \<and> rp_receipt r' = receipt_path M c \<and> rp_recovery r' = recovery_path M c
    \<and> w_fs w' (receipt_path M c) = None \<and> w_fs w' (recovery_path M c) = None"
proof -
  from run r obtain s w1 w2 where a: "bk_remove (ops T b) c (recovery_path M c) w = (Inr (), w1)" and l: "look M c w1 = ((s, None), w2)"
    and s: "\<not> st_installed s" and d: "remove_receipt (r\<lparr>rp_state := s\<rparr>) w2 = (Inr (), w')"
    and r': "r' = r\<lparr>rp_state := s, rp_managed := False, rp_changed := True, rp_message := removed_message (st_trusted s)\<rparr>"
    unfolding do_untrust_def by (auto simp: run_ok fit(2) report_for_def split: if_splits)
  have "calm w1" using rem [OF _ a] w by (simp add: calm_owned_def)
  from remove_receipt_ok [OF look_calm [OF fit this l] d] r ne s r' show ?thesis by (simp add: report_for_def)
qed

lemma decide_changed:
  assumes fit: "fit T M b" "mg_backend M = ops T b" and ok: "trust_lib_ok T" "parse_cert T t = Inr c" and r: "report_for M c r" "\<not> rp_changed r"
    and w: "calm w" and rnd: "CHR ''/'' \<notin> set rnd"
    and rem: "\<And>w x w'. calm w \<Longrightarrow> bk_remove (ops T b) c (recovery_path M c) w = (x, w') \<Longrightarrow> calm w'"
    and run: "decide T M rnd c r w = ((r', None), w')" "rp_changed r'"
  shows "calm w' \<and> rp_receipt r' = receipt_path M c \<and> rp_recovery r' = recovery_path M c \<and>
     (if rp_action r = ''trust''
      then st_trusted (rp_state r') \<and> rp_managed r'
        \<and> (\<exists>n rc. w_fs w' (receipt_path M c) = Some n \<and> n_type n = Regular \<and> decode_receipt (n_data n) = Inr rc \<and> receipt_valid M c rc \<and> rc_phase rc = ''installed'')
      else \<not> st_installed (rp_state r') \<and> \<not> rp_managed r' \<and> w_fs w' (receipt_path M c) = None \<and> w_fs w' (recovery_path M c) = None)"
proof -
  from run(1) obtain owned known w1 where see: "see_receipt M c r w = (Inr (owned, known), w1)"
    and more: "(let r1 = r\<lparr>rp_known := known, rp_managed := owned \<noteq> None\<rparr> in
       try_step (\<lambda>e. e) r1 (check_recovery T c r1 owned) (\<lambda>_. looking M c (\<lambda>e. e) r1 (\<lambda>r2.
         if rp_action r2 = ''trust-status''
         then (if \<not> st_trusted (rp_state r2) then stop_with (r2\<lparr>rp_message := status_message\<rparr>) err_not_trusted
               else finish (r2\<lparr>rp_message := status_message\<rparr>))
         else if rp_action r2 = ''trust'' then do_trust M rnd c r2 owned else do_untrust M c r2 owned))) w1 = ((r', None), w')"
    unfolding decide_def run_ok by (auto split: prod.splits)
  define r1 where "r1 = r\<lparr>rp_known := known, rp_managed := owned \<noteq> None\<rparr>"
  from more [unfolded Let_def, folded r1_def] obtain s w2 w3 where chk: "check_recovery T c r1 owned w1 = (Inr (), w2)"
    and look: "look M c w2 = ((s, None), w3)"
    and act: "(if rp_action (r1\<lparr>rp_state := s\<rparr>) = ''trust'' then do_trust M rnd c (r1\<lparr>rp_state := s\<rparr>) owned
       else do_untrust M c (r1\<lparr>rp_state := s\<rparr>) owned) w3 = ((r', None), w')"
    using run(2) r(2) unfolding run_ok by (fastforce simp: run_ok r1_def split: if_splits)
  have r1: "report_for M c (r1\<lparr>rp_state := s\<rparr>)" "\<not> rp_changed (r1\<lparr>rp_state := s\<rparr>)" "rp_action (r1\<lparr>rp_state := s\<rparr>) = rp_action r"
    using r by (simp_all add: report_for_def r1_def)
  have c1: "calm w1" using calm_stays [OF stays_see_receipt [where M=M and c=c and r=r] w] see by simp
  have c2: "calm w2" using calm_stays [OF stays_check_recovery [where T=T and c=c and r=r1 and owned=owned] c1] chk by simp
  have c3: "calm w3" using look_calm [OF fit c2 look] .
  have own: "receipt_valid M c rc \<and> calm_owned T M c w3" if "owned = Some rc" for rc
  proof -
    have r1': "report_for M c r1" using r1(1) by (simp add: report_for_def)
    from see_receipt_owned [OF see w r(1)] that check_recovery_owned [OF chk [unfolded that] c1 r1']
    have "calm_owned T M c w2" by (auto simp: calm_owned_def owned_files_def)
    from look_spares [OF fit this look] see_receipt_valid [OF see [unfolded that]] show ?thesis by blast
  qed
  show ?thesis
  proof (cases "rp_action r = ''trust''")
    case True
    with act r1 have "do_trust M rnd c (r1\<lparr>rp_state := s\<rparr>) owned w3 = ((r', None), w')" by simp
    from do_trust_changed [OF fit ok r1(1,2) c3 own rnd this run(2)] True show ?thesis by simp
  next
    case False
    with act r1 have u: "do_untrust M c (r1\<lparr>rp_state := s\<rparr>) owned w3 = ((r', None), w')" by simp
    with run(2) r1(2) obtain rc where rc: "owned = Some rc"
      by (cases owned) (auto simp: do_untrust_def run_ok split: if_splits)
    from do_untrust_changed [OF fit r1(1,2) trust_paths_differ [OF parse_cert_hex [OF ok]] _ rem u [unfolded rc] run(2)] own [OF rc] False
    show ?thesis by simp
  qed
qed

lemma execute_changed:
  assumes fit: "fit T M b" "mg_backend M = ops T b" and ok: "trust_lib_ok T" and w: "calm w" and rnd: "CHR ''/'' \<notin> set rnd"
    and p: "\<And>w x w'. calm w \<Longrightarrow> mg_protect M (mg_dir M) w = (x, w') \<Longrightarrow> calm w'"
    and rem: "\<And>c w x w'. calm w \<Longrightarrow> bk_remove (ops T b) c (recovery_path M c) w = (x, w') \<Longrightarrow> calm w'"
    and run: "execute T M now rnd action path dry w = ((r, None), w')" "rp_changed r"
  shows "\<exists>c. rp_receipt r = receipt_path M c \<and> rp_recovery r = recovery_path M c \<and>
     (if action = ''trust''
      then st_trusted (rp_state r) \<and> rp_managed r
        \<and> (\<exists>n rc. w_fs w' (receipt_path M c) = Some n \<and> n_type n = Regular \<and> decode_receipt (n_data n) = Inr rc \<and> receipt_valid M c rc \<and> rc_phase rc = ''installed'')
      else \<not> st_installed (rp_state r) \<and> \<not> rp_managed r \<and> w_fs w' (receipt_path M c) = None \<and> w_fs w' (recovery_path M c) = None)"
proof -
  from run obtain c w1 full where ld: "load_cert T path w = (Inr c, w1)"
    and more: "(let r = about T M full c (new_report action dry) in
        if action \<noteq> ''trust-status'' \<and> \<not> dry then with_lock M r (decide T M rnd c r) else decide T M rnd c r) w1 = ((r, None), w')"
    unfolding execute_def Let_def by (auto simp: run_ok path_abs_def split: if_splits)
  from ld w obtain t where t: "parse_cert T t = Inr c" and c1: "calm w1"
    unfolding load_cert_def by (auto simp: io_ok of_res_ok dest: calm_read)
  let ?r = "about T M full c (new_report action dry)"
  have r: "report_for M c ?r" "\<not> rp_changed ?r" "rp_action ?r = action"
    by (simp_all add: report_for_def about_def new_report_def)
  let ?good = "\<lambda>u. rp_receipt r = receipt_path M c \<and> rp_recovery r = recovery_path M c \<and>
     (if action = ''trust''
      then st_trusted (rp_state r) \<and> rp_managed r
        \<and> (\<exists>n rc. w_fs u (receipt_path M c) = Some n \<and> n_type n = Regular \<and> decode_receipt (n_data n) = Inr rc \<and> receipt_valid M c rc \<and> rc_phase rc = ''installed'')
      else \<not> st_installed (rp_state r) \<and> \<not> rp_managed r \<and> w_fs u (receipt_path M c) = None \<and> w_fs u (recovery_path M c) = None)"
  have dc: "calm u \<and> ?good u" if "calm v" "decide T M rnd c ?r v = ((r, None), u)" for u v
  proof -
    have remc: "calm w \<Longrightarrow> bk_remove (ops T b) c (recovery_path M c) w = (x, w') \<Longrightarrow> calm w'" for w x w' by (rule rem)
    from decide_changed [OF fit ok t r(1,2) that(1) rnd remc that(2) run(2)] show ?thesis unfolding r(3) .
  qed
  from more [unfolded Let_def] consider
      (plain) "decide T M rnd c ?r w1 = ((r, None), w')"
    | (locked) w2 w3 w4 where "mg_protect M (mg_dir M) w1 = (Inr (), w2)" "lock (lock_path M) w2 = (Inr (), w3)"
        "decide T M rnd c ?r w3 = ((r, None), w4)" "w' = snd (unlock (lock_path M) w4)"
    by (auto simp: with_lock_def run_ok get_euid_def split: if_splits)
  then show ?thesis
  proof cases
    case plain
    from dc [OF c1 plain] show ?thesis by blast
  next
    case locked
    have "calm w3" using calm_stays [OF stays_lock [of "lock_path M @ ''x''" "lock_path M"] p [OF c1 locked(1)]] locked(2) by simp
    from dc [OF this locked(3)] have d: "calm w4" "?good w4" by blast+
    have "w_fs w' q = w_fs w4 q" for q using calm_stays [OF stays_unlock_fn [of q "lock_path M"] d(1)] locked(4) by simp
    with d(2) show ?thesis by auto
  qed
qed

end

text \<open>Commands after which an undisturbed world is still undisturbed.\<close>

definition tranquil :: "world \<Rightarrow> world \<Rightarrow> bool" where
  "tranquil w w' = (calm w \<longrightarrow> calm w')"

interpretation tranq: io_frame tranquil
  by unfold_locales (auto simp: tranquil_def)

lemma tranquil_outside: "stays (untouched p) m \<Longrightarrow> stays tranquil m"
  by (auto simp: stays_def tranquil_def dest: calm_untouched)

lemma tranquil_spares: "stays (spares T M) m \<Longrightarrow> stays tranquil m"
  by (auto simp: stays_def tranquil_def spares_def)

lemma tranquil_calm: "stays tranquil m \<Longrightarrow> calm w \<Longrightarrow> m w = (x, w') \<Longrightarrow> calm w'"
  using tranq.stays_run [of m w x w'] by (simp add: tranquil_def)

lemma linux_remove_tranquil:
  assumes "family run i = Some l" "tools_spare T M run"
  shows "stays tranquil (linux_remove T l c p)"
proof -
  note f = family_cases [OF assms(1)]
  have ro: "stays tranquil (root_owned q)" for q by (intro tranquil_outside [of "[]"] frame_intros)
  have md: "stays tranquil (sys_mkdir_all q m)" for q m by (intro tranquil_outside [of "q @ ''x''"] frame_intros) simp
  have rm: "stays tranquil (sys_remove q)" for q by (intro tranquil_outside [of "q @ ''x''"] frame_intros) simp
  have an: "stays tranquil (anchor T l c)" by (intro tranquil_outside [of "[]"] frame_intros)
  have rn: "stays tranquil (checked_run run q a fine)" for q a fine by (rule tranquil_spares [OF spares_checked_run [OF assms(2)]])
  from f have "lb_run l = run" "lb_protect l = protect_store" "lb_check_tool l = root_owned" by simp_all
  then show ?thesis
    unfolding linux_remove_def refresh_store_def check_tool_def
    by (simp only: protect_store_def) (intro tranq.stays_rules ro md rm an rn)
qed

lemma mac_remove_tranquil: "tools_spare T M (mb_run m) \<Longrightarrow> stays tranquil (mac_remove m c p)"
  unfolding mac_remove_def by (intro tranq.stays_rules tranquil_spares spares_checked_run)

lemma protect_dir_tranquil: "stays tranquil (protect_dir d)"
  unfolding protect_dir_def by (intro tranquil_outside [of "d @ ''x''"] unt.stays_rules frame_intros) simp

section \<open>The manager of either system\<close>

lemma new_manager_cases:
  assumes "new_manager T exec now os w0 = (Inr M, w1)" "tools_spare T M exec"
  obtains (mac) m where "M = manager_of Darwin (mac_ops T m)" "mac_fit T M m"
    | (linux) l i where "M = manager_of Linux (linux_ops T now l)" "linux_fit T M (now, l)" "family (command exec) i = Some l"
proof (cases os)
  case None
  with assms show thesis by (simp add: new_manager_def throw_def)
next
  case (Some g)
  show thesis
  proof (cases g)
    case Darwin
    have "ascii ''/Library/Keychains/System.keychain''" by (simp add: ascii_def code_def)
    with assms Some Darwin mac tools_spare_command show thesis by (auto simp: new_manager_def ret_iff mac_fit_def)
  next
    case Linux
    with assms Some obtain rel l where ls: "linux_store_of rel (command exec) = Inr l" and M: "M = manager_of Linux (linux_ops T now l)"
      by (auto simp: new_manager_def io_ok of_res_ok)
    have "\<exists>i. family run i = Some l" if "first_family run ids = Some l" for ids run
      using that by (induction ids) (auto split: option.splits)
    with ls obtain i where i: "family (command exec) i = Some l" by (auto simp: linux_store_of_def split: option.splits)
    with family_cases [OF i] assms(2) tools_spare_command have "linux_fit T M (now, l)" by (auto simp: linux_fit_def)
    with M i linux show thesis by blast
  qed
qed

lemma manager_protects: "mg_protect (manager_of os b) = protect_dir"
  by (simp add: manager_of_def)

section \<open>Reports change nothing\<close>

text \<open>Runs that leave a path alone.\<close>

definition run_stays :: "path \<Rightarrow> report run \<Rightarrow> bool" where
  "run_stays p k = (\<forall>w. untouched p w (snd (k w)) \<and> \<not> rp_changed (fst (fst (k w))))"

lemma run_stays_stop: "\<not> rp_changed r \<Longrightarrow> run_stays p (stop_with r e)" "\<not> rp_changed r \<Longrightarrow> run_stays p (finish r)"
  by (simp_all add: run_stays_def stop_with_def finish_def untouched_refl)

lemma run_stays_try:
  assumes m: "stays (untouched p) m" and r: "\<not> rp_changed r" and k: "\<And>x. run_stays p (k x)"
  shows "run_stays p (try_step f r m k)"
  unfolding run_stays_def
proof
  fix w
  obtain x w' where mw: "m w = (x, w')" by (cases "m w")
  with m have u: "untouched p w w'" by (metis stays_def snd_conv)
  then show "untouched p w (snd (try_step f r m k w)) \<and> \<not> rp_changed (fst (fst (try_step f r m k w)))"
    using k r by (cases x) (auto simp: try_step_def mw stop_with_def run_stays_def intro: untouched_trans)
qed

lemma run_stays_looking:
  assumes m: "stays (untouched p) (bk_inspect (mg_backend M) c)" and r: "\<not> rp_changed r" and k: "\<And>s. run_stays p (k (r\<lparr>rp_state := s\<rparr>))"
  shows "run_stays p (looking M c f r k)"
  unfolding run_stays_def
proof
  fix w
  obtain x w1 where i: "bk_inspect (mg_backend M) c w = (x, w1)" by (cases "bk_inspect (mg_backend M) c w")
  obtain s e w' where l: "look M c w = ((s, e), w')" by (cases "look M c w") auto
  with i have "w' = w1" by (auto simp: look_def split: sum.splits)
  with m i have u: "untouched p w w'" by (metis stays_def snd_conv)
  then show "untouched p w (snd (looking M c f r k w)) \<and> \<not> rp_changed (fst (fst (looking M c f r k w)))"
    using k r by (cases e) (auto simp: looking_def l stop_with_def run_stays_def intro: untouched_trans)
qed

lemma stays_load_cert [frame_intros]: "stays (untouched p) (load_cert T q)"
  unfolding load_cert_def by (intro unt.stays_rules frame_intros)

lemma decide_stays:
  assumes m: "stays (untouched p) (bk_inspect (mg_backend M) c)" and r: "\<not> rp_changed r" and q: "rp_action r = ''trust-status'' \<or> rp_dry r"
  shows "run_stays p (decide T M rnd c r)"
proof -
  have t: "run_stays p (do_trust M rnd c r' owned)" if "\<not> rp_changed r'" "rp_dry r'" for r' owned
    using that by (auto simp: do_trust_def intro: run_stays_stop)
  have u: "run_stays p (do_untrust M c r' owned)" if "\<not> rp_changed r'" "rp_dry r'" for r' owned
    using that by (auto simp: do_untrust_def intro: run_stays_stop split: option.split)
  show ?thesis
    unfolding decide_def Let_def
    using r q by (intro run_stays_try run_stays_looking m frame_intros) (auto intro!: run_stays_try run_stays_looking run_stays_stop t u m frame_intros)
qed

lemma new_report_fields [simp]:
  "\<not> rp_changed (new_report action dry)" "\<not> rp_changed (about T M full c (new_report action dry))"
  "rp_action (about T M full c (new_report action dry)) = action" "rp_dry (about T M full c (new_report action dry)) = dry"
  by (simp_all add: about_def new_report_def)

lemma execute_stays:
  assumes m: "\<And>c. stays (untouched p) (bk_inspect (mg_backend M) c)" and q: "action = ''trust-status'' \<or> dry"
  shows "run_stays p (execute T M now rnd action path dry)"
proof -
  show ?thesis
    unfolding execute_def Let_def
    using q by (auto intro!: run_stays_try run_stays_stop decide_stays m frame_intros)
qed

section \<open>A foreign file at the anchor\<close>

definition holds_cert :: "trust_lib \<Rightarrow> trust_cert \<Rightarrow> node \<Rightarrow> bool" where
  "holds_cert T c n = (n_type n = Regular \<and> (\<exists>s. parse_cert T (n_data n) = Inr s \<and> tc_sha256 s = tc_sha256 c))"

lemma anchor_foreign:
  assumes w: "calm w" and n: "w_fs w (anchor_path l c) = Some n" "\<not> holds_cert T c n"
  shows "anchor T l c w \<noteq> (Inr b, w')"
proof
  assume run: "anchor T l c w = (Inr b, w')"
  then obtain x w1 where reg: "regular (anchor_path l c) w = (x, w1)"
    and k: "(case x of Inl e \<Rightarrow> if e = Os ENOENT then ret False else throw e
       | Inr _ \<Rightarrow> bind_io (load_cert T (anchor_path l c)) (\<lambda>stored.
         bind_io (guard (tc_sha256 stored \<noteq> tc_sha256 c)
           (New ''trust anchor path contains a different certificate; refusing replacement/removal'')) (\<lambda>_. ret True))) w1 = (Inr b, w')"
    unfolding anchor_def bind_io_ok attempt_iff by auto
  obtain fl w2 where t: "tick w = (fl, w2)" by (cases "tick w")
  from calm_tick [OF w t] obtain s where w2: "w2 = w\<lparr>w_sched := s\<rparr>" "calm w2" by blast
  with n(1) have "w_fs w2 (anchor_path l c) = Some n" by simp
  with reg t have ok: "x = Inr () \<and> n_type n = Regular \<and> w1 = w2 \<or> x \<noteq> Inl (Os ENOENT) \<and> (\<exists>e. x = Inl e)"
    by (auto simp: regular_def sys_lstat_def sys_def bind_io_def guard_def ret_def throw_def fault_errno_def split: option.splits prod.splits if_splits)
  show False
  proof (cases x)
    case (Inl e)
    with k ok show ?thesis by (auto simp: throw_iff split: if_splits)
  next
    case (Inr u)
    with ok have w1: "w1 = w2" "n_type n = Regular" by auto
    from k Inr obtain d s where rd: "sys_read (anchor_path l c) w1 = (Inr d, w')" and s: "parse_cert T d = Inr s" "tc_sha256 s = tc_sha256 c"
      unfolding load_cert_def by (auto simp: io_ok of_res_ok)
    have "resolve max_links (w_fs w1) (anchor_path l c) = Some (anchor_path l c)"
      using w1 w2 n by (intro resolve_plain) simp
    with calm_read [OF rd] w1 w2 n(1) have "d = n_data n" by auto
    with s w1 n(2) show ?thesis by (auto simp: holds_cert_def)
  qed
qed

lemma anchor_kept:
  assumes fam: "family run i = Some l" and w: "calm w" and n: "w_fs w (anchor_path l c) = Some n" "\<not> holds_cert T c n"
  shows "\<not> is_ok (fst (linux_add T l c p w)) \<and> w_fs (snd (linux_add T l c p w)) (anchor_path l c) = Some n
    \<and> \<not> is_ok (fst (linux_remove T l c p w)) \<and> w_fs (snd (linux_remove T l c p w)) (anchor_path l c) = Some n"
proof -
  note f = family_cases [OF fam]
  let ?kept = "\<lambda>v. calm v \<and> w_fs v (anchor_path l c) = Some n"
  have pre: "stays grows (lb_protect l d)" "stays grows (check_tool l)" for d
  proof -
    have ro: "stays grows (root_owned q)" for q by (intro grows_reading frame_intros)
    show "stays grows (lb_protect l d)" using f by (simp add: protect_store_def grow.stays_bind grows_mkdir ro)
    show "stays grows (check_tool l)" using f by (simp add: check_tool_def grow.stays_wrapping ro)
  qed
  have kept: "?kept v'" if "stays grows m" "?kept v" "m v = (x, v')" for m :: "'a io" and v v' x
    using grow.stays_run [OF that(1,3)] that(2) by (auto simp: grows_def map_le_def dom_def)
  have last: "\<exists>e v'. bind_io (anchor T l c) k v = (Inl e, v') \<and> ?kept v'" if v: "?kept v" for v and k :: "bool \<Rightarrow> unit io"
  proof -
    obtain x v' where a: "anchor T l c v = (x, v')" by (cases "anchor T l c v")
    with anchor_foreign [of v l c n T] v n(2) obtain e where "x = Inl e" by (cases x) auto
    moreover have "?kept v'" using grow.stays_run [OF grows_reading [OF stays_anchor] a] v by (auto simp: grows_def map_le_def dom_def)
    ultimately show ?thesis using a by (simp add: bind_io_def)
  qed
  have prot: "\<exists>e v'. bind_io (lb_protect l (lb_dir l)) (\<lambda>_. bind_io (anchor T l c) k) v = (Inl e, v') \<and> ?kept v'" if v: "?kept v" for v and k :: "bool \<Rightarrow> unit io"
  proof -
    obtain x v' where a: "lb_protect l (lb_dir l) v = (x, v')" by (cases "lb_protect l (lb_dir l) v")
    from kept [OF pre(1) v a] last [of v' k] a show ?thesis by (cases x) (auto simp: bind_io_def)
  qed
  have "\<exists>e v'. linux_add T l c p w = (Inl e, v') \<and> ?kept v'"
  proof -
    obtain x v' where a: "check_tool l w = (x, v')" by (cases "check_tool l w")
    have "?kept w" using w n by simp
    from kept [OF pre(2) this a] prot [of v'] a show ?thesis unfolding linux_add_def by (cases x) (auto simp: bind_io_def [of "check_tool l"])
  qed
  moreover have "\<exists>e v'. linux_remove T l c p w = (Inl e, v') \<and> ?kept v'"
    unfolding linux_remove_def using prot w n by blast
  ultimately show ?thesis by auto
qed

section \<open>Managers over the two stores\<close>

text \<open>What the properties need of a manager; those \<^verbatim>\<open>New\<close> makes have it.\<close>

definition proper_manager :: "trust_lib \<Rightarrow> int \<Rightarrow> manager \<Rightarrow> bool" where
  "proper_manager T now M =
     (stays tranquil (mg_protect M (mg_dir M))
      \<and> ((\<exists>m. mg_backend M = mac_ops T m \<and> mac_fit T M m) \<or> (\<exists>l. mg_backend M = linux_ops T now l \<and> linux_fit T M (now, l))))"

lemma new_manager_proper: "new_manager T exec now os w0 = (Inr M, w1) \<Longrightarrow> tools_spare T M exec \<Longrightarrow> proper_manager T now M"
proof (erule (1) new_manager_cases, goal_cases)
  case (1 m)
  then show ?case using protect_dir_tranquil by (auto simp: proper_manager_def manager_of_def)
next
  case (2 l i)
  then show ?case using protect_dir_tranquil by (auto simp: proper_manager_def manager_of_def)
qed

lemma proper_protects: "proper_manager T now M \<Longrightarrow> calm w \<Longrightarrow> mg_protect M (mg_dir M) w = (x, w') \<Longrightarrow> calm w'"
  unfolding proper_manager_def using tranquil_calm by blast

lemma proper_removes:
  assumes "proper_manager T now M" "calm w" "bk_remove (mg_backend M) c p w = (x, w')"
  shows "calm w'"
  using assms(1) unfolding proper_manager_def
proof (elim conjE disjE exE)
  fix m assume "mg_backend M = mac_ops T m" "mac_fit T M m"
  then show ?thesis using tranquil_calm [OF mac_remove_tranquil assms(2)] assms(3) by (auto simp: mac_ops_def mac_fit_def)
next
  fix l assume l: "mg_backend M = linux_ops T now l" "linux_fit T M (now, l)"
  then obtain i where "family (lb_run l) i = Some l" "tools_spare T M (lb_run l)" by (auto simp: linux_fit_def)
  then show ?thesis using tranquil_calm [OF linux_remove_tranquil assms(2)] assms(3) l(1) by (auto simp: linux_ops_def)
qed

section \<open>A library and a world for the instances\<close>

definition sample_trust_cert :: "string \<Rightarrow> cert" where
  "sample_trust_cert der = zero_cert\<lparr>x_raw := der, x_subject := ''ca'', x_not_before := 0, x_not_after := 1000 * second,
     x_is_ca := True, x_basic := True, x_usage := KeyUsageCertSign\<rparr>"

definition sample_lib :: trust_lib where
  "sample_lib =
     \<lparr>cr_create = (\<lambda>_ _ _ _. Inl (New [])), cr_parse = (\<lambda>der. Inr (sample_trust_cert der)), cr_marshal = (\<lambda>_. Inl (New [])),
      cr_pem_encode = (\<lambda>_ b. pem_begin @ b @ ''-''), cr_pem_decode = (\<lambda>_. None), cr_key_pair = (\<lambda>_ _. Inl (New [])),
      cr_name = (\<lambda>s. s), cr_sha256_hex = (\<lambda>b. if b = ''CA'' then ''aa'' else ''bb''),
      tl_pem_next = (\<lambda>b. if has_prefix b pem_begin \<and> length pem_begin < length b
          then Some ((''CERTIFICATE'', butlast (drop (length pem_begin) b)), []) else None),
      tl_self_signed = (\<lambda>_. True)\<rparr>"

lemma trim_pem: "trim_space (pem_begin @ b @ ''-'') = pem_begin @ b @ ''-''"
proof -
  have "rev (pem_begin @ b @ ''-'') = CHR ''-'' # rev (pem_begin @ b)" by simp
  moreover have "\<not> is_space (CHR ''-'')" by (simp add: is_space_def code_def)
  moreover have "pem_begin @ b @ ''-'' = CHR ''-'' # (tl pem_begin @ b @ ''-'')" by (simp add: pem_begin_def)
  ultimately have "dropWhile is_space (pem_begin @ b @ ''-'') = pem_begin @ b @ ''-''"
    "dropWhile is_space (rev (pem_begin @ b @ ''-'')) = rev (pem_begin @ b @ ''-'')" by (metis dropWhile.simps(2))+
  then show ?thesis by (simp add: trim_space_def)
qed

lemma sample_lib_ok: "trust_lib_ok sample_lib"
proof -
  have h: "hexadecimal ''aa''" "hexadecimal ''bb''" by (simp_all add: hexadecimal_def)
  have "length ([] :: string) < length b" if "has_prefix b pem_begin" for b using that by (auto simp: pem_begin_def)
  then show ?thesis
    by (auto simp: trust_lib_ok_def sample_lib_def trim_pem sample_trust_cert_def h split: if_splits)
qed

definition sample_ca_text :: string where
  "sample_ca_text = pem_begin @ ''CA'' @ ''-''"

definition sample_owner :: trust_cert where
  "sample_owner = \<lparr>tc_x509 = sample_trust_cert ''CA'', tc_pem = sample_ca_text, tc_sha256 = ''aa''\<rparr>"

lemma sample_parse: "parse_cert sample_lib sample_ca_text = Inr sample_owner"
proof -
  have "x_usage (sample_trust_cert ''CA'') AND KeyUsageCertSign \<noteq> 0" by (simp add: sample_trust_cert_def KeyUsageCertSign_def)
  then show ?thesis
    unfolding parse_cert_def sample_ca_text_def trim_pem Let_def
    by (simp add: sample_lib_def sample_owner_def sample_ca_text_def butlast_append) (simp add: sample_trust_cert_def zero_cert_def trim_space_def)
qed

text \<open>A system whose tools find and trust nothing, and change nothing.\<close>

definition idle_tools :: runner where
  "idle_tools input path args w =
     (\<lparr>oc_out = [], oc_err = (if hd args = ''verify-cert'' then Some (New ''exit status 1'') else None), oc_exit = True, oc_ctx = None\<rparr>, w)"

lemma idle_spares: "tools_spare T M idle_tools"
  by (simp add: tools_spare_def idle_tools_def)

definition sample_mac :: mac_backend where
  "sample_mac = \<lparr>mb_run = idle_tools, mb_keychain = ''/K''\<rparr>"

definition sample_manager :: manager where
  "sample_manager = \<lparr>mg_backend = mac_ops sample_lib sample_mac, mg_dir = ''/t'', mg_protect = (\<lambda>_. ret ())\<rparr>"

definition sample_file :: "string \<Rightarrow> node" where
  "sample_file b = \<lparr>n_type = Regular, n_data = b, n_perm = 420, n_uid = 0, n_gid = 0, n_ino = 5, n_xattrs = None\<rparr>"

definition sample_receipt :: receipt where
  "sample_receipt = \<lparr>rc_version = 1, rc_sha256 = ''aa'', rc_store = mac_store sample_mac sample_owner, rc_phase = ''installed''\<rparr>"

definition trust_world :: world where
  "trust_world = bare_world\<lparr>w_fs := [''/c'' \<mapsto> sample_file sample_ca_text, ''/t/aa.json'' \<mapsto> sample_file (receipt_bytes sample_receipt),
     ''/t/aa.crt'' \<mapsto> sample_file sample_ca_text]\<rparr>"

lemma sample_trust_paths [simp]:
  "receipt_path sample_manager sample_owner = ''/t/aa.json''" "recovery_path sample_manager sample_owner = ''/t/aa.crt''"
  "lock_path sample_manager = ''/t/trust.lock''"
  by (simp_all add: receipt_path_def recovery_path_def lock_path_def sample_manager_def sample_owner_def path_evals)

lemma sample_decodes: "decode_receipt (receipt_bytes sample_receipt) = Inr sample_receipt"
  by (rule receipt_decodes)
    (simp_all add: sample_receipt_def ascii_store_def mac_store_def sample_mac_def, simp_all add: ascii_def code_def)

lemma look_idle: "look sample_manager c w = ((no_state, None), w)"
  by (simp add: look_def sample_manager_def mac_ops_def mac_inspect_def mac_verify_def running_def sample_mac_def idle_tools_def find_args_def
      verify_args_def io_defs contains_certificate_def no_state_def) (simp add: sample_lib_def)


lemma quiet_lock:
  assumes "quiet w" "w_fs w p = None" "p \<notin> set (w_locks w)"
  shows "lock p w = (Inr (), w\<lparr>w_fs := (w_fs w)(p \<mapsto> new_node w Regular 384), w_ino := Suc (w_ino w), w_locks := p # w_locks w\<rparr>)"
proof -
  let ?v = "w\<lparr>w_fs := (w_fs w)(p \<mapsto> new_node w Regular 384), w_ino := Suc (w_ino w)\<rparr>"
  have "quiet ?v" using assms(1) by (simp add: quiet_def)
  moreover have "sys_open_lock p w = (Inr (), ?v)" using assms by (simp add: sys_open_lock_def quiet_sys put_node_def)
  ultimately show ?thesis
    using assms(3) by (simp add: lock_def bind_io_def attempt_def sys_flock_def quiet_sys ret_def)
qed

lemma quiet_unlock:
  assumes "quiet w"
  shows "snd (unlock p w) = w\<lparr>w_locks := remove1 p (w_locks w)\<rparr>"
proof -
  have "quiet (w\<lparr>w_locks := remove1 p (w_locks w)\<rparr>)" using assms by (simp add: quiet_def)
  then show ?thesis using assms by (simp add: unlock_def deferring_def sys_unlock_def sys_close_def quiet_sys ret_def)
qed

lemma quiet_read_file: "quiet w \<Longrightarrow> w_fs w p = Some (sample_file b) \<Longrightarrow> sys_read p w = (Inr b, w)"
proof -
  assume q: "quiet w" and n: "w_fs w p = Some (sample_file b)"
  have "resolve max_links (w_fs w) p = Some p" using n by (intro resolve_plain) (simp add: sample_file_def)
  with n show ?thesis by (simp add: sys_read_def quiet_sys [OF q]) (simp add: sample_file_def)
qed

lemma quiet_load_sample:
  "quiet w \<Longrightarrow> w_fs w p = Some (sample_file sample_ca_text) \<Longrightarrow> load_cert sample_lib p w = (Inr sample_owner, w)"
proof -
  assume q: "quiet w" and n: "w_fs w p = Some (sample_file sample_ca_text)"
  have "\<not> 1024 * 1024 < length sample_ca_text" by (simp add: sample_ca_text_def pem_begin_def)
  then show ?thesis
    by (simp add: load_cert_def bind_io_def quiet_read_file [OF q n] guard_def ret_def of_res_def sample_parse)
qed

definition sample_report :: report where
  "sample_report = about sample_lib sample_manager ''/c'' sample_owner (new_report ''untrust'' False)"

lemma sample_report_fields:
  "rp_receipt sample_report = ''/t/aa.json''" "rp_recovery sample_report = ''/t/aa.crt''" "rp_action sample_report = ''untrust''" "\<not> rp_dry sample_report"
  by (simp_all add: sample_report_def about_def new_report_def)

lemma sample_decide:
  assumes q: "quiet w" and f: "w_fs w ''/t/aa.json'' = Some (sample_file (receipt_bytes sample_receipt))" "w_fs w ''/t/aa.crt'' = Some (sample_file sample_ca_text)"
  shows "decide sample_lib sample_manager ''7'' sample_owner sample_report w =
     ((sample_report\<lparr>rp_known := True, rp_managed := False, rp_state := no_state, rp_changed := True, rp_message := removed_message False\<rparr>, None),
      w\<lparr>w_fs := (w_fs w)(''/t/aa.json'' := None, ''/t/aa.crt'' := None)\<rparr>)"
proof -
  have reg: "regular ''/t/aa.json'' w = (Inr (), w)"
    by (simp add: regular_def sys_lstat_def quiet_sys [OF q] bind_io_def f guard_def ret_def) (simp add: sample_file_def ret_def)
  have val: "receipt_valid sample_manager sample_owner sample_receipt"
    by (simp add: receipt_valid_def sample_receipt_def sample_owner_def sample_manager_def mac_ops_def)
  have see: "see_receipt sample_manager sample_owner sample_report w = (Inr (Some sample_receipt, True), w)"
    by (simp add: see_receipt_def read_receipt_def sample_report_fields bind_io_def attempt_def reg quiet_read_file [OF q f(1)] of_res_def
        sample_decodes guard_def ret_def val)
  define r1 where "r1 = sample_report\<lparr>rp_known := True, rp_managed := True\<rparr>"
  have paths: "rp_receipt r1 = ''/t/aa.json''" "rp_recovery r1 = ''/t/aa.crt''" "rp_action r1 = ''untrust''" "\<not> rp_dry r1"
    by (simp_all add: r1_def sample_report_fields)
  have chk: "check_recovery sample_lib sample_owner r1 (Some sample_receipt) w = (Inr (), w)"
    by (simp add: check_recovery_def paths wrapping_def bind_io_def quiet_load_sample [OF q f(2)] guard_def ret_def)
  have rem: "bk_remove (mg_backend sample_manager) sample_owner p w = (Inr (), w)" for p
    by (simp add: sample_manager_def mac_ops_def mac_remove_def checked_run_def running_def sample_mac_def idle_tools_def bind_io_def ret_def)
  have q2: "quiet (w\<lparr>w_fs := m\<rparr>)" for m using q by (simp add: quiet_def)
  have gone: "remove_receipt r w = (Inr (), w\<lparr>w_fs := (w_fs w)(''/t/aa.json'' := None, ''/t/aa.crt'' := None)\<rparr>)"
    if "rp_receipt r = ''/t/aa.json''" "rp_recovery r = ''/t/aa.crt''" for r
    using that f by (simp add: remove_receipt_def bind_io_def sys_remove_def quiet_sys [OF q] quiet_sys [OF q2])
  show ?thesis
    unfolding decide_def
    by (simp add: try_step_def [of _ _ "see_receipt sample_manager sample_owner sample_report"] see r1_def [symmetric] Let_def)
      (simp add: try_step_def looking_def look_idle chk paths do_untrust_def rem gone no_state_def finish_def, simp add: r1_def)
qed

lemma sample_run:
  "\<exists>w'. execute sample_lib sample_manager 0 ''7'' ''untrust'' ''/c'' False trust_world =
     ((sample_report\<lparr>rp_known := True, rp_managed := False, rp_state := no_state, rp_changed := True, rp_message := removed_message False\<rparr>, None), w')"
proof -
  let ?L = "''/t/trust.lock''"
  define w1 where "w1 = trust_world\<lparr>w_fs := (w_fs trust_world)(?L \<mapsto> new_node trust_world Regular 384), w_ino := Suc (w_ino trust_world), w_locks := ?L # w_locks trust_world\<rparr>"
  have q: "quiet trust_world" by (simp add: quiet_def trust_world_def)
  have l: "lock ?L trust_world = (Inr (), w1)" unfolding w1_def by (rule quiet_lock [OF q]) (simp_all add: trust_world_def)
  have q1: "quiet w1" using q by (simp add: quiet_def w1_def)
  have f: "w_fs w1 ''/t/aa.json'' = Some (sample_file (receipt_bytes sample_receipt))" "w_fs w1 ''/t/aa.crt'' = Some (sample_file sample_ca_text)"
    by (simp_all add: w1_def trust_world_def)
  have ld: "load_cert sample_lib ''/c'' trust_world = (Inr sample_owner, trust_world)"
    by (rule quiet_load_sample [OF q]) (simp add: trust_world_def)
  have pr: "mg_protect sample_manager d = ret ()" for d by (simp add: sample_manager_def)
  have e: "w_euid trust_world = 0" by (simp add: trust_world_def)
  have ab: "path_abs ''/c'' trust_world = (Inr ''/c'', trust_world)" by (simp add: path_abs_def path_evals)
  have lk: "with_lock sample_manager sample_report k trust_world = and_then (unlock ?L) k w1" for k
    by (simp add: with_lock_def try_step_def get_euid_def e pr ret_def l)
  have r: "rp_action sample_report = ''untrust''" by (rule sample_report_fields)
  show ?thesis
    unfolding execute_def Let_def
    by (simp add: try_step_def [of _ _ "load_cert sample_lib ''/c''"] ld try_step_def [of _ _ "path_abs ''/c''"] ab sample_report_def [symmetric] lk
        and_then_def sample_decide [OF q1 f])
qed

section \<open>Properties\<close>

text \<open>C2: the system store is changed only with a proof of ownership on disk.  In an undisturbed
  run, whatever fails, the store's \<^verbatim>\<open>Add\<close> and \<^verbatim>\<open>Remove\<close> are called only where the trust directory
  holds a valid receipt for exactly this certificate and store, and a recovery certificate with its
  fingerprint: the run is the same over a store that does anything at all (\<open>bad\<close>) when called elsewhere.\<close>

theorem store_guarded:
  assumes new: "new_manager T exec now os w0 = (Inr M, w1)" and "trust_lib_ok T" and "tools_spare T M exec" and "calm w"
  shows "execute T (guarded T bad M) now rnd action path dry w = execute T M now rnd action path dry w"
proof -
  have p: "calm u \<Longrightarrow> mg_protect M (mg_dir M) u = (x, u') \<Longrightarrow> calm u'" for u x u'
    by (rule proper_protects [OF new_manager_proper [OF new assms(3)]])
  from new_manager_proper [OF new assms(3)] have "agree calm (execute T M now rnd action path dry) (execute T (guarded T bad M) now rnd action path dry)"
    unfolding proper_manager_def
  proof (elim conjE disjE exE)
    fix m assume "mg_backend M = mac_ops T m" "mac_fit T M m"
    from mac.execute_guarded [OF this(2,1) assms(2) p] show ?thesis .
  next
    fix l assume "mg_backend M = linux_ops T now l" "linux_fit T M (now, l)"
    from lnx.execute_guarded [OF this(2) _ assms(2) p] this(1) show ?thesis by simp
  qed
  from agreeD [OF this assms(4)] show ?thesis by simp
qed

theorem store_guarded_witness:
  "\<exists>M. new_manager sample_lib idle_tools 0 (Some Darwin) bare_world = (Inr M, bare_world)
     \<and> execute sample_lib (guarded sample_lib (\<lambda>_ _. throw (New ''stray call'')) M) 0 ''7'' ''untrust'' ''/c'' False trust_world
       = execute sample_lib M 0 ''7'' ''untrust'' ''/c'' False trust_world"
proof -
  obtain M where M: "new_manager sample_lib idle_tools 0 (Some Darwin) bare_world = (Inr M, bare_world)" by (simp add: new_manager_def ret_def)
  have "calm trust_world" by (simp add: calm_def trust_world_def)
  from store_guarded [OF M sample_lib_ok idle_spares this] M show ?thesis by blast
qed



text \<open>On Linux a status report and every dry run change no file, whatever fails and whatever
  other processes do, and never report a change.\<close>

theorem reports_change_nothing:
  assumes "mg_backend M = linux_ops T now l" and "action = ''trust-status'' \<or> dry"
  shows "untouched p w (snd (execute T M now rnd action path dry w)) \<and> \<not> rp_changed (fst (fst (execute T M now rnd action path dry w)))"
  using execute_stays [of p M action dry T now rnd path] linux_inspect_reads [of p T now l] assms
  by (simp add: linux_ops_def run_stays_def)

definition sample_debian :: linux_backend where
  "sample_debian = the (family idle_tools ''debian'')"

theorem reports_change_nothing_witness:
  "untouched ''/t/aa.crt'' trust_world (snd (execute sample_lib (manager_of Linux (linux_ops sample_lib 0 sample_debian)) 0 ''7'' ''untrust'' ''/c'' True trust_world))"
  using reports_change_nothing [of "manager_of Linux (linux_ops sample_lib 0 sample_debian)" sample_lib 0 sample_debian "''untrust''" True]
  by (simp add: manager_of_def)

text \<open>Searching a bundle is exact: \<^verbatim>\<open>containsCertificate\<close> finds a fingerprint exactly when some
  certificate block of the text parses to a certificate with it, and its loop ends with the text.\<close>

theorem contains_certificate_exact:
  assumes "trust_lib_ok T"
  shows "contains_certificate T b fp \<longleftrightarrow> (\<exists>der c. block_in T b (''CERTIFICATE'', der) \<and> cr_parse T der = Inr c \<and> cr_sha256_hex T (x_raw c) = fp)"
  using contains_from_enough [OF assms, of b "Suc (length b)" fp] by (simp add: contains_certificate_def has_certificate_def)

theorem contains_certificate_exact_witness:
  "contains_certificate sample_lib sample_ca_text ''aa''"
proof -
  have "tl_pem_next sample_lib sample_ca_text = Some ((''CERTIFICATE'', ''CA''), [])"
    by (simp add: sample_lib_def sample_ca_text_def butlast_append)
  then have "block_in sample_lib sample_ca_text (''CERTIFICATE'', ''CA'')" by (rule block_in.first)
  moreover have "cr_parse sample_lib ''CA'' = Inr (sample_trust_cert ''CA'')" "cr_sha256_hex sample_lib (x_raw (sample_trust_cert ''CA'')) = ''aa''"
    by (simp_all add: sample_lib_def sample_trust_cert_def)
  ultimately show ?thesis unfolding contains_certificate_exact [OF sample_lib_ok] by blast
qed

text \<open>The anchor of another certificate is never replaced or removed.  On Linux, where the
  anchor path holds anything but a regular file with exactly this certificate, both \<^verbatim>\<open>Add\<close> and
  \<^verbatim>\<open>Remove\<close> fail, whatever else fails, and leave it as it is.\<close>

theorem foreign_anchor_kept:
  assumes "linux_store_of release run = Inr l" and "calm w" and "w_fs w (anchor_path l c) = Some n"
    and "\<not> (n_type n = Regular \<and> (\<exists>s. parse_cert T (n_data n) = Inr s \<and> tc_sha256 s = tc_sha256 c))"
  shows "\<not> is_ok (fst (linux_add T l c p w)) \<and> w_fs (snd (linux_add T l c p w)) (anchor_path l c) = Some n
    \<and> \<not> is_ok (fst (linux_remove T l c p w)) \<and> w_fs (snd (linux_remove T l c p w)) (anchor_path l c) = Some n"
proof -
  have "\<exists>i. family run i = Some l" if "first_family run ids = Some l" for ids
    using that by (induction ids) (auto split: option.splits)
  with assms(1) obtain i where "family run i = Some l" by (auto simp: linux_store_of_def split: option.splits)
  from anchor_kept [OF this assms(2,3)] assms(4) show ?thesis by (simp add: holds_cert_def)
qed

lemma debian_release: "linux_store_of ''ID=debian'' idle_tools = Inr sample_debian"
proof -
  have "split_fields (release_ids ''ID=debian'') = [''debian'']"
    by code_simp
  moreover have "family idle_tools ''debian'' = Some sample_debian"
    by (simp add: sample_debian_def family_def Let_def)
  ultimately show ?thesis by (simp add: linux_store_of_def)
qed

theorem foreign_anchor_kept_witness:
  "w_fs (snd (linux_remove sample_lib sample_debian sample_owner []
     (bare_world\<lparr>w_fs := [anchor_path sample_debian sample_owner \<mapsto> sample_file ''other'']\<rparr>))) (anchor_path sample_debian sample_owner)
     = Some (sample_file ''other'')"
proof -
  have "parse_cert sample_lib ''other'' = Inl (New ''expected one public PEM CA certificate, not a private key or bundle'')"
    by (simp add: parse_cert_def trim_space_def is_space_def code_def pem_begin_def Let_def)
  then have "\<not> (n_type (sample_file ''other'') = Regular \<and> (\<exists>s. parse_cert sample_lib (n_data (sample_file ''other'')) = Inr s \<and> tc_sha256 s = tc_sha256 sample_owner))"
    by (simp add: sample_file_def)
  moreover have "calm (bare_world\<lparr>w_fs := m\<rparr>)" for m by (simp add: calm_def)
  ultimately show ?thesis using foreign_anchor_kept [OF debian_release] by simp
qed



end
