(* ===== verification/Control.thy ===== *)
theory Control
  imports Tools Json
begin

text \<open>
  \<^verbatim>\<open>internal/control/control.go\<close>: the control socket.  A socket is a file of type \<open>Socket\<close>; what
  dialling it reports is an argument, since it depends on the process that may listen there.  The
  HTTP exchange of a request is a parameter.  The lemmas: listening never removes a file that is
  not a socket or a socket that may be in use, and excludes a second listener.
\<close>

section \<open>Listening\<close>

text \<open>\<^verbatim>\<open>net.Listen("unix")\<close> makes the socket; closing such a listener unlinks it.\<close>

definition sys_bind :: "path \<Rightarrow> unit io" where
  "sys_bind p = sys (\<lambda>w. (case w_fs w p of
      Some _ \<Rightarrow> (Inl (Os EADDRINUSE), w)
    | None \<Rightarrow> (Inr (), (put_node p (new_node w Socket 511) w)\<lparr>w_ino := Suc (w_ino w)\<rparr>)))"

definition close_listener :: "path \<Rightarrow> unit io" where
  "close_listener p = deferring (sys_close p) (sys_remove p)"

definition stale :: "go_error option \<Rightarrow> bool" where
  "stale probe = (case probe of None \<Rightarrow> False | Some e \<Rightarrow> error_is e (Os ENOENT) \<or> error_is e (Os ECONNREFUSED))"

definition clear_socket :: "go_error option \<Rightarrow> path \<Rightarrow> unit io" where
  "clear_socket probe path =
     bind_io (attempt (sys_lstat path)) (\<lambda>i.
     case i of
       Inr n \<Rightarrow>
         bind_io (guard (n_type n \<noteq> Socket) (New (''refusing to remove non-socket path '' @ path))) (\<lambda>_.
         case probe of
           None \<Rightarrow> throw (New ''control socket already in use'')
         | Some e \<Rightarrow> if \<not> stale (Some e) then throw (Wrapf ''cannot prove existing socket is stale'' e) else sys_remove path)
     | Inl e \<Rightarrow> if e \<noteq> Os ENOENT then throw e else ret ())"

definition lock_file :: "path \<Rightarrow> path" where
  "lock_file path = path @ ''.lock''"

definition control_listen :: "go_error option \<Rightarrow> path \<Rightarrow> unit io" where
  "control_listen probe path =
     bind_io (private_dir (path_dir path)) (\<lambda>_.
     bind_io (lock (lock_file path)) (\<lambda>_.
     on_failure (unlock (lock_file path))
       (bind_io (clear_socket probe path) (\<lambda>_.
        bind_io (sys_bind path) (\<lambda>_.
        on_failure (close_listener path) (sys_chmod path 384))))))"

text \<open>The function that \<^verbatim>\<open>Listen\<close> returns for the end.\<close>

definition control_cleanup :: "path \<Rightarrow> unit io" where
  "control_cleanup path = bind_io (attempt (close_listener path)) (\<lambda>_. unlock (lock_file path))"

section \<open>Asking the daemon\<close>

record http_reply =
  hr_code :: nat
  hr_status :: string
  hr_body :: "string res"

type_synonym http_client = "path \<Rightarrow> string \<Rightarrow> string \<Rightarrow> http_reply io"

definition max_reply :: nat where
  "max_reply = 4 * 1024 * 1024"

definition control_request :: "http_client \<Rightarrow> (string \<Rightarrow> 'a res) \<Rightarrow> path \<Rightarrow> string \<Rightarrow> path \<Rightarrow> 'a io" where
  "control_request http decode socket method path =
     bind_io (wrapping (''daemon unavailable at '' @ socket) (http socket method (''http://localhost'' @ path))) (\<lambda>resp.
     bind_io (of_res (hr_body resp)) (\<lambda>body.
     let b = take max_reply body in
     if hr_code resp \<noteq> 200 then throw (New (''daemon returned '' @ hr_status resp @ '': '' @ b))
     else of_res (decode b)))"

section \<open>Lemmas\<close>

lemma stays_bind_socket [frame_intros]: "p \<noteq> q \<Longrightarrow> stays (untouched p) (sys_bind q)"
  unfolding sys_bind_def by (rule stays_untouched_sys) (auto split: option.splits)

lemma calm_bind [calm_dests]:
  "sys_bind p w = (Inr x, w') \<Longrightarrow> calm w \<Longrightarrow>
     calm w' \<and> w_fs w p = None \<and> w_fs w' = (w_fs w)(p \<mapsto> new_node w Socket 511) \<and> w_locks w' = w_locks w"
  unfolding sys_bind_def by (erule (1) calm_sys_rule) (auto simp: new_node_def split: option.splits)

lemma lock_outside: "lock_file p \<noteq> p" "p \<noteq> lock_file p"
  by (simp_all add: lock_file_def)

lemma stays_control_listen:
  "p \<noteq> q \<Longrightarrow> p \<noteq> path_dir q \<Longrightarrow> p \<noteq> lock_file q \<Longrightarrow> stays (untouched p) (control_listen probe q)"
  unfolding control_listen_def clear_socket_def close_listener_def
  by (intro unt.stays_rules unt.stays_on_failure frame_intros)

text \<open>Commands that hold and release no lock.\<close>

definition same_locks :: "world \<Rightarrow> world \<Rightarrow> bool" where
  "same_locks w w' = (w_locks w' = w_locks w)"

interpretation locks: io_frame same_locks
  by unfold_locales (simp_all add: same_locks_def)

lemma same_locks_sys: "(\<And>w. w_locks (snd (f w)) = w_locks w) \<Longrightarrow> stays same_locks (sys f)"
  by (auto simp: stays_def same_locks_def sys_def tick_def split: prod.splits option.splits list.splits)

named_theorems lock_intros \<open>calls that leave the locks alone\<close>

lemma same_locks_calls [lock_intros]:
  "stays same_locks (sys_lstat p)" "stays same_locks (sys_stat p)" "stays same_locks (sys_mkdir_all p m)" "stays same_locks (sys_remove p)"
  "stays same_locks (sys_bind p)" "stays same_locks (sys_chmod p m)" "stays same_locks (sys_close p)"
  unfolding sys_lstat_def sys_stat_def sys_mkdir_all_def sys_remove_def sys_bind_def sys_chmod_def sys_close_def
  by (rule same_locks_sys, simp add: modify_node_def ret_def put_node_def split: option.split)+

lemma same_locks_euid [lock_intros]: "stays same_locks get_euid"
  by (simp add: stays_def get_euid_def same_locks_def)

lemma same_locks_private_dir [lock_intros]: "stays same_locks (private_dir p)"
  unfolding private_dir_def by (intro locks.stays_rules lock_intros)

lemma same_locks_listening:
  "stays same_locks (bind_io (clear_socket probe p) (\<lambda>_. bind_io (sys_bind p) (\<lambda>_. on_failure (close_listener p) (sys_chmod p 384))))"
  unfolding clear_socket_def close_listener_def by (intro locks.stays_rules locks.stays_on_failure lock_intros)

lemma stays_quiet: "stays (untouched p) m \<Longrightarrow> quiet w \<Longrightarrow> quiet (snd (m w))"
  by (auto simp: stays_def untouched_def quiet_def dest!: spec [of _ w])

lemma clear_socket_keeps:
  assumes w: "calm w" and n: "w_fs w path = Some n" "\<not> (n_type n = Socket \<and> stale probe)"
  shows "\<exists>e w'. clear_socket probe path w = (Inl e, w') \<and> calm w' \<and> w_fs w' path = Some n"
proof -
  obtain fl w1 where t: "tick w = (fl, w1)" by (cases "tick w")
  from calm_tick [OF w t] n(1) have w1: "calm w1" "w_fs w1 path = Some n" by auto
  show ?thesis
  proof (cases fl)
    case None
    with t w1(2) have "sys_lstat path w = (Inr n, w1)" by (simp add: sys_lstat_def sys_def)
    with w1 n(2) show ?thesis
      by (auto simp: clear_socket_def bind_io_def attempt_def guard_def ret_def throw_def stale_def split: option.splits)
  next
    case (Some x)
    obtain en k where x: "x = (en, k)" by (cases x)
    with Some t have "sys_lstat path w = (Inl (Os (fault_errno en)), w1)" by (simp add: sys_lstat_def sys_def)
    with w1 show ?thesis by (auto simp: clear_socket_def bind_io_def attempt_def throw_def fault_errno_def)
  qed
qed

lemma clear_socket_ok:
  assumes "clear_socket probe path w = (Inr (), w')" "calm w"
  shows "calm w' \<and> w_locks w' = w_locks w \<and> (\<forall>n. w_fs w path = Some n \<longrightarrow> n_type n = Socket \<and> stale probe)"
proof (intro conjI allI impI)
  show "n_type n = Socket" "stale probe" if "w_fs w path = Some n" for n
    using clear_socket_keeps [OF assms(2) that, of probe] assms(1) by auto
  have "stays (untouched (path @ ''x'')) (clear_socket probe path)"
    unfolding clear_socket_def by (intro unt.stays_rules frame_intros) simp
  from calm_stays [OF this assms(2)] assms(1) show "calm w'" by simp
  have "stays same_locks (clear_socket probe path)" unfolding clear_socket_def by (intro locks.stays_rules lock_intros)
  from locks.stays_run [OF this assms(1)] show "w_locks w' = w_locks w" by (simp add: same_locks_def)
qed

lemma control_listen_ok:
  assumes w: "calm w" and run: "control_listen probe path w = (Inr (), w')" and d: "path \<noteq> path_dir path"
  shows "(\<exists>n. w_fs w' path = Some n \<and> n_type n = Socket \<and> n_perm n = 384)
    \<and> lock_file path \<notin> set (w_locks w) \<and> lock_file path \<in> set (w_locks w')
    \<and> (\<forall>n. w_fs w path = Some n \<longrightarrow> n_type n = Socket \<and> stale probe)"
proof -
  from run obtain w1 w2 w3 w4 where
    a: "private_dir (path_dir path) w = (Inr (), w1)" and l: "lock (lock_file path) w1 = (Inr (), w2)" and
    c: "clear_socket probe path w2 = (Inr (), w3)" and b: "sys_bind path w3 = (Inr (), w4)" and
    m: "sys_chmod path 384 w4 = (Inr (), w')"
    unfolding control_listen_def io_ok on_failure_ok by auto
  have w1: "calm w1" "w_fs w1 path = w_fs w path"
    using calm_stays [OF stays_private_dir [OF d] w] a by simp_all
  have w2: "calm w2" "w_fs w2 path = w_fs w path"
    using calm_stays [OF stays_lock [OF lock_outside(2) [of path]] w1(1)] l w1(2) by simp_all
  have l1: "w_locks w1 = w_locks w" using locks.stays_run [OF same_locks_private_dir a] by (simp add: same_locks_def)
  from l obtain u where o: "sys_open_lock (lock_file path) w1 = (Inr (), u)" and f: "sys_flock (lock_file path) u = (Inr (), w2)"
    unfolding lock_def by (auto simp: io_ok case_res_ok)
  have lu: "w_locks u = w_locks w1"
    using locks.stays_run [OF same_locks_sys o [unfolded sys_open_lock_def]]
    by (auto simp: same_locks_def put_node_def split: option.splits)
  have "calm u" using calm_stays [OF stays_open_lock [OF lock_outside(2) [of path]] w1(1)] o by simp
  with calm_flock [OF f] lu l1 have l2: "lock_file path \<notin> set (w_locks w)" "w_locks w2 = lock_file path # w_locks w" by auto
  note c3 = clear_socket_ok [OF c w2(1)]
  note b4 = calm_bind [OF b conjunct1 [OF c3]]
  note m5 = calm_chmod [OF m conjunct1 [OF b4]]
  have "w_locks w' = w_locks w4" using locks.stays_run [OF same_locks_calls(6) m] by (simp add: same_locks_def)
  with c3 b4 m5 l2 w2 show ?thesis by (auto simp: new_node_def)
qed

text \<open>What is behind the lock: clearing the path, binding the socket and its mode.\<close>

definition bound_listening :: "go_error option \<Rightarrow> path \<Rightarrow> unit io" where
  "bound_listening probe path =
     bind_io (clear_socket probe path) (\<lambda>_. bind_io (sys_bind path) (\<lambda>_. on_failure (close_listener path) (sys_chmod path 384)))"

lemma control_listen_alt:
  "control_listen probe path =
     bind_io (private_dir (path_dir path)) (\<lambda>_. bind_io (lock (lock_file path)) (\<lambda>_. on_failure (unlock (lock_file path)) (bound_listening probe path)))"
  by (simp only: control_listen_def bound_listening_def)

lemma control_listen_keeps:
  assumes "calm w" and d: "path_dir path \<noteq> path" and run: "control_listen probe path w = (r, w')"
    and n: "w_fs w path = Some n" "\<not> (n_type n = Socket \<and> stale probe)"
  shows "w_fs w' path = Some n"
proof -
  have kept: "w_fs (snd (on_failure (unlock (lock_file path)) (bound_listening probe path) v)) path = Some n"
    if v: "calm v" "w_fs v path = Some n" for v
  proof -
    obtain e u where c: "clear_socket probe path v = (Inl e, u)" and u: "calm u" "w_fs u path = Some n"
      using clear_socket_keeps [OF v n(2)] by blast
    then have "bound_listening probe path v = (Inl e, u)" by (simp add: bound_listening_def bind_io_def)
    then have "snd (on_failure (unlock (lock_file path)) (bound_listening probe path) v) = snd (unlock (lock_file path) u)"
      by (simp add: on_failure_def)
    with calm_stays [OF stays_unlock_fn [of path "lock_file path"] u(1)] u(2) show ?thesis by simp
  qed
  obtain x w1 where a: "private_dir (path_dir path) w = (x, w1)" by (cases "private_dir (path_dir path) w")
  have w1: "calm w1" "w_fs w1 path = Some n" using calm_stays [OF stays_private_dir [OF d [symmetric]] assms(1)] a n by auto
  obtain y w2 where l: "lock (lock_file path) w1 = (y, w2)" by (cases "lock (lock_file path) w1")
  have w2: "calm w2" "w_fs w2 path = Some n" using calm_stays [OF stays_lock [OF lock_outside(2) [of path]] w1(1)] l w1(2) by simp_all
  from run a l have "w' = w1 \<or> w' = w2 \<or> w' = snd (on_failure (unlock (lock_file path)) (bound_listening probe path) w2)"
    by (auto simp: control_listen_alt bind_io_def split: sum.splits)
  with w1 w2 kept [OF w2] show ?thesis by auto
qed

lemma lock_quiet:
  assumes q: "quiet w" and l: "lock p w = (y, w')"
  shows "case y of Inl _ \<Rightarrow> w_locks w' = w_locks w | Inr _ \<Rightarrow> w_locks w' = p # w_locks w"
proof -
  obtain z u where o: "sys_open_lock p w = (z, u)" by (cases "sys_open_lock p w")
  then have u: "quiet u" "w_locks u = w_locks w"
    using q by (auto simp: sys_open_lock_def quiet_sys quiet_def put_node_def split: option.splits if_splits)
  have "quiet v \<Longrightarrow> snd (sys_close a v) = v" for a v by (simp add: sys_close_def quiet_sys ret_def)
  with l o u show ?thesis
    by (cases z) (auto simp: lock_def bind_io_def attempt_def sys_flock_def quiet_sys deferring_def throw_def ret_def split: if_splits)
qed

lemma control_listen_releases:
  assumes w: "quiet w" and d: "path_dir path \<noteq> path" and run: "control_listen probe path w = (Inl e, w')"
  shows "w_locks w' = w_locks w"
proof -
  obtain x w1 where a: "private_dir (path_dir path) w = (x, w1)" by (cases "private_dir (path_dir path) w")
  have w1: "w_locks w1 = w_locks w" "quiet w1"
    using locks.stays_run [OF same_locks_private_dir a] stays_quiet [OF stays_private_dir [OF d [symmetric]] w] a by (auto simp: same_locks_def)
  obtain y w2 where l: "lock (lock_file path) w1 = (y, w2)" by (cases "lock (lock_file path) w1")
  have q2: "quiet w2" using stays_quiet [OF stays_lock [OF lock_outside(2) [of path]] w1(2)] l by simp
  note l2 = lock_quiet [OF w1(2) l]
  show ?thesis
  proof (cases "\<exists>e. x = Inl e \<or> y = Inl e")
    case True
    with run a l l2 w1 show ?thesis by (cases x; cases y) (auto simp: control_listen_def bind_io_def)
  next
    case False
    then obtain p q where xy: "x = Inr p" "y = Inr q" by (metis sum.exhaust)
    obtain z u where b: "bound_listening probe path w2 = (z, u)" by (cases "bound_listening probe path w2")
    have lu: "w_locks u = lock_file path # w_locks w"
      using locks.stays_run [OF same_locks_listening b [unfolded bound_listening_def]] l2 xy w1 by (simp add: same_locks_def)
    have st: "stays (untouched (path @ ''y'')) (bound_listening probe path)"
      unfolding bound_listening_def clear_socket_def close_listener_def by (intro unt.stays_rules unt.stays_on_failure frame_intros) simp_all
    have "quiet u" using stays_quiet [OF st q2] b by simp
    from run a l xy b have "w' = snd (unlock (lock_file path) u)"
      by (cases z) (auto simp: control_listen_alt bind_io_def on_failure_def)
    with lu \<open>quiet u\<close> show ?thesis by (simp add: unlock_def deferring_def sys_unlock_def quiet_sys sys_close_def ret_def quiet_def)
  qed
qed



end
