(* ===== verification/Startup.thy ===== *)
theory Startup
  imports Control Server
begin

text \<open>
  \<^verbatim>\<open>Run\<close> of \<^verbatim>\<open>internal/proxy/server.go\<close> from the outside: the directory, the locks, the control
  socket and the listeners before the daemon lives, their end afterwards, and the requests the
  control socket answers.  What the kernel says to a request to listen is an argument, and so is the
  life of the daemon between the two, whose steps are in Daemon: a command that ends when the
  context does or an accept loop fails.
\<close>

section \<open>Starting and ending\<close>

text \<open>The report of a run: the listeners opened and the listeners closed again.\<close>

type_synonym listeners = "string list \<times> string list"

definition daemon_lock :: "config \<Rightarrow> path" where
  "daemon_lock c = path_join (rt_state_dir (c_runtime c)) ''daemon.lock''"

fun open_listeners :: "(string \<Rightarrow> go_error option) \<Rightarrow> string list \<Rightarrow> string list \<Rightarrow> listeners \<times> go_error option" where
  "open_listeners tcp [] opened = ((opened, []), None)"
| "open_listeners tcp (addr # addrs) opened =
     (case tcp addr of Some e \<Rightarrow> ((opened, opened), Some e) | None \<Rightarrow> open_listeners tcp addrs (opened @ [addr]))"

text \<open>\<^verbatim>\<open>Shutdown\<close> of the HTTP server closes the control socket.\<close>

definition serving :: "(string list \<Rightarrow> unit io) \<Rightarrow> path \<Rightarrow> string list \<Rightarrow> listeners run" where
  "serving live socket opened w =
     (case live opened w of (r, w') \<Rightarrow> (((opened, opened), err_of r), snd (close_listener socket w')))"

text \<open>The deferred cleanup closes the listener; a listener that is closed already only fails to, and the
  lock is released.\<close>

definition run_server :: "go_error option \<Rightarrow> (string \<Rightarrow> go_error option) \<Rightarrow> (string list \<Rightarrow> unit io) \<Rightarrow> config \<Rightarrow> listeners run" where
  "run_server probe tcp live c =
     (let socket = rt_control_socket (c_runtime c) in
      try_step (\<lambda>e. e) ([], []) (private_dir (rt_state_dir (c_runtime c))) (\<lambda>_.
      try_step (\<lambda>e. e) ([], []) (lock (daemon_lock c)) (\<lambda>_.
      and_then (unlock (daemon_lock c))
        (try_step (\<lambda>e. e) ([], []) (control_listen probe socket) (\<lambda>_.
         case open_listeners tcp (c_listen c) [] of
           (ls, Some e) \<Rightarrow> and_then (control_cleanup socket) (stop_with ls e)
         | (ls, None) \<Rightarrow> and_then (unlock (lock_file socket)) (serving live socket (fst ls)))))))"

section \<open>The control requests\<close>

datatype api_body =
    Status_body status_report
  | Connections_body "connection list"
  | Error_body string
  | Reloaded_body

text \<open>The routes of the server; the library answers every other request itself (\<open>None\<close>).\<close>

definition api :: "(server \<Rightarrow> world \<Rightarrow> (unit res \<times> server) \<times> world) \<Rightarrow> string \<Rightarrow> path \<Rightarrow> server \<Rightarrow> world
    \<Rightarrow> ((nat \<times> api_body) option \<times> server) \<times> world" where
  "api reloading method path s w =
     (if method = ''GET'' \<and> path = ''/v1/status'' then ((Some (200, Status_body (server_status s)), s), w)
      else if method = ''GET'' \<and> path = ''/v1/connections'' then ((Some (200, Connections_body (connection_list s)), s), w)
      else if method = ''POST'' \<and> path = ''/v1/reload''
      then
        (case reloading s w of
          ((Inl e, s'), w') \<Rightarrow> ((Some (400, Error_body (error_text e)), s'), w')
        | ((Inr _, s'), w') \<Rightarrow> ((Some (200, Reloaded_body), s'), w'))
      else ((None, s), w))"

section \<open>Lemmas\<close>

lemma lock_ok:
  assumes "lock p w = (Inr (), w')" and "calm w"
  shows "calm w' \<and> p \<notin> set (w_locks w) \<and> w_locks w' = p # w_locks w"
proof -
  from assms(1) obtain u where o: "sys_open_lock p w = (Inr (), u)" and f: "sys_flock p u = (Inr (), w')"
    unfolding lock_def by (auto simp: io_ok case_res_ok)
  have "w_locks u = w_locks w"
    using locks.stays_run [OF same_locks_sys o [unfolded sys_open_lock_def]]
    by (auto simp: same_locks_def put_node_def split: option.splits)
  moreover have "calm u" using calm_stays [OF stays_open_lock [of "p @ ''x''" p] assms(2)] o by simp
  ultimately show ?thesis using calm_flock [OF f] by auto
qed

lemma control_listen_locks:
  assumes w: "calm w" and run: "control_listen probe path w = (Inr (), w')"
  shows "calm w' \<and> w_locks w' = lock_file path # w_locks w"
proof -
  from run obtain w1 w2 where
    a: "private_dir (path_dir path) w = (Inr (), w1)" and l: "lock (lock_file path) w1 = (Inr (), w2)" and
    b: "bound_listening probe path w2 = (Inr (), w')"
    unfolding control_listen_alt io_ok on_failure_ok by auto
  have w1: "calm w1" using calm_stays [OF stays_private_dir [of "path_dir path @ ''x''" "path_dir path"] w] a by simp
  have l1: "w_locks w1 = w_locks w" using locks.stays_run [OF same_locks_private_dir a] by (simp add: same_locks_def)
  note l2 = lock_ok [OF l w1]
  have "stays (untouched (path @ ''y'')) (bound_listening probe path)"
    unfolding bound_listening_def clear_socket_def close_listener_def by (intro unt.stays_rules unt.stays_on_failure frame_intros) simp_all
  from calm_stays [OF this, of w2] l2 b have "calm w'" by simp
  moreover have "w_locks w' = w_locks w2"
    using locks.stays_run [OF same_locks_listening b [unfolded bound_listening_def]] by (simp add: same_locks_def)
  ultimately show ?thesis using l1 l2 by simp
qed

lemma open_listeners_all: "open_listeners tcp as ls = ((o', c'), None) \<Longrightarrow> o' = ls @ as \<and> (\<forall>a \<in> set as. tcp a = None)"
  by (induction as arbitrary: ls) (fastforce split: option.splits)+

lemma open_listeners_fails: "open_listeners tcp as ls = ((o', c'), Some e) \<Longrightarrow> c' = o'"
  by (induction as arbitrary: ls) (auto split: option.splits)

text \<open>The worlds in which the daemon lives.\<close>

definition alone :: "config \<Rightarrow> world \<Rightarrow> bool" where
  "alone c w =
     (daemon_lock c \<in> set (w_locks w) \<and> lock_file (rt_control_socket (c_runtime c)) \<in> set (w_locks w)
      \<and> (\<exists>n. w_fs w (rt_control_socket (c_runtime c)) = Some n \<and> n_type n = Socket \<and> n_perm n = 384))"



end
