(* ===== verification/Service.thy ===== *)
theory Service
  imports Control Config Decode JsonPrint Tools
begin

text \<open>
  \<^verbatim>\<open>internal/service/service.go\<close>: the definition of the system service, installing, updating and
  removing it with a manifest of what is owned.  What the code takes from its surroundings is the
  record \<open>host\<close>: the system, running programs, SHA-256, the answer of a daemon to a status
  request, the path of the running program, the time stamp of a backup, the random suffixes of
  temporary files, the order in which a map is ranged over, and how many polls fit into the 15
  seconds of \<^verbatim>\<open>awaitDaemon\<close> with what cancels each.  What is proved about
  them is in ServiceSafety and ServiceText.
\<close>

section \<open>Data\<close>

record service_plan =
  sp_schema :: int
  sp_executable :: path
  sp_definition_path :: path
  sp_configuration :: path
  sp_definition :: string
  sp_log :: path

record manifest =
  mf_version :: int
  mf_executable :: path
  mf_executable_sha :: string
  mf_definition_path :: path
  mf_definition_sha :: string
  mf_config :: path
  mf_socket :: path

text \<open>The part of the daemon's status that is looked at.\<close>

record daemon_view =
  dv_config_path :: path
  dv_health :: string
  dv_reasons :: "string list"

record host =
  ho_os :: "goos option"
  ho_exec :: runner
  ho_sha :: "string \<Rightarrow> string"
  ho_ask :: "path \<Rightarrow> daemon_view io"
  ho_self :: "path res"
  ho_stamp :: string
  ho_rnd :: "nat \<Rightarrow> string"
  ho_order :: "(string \<times> string) list \<Rightarrow> (string \<times> string) list"
  ho_polls :: nat
  ho_cancelled :: "nat \<Rightarrow> go_error option"

definition label_name :: string where
  "label_name = ''local.utlsproxy''"

definition unit_name :: string where
  "unit_name = ''utlsproxy.service''"

definition zero_plan :: service_plan where
  "zero_plan = \<lparr>sp_schema = 0, sp_executable = [], sp_definition_path = [], sp_configuration = [], sp_definition = [], sp_log = []\<rparr>"

definition zero_manifest :: manifest where
  "zero_manifest = \<lparr>mf_version = 0, mf_executable = [], mf_executable_sha = [], mf_definition_path = [], mf_definition_sha = [],
     mf_config = [], mf_socket = []\<rparr>"

section \<open>The definition of the service\<close>

text \<open>\<^verbatim>\<open>xml.EscapeText\<close>: markup and white space are escaped, what XML does not allow becomes U+FFFD.\<close>

definition quotation :: char where "quotation = CHR 0x22"

definition xml_char :: "char \<Rightarrow> string" where
  "xml_char c =
     (if c = quotation then ''&#34;'' else if code c = 39 then ''&#39;'' else if c = CHR ''&'' then ''&amp;''
      else if c = CHR ''<'' then ''&lt;'' else if c = CHR ''>'' then ''&gt;''
      else if code c = 9 then ''&#x9;'' else if code c = 10 then ''&#xA;'' else if code c = 13 then ''&#xD;''
      else if code c < 32 then utf8_encode 0xFFFD else [c])"

definition not_a_char :: "string \<Rightarrow> bool" where
  "not_a_char u = (u = [CHR 0xEF, CHR 0xBF, CHR 0xBE] \<or> u = [CHR 0xEF, CHR 0xBF, CHR 0xBF])"

function escaped :: "string \<Rightarrow> string" where
  "escaped [] = []"
| "escaped (c # cs) =
     (if code c < 128 then xml_char c @ escaped cs
      else
        let n = utf8_run (c # cs) in
        if n = 0 then utf8_encode 0xFFFD @ escaped cs
        else
          let u = c # take (n - 1) cs in
          (if not_a_char u then utf8_encode 0xFFFD else u) @ escaped (drop (n - 1) cs))"
  by pat_completeness auto
termination
  by (relation "measure length") auto

definition systemd_arg :: "string \<Rightarrow> string" where
  "systemd_arg s0 =
     (let s1 = replace_all s0 (CHR ''%'') ''%%'';
          s2 = replace_all s1 (CHR ''$'') ''$$'';
          s3 = replace_all s2 (CHR 0x5C) [CHR 0x5C, CHR 0x5C];
          s4 = replace_all s3 quotation [CHR 0x5C, quotation]
      in [quotation] @ s4 @ [quotation])"

definition quoted :: "string \<Rightarrow> string" where
  "quoted s = [quotation] @ s @ [quotation]"

text \<open>\<^verbatim>\<open>int(d.Seconds())+5\<close> for a duration that is not negative.\<close>

definition stop_seconds :: "config \<Rightarrow> string" where
  "stop_seconds c = itoa (rt_shutdown (c_runtime c) div second + 5)"

definition text_lines :: "string list \<Rightarrow> string" where
  "text_lines ls = concat (map (\<lambda>l. l @ [newline]) ls)"

definition plist :: "paths \<Rightarrow> config \<Rightarrow> path \<Rightarrow> string" where
  "plist p c path =
     text_lines
      [''<?xml version='' @ quoted ''1.0'' @ '' encoding='' @ quoted ''UTF-8'' @ ''?>'',
       ''<!DOCTYPE plist PUBLIC '' @ quoted ''-//Apple//DTD PLIST 1.0//EN'' @ '' '' @ quoted ''http://www.apple.com/DTDs/PropertyList-1.0.dtd'' @ ''>'',
       ''<plist version='' @ quoted ''1.0'' @ ''><dict>'',
       ''<key>Label</key><string>'' @ label_name @ ''</string>'',
       ''<key>ProgramArguments</key><array><string>'' @ escaped (pt_executable p) @ ''</string><string>serve</string><string>--config</string><string>''
         @ escaped path @ ''</string><string>--log-file</string><string>'' @ escaped (pt_log p) @ ''</string></array>'',
       ''<key>RunAtLoad</key><true/><key>KeepAlive</key><true/>'',
       ''<key>ThrottleInterval</key><integer>5</integer>'',
       ''<key>ExitTimeOut</key><integer>'' @ stop_seconds c @ ''</integer>'',
       ''<key>UserName</key><string>root</string><key>Umask</key><integer>63</integer>'',
       ''</dict></plist>'']"

definition unit_file :: "paths \<Rightarrow> config \<Rightarrow> path \<Rightarrow> string" where
  "unit_file p c path =
     text_lines
      [''[Unit]'', ''Description=utlsproxy TLS fingerprint proxy'', ''After=network-online.target'', ''Wants=network-online.target'',
       ''StartLimitIntervalSec=60'', ''StartLimitBurst=5'', [], ''[Service]'', ''Type=simple'',
       ''ExecStart='' @ systemd_arg (pt_executable p) @ '' serve --config '' @ systemd_arg path,
       ''User=root'', ''Restart=always'', ''RestartSec=3'', ''TimeoutStopSec='' @ stop_seconds c, ''UMask=0077'',
       ''StandardOutput=journal'', ''StandardError=journal'', [], ''[Install]'', ''WantedBy=multi-user.target'']"

definition bad_path :: "string \<Rightarrow> bool" where
  "bad_path s = contains_any s [CHR 0x0A, CHR 0x0D, CHR 0x00]"

definition generate :: "goos option \<Rightarrow> paths \<Rightarrow> config \<Rightarrow> path \<Rightarrow> service_plan \<times> go_error option" where
  "generate os p c path =
     (if list_ex bad_path [path, pt_executable p, pt_log p]
      then (zero_plan, Some (New ''service paths must not contain newlines or NUL''))
      else
        let plan = \<lparr>sp_schema = 1, sp_executable = pt_executable p, sp_definition_path = pt_service p, sp_configuration = path,
              sp_definition = [], sp_log = pt_log p\<rparr> in
        (case os of
          Some Darwin \<Rightarrow> (plan\<lparr>sp_definition := plist p c path\<rparr>, None)
        | Some Linux \<Rightarrow> (plan\<lparr>sp_definition := unit_file p c path\<rparr>, None)
        | None \<Rightarrow> (plan, Some (New ''service installation unsupported''))))"

section \<open>The service manager\<close>

definition host_paths :: "host \<Rightarrow> paths" where
  "host_paths h = platform_paths (case ho_os h of Some g \<Rightarrow> g | None \<Rightarrow> Linux)"

fun first_there :: "path list \<Rightarrow> path option io" where
  "first_there [] = ret None"
| "first_there (p # ps) = bind_io (attempt (sys_stat p)) (\<lambda>r. case r of Inr _ \<Rightarrow> ret (Some p) | Inl _ \<Rightarrow> first_there ps)"

definition service_tool :: "host \<Rightarrow> path io" where
  "service_tool h =
     (let none = throw (New ''native service manager unavailable; use foreground serve'') in
      case ho_os h of
        Some Darwin \<Rightarrow> ret ''/bin/launchctl''
      | Some Linux \<Rightarrow> bind_io (first_there [''/usr/bin/systemctl'', ''/bin/systemctl'']) (\<lambda>r. case r of Some p \<Rightarrow> ret p | None \<Rightarrow> none)
      | None \<Rightarrow> none)"

text \<open>The output of a command comes with its error; a message ends with the output, which here stands before the cause.\<close>

type_synonym spoken = "(string \<times> go_error option) io"

definition service_run :: "host \<Rightarrow> string list \<Rightarrow> spoken" where
  "service_run h args =
     bind_io (attempt (service_tool h)) (\<lambda>bin.
     case bin of
       Inl e \<Rightarrow> ret ([], Some e)
     | Inr bin \<Rightarrow>
         bind_io (running (ho_exec h) [] bin args) (\<lambda>oc.
         ret (oc_out oc, map_option (Wrapf (bin @ '' '' @ show_strings args @ '': '' @ trim_space (oc_out oc))) (oc_err oc))))"

text \<open>Whether the text has \<^verbatim>\<open>ActiveState=active\<close> at the end of a line.\<close>

definition reports_active :: "string \<Rightarrow> bool" where
  "reports_active t = list_ex (\<lambda>i. prefix (''ActiveState=active'' @ [newline]) (drop i t)) [0..<length t]"

definition system_label :: string where
  "system_label = ''system/'' @ label_name"

definition native :: "host \<Rightarrow> string \<Rightarrow> spoken" where
  "native h action =
     bind_io get_euid (\<lambda>u.
     let unknown = ret ([], Some (New (''unknown service action '' @ action)));
         started = (\<lambda>args. bind_io (service_run h [''print'', system_label]) (\<lambda>r.
            if snd r = None then service_run h args else service_run h [''bootstrap'', ''system'', pt_service (host_paths h)]))
     in if action \<noteq> ''status'' \<and> u \<noteq> 0 then ret ([], Some (Os EPERM))
        else if ho_os h = Some Darwin
        then
          if action = ''status'' then service_run h [''print'', system_label]
          else if action = ''start'' then started [''kickstart'', system_label]
          else if action = ''stop'' then service_run h [''bootout'', system_label]
          else if action = ''restart'' then started [''kickstart'', ''-k'', system_label]
          else unknown
        else if action = ''status''
        then
          bind_io (service_run h [''show'', unit_name, ''--property=LoadState,ActiveState,SubState,UnitFileState,MainPID,Result'']) (\<lambda>(text, e).
          ret (text, if e = None \<and> \<not> reports_active text then Some (New ''service is not active'') else e))
        else
          bind_io (if action = ''restart'' \<or> action = ''start'' then service_run h [''reset-failed'', unit_name] else ret ([], None)) (\<lambda>_.
          if action \<in> set [''start'', ''stop'', ''restart''] then service_run h [action, unit_name] else unknown))"

definition must :: "spoken \<Rightarrow> unit io" where
  "must m = bind_io m (\<lambda>(t, e). of_check e)"

definition ignoring :: "spoken \<Rightarrow> unit io" where
  "ignoring m = bind_io m (\<lambda>_. ret ())"

section \<open>What is owned\<close>

definition manifest_path :: "host \<Rightarrow> path" where
  "manifest_path h = path_join (path_dir (pt_config (host_paths h))) ''installation.json''"

definition manifest_fields :: "(string \<times> manifest field_dec) list" where
  "manifest_fields =
     [(''version'', dec_int mf_version_update), (''executable'', dec_string mf_executable_update),
      (''executable_sha256'', dec_string mf_executable_sha_update), (''definition_path'', dec_string mf_definition_path_update),
      (''definition_sha256'', dec_string mf_definition_sha_update), (''config'', dec_string mf_config_update),
      (''socket'', dec_string mf_socket_update)]"

definition decode_manifest :: "string \<Rightarrow> manifest res" where
  "decode_manifest b =
     (case unmarshal b of Inl e \<Rightarrow> Inl e | Inr v \<Rightarrow> dec_result (dec_struct False manifest_fields v (zero_manifest, None)))"

definition manifest_json :: "manifest \<Rightarrow> json" where
  "manifest_json m = Obj [(''version'', Num (itoa (mf_version m))), (''executable'', Str (mf_executable m)),
     (''executable_sha256'', Str (mf_executable_sha m)), (''definition_path'', Str (mf_definition_path m)),
     (''definition_sha256'', Str (mf_definition_sha m)), (''config'', Str (mf_config m)), (''socket'', Str (mf_socket m))]"

definition manifest_valid :: "host \<Rightarrow> manifest \<Rightarrow> bool" where
  "manifest_valid h m =
     (\<not> (mf_version m \<noteq> 1 \<or> mf_executable m \<noteq> pt_executable (host_paths h) \<or> mf_definition_path m \<noteq> pt_service (host_paths h)))"

definition read_manifest :: "host \<Rightarrow> manifest io" where
  "read_manifest h =
     bind_io (sys_read (manifest_path h)) (\<lambda>b.
     bind_io (of_res (decode_manifest b)) (\<lambda>m.
     bind_io (guard (\<not> manifest_valid h m) (New ''invalid installation manifest'')) (\<lambda>_.
     ret m)))"

definition inspect_owned :: "host \<Rightarrow> path \<Rightarrow> string \<Rightarrow> unit io" where
  "inspect_owned h path want =
     bind_io (regular path) (\<lambda>_.
     bind_io (sys_read path) (\<lambda>b.
     guard (ho_sha h b \<noteq> want) (New (''owned installation file was modified: '' @ path))))"

section \<open>Waiting for the daemon\<close>

definition err_degraded :: go_error where
  "err_degraded = New ''daemon is degraded''"

text \<open>
  Round \<open>i\<close> of the loop: ask, then sleep or be cancelled.  The number of rounds the deadline leaves is
  an argument; at most 75 sleeps of 200 milliseconds fit.  The message of a degraded daemon ends with
  the reasons, which here stand before the cause.
\<close>

fun await :: "host \<Rightarrow> nat \<Rightarrow> path \<Rightarrow> path \<Rightarrow> unit io" where
  "await h 0 socket path = throw (New ''service did not expose the expected control socket within 15s'')"
| "await h (Suc i) socket path =
     bind_io (attempt (ho_ask h socket)) (\<lambda>r.
     let again = (case ho_cancelled h i of Some e \<Rightarrow> throw e | None \<Rightarrow> await h i socket path) in
     case r of
       Inr st \<Rightarrow>
         if dv_config_path st = path
         then (if dv_health st \<noteq> ''ready'' then throw (Wrapf (join ''; '' (dv_reasons st)) err_degraded) else ret ())
         else again
     | Inl _ \<Rightarrow> again)"

definition await_daemon :: "host \<Rightarrow> path \<Rightarrow> path \<Rightarrow> unit io" where
  "await_daemon h socket path = await h (ho_polls h) socket path"

section \<open>Installing\<close>

definition manifest_lock :: "host \<Rightarrow> path" where
  "manifest_lock h = manifest_path h @ ''.lock''"

definition check_source :: "path \<Rightarrow> unit io" where
  "check_source f =
     bind_io (root_owned f) (\<lambda>_.
     bind_io (sys_eval_symlinks f) (\<lambda>real.
     guard (has_prefix real ''/Volumes/'' \<or> has_prefix real ''/media/'' \<or> has_prefix real ''/run/user/'')
       (New (''service path may be unavailable at boot: '' @ real))))"

definition check_target :: "host \<Rightarrow> manifest option \<Rightarrow> path \<Rightarrow> unit io" where
  "check_target h old target =
     bind_io (attempt (sys_lstat target)) (\<lambda>r.
     case r of
       Inr _ \<Rightarrow>
         (case old of
           None \<Rightarrow> throw (New (''unowned installation target exists: '' @ target))
         | Some m \<Rightarrow> inspect_owned h target (if target = pt_service (host_paths h) then mf_definition_sha m else mf_executable_sha m))
     | Inl e \<Rightarrow> if e \<noteq> Os ENOENT then throw e else ret ())"

definition ready_dir :: "path \<Rightarrow> unit io" where
  "ready_dir dir = bind_io (sys_mkdir_all dir 493) (\<lambda>_. root_owned dir)"

definition enable_service :: "host \<Rightarrow> spoken" where
  "enable_service h = (if ho_os h = Some Darwin then service_run h [''enable'', system_label] else service_run h [''enable'', unit_name])"

text \<open>The contents the rollback of an update writes back: executable, definition and manifest; an
  unreadable file counts as empty.\<close>

type_synonym kept = "string \<times> string \<times> string"

definition read_or_empty :: "path \<Rightarrow> string io" where
  "read_or_empty p = bind_io (attempt (sys_read p)) (\<lambda>r. ret (case r of Inr b \<Rightarrow> b | Inl _ \<Rightarrow> []))"

definition back_up :: "host \<Rightarrow> config \<Rightarrow> kept io" where
  "back_up h c =
     bind_io (read_or_empty (pt_executable (host_paths h))) (\<lambda>b.
     bind_io (read_or_empty (pt_service (host_paths h))) (\<lambda>d.
     bind_io (read_or_empty (manifest_path h)) (\<lambda>m.
     let backup = path_join (rt_state_dir (c_runtime c)) (''service-backup-'' @ ho_stamp h) in
     bind_io (private_dir backup) (\<lambda>_.
     bind_io (foreach (ho_order h [(''utlsproxy'', b), (''service'', d), (''installation.json'', m)])
       (\<lambda>(name, b). exclusive (path_join backup name) b 384)) (\<lambda>_.
     ret (b, d, m))))))"

text \<open>Run all, keep the errors.\<close>

fun all_errors :: "unit io list \<Rightarrow> world \<Rightarrow> go_error list \<times> world" where
  "all_errors [] w = ([], w)"
| "all_errors (m # ms) w =
     (case m w of (r, w1) \<Rightarrow> (case all_errors ms w1 of (es, w') \<Rightarrow> ((case r of Inl e \<Rightarrow> e # es | Inr _ \<Rightarrow> es), w')))"

definition remove_if_there :: "path \<Rightarrow> unit io" where
  "remove_if_there p = bind_io (attempt (sys_remove p)) (\<lambda>r. case r of Inl e \<Rightarrow> if e = Os ENOENT then ret () else throw e | Inr _ \<Rightarrow> ret ())"

definition restoring :: "host \<Rightarrow> kept option \<Rightarrow> bool \<times> bool \<Rightarrow> unit io list" where
  "restoring h old wrote =
     (let p = host_paths h in
      (if fst wrote
       then [case old of Some (b, d, m) \<Rightarrow> atomic (pt_executable p) b 493 (ho_rnd h 3) | None \<Rightarrow> sys_remove (pt_executable p)] else [])
      @ (if snd wrote
         then [case old of Some (b, d, m) \<Rightarrow> atomic (pt_service p) d 420 (ho_rnd h 4) | None \<Rightarrow> sys_remove (pt_service p)] else [])
      @ [case old of Some (b, d, m) \<Rightarrow> atomic (manifest_path h) m 384 (ho_rnd h 5) | None \<Rightarrow> remove_if_there (manifest_path h)]
      @ (if ho_os h = Some Linux then [must (service_run h [''daemon-reload''])] else [])
      @ (case old of
          Some _ \<Rightarrow> [must (native h ''start'')]
        | None \<Rightarrow> if ho_os h = Some Linux then [ignoring (service_run h [''disable'', unit_name])] else []))"

type_synonym installing = "(service_plan \<times> string) run"

definition roll_back_install :: "host \<Rightarrow> service_plan \<Rightarrow> kept option \<Rightarrow> bool \<times> bool \<Rightarrow> go_error \<Rightarrow> installing" where
  "roll_back_install h plan old wrote cause w =
     (case ignoring (native h ''stop'') w of
       (_, w1) \<Rightarrow>
         (case all_errors (restoring h old wrote) w1 of
           (es, w') \<Rightarrow> stop_with (plan, ''installation failed; restored previous owned files where possible'') (Join (cause # es)) w'))"

text \<open>\<open>step_or_roll_back\<close>: go on when the step succeeds, roll back what was written so far otherwise.\<close>

definition step_or_roll_back :: "(go_error \<Rightarrow> installing) \<Rightarrow> unit io \<Rightarrow> installing \<Rightarrow> installing" where
  "step_or_roll_back rb m k w = (case m w of (Inl e, w') \<Rightarrow> rb e w' | (Inr _, w') \<Rightarrow> k w')"

definition new_manifest :: "host \<Rightarrow> config \<Rightarrow> path \<Rightarrow> string \<Rightarrow> string \<Rightarrow> manifest" where
  "new_manifest h c path binary definition_text =
     \<lparr>mf_version = 1, mf_executable = pt_executable (host_paths h), mf_executable_sha = ho_sha h binary,
      mf_definition_path = pt_service (host_paths h), mf_definition_sha = ho_sha h definition_text, mf_config = path,
      mf_socket = rt_control_socket (c_runtime c)\<rparr>"

definition activate :: "host \<Rightarrow> unit io" where
  "activate h =
     (if ho_os h = Some Darwin then must (enable_service h)
      else bind_io (must (service_run h [''daemon-reload''])) (\<lambda>_. must (enable_service h)))"

definition replace_files :: "host \<Rightarrow> config \<Rightarrow> path \<Rightarrow> service_plan \<Rightarrow> manifest option \<Rightarrow> kept option \<Rightarrow> string \<Rightarrow> installing" where
  "replace_files h c path plan old kept binary =
     (let p = host_paths h;
          write_bin = (case old of None \<Rightarrow> True | Some m \<Rightarrow> mf_executable_sha m \<noteq> ho_sha h binary);
          rb = roll_back_install h plan kept;
          text = marshal_indent (manifest_json (new_manifest h c path binary (sp_definition plan)))
      in step_or_roll_back (rb (False, False)) (if write_bin then atomic (pt_executable p) binary 493 (ho_rnd h 0) else ret ())
        (step_or_roll_back (rb (write_bin, False)) (atomic (pt_service p) (sp_definition plan) 420 (ho_rnd h 1))
        (step_or_roll_back (rb (write_bin, True)) (atomic (manifest_path h) text 384 (ho_rnd h 2))
        (step_or_roll_back (rb (write_bin, True)) (activate h)
        (step_or_roll_back (rb (write_bin, True)) (must (native h ''start''))
        (step_or_roll_back
           (\<lambda>e. if error_is e err_degraded then stop_with (plan, ''installed and started; daemon is degraded'') e else rb (write_bin, True) e)
           (await_daemon h (rt_control_socket (c_runtime c)) path)
           (finish (plan, ''installed, enabled at boot, and running''))))))))"

definition stop_old :: "host \<Rightarrow> service_plan \<Rightarrow> installing \<Rightarrow> installing" where
  "stop_old h plan k =
     try_step (\<lambda>e. e) (plan, []) (native h ''status'') (\<lambda>(t, e).
     if e = None then try_step (\<lambda>e. e) (plan, ''service update stopped before replacing files'') (must (native h ''stop'')) (\<lambda>_. k)
     else k)"

definition same_installation :: "host \<Rightarrow> config \<Rightarrow> path \<Rightarrow> service_plan \<Rightarrow> string \<Rightarrow> manifest \<Rightarrow> bool" where
  "same_installation h c path plan binary m =
     (mf_executable_sha m = ho_sha h binary \<and> mf_definition_sha m = ho_sha h (sp_definition plan) \<and> mf_config m = path
      \<and> mf_socket m = rt_control_socket (c_runtime c))"

definition keep_installation :: "host \<Rightarrow> config \<Rightarrow> path \<Rightarrow> service_plan \<Rightarrow> installing" where
  "keep_installation h c path plan =
     try_step (\<lambda>e. e) (plan, []) (must (enable_service h)) (\<lambda>_.
     try_step (\<lambda>e. e) (plan, []) (must (native h ''start'')) (\<lambda>_.
     try_step (\<lambda>e. e) (plan, ''installation unchanged; service health check did not pass'')
       (await_daemon h (rt_control_socket (c_runtime c)) path) (\<lambda>_.
     finish (plan, ''installation unchanged; enabled at boot and running''))))"

text \<open>What is checked under the lock before anything is changed: the old manifest, the targets, the
  own program and a running daemon.\<close>

definition old_manifest :: "host \<Rightarrow> manifest option io" where
  "old_manifest h =
     bind_io (attempt (read_manifest h)) (\<lambda>r.
     case r of Inr m \<Rightarrow> ret (Some m) | Inl e \<Rightarrow> if e \<noteq> Os ENOENT then throw e else ret None)"

definition check_running :: "host \<Rightarrow> config \<Rightarrow> manifest option \<Rightarrow> unit io" where
  "check_running h c old =
     bind_io (attempt (ho_ask h (rt_control_socket (c_runtime c)))) (\<lambda>r.
     guard (is_ok r \<and> old = None) (New ''foreground daemon is running; stop it before installing the service''))"

definition preflight :: "host \<Rightarrow> config \<Rightarrow> (manifest option \<times> string) io" where
  "preflight h c =
     (let p = host_paths h in
      bind_io (old_manifest h) (\<lambda>old.
      bind_io (foreach [pt_executable p, pt_service p] (check_target h old)) (\<lambda>_.
      bind_io (of_res (ho_self h)) (\<lambda>self.
      bind_io (sys_read self) (\<lambda>binary.
      bind_io (check_running h c old) (\<lambda>_.
      bind_io (foreach [path_dir (pt_executable p), path_dir (pt_service p)] ready_dir) (\<lambda>_.
      bind_io (private_dir (rt_state_dir (c_runtime c))) (\<lambda>_.
      bind_io (root_owned (rt_state_dir (c_runtime c))) (\<lambda>_.
      ret (old, binary))))))))))"

definition install_locked :: "host \<Rightarrow> config \<Rightarrow> path \<Rightarrow> service_plan \<Rightarrow> installing" where
  "install_locked h c path plan =
     try_step (\<lambda>e. e) (plan, []) (preflight h c) (\<lambda>(old, binary).
     case old of
       None \<Rightarrow> replace_files h c path plan None None binary
     | Some m \<Rightarrow>
         if same_installation h c path plan binary m then keep_installation h c path plan
         else
           try_step (\<lambda>e. e) (plan, []) (back_up h c) (\<lambda>kept.
           stop_old h plan (replace_files h c path plan (Some m) (Some kept) binary)))"

definition install :: "host \<Rightarrow> config \<Rightarrow> path \<Rightarrow> bool \<Rightarrow> installing" where
  "install h c path0 dry =
     try_step (\<lambda>e. e) (zero_plan, []) (path_abs path0) (\<lambda>path.
     case generate (ho_os h) (host_paths h) c path of
       (plan, Some e) \<Rightarrow> stop_with (plan, []) e
     | (plan, None) \<Rightarrow>
         if dry then finish (plan, ''dry run: no files or service state changed'')
         else
           try_step (\<lambda>e. e) (plan, []) get_euid (\<lambda>u.
           if u \<noteq> 0 then stop_with (plan, []) (Os EPERM)
           else
             try_step (\<lambda>e. e) (plan, []) (service_tool h) (\<lambda>_.
             try_step (\<lambda>e. e) (plan, []) (foreach [path, c_ca_cert c, c_ca_key c] check_source) (\<lambda>_.
             try_step (\<lambda>e. e) (plan, []) (private_dir (path_dir (manifest_path h))) (\<lambda>_.
             try_step (\<lambda>e. e) (plan, []) (lock (manifest_lock h)) (\<lambda>_.
             and_then (unlock (manifest_lock h)) (install_locked h c path plan)))))))"

section \<open>Removing\<close>

definition nothing_owned :: string where
  "nothing_owned = ''no owned service installation found''"

text \<open>A failed stop is accepted unless the daemon still answers.\<close>

definition stop_service :: "host \<Rightarrow> path \<Rightarrow> unit io" where
  "stop_service h socket =
     bind_io (native h ''stop'') (\<lambda>(t, e).
     case e of
       None \<Rightarrow> ret ()
     | Some e \<Rightarrow> bind_io (attempt (ho_ask h socket)) (\<lambda>r. if is_ok r then throw e else ret ()))"

definition on_linux :: "host \<Rightarrow> unit io \<Rightarrow> unit io" where
  "on_linux h m = (if ho_os h = Some Linux then m else ret ())"

definition uninstall_locked :: "host \<Rightarrow> bool \<Rightarrow> string run" where
  "uninstall_locked h dry =
     try_step (\<lambda>e. e) [] (attempt (read_manifest h)) (\<lambda>r.
     case r of
       Inl e \<Rightarrow> if e = Os ENOENT then finish nothing_owned else stop_with [] e
     | Inr m \<Rightarrow>
         if dry
         then finish (''Would stop/unregister service and remove '' @ mf_executable m @ '', '' @ mf_definition_path m @ '', ''
           @ manifest_path h @ ''; preserve CA/config/state/logs'')
         else
           try_step (\<lambda>e. e) [] get_euid (\<lambda>u.
           if u \<noteq> 0 then stop_with [] (Os EPERM)
           else
             try_step (\<lambda>e. e) []
               (foreach (ho_order h [(mf_executable m, mf_executable_sha m), (mf_definition_path m, mf_definition_sha m)])
                 (\<lambda>(p, want). inspect_owned h p want)) (\<lambda>_.
             try_step (\<lambda>e. e) []
               (bind_io (stop_service h (mf_socket m)) (\<lambda>_.
                bind_io (on_linux h (must (service_run h [''disable'', unit_name]))) (\<lambda>_.
                bind_io (sys_remove (mf_definition_path m)) (\<lambda>_.
                bind_io (on_linux h (must (service_run h [''daemon-reload'']))) (\<lambda>_.
                bind_io (sys_remove (mf_executable m)) (\<lambda>_.
                sys_remove (manifest_path h))))))) (\<lambda>_.
             finish ''service uninstalled; CA, configuration, state and logs retained''))))"

definition uninstall :: "host \<Rightarrow> bool \<Rightarrow> string run" where
  "uninstall h dry =
     (if dry then uninstall_locked h dry
      else
        try_step (\<lambda>e. e) [] get_euid (\<lambda>u.
        if u \<noteq> 0 then stop_with [] (Os EPERM)
        else
          try_step (\<lambda>e. e) [] (attempt (sys_stat (path_dir (manifest_path h)))) (\<lambda>r.
          if r = Inl (Os ENOENT) then finish nothing_owned
          else
            try_step (\<lambda>e. e) [] (lock (manifest_lock h)) (\<lambda>_.
            and_then (unlock (manifest_lock h)) (uninstall_locked h dry)))))"

end
