(* ===== verification/ServiceSafety.thy ===== *)
theory ServiceSafety
  imports Service
begin

text \<open>
  What installing, updating and removing the service guarantee: nothing that the manifest on disk does
  not own is replaced or removed, and the three files of an installation are replaced as a
  transaction that a failure undoes.
\<close>

section \<open>What the manifest owns\<close>

definition manifest_at :: "host \<Rightarrow> fs \<Rightarrow> manifest \<Rightarrow> bool" where
  "manifest_at h m mf =
     (\<exists>q n. resolve max_links m (manifest_path h) = Some q \<and> m q = Some n \<and> n_type n \<noteq> Directory
        \<and> decode_manifest (n_data n) = Inr mf \<and> manifest_valid h mf)"

definition owned_file :: "host \<Rightarrow> fs \<Rightarrow> path \<Rightarrow> string \<Rightarrow> bool" where
  "owned_file h m p want = (\<exists>n. m p = Some n \<and> n_type n = Regular \<and> ho_sha h (n_data n) = want)"

text \<open>A new directory or a new empty file does not make a manifest.\<close>

definition harmless :: "node \<Rightarrow> bool" where
  "harmless x = (n_type x \<noteq> Symlink \<and> (n_type x = Directory \<or> n_data x = []))"

lemma resolve_new_node:
  "resolve k (m(p \<mapsto> x)) a = Some q \<Longrightarrow> n_type x \<noteq> Symlink \<Longrightarrow> q \<noteq> p \<Longrightarrow> m p = None \<Longrightarrow> resolve k m a = Some q"
  by (induction k arbitrary: a) (auto split: option.splits if_splits)

lemma manifest_at_new:
  assumes "manifest_at h (m(p \<mapsto> x)) mf" "harmless x" "m p = None"
  shows "manifest_at h m mf"
proof -
  from assms(1) obtain q n where q: "resolve max_links (m(p \<mapsto> x)) (manifest_path h) = Some q" "(m(p \<mapsto> x)) q = Some n"
    "n_type n \<noteq> Directory" "decode_manifest (n_data n) = Inr mf" "manifest_valid h mf"
    unfolding manifest_at_def by blast
  have "decode_manifest [] \<noteq> Inr mf" by (simp add: decode_manifest_def) code_simp
  with q assms(2) have "q \<noteq> p" by (auto simp: harmless_def)
  with q assms(2,3) resolve_new_node [OF q(1)] show ?thesis
    unfolding manifest_at_def harmless_def by auto
qed

text \<open>Undisturbed commands that make no manifest.\<close>

definition no_new_manifest :: "host \<Rightarrow> world \<Rightarrow> world \<Rightarrow> bool" where
  "no_new_manifest h w w' = (calm w \<longrightarrow> calm w' \<and> (\<forall>mf. manifest_at h (w_fs w') mf \<longrightarrow> manifest_at h (w_fs w) mf))"

interpretation nomf: io_frame "no_new_manifest h" for h
  by unfold_locales (auto simp: no_new_manifest_def)

named_theorems nomf_intros \<open>commands that make no manifest\<close>

lemma nomf_reading: "(\<And>p. stays (untouched p) m) \<Longrightarrow> stays (no_new_manifest h) m"
proof -
  assume u: "\<And>p. stays (untouched p) m"
  have "calm (snd (m w)) \<and> w_fs (snd (m w)) = w_fs w" if "calm w" for w
    using calm_stays [OF u that] by (simp add: fun_eq_iff)
  then show ?thesis by (simp add: stays_def no_new_manifest_def)
qed

lemma nomf_sys:
  assumes "\<And>w. w_sched (snd (f w)) = w_sched w" and "\<And>w. w_fs (snd (f w)) = w_fs w \<or> (\<exists>p x. w_fs w p = None \<and> harmless x \<and> w_fs (snd (f w)) = (w_fs w)(p \<mapsto> x))"
  shows "stays (no_new_manifest h) (sys f)"
  unfolding stays_def no_new_manifest_def
proof (intro allI impI)
  fix w assume c: "calm w"
  obtain fl w1 where t: "tick w = (fl, w1)" by (cases "tick w")
  from calm_tick [OF c t] have w1: "calm w1" "w_fs w1 = w_fs w" by auto
  have "calm (snd (f w1))" using w1(1) assms(1) [of w1] by (simp add: calm_def)
  moreover have "manifest_at h (w_fs w) mf" if "manifest_at h (w_fs (snd (f w1))) mf" for mf
    using assms(2) [of w1] that manifest_at_new w1(2) by metis
  ultimately show "calm (snd (sys f w)) \<and> (\<forall>mf. manifest_at h (w_fs (snd (sys f w))) mf \<longrightarrow> manifest_at h (w_fs w) mf)"
    using w1 by (auto simp: sys_def t split: option.splits)
qed

lemma harmless_new: "harmless (new_node w Directory m)" "harmless (new_node w Regular m)"
  by (simp_all add: harmless_def new_node_def)

lemma nomf_mkdir [nomf_intros]: "stays (no_new_manifest h) (sys_mkdir_all p m)"
  unfolding sys_mkdir_all_def
proof (rule nomf_sys, simp split: option.split, goal_cases)
  case (1 w)
  show ?case
  proof (cases "w_fs w p")
    case None
    then show ?thesis by (intro disjI2 exI [of _ p] exI [of _ "new_node w Directory m"]) (simp add: harmless_new)
  qed simp
qed

lemma nomf_open_lock [nomf_intros]: "stays (no_new_manifest h) (sys_open_lock p)"
  unfolding sys_open_lock_def
proof (rule nomf_sys, simp split: option.split, goal_cases)
  case (1 w)
  show ?case
  proof (cases "w_fs w p")
    case None
    then show ?thesis by (intro disjI2 exI [of _ p] exI [of _ "new_node w Regular 384"]) (simp add: harmless_new)
  qed simp
qed

lemma nomf_flock [nomf_intros]: "stays (no_new_manifest h) (sys_flock p)"
  unfolding sys_flock_def by (rule nomf_sys) auto

lemma nomf_basic [nomf_intros]:
  "stays (no_new_manifest h) (sys_lstat p)" "stays (no_new_manifest h) (sys_stat p)" "stays (no_new_manifest h) (sys_eval_symlinks p)"
  "stays (no_new_manifest h) (sys_close p)" "stays (no_new_manifest h) get_euid" "stays (no_new_manifest h) (root_owned p)"
  "stays (no_new_manifest h) (unlock p)" "stays (no_new_manifest h) (sys_read p)" "stays (no_new_manifest h) (regular p)"
  by (intro nomf_reading frame_intros)+

lemma nomf_private_dir [nomf_intros]: "stays (no_new_manifest h) (private_dir p)"
  unfolding private_dir_def by (intro nomf.stays_rules nomf_intros)

lemma nomf_lock [nomf_intros]: "stays (no_new_manifest h) (lock p)"
  unfolding lock_def by (intro nomf.stays_rules nomf_intros)

lemma stays_first_there [frame_intros]: "stays (untouched p) (first_there ps)"
  by (induction ps) (auto intro!: unt.stays_rules frame_intros)

lemma stays_service_tool [frame_intros]: "stays (untouched p) (service_tool h)"
  unfolding service_tool_def Let_def by (intro unt.stays_rules frame_intros) (auto split: goos.split intro!: unt.stays_rules frame_intros)

lemma stays_check_source [frame_intros]: "stays (untouched p) (check_source f)"
  unfolding check_source_def by (intro unt.stays_rules frame_intros)

lemma stays_read_manifest [frame_intros]: "stays (untouched p) (read_manifest h)"
  unfolding read_manifest_def by (auto simp: of_res_def intro!: unt.stays_rules frame_intros split: sum.split)

lemma stays_old_manifest [frame_intros]: "stays (untouched p) (old_manifest h)"
  unfolding old_manifest_def by (intro unt.stays_rules frame_intros)

lemma stays_inspect_owned [frame_intros]: "stays (untouched p) (inspect_owned h q want)"
  unfolding inspect_owned_def by (intro unt.stays_rules frame_intros)

lemma stays_check_target [frame_intros]: "stays (untouched p) (check_target h old q)"
  unfolding check_target_def by (intro unt.stays_rules frame_intros)

lemma read_file_ok:
  assumes "sys_read p w = (Inr b, w')" "calm w"
  shows "calm w' \<and> w_fs w' = w_fs w \<and> (\<exists>q n. resolve max_links (w_fs w) p = Some q \<and> w_fs w q = Some n \<and> n_type n \<noteq> Directory \<and> n_data n = b)"
  using assms unfolding sys_read_def by (elim calm_sys_rule) (auto split: option.splits if_splits)

lemma of_res_Inr: "of_res x w = (Inr y, w') \<longleftrightarrow> x = Inr y \<and> w' = w"
  by (auto simp: of_res_def ret_def throw_def split: sum.splits)

lemma read_manifest_ok:
  assumes "read_manifest h w = (Inr m, w')" "calm w"
  shows "calm w' \<and> w_fs w' = w_fs w \<and> manifest_at h (w_fs w) m"
proof -
  from assms(1) obtain b where r: "sys_read (manifest_path h) w = (Inr b, w')" and d: "decode_manifest b = Inr m" "manifest_valid h m"
    unfolding read_manifest_def by (auto simp: io_ok of_res_Inr)
  from read_file_ok [OF r assms(2)] d show ?thesis by (auto simp: manifest_at_def)
qed

lemma inspect_owned_ok:
  assumes "inspect_owned h p want w = (Inr (), w')" "calm w"
  shows "owned_file h (w_fs w) p want"
proof -
  from assms(1) obtain w1 b where g: "regular p w = (Inr (), w1)" and r: "sys_read p w1 = (Inr b, w')" and s: "ho_sha h b = want"
    unfolding inspect_owned_def by (auto simp: io_ok)
  from g obtain n where l: "sys_lstat p w = (Inr n, w1)" and t: "n_type n = Regular" unfolding regular_def by (auto simp: io_ok)
  from calm_lstat [OF l assms(2)] have w1: "calm w1" "w_fs w1 = w_fs w" "w_fs w p = Some n" by auto
  have "resolve max_links (w_fs w1) p = Some p" using w1 t by (intro resolve_plain) simp
  with read_file_ok [OF r w1(1)] w1 t s show ?thesis by (auto simp: owned_file_def)
qed

definition wanted :: "host \<Rightarrow> manifest \<Rightarrow> path \<Rightarrow> string" where
  "wanted h m t = (if t = pt_service (host_paths h) then mf_definition_sha m else mf_executable_sha m)"

lemma check_target_ok:
  assumes "check_target h old t w = (Inr (), w')" "calm w" "w_fs w t = Some n"
  shows "\<exists>m. old = Some m \<and> owned_file h (w_fs w) t (wanted h m t)"
proof -
  obtain fl w1 where tk: "tick w = (fl, w1)" by (cases "tick w")
  from calm_tick [OF assms(2) tk] assms(3) have w1: "calm w1" "w_fs w1 = w_fs w" by auto
  show ?thesis
  proof (cases fl)
    case None
    with tk w1 assms(3) have "sys_lstat t w = (Inr n, w1)" by (simp add: sys_lstat_def sys_def)
    with assms(1) obtain m where "old = Some m" "inspect_owned h t (wanted h m t) w1 = (Inr (), w')"
      by (auto simp: check_target_def bind_io_def attempt_def throw_def wanted_def split: option.splits)
    with inspect_owned_ok [OF this(2) w1(1)] w1(2) show ?thesis by auto
  next
    case (Some x)
    obtain en k where x: "x = (en, k)" by (cases x)
    with Some tk have "sys_lstat t w = (Inl (Os (fault_errno en)), w1)" by (simp add: sys_lstat_def sys_def)
    with assms(1) show ?thesis by (auto simp: check_target_def bind_io_def attempt_def throw_def fault_errno_def split: if_splits)
  qed
qed

section \<open>Runs from a set of worlds\<close>

definition leads :: "(world \<Rightarrow> bool) \<Rightarrow> ('r \<times> go_error option \<Rightarrow> world \<Rightarrow> bool) \<Rightarrow> 'r run \<Rightarrow> bool" where
  "leads P R k = (\<forall>w. P w \<longrightarrow> R (fst (k w)) (snd (k w)))"

lemma leadsD: "leads P R k \<Longrightarrow> P w \<Longrightarrow> k w = (x, w') \<Longrightarrow> R x w'"
  by (auto simp: leads_def)

lemma leads_end: "(\<And>w. P w \<Longrightarrow> R (r, Some e) w) \<Longrightarrow> leads P R (stop_with r e)" "(\<And>w. P w \<Longrightarrow> R (r, None) w) \<Longrightarrow> leads P R (finish r)"
  by (simp_all add: leads_def stop_with_def finish_def)

lemma leads_try:
  assumes "\<And>x w w'. P w \<Longrightarrow> m w = (Inr x, w') \<Longrightarrow> P' x w'" and "\<And>e w w'. P w \<Longrightarrow> m w = (Inl e, w') \<Longrightarrow> R (r, Some (f e)) w'"
    and "\<And>x. leads (P' x) R (k x)"
  shows "leads P R (try_step f r m k)"
  unfolding leads_def
proof (intro allI impI)
  fix w assume P: "P w"
  obtain x w' where m: "m w = (x, w')" by (cases "m w")
  show "R (fst (try_step f r m k w)) (snd (try_step f r m k w))"
  proof (cases x)
    case (Inl e)
    with m assms(2) [OF P] show ?thesis by (simp add: try_step_def stop_with_def)
  next
    case (Inr y)
    with m assms(1) [OF P] assms(3) [of y] show ?thesis by (simp add: try_step_def leads_def)
  qed
qed

lemma leads_if: "(b \<Longrightarrow> leads P R k) \<Longrightarrow> (\<not> b \<Longrightarrow> leads P R k') \<Longrightarrow> leads P R (if b then k else k')"
  by simp

lemma leads_and_then: "leads P R' k \<Longrightarrow> (\<And>x w. R' x w \<Longrightarrow> R x (snd (c w))) \<Longrightarrow> leads P R (and_then c k)"
  by (auto simp: leads_def and_then_def split: prod.splits)

text \<open>The paths of both systems.\<close>

lemma host_path_facts:
  "pt_executable (host_paths h) = ''/usr/local/bin/utlsproxy''"
  "pt_service (host_paths h) = ''/etc/systemd/system/utlsproxy.service'' \<and> manifest_path h = ''/etc/utlsproxy/installation.json''
   \<or> pt_service (host_paths h) = ''/Library/LaunchDaemons/local.utlsproxy.plist''
     \<and> manifest_path h = ''/Library/Application Support/utlsproxy/installation.json''"
proof -
  have "host_paths h = platform_paths Darwin \<or> host_paths h = platform_paths Linux"
    by (auto simp: host_paths_def split: option.split) (metis goos.exhaust)
  then show "pt_executable (host_paths h) = ''/usr/local/bin/utlsproxy''"
    "pt_service (host_paths h) = ''/etc/systemd/system/utlsproxy.service'' \<and> manifest_path h = ''/etc/utlsproxy/installation.json''
     \<or> pt_service (host_paths h) = ''/Library/LaunchDaemons/local.utlsproxy.plist''
       \<and> manifest_path h = ''/Library/Application Support/utlsproxy/installation.json''"
    by (elim disjE; simp add: platform_paths_def manifest_path_def path_evals)+
qed

lemma target_outside:
  assumes "t \<in> {pt_executable (host_paths h), pt_service (host_paths h)}"
  shows "t \<noteq> path_dir (manifest_path h)" "t \<noteq> manifest_lock h"
  using assms host_path_facts(1) [of h] host_path_facts(2) [of h] by (auto simp: manifest_lock_def path_evals)

text \<open>The worlds where a target is there and not owned.\<close>

definition stuck :: "host \<Rightarrow> path \<Rightarrow> node \<Rightarrow> world \<Rightarrow> bool" where
  "stuck h t n w = (calm w \<and> w_fs w t = Some n \<and> \<not> (\<exists>mf. manifest_at h (w_fs w) mf \<and> owned_file h (w_fs w) t (wanted h mf t)))"

lemma stuck_kept: "stays (no_new_manifest h) m \<Longrightarrow> stays (untouched t) m \<Longrightarrow> stuck h t n w \<Longrightarrow> m w = (x, w') \<Longrightarrow> stuck h t n w'"
  using nomf.stays_run [of h m w x w'] calm_untouched [of w t w'] unt.stays_run [of t m w x w']
  by (auto simp: stuck_def no_new_manifest_def owned_file_def)

lemma preflight_stuck:
  assumes w: "stuck h t n w" and t: "t \<in> {pt_executable (host_paths h), pt_service (host_paths h)}"
  shows "\<exists>e w'. preflight h c w = (Inl e, w') \<and> w_fs w' t = Some n \<and> calm w'"
proof -
  let ?targets = "\<lambda>old. foreach [pt_executable (host_paths h), pt_service (host_paths h)] (check_target h old)"
  have reads: "stays (untouched p) (?targets old)" for p old by (intro unt.stays_rules frame_intros)
  have c: "calm w" and n: "w_fs w t = Some n" using w by (simp_all add: stuck_def)
  obtain r w1 where o: "old_manifest h w = (r, w1)" by (cases "old_manifest h w")
  have w1: "calm w1" "w_fs w1 p = w_fs w p" for p using calm_stays [OF stays_old_manifest [where p=p and h=h] c] o by simp_all
  show ?thesis
  proof (cases r)
    case (Inl e)
    with o w1 n show ?thesis by (simp add: preflight_def Let_def bind_io_def)
  next
    case (Inr old)
    have no: "\<not> (\<exists>m. old = Some m \<and> owned_file h (w_fs w) t (wanted h m t))"
    proof
      assume "\<exists>m. old = Some m \<and> owned_file h (w_fs w) t (wanted h m t)"
      then obtain m where m: "old = Some m" "owned_file h (w_fs w) t (wanted h m t)" by blast
      with o Inr obtain v where "read_manifest h w = (Inr m, v)"
        unfolding old_manifest_def bind_io_ok attempt_iff by (auto simp: case_res_ok io_ok bind_io_ok split: if_splits)
      from read_manifest_ok [OF this c] m w show False by (auto simp: stuck_def)
    qed
    obtain x w2 where f: "?targets old w1 = (x, w2)" by (cases "?targets old w1")
    have w2: "calm w2" "w_fs w2 t = Some n" using calm_stays [OF reads [of t old] w1(1)] f w1(2) n by simp_all
    have bad: "check_target h old t v \<noteq> (Inr (), v')" if "calm v" "w_fs v = w_fs w" for v v'
      using check_target_ok [of h old t v v' n] that n no by auto
    have fs1: "w_fs w1 = w_fs w" using w1(2) by (simp add: fun_eq_iff)
    have "x \<noteq> Inr ()"
    proof
      assume "x = Inr ()"
      with f obtain u where a: "check_target h old (pt_executable (host_paths h)) w1 = (Inr (), u)"
        and b: "check_target h old (pt_service (host_paths h)) u = (Inr (), w2)"
        by (auto simp: io_ok)
      have "calm u \<and> w_fs u = w_fs w" using calm_stays [OF stays_check_target w1(1)] a fs1 by (auto simp: fun_eq_iff) (metis snd_conv)+
      with a b bad w1(1) fs1 t show False by blast
    qed
    then obtain e where "x = Inl e" by (cases x) auto
    with o Inr f w2 show ?thesis by (simp add: preflight_def Let_def bind_io_def)
  qed
qed

lemma install_locked_stuck:
  assumes "t \<in> {pt_executable (host_paths h), pt_service (host_paths h)}"
  shows "leads (stuck h t n) (\<lambda>x w'. calm w' \<and> w_fs w' t = Some n \<and> snd x \<noteq> None) (install_locked h c q plan)"
  unfolding leads_def
proof (intro allI impI)
  fix w assume "stuck h t n w"
  from preflight_stuck [OF this assms] obtain e w' where "preflight h c w = (Inl e, w')" "w_fs w' t = Some n" "calm w'" by blast
  then show "calm (snd (install_locked h c q plan w)) \<and> w_fs (snd (install_locked h c q plan w)) t = Some n
      \<and> snd (fst (install_locked h c q plan w)) \<noteq> None"
    by (simp add: install_locked_def try_step_def stop_with_def)
qed

lemma install_stuck:
  assumes w: "stuck h t n w" and t: "t \<in> {pt_executable (host_paths h), pt_service (host_paths h)}"
  shows "w_fs (snd (install h c path dry w)) t = Some n \<and> (dry \<or> snd (fst (install h c path dry w)) \<noteq> None)"
proof -
  let ?R = "\<lambda>(x :: (service_plan \<times> string) \<times> go_error option) w'. w_fs w' t = Some n \<and> (dry \<or> snd x \<noteq> None)"
  note out = target_outside [OF t]
  note locked = install_locked_stuck [OF t]
  have unl: "leads (stuck h t n) ?R (and_then (unlock (manifest_lock h)) (install_locked h c q plan))" for q plan
    by (rule leads_and_then [OF locked]) (use calm_stays [OF stays_unlock_fn [of t "manifest_lock h"]] in auto)
  have step: "leads (stuck h t n) ?R (try_step (\<lambda>e. e) r m k)"
    if m: "stays (no_new_manifest h) m" "stays (untouched t) m" and k: "\<And>x. leads (stuck h t n) ?R (k x)" for r and m :: "'a io" and k
  proof (rule leads_try [where P' = "\<lambda>_. stuck h t n", OF _ _ k])
    show "stuck h t n w'" if "stuck h t n w" "m w = (Inr x, w')" for x w w' by (rule stuck_kept [OF m that])
    show "?R (r, Some e) w'" if "stuck h t n w" "m w = (Inl e, w')" for e w w'
      using stuck_kept [OF m that] by (simp add: stuck_def)
  qed
  have ends: "leads (stuck h t n) ?R (stop_with r e)" "dry \<Longrightarrow> leads (stuck h t n) ?R (finish r)" for r e
    by (intro leads_end; simp add: stuck_def)+
  have src: "stays (no_new_manifest h) (foreach xs check_source)" for xs
    by (intro nomf_reading unt.stays_foreach frame_intros)
  have tool: "stays (no_new_manifest h) (service_tool h)" by (intro nomf_reading frame_intros)
  have ab: "stays (no_new_manifest h) (path_abs p)" for p by (intro nomf_reading frame_intros)
  have "leads (stuck h t n) ?R (install h c path dry)"
    unfolding install_def
  proof (rule step [OF ab])
    show "stays (untouched t) (path_abs path)" by (intro frame_intros)
    fix q
    obtain plan ge where g: "generate (ho_os h) (host_paths h) c q = (plan, ge)" by (cases "generate (ho_os h) (host_paths h) c q")
    show "leads (stuck h t n) ?R (case generate (ho_os h) (host_paths h) c q of
        (plan, Some e) \<Rightarrow> stop_with (plan, []) e
      | (plan, None) \<Rightarrow> if dry then finish (plan, ''dry run: no files or service state changed'')
         else try_step (\<lambda>e. e) (plan, []) get_euid (\<lambda>u. if u \<noteq> 0 then stop_with (plan, []) (Os EPERM)
           else try_step (\<lambda>e. e) (plan, []) (service_tool h) (\<lambda>_.
             try_step (\<lambda>e. e) (plan, []) (foreach [q, c_ca_cert c, c_ca_key c] check_source) (\<lambda>_.
             try_step (\<lambda>e. e) (plan, []) (private_dir (path_dir (manifest_path h))) (\<lambda>_.
             try_step (\<lambda>e. e) (plan, []) (lock (manifest_lock h)) (\<lambda>_.
             and_then (unlock (manifest_lock h)) (install_locked h c q plan)))))))"
    proof (cases ge)
      case (Some e)
      with g ends(1) show ?thesis by simp
    next
      case None
      show ?thesis
        unfolding g None prod.case option.case
        by (rule leads_if, erule ends(2), rule step, intro nomf_intros, intro frame_intros, rule leads_if, rule ends(1),
            rule step, rule tool, intro frame_intros, rule step, rule src, intro unt.stays_foreach frame_intros,
            rule step, intro nomf_intros, intro frame_intros out, rule step, intro nomf_intros, intro frame_intros out, rule unl)
    qed
  qed
  with w show ?thesis by (simp add: leads_def)
qed

text \<open>C22: installing never replaces what it does not own.  Undisturbed, whatever fails, where the path
  of the executable or of the definition holds anything that the manifest on disk does not name with
  this content, \<^verbatim>\<open>Install\<close> changes nothing there and ends with an error unless it is a dry run.\<close>

theorem install_keeps_unowned:
  assumes "calm w" and "t \<in> {pt_executable (host_paths h), pt_service (host_paths h)}" and "w_fs w t = Some n"
    and "\<not> (\<exists>mf. manifest_at h (w_fs w) mf \<and> owned_file h (w_fs w) t (wanted h mf t))"
  shows "w_fs (snd (install h c path dry w)) t = Some n \<and> (dry \<or> snd (fst (install h c path dry w)) \<noteq> None)"
  by (rule install_stuck) (use assms in \<open>simp_all add: stuck_def\<close>)

text \<open>The worlds where the installation is not owned, with the contents of a path.\<close>

definition unowned :: "host \<Rightarrow> path \<Rightarrow> node option \<Rightarrow> node option \<Rightarrow> node option \<Rightarrow> world \<Rightarrow> bool" where
  "unowned h q v a b w =
     (calm w \<and> w_fs w q = v \<and> w_fs w (pt_executable (host_paths h)) = a \<and> w_fs w (pt_service (host_paths h)) = b
      \<and> \<not> (\<exists>mf. manifest_at h (w_fs w) mf \<and> owned_file h (w_fs w) (pt_executable (host_paths h)) (mf_executable_sha mf)
           \<and> owned_file h (w_fs w) (pt_service (host_paths h)) (mf_definition_sha mf)))"

lemma unowned_kept:
  assumes m: "stays (no_new_manifest h) m" "\<And>p. p \<noteq> manifest_lock h \<Longrightarrow> stays (untouched p) m" and q: "q \<noteq> manifest_lock h"
    and w: "unowned h q v a b w" and run: "m w = (x, w')"
  shows "unowned h q v a b w'"
proof -
  have c: "calm w" using w by (simp add: unowned_def)
  have out: "pt_executable (host_paths h) \<noteq> manifest_lock h" "pt_service (host_paths h) \<noteq> manifest_lock h"
    by (rule target_outside(2); simp)+
  have same: "w_fs w' p = w_fs w p" if "p \<noteq> manifest_lock h" for p using calm_stays [OF m(2) [OF that] c] run by simp
  have "calm w'" "manifest_at h (w_fs w') mf \<Longrightarrow> manifest_at h (w_fs w) mf" for mf
    using nomf.stays_run [OF m(1) run] c by (simp_all add: no_new_manifest_def)
  moreover have "owned_file h (w_fs w') (pt_executable (host_paths h)) s = owned_file h (w_fs w) (pt_executable (host_paths h)) s"
    "owned_file h (w_fs w') (pt_service (host_paths h)) s = owned_file h (w_fs w) (pt_service (host_paths h)) s" for s
    using same [OF out(1)] same [OF out(2)] by (simp_all add: owned_file_def)
  ultimately show ?thesis using w same [OF q] same [OF out(1)] same [OF out(2)] unfolding unowned_def by blast
qed

lemma foreach_fails:
  assumes "x \<in> set xs" and "\<And>v v'. calm v \<Longrightarrow> w_fs v = w_fs w \<Longrightarrow> f x v \<noteq> (Inr (), v')" and "\<And>p y. stays (untouched p) (f y)" and "calm w"
  shows "\<exists>e w'. foreach xs f w = (Inl e, w') \<and> calm w' \<and> w_fs w' = w_fs w"
proof -
  have *: "\<exists>e w'. foreach xs f u = (Inl e, w') \<and> calm w' \<and> w_fs w' = w_fs w" if "calm u" "w_fs u = w_fs w" "x \<in> set xs" for u
    using that
  proof (induction xs arbitrary: u)
    case (Cons y ys)
    obtain r u' where r: "f y u = (r, u')" by (cases "f y u")
    have u': "calm u'" "w_fs u' p = w_fs u p" for p using calm_stays [OF assms(3) [of p y] Cons.prems(1)] r by simp_all
    then have fs: "w_fs u' = w_fs w" using Cons.prems(2) by (simp add: fun_eq_iff)
    show ?case
    proof (cases r)
      case (Inl e)
      with r u'(1) fs show ?thesis by (simp add: bind_io_def)
    next
      case (Inr z)
      with r assms(2) Cons.prems have "x \<noteq> y" by auto
      with Cons.prems have "x \<in> set ys" by simp
      from Cons.IH [OF u'(1) fs this] r Inr show ?thesis by (simp add: bind_io_def)
    qed
  qed simp
  show ?thesis by (rule *) (use assms in auto)
qed

lemma inspect_unowned:
  assumes order: "\<And>xs. set (ho_order h xs) = set xs" and v: "unowned h q x a b v" and m: "manifest_at h (w_fs v) m"
  shows "\<exists>e v'. foreach (ho_order h [(mf_executable m, mf_executable_sha m), (mf_definition_path m, mf_definition_sha m)])
       (\<lambda>(p, want). inspect_owned h p want) v = (Inl e, v') \<and> calm v' \<and> w_fs v' = w_fs v"
proof -
  let ?e = "(pt_executable (host_paths h), mf_executable_sha m)" and ?d = "(pt_service (host_paths h), mf_definition_sha m)"
  have mv: "mf_executable m = pt_executable (host_paths h)" "mf_definition_path m = pt_service (host_paths h)"
    using m by (auto simp: manifest_at_def manifest_valid_def)
  have cv: "calm v" using v by (simp add: unowned_def)
  have ins: "stays (untouched p) (case y of (p, want) \<Rightarrow> inspect_owned h p want)" for p y
    by (cases y) (simp add: stays_inspect_owned)
  have bad: "(case x of (p, want) \<Rightarrow> inspect_owned h p want) u \<noteq> (Inr (), u')"
    if "\<not> owned_file h (w_fs v) (fst x) (snd x)" "calm u" "w_fs u = w_fs v" for x u u'
    using that inspect_owned_ok [of h "fst x" "snd x" u u'] by (cases x) auto
  have mem: "?e \<in> set (ho_order h [?e, ?d])" "?d \<in> set (ho_order h [?e, ?d])" by (simp_all add: order)
  from v m consider "\<not> owned_file h (w_fs v) (fst ?e) (snd ?e)" | "\<not> owned_file h (w_fs v) (fst ?d) (snd ?d)"
    unfolding unowned_def by auto
  then show ?thesis
  proof cases
    case 1
    show ?thesis unfolding mv by (rule foreach_fails [where f = "\<lambda>(p, want). inspect_owned h p want", OF mem(1) bad [OF 1] ins cv])
  next
    case 2
    show ?thesis unfolding mv by (rule foreach_fails [where f = "\<lambda>(p, want). inspect_owned h p want", OF mem(2) bad [OF 2] ins cv])
  qed
qed

lemma uninstall_locked_unowned:
  assumes order: "\<And>xs. set (ho_order h xs) = set xs"
  shows "leads (unowned h q x a b)
    (\<lambda>r w'. calm w' \<and> w_fs w' q = x \<and> (dry \<or> fst r = nothing_owned \<or> snd r \<noteq> None)) (uninstall_locked h dry)"
  unfolding leads_def
proof (intro allI impI)
  fix v assume v: "unowned h q x a b v"
  then have cv: "calm v" and qv: "w_fs v q = x" by (simp_all add: unowned_def)
  obtain r v1 where rm: "read_manifest h v = (r, v1)" by (cases "read_manifest h v")
  have v1: "calm v1" "w_fs v1 p = w_fs v p" for p using calm_stays [OF stays_read_manifest [where p=p and h=h] cv] rm by simp_all
  then have fs1: "w_fs v1 = w_fs v" by (simp add: fun_eq_iff)
  show "calm (snd (uninstall_locked h dry v)) \<and> w_fs (snd (uninstall_locked h dry v)) q = x
    \<and> (dry \<or> fst (fst (uninstall_locked h dry v)) = nothing_owned \<or> snd (fst (uninstall_locked h dry v)) \<noteq> None)"
  proof (cases r)
    case (Inl e)
    with rm v1 qv show ?thesis
      by (simp add: uninstall_locked_def try_step_def attempt_def finish_def stop_with_def)
  next
    case (Inr m)
    from read_manifest_ok [OF rm [unfolded Inr] cv] have m: "manifest_at h (w_fs v1) m" using fs1 by simp
    from v v1 fs1 have "unowned h q x a b v1" by (simp add: unowned_def)
    from inspect_unowned [OF order this m] obtain e v2 where
      "foreach (ho_order h [(mf_executable m, mf_executable_sha m), (mf_definition_path m, mf_definition_sha m)])
         (\<lambda>(p, want). inspect_owned h p want) v1 = (Inl e, v2)" "calm v2" "w_fs v2 = w_fs v1" by blast
    with rm Inr v1 qv show ?thesis
      by (simp add: uninstall_locked_def try_step_def attempt_def finish_def stop_with_def get_euid_def)
  qed
qed

lemma uninstall_unowned:
  assumes w: "calm w" and order: "\<And>xs. set (ho_order h xs) = set xs" and q: "q \<noteq> manifest_lock h"
    and no: "\<not> (\<exists>mf. manifest_at h (w_fs w) mf \<and> owned_file h (w_fs w) (pt_executable (host_paths h)) (mf_executable_sha mf)
         \<and> owned_file h (w_fs w) (pt_service (host_paths h)) (mf_definition_sha mf))"
  shows "w_fs (snd (uninstall h dry w)) q = w_fs w q
    \<and> (dry \<or> fst (fst (uninstall h dry w)) = nothing_owned \<or> snd (fst (uninstall h dry w)) \<noteq> None)"
proof -
  let ?P = "unowned h q (w_fs w q) (w_fs w (pt_executable (host_paths h))) (w_fs w (pt_service (host_paths h)))"
  let ?R = "\<lambda>(x :: string \<times> go_error option) w'. calm w' \<and> w_fs w' q = w_fs w q \<and> (dry \<or> fst x = nothing_owned \<or> snd x \<noteq> None)"
  have fact: "calm v \<and> w_fs v q = w_fs w q" if "?P v" for v using that by (simp add: unowned_def)
  note locked = uninstall_locked_unowned [OF order]
  have unl: "leads ?P ?R (and_then (unlock (manifest_lock h)) (uninstall_locked h dry))"
    by (rule leads_and_then [OF locked]) (use q calm_stays [OF stays_unlock_fn [of q "manifest_lock h"]] in auto)
  have step: "leads ?P ?R (try_step (\<lambda>e. e) r m k)"
    if m: "stays (no_new_manifest h) m" "\<And>p. p \<noteq> manifest_lock h \<Longrightarrow> stays (untouched p) m" and k: "\<And>x. leads ?P ?R (k x)" for r and m :: "'a io" and k
  proof (rule leads_try [where P' = "\<lambda>_. ?P", OF _ _ k])
    show "?P v'" if "?P v" "m v = (Inr x, v')" for x v v' by (rule unowned_kept [OF m q that])
    show "?R (r, Some e) v'" if "?P v" "m v = (Inl e, v')" for e v v'
      using fact [OF unowned_kept [OF m q that]] by simp
  qed
  have stat: "stays (no_new_manifest h) (attempt (sys_stat p))" for p by (intro nomf.stays_rules nomf_intros)
  have nd: "leads ?P ?R
       (try_step (\<lambda>e. e) [] get_euid (\<lambda>u. if u \<noteq> 0 then stop_with [] (Os EPERM)
         else try_step (\<lambda>e. e) [] (attempt (sys_stat (path_dir (manifest_path h)))) (\<lambda>r.
           if r = Inl (Os ENOENT) then finish nothing_owned
           else try_step (\<lambda>e. e) [] (lock (manifest_lock h)) (\<lambda>_. and_then (unlock (manifest_lock h)) (uninstall_locked h dry)))))"
    by (rule step, intro nomf_intros, intro frame_intros, rule leads_if, rule leads_end(1), simp add: fact,
        rule step, rule stat, intro unt.stays_attempt frame_intros, rule leads_if, rule leads_end(2), simp add: fact,
        rule step, intro nomf_intros, intro frame_intros, assumption, rule unl)
  have "leads ?P ?R (uninstall h dry)"
    unfolding uninstall_def by (rule leads_if, rule locked, rule nd)
  moreover have "?P w" using w no by (simp add: unowned_def)
  ultimately show ?thesis by (simp add: leads_def)
qed

text \<open>C23: removing takes away only what is owned.  Undisturbed, whatever fails, unless a valid manifest on
  disk names both the executable and the definition with their present contents, \<^verbatim>\<open>Uninstall\<close> changes
  no file but its lock: it is a dry run, fails or says that nothing is installed.  This
  includes the state after a removal that was interrupted between its steps.\<close>

theorem uninstall_only_owned:
  assumes "calm w" and order: "\<And>xs. set (ho_order h xs) = set xs" and q: "q \<noteq> manifest_lock h"
    and no: "\<not> (\<exists>mf. manifest_at h (w_fs w) mf \<and> owned_file h (w_fs w) (pt_executable (host_paths h)) (mf_executable_sha mf)
         \<and> owned_file h (w_fs w) (pt_service (host_paths h)) (mf_definition_sha mf))"
  shows "w_fs (snd (uninstall h dry w)) q = w_fs w q
    \<and> (dry \<or> fst (fst (uninstall h dry w)) = nothing_owned \<or> snd (fst (uninstall h dry w)) \<noteq> None)"
  by (rule uninstall_unowned [OF assms])

section \<open>Replacing the files as a transaction\<close>

text \<open>The three files and the temporary files of their atomic writes.\<close>

definition temp_of :: "host \<Rightarrow> path \<Rightarrow> nat \<Rightarrow> path" where
  "temp_of h p i = temp_name (path_dir p) ''.utlsproxy-'' (ho_rnd h i)"

definition temps :: "host \<Rightarrow> path set" where
  "temps h = {temp_of h (pt_executable (host_paths h)) 0, temp_of h (pt_service (host_paths h)) 1, temp_of h (manifest_path h) 2,
     temp_of h (pt_executable (host_paths h)) 3, temp_of h (pt_service (host_paths h)) 4, temp_of h (manifest_path h) 5}"

definition watched :: "host \<Rightarrow> path set" where
  "watched h = {pt_executable (host_paths h), pt_service (host_paths h), manifest_path h} \<union> temps h"

text \<open>Commands that leave them alone in a world where no call fails and nobody else writes.\<close>

definition watch_same :: "host \<Rightarrow> world \<Rightarrow> world \<Rightarrow> bool" where
  "watch_same h w w' = (quiet w \<longrightarrow> quiet w' \<and> (\<forall>q \<in> watched h. w_fs w' q = w_fs w q))"

interpretation watch: io_frame "watch_same h" for h
  by unfold_locales (auto simp: watch_same_def)

definition tools_quiet :: "host \<Rightarrow> bool" where
  "tools_quiet h =
     ((\<forall>i p a w. watch_same h w (snd (ho_exec h i p a w))) \<and> (\<forall>s. stays (watch_same h) (ho_ask h s)))"

lemma watch_reading: "(\<And>p. stays (untouched p) m) \<Longrightarrow> stays (watch_same h) m"
proof -
  assume u: "\<And>p. stays (untouched p) m"
  show ?thesis
    unfolding stays_def watch_same_def
    using calm_stays [OF u quiet_calm] stays_quiet [OF u] by blast
qed

lemma watch_run: "tools_quiet h \<Longrightarrow> stays (watch_same h) (service_run h args)"
proof -
  assume t: "tools_quiet h"
  have "stays (watch_same h) (running (ho_exec h) i p a)" for i p a
    using t by (auto simp: stays_def running_def tools_quiet_def split: prod.split) (metis snd_conv)
  moreover have "stays (watch_same h) (service_tool h)" by (intro watch_reading frame_intros)
  ultimately show ?thesis unfolding service_run_def by (intro watch.stays_rules)
qed

lemma watch_native: "tools_quiet h \<Longrightarrow> stays (watch_same h) (native h action)"
proof -
  assume t: "tools_quiet h"
  have e: "stays (watch_same h) get_euid" by (intro watch_reading frame_intros)
  show ?thesis unfolding native_def Let_def by (intro watch.stays_rules watch_run [OF t] e)
qed

lemma watch_must: "stays (watch_same h) m \<Longrightarrow> stays (watch_same h) (must m)"
  unfolding must_def of_check_def by (intro watch.stays_rules)

lemma watch_ignoring: "stays (watch_same h) m \<Longrightarrow> stays (watch_same h) (ignoring m)"
  unfolding ignoring_def by (intro watch.stays_rules)

lemma watch_enable: "tools_quiet h \<Longrightarrow> stays (watch_same h) (enable_service h)"
  unfolding enable_service_def by (intro watch.stays_rules watch_run)

lemma watch_activate: "tools_quiet h \<Longrightarrow> stays (watch_same h) (activate h)"
  unfolding activate_def by (intro watch.stays_rules watch_must watch_run watch_enable)

lemma watch_await: "tools_quiet h \<Longrightarrow> stays (watch_same h) (await h n s p)"
proof (induction n)
  case (Suc n)
  then have "stays (watch_same h) (ho_ask h s)" by (simp add: tools_quiet_def)
  with Suc show ?case unfolding await.simps Let_def by (intro watch.stays_rules) simp_all
qed (simp add: watch.stays_throw)

text \<open>What the three files hold, while no temporary file is there.\<close>

definition data_at :: "world \<Rightarrow> path \<Rightarrow> string option" where
  "data_at w p = map_option n_data (w_fs w p)"

definition holds :: "host \<Rightarrow> string option \<Rightarrow> string option \<Rightarrow> string option \<Rightarrow> world \<Rightarrow> bool" where
  "holds h e s m w =
     (quiet w \<and> (\<forall>q \<in> temps h. w_fs w q = None) \<and> data_at w (pt_executable (host_paths h)) = e
      \<and> data_at w (pt_service (host_paths h)) = s \<and> data_at w (manifest_path h) = m)"

lemma holds_same: "stays (watch_same h) c \<Longrightarrow> holds h e s m w \<Longrightarrow> c w = (x, w') \<Longrightarrow> holds h e s m w'"
  using watch.stays_run [of h c w x w'] by (auto simp: holds_def watch_same_def watched_def data_at_def)

lemma quiet_sync_dir: "quiet w \<Longrightarrow> sync_dir d w = (Inr (), w)"
proof -
  assume q: "quiet w"
  obtain r v where st: "sys_stat d w = (r, v)" by (cases "sys_stat d w")
  then have "v = w" by (auto simp: sys_stat_def quiet_sys [OF q] split: option.splits)
  with st show ?thesis
    by (cases r) (simp_all add: sync_dir_def bind_io_def attempt_def deferring_def ret_def sys_sync_def sys_close_def quiet_sys [OF q])
qed

lemma quiet_atomic:
  assumes q: "quiet w" and free: "w_fs w (temp_name (path_dir p) ''.utlsproxy-'' rnd) = None" and ne: "temp_name (path_dir p) ''.utlsproxy-'' rnd \<noteq> p"
  shows "\<exists>n w'. atomic p b m rnd w = (Inr (), w') \<and> quiet w' \<and> w_fs w' = (w_fs w)(p \<mapsto> n) \<and> n_data n = b"
proof -
  let ?t = "temp_name (path_dir p) ''.utlsproxy-'' rnd"
  let ?new = "new_node w Regular 384" and ?n = "(new_node w Regular 384)\<lparr>n_perm := m, n_data := b\<rparr>"
  let ?w1 = "(put_node ?t ?new w)\<lparr>w_ino := Suc (w_ino w)\<rparr>"
  let ?w2 = "put_node ?t (?new\<lparr>n_perm := m\<rparr>) ?w1" and ?w3 = "put_node ?t ?n (put_node ?t (?new\<lparr>n_perm := m\<rparr>) ?w1)"
  let ?w4 = "?w3\<lparr>w_fs := (w_fs ?w3)(?t := None, p := Some ?n)\<rparr>"
  have qs: "quiet ?w1" "quiet ?w2" "quiet ?w3" "quiet ?w4" using q by (simp_all add: quiet_def)
  have c: "sys_create_excl ?t 384 w = (Inr (), ?w1)" using free by (simp add: sys_create_excl_def quiet_sys [OF q])
  have ch: "sys_chmod ?t m ?w1 = (Inr (), ?w2)" by (simp add: sys_chmod_def quiet_sys [OF qs(1)] modify_node_def)
  have nd: "n_data ?new = []" by (simp add: new_node_def)
  have wr: "write_all ?t b ?w2 = (Inr (), ?w3)"
    by (simp add: write_all_def bind_io_def sys_write_def quiet_tick [OF qs(2)] append_data_def ret_def nd)
  have sy: "sys_sync ?t ?w3 = (Inr (), ?w3)" "sys_close ?t ?w3 = (Inr (), ?w3)" "sys_close ?t ?w4 = (Inr (), ?w4)"
    using qs by (simp_all add: sys_sync_def sys_close_def quiet_sys ret_def)
  have re: "sys_rename ?t p ?w3 = (Inr (), ?w4)" by (simp add: sys_rename_def quiet_sys [OF qs(3)])
  have sd: "sync_dir d ?w4 = (Inr (), ?w4)" for d by (rule quiet_sync_dir [OF qs(4)])
  have rm: "snd (sys_remove ?t ?w4) = ?w4" using ne unfolding sys_remove_def quiet_sys [OF qs(4)] by simp
  have "atomic p b m rnd w = (Inr (), ?w4)"
    by (simp only: atomic_def Let_def bind_io_def deferring_def c ch wr sy re sd rm prod.case sum.case snd_conv)
  moreover have "w_fs ?w4 = (w_fs w)(p \<mapsto> ?n)" using free ne by (auto simp: fun_eq_iff)
  ultimately show ?thesis using qs(4) by (intro exI [of _ ?n] exI [of _ ?w4]) simp
qed

text \<open>The paths are different.\<close>

lemma watched_distinct:
  "pt_executable (host_paths h) \<noteq> pt_service (host_paths h)" "pt_executable (host_paths h) \<noteq> manifest_path h"
  "pt_service (host_paths h) \<noteq> manifest_path h" "pt_executable (host_paths h) \<notin> temps h" "pt_service (host_paths h) \<notin> temps h"
  "manifest_path h \<notin> temps h"
proof -
  have d: "path_dir ''/usr/local/bin/utlsproxy'' = ''/usr/local/bin''" "path_dir ''/etc/systemd/system/utlsproxy.service'' = ''/etc/systemd/system''"
    "path_dir ''/etc/utlsproxy/installation.json'' = ''/etc/utlsproxy''" "path_dir ''/Library/LaunchDaemons/local.utlsproxy.plist'' = ''/Library/LaunchDaemons''"
    "path_dir ''/Library/Application Support/utlsproxy/installation.json'' = ''/Library/Application Support/utlsproxy''"
    by (simp_all add: path_evals)
  note p = host_path_facts(1) [of h] and q = host_path_facts(2) [of h]
  show "pt_executable (host_paths h) \<noteq> pt_service (host_paths h)" "pt_executable (host_paths h) \<noteq> manifest_path h"
    "pt_service (host_paths h) \<noteq> manifest_path h"
    using p q by auto
  show "pt_executable (host_paths h) \<notin> temps h" "pt_service (host_paths h) \<notin> temps h" "manifest_path h \<notin> temps h"
    using q by (elim disjE conjE; simp add: temps_def temp_of_def p d temp_name_def)+
qed

lemma holds_put:
  assumes "holds h e s m w" and "w_fs w' = (w_fs w)(p := v)" and "quiet w'" and "p \<notin> temps h"
  shows "holds h (if p = pt_executable (host_paths h) then map_option n_data v else e)
    (if p = pt_service (host_paths h) then map_option n_data v else s) (if p = manifest_path h then map_option n_data v else m) w'"
  using assms unfolding holds_def data_at_def by auto

lemma holds_atomic:
  assumes "holds h e s m w" and "temp_of h p i \<in> temps h" and "p \<notin> temps h"
  shows "\<exists>w'. atomic p b md (ho_rnd h i) w = (Inr (), w') \<and> holds h (if p = pt_executable (host_paths h) then Some b else e)
    (if p = pt_service (host_paths h) then Some b else s) (if p = manifest_path h then Some b else m) w'"
proof -
  have "quiet w" "w_fs w (temp_of h p i) = None" "temp_of h p i \<noteq> p" using assms by (auto simp: holds_def)
  then obtain n w' where a: "atomic p b md (ho_rnd h i) w = (Inr (), w')" "quiet w'" "w_fs w' = (w_fs w)(p \<mapsto> n)" "n_data n = b"
    using quiet_atomic [of w p "ho_rnd h i" b md] unfolding temp_of_def by blast
  from holds_put [OF assms(1) a(3,2) assms(3)] a(1,4) show ?thesis by auto
qed

lemmas write_path = holds_atomic [OF _ _ watched_distinct(4)] holds_atomic [OF _ _ watched_distinct(5)] holds_atomic [OF _ _ watched_distinct(6)]

lemma writes:
  assumes "holds h e s m w"
  shows "i = 0 \<or> i = 3 \<Longrightarrow> \<exists>w'. atomic (pt_executable (host_paths h)) b md (ho_rnd h i) w = (Inr (), w') \<and> holds h (Some b) s m w'"
    and "i = 1 \<or> i = 4 \<Longrightarrow> \<exists>w'. atomic (pt_service (host_paths h)) b md (ho_rnd h i) w = (Inr (), w') \<and> holds h e (Some b) m w'"
    and "i = 2 \<or> i = 5 \<Longrightarrow> \<exists>w'. atomic (manifest_path h) b md (ho_rnd h i) w = (Inr (), w') \<and> holds h e s (Some b) w'"
  using write_path(1) [OF assms, of i b md] write_path(2) [OF assms, of i b md] write_path(3) [OF assms, of i b md]
    watched_distinct(1-3) [of h] by (auto simp: temps_def)

lemma holds_remove:
  assumes w: "holds h e s m w" and p: "p \<notin> temps h" and there: "data_at w p \<noteq> None"
  shows "\<exists>w'. sys_remove p w = (Inr (), w') \<and> holds h (if p = pt_executable (host_paths h) then None else e)
    (if p = pt_service (host_paths h) then None else s) (if p = manifest_path h then None else m) w'"
proof -
  let ?w' = "w\<lparr>w_fs := (w_fs w)(p := None)\<rparr>"
  have q: "quiet w" using w by (simp add: holds_def)
  from there obtain n where "w_fs w p = Some n" by (auto simp: data_at_def)
  then have "sys_remove p w = (Inr (), ?w')" by (simp add: sys_remove_def quiet_sys [OF q])
  moreover have "quiet ?w'" using q by (simp add: quiet_def)
  ultimately show ?thesis using holds_put [OF w _ _ p, of ?w' None] by auto
qed

lemma removes:
  assumes w: "holds h e s m w"
  shows "e \<noteq> None \<Longrightarrow> \<exists>w'. sys_remove (pt_executable (host_paths h)) w = (Inr (), w') \<and> holds h None s m w'"
    and "s \<noteq> None \<Longrightarrow> \<exists>w'. sys_remove (pt_service (host_paths h)) w = (Inr (), w') \<and> holds h e None m w'"
    and "m \<noteq> None \<Longrightarrow> \<exists>w'. sys_remove (manifest_path h) w = (Inr (), w') \<and> holds h e s None w'"
  using holds_remove [OF w watched_distinct(4)] holds_remove [OF w watched_distinct(5)] holds_remove [OF w watched_distinct(6)]
    watched_distinct(1-3) [of h] w by (auto simp: holds_def)

lemma all_errors_step: "m w = (Inr (), w1) \<Longrightarrow> all_errors (m # ms) w = all_errors ms w1"
  by (simp split: prod.split)

lemma all_errors_same:
  assumes "\<And>c. c \<in> set cs \<Longrightarrow> stays (watch_same h) c" and "holds h e s m w"
  shows "holds h e s m (snd (all_errors cs w))"
  using assms
proof (induction cs arbitrary: w)
  case (Cons c cs)
  obtain x w1 where c: "c w = (x, w1)" by (cases "c w")
  have "stays (watch_same h) c" using Cons.prems(1) by simp
  from holds_same [OF this Cons.prems(2) c] have "holds h e s m w1" .
  with Cons have "holds h e s m (snd (all_errors cs w1))" by simp
  then show ?case by (cases "all_errors cs w1") (simp add: c)
qed simp

text \<open>What the rollback of an update or of a first installation leaves.\<close>

definition undone :: "kept option \<Rightarrow> bool \<Rightarrow> string option \<Rightarrow> string option \<times> string option \<times> string option" where
  "undone old wrote_bin e =
     (case old of None \<Rightarrow> (if wrote_bin then None else e, None, None) | Some (b, d, m) \<Rightarrow> (if wrote_bin then Some b else e, Some d, Some m))"

lemma rollback_undoes:
  assumes t: "tools_quiet h" and w: "holds h e (Some d1) (Some m1) w" and e: "wb \<Longrightarrow> e \<noteq> None"
  shows "\<exists>err w'. roll_back_install h plan old (wb, True) cause w
      = (((plan, ''installation failed; restored previous owned files where possible''), Some err), w')
    \<and> (case undone old wb e of (e', s', m') \<Rightarrow> holds h e' s' m' w')"
proof -
  obtain x w1 where st: "ignoring (native h ''stop'') w = (x, w1)" by (cases "ignoring (native h ''stop'') w")
  have w1: "holds h e (Some d1) (Some m1) w1" by (rule holds_same [OF watch_ignoring [OF watch_native [OF t]] w st])
  define rest where "rest = (if ho_os h = Some Linux then [must (service_run h [''daemon-reload''])] else [])
      @ (case old of
          Some _ \<Rightarrow> [must (native h ''start'')]
        | None \<Rightarrow> if ho_os h = Some Linux then [ignoring (service_run h [''disable'', unit_name])] else [])"
  have rest: "stays (watch_same h) c" if "c \<in> set rest" for c
    using that t by (auto simp: rest_def intro: watch_must watch_ignoring watch_run watch_native split: option.splits if_splits)
  have "case undone old wb e of (e', s', m') \<Rightarrow> holds h e' s' m' (snd (all_errors (restoring h old (wb, True)) w1))"
  proof (cases old)
    case None
    obtain w2 where w2: "holds h (if wb then None else e) (Some d1) (Some m1) w2"
      "all_errors (restoring h old (wb, True)) w1 = all_errors ([sys_remove (pt_service (host_paths h)), remove_if_there (manifest_path h)] @ rest) w2"
    proof (cases wb)
      case True
      with removes(1) [OF w1 e [OF True]] obtain w2 where "sys_remove (pt_executable (host_paths h)) w1 = (Inr (), w2)" "holds h None (Some d1) (Some m1) w2"
        by blast
      with that [of w2] True show thesis by (simp add: restoring_def None Let_def rest_def)
    next
      case False
      with that [of w1] w1 show thesis by (simp add: restoring_def None Let_def rest_def)
    qed
    from removes(2) [OF w2(1)] obtain w3 where w3: "sys_remove (pt_service (host_paths h)) w2 = (Inr (), w3)" "holds h (if wb then None else e) None (Some m1) w3"
      by auto
    from removes(3) [OF w3(2)] obtain w4 where w4: "sys_remove (manifest_path h) w3 = (Inr (), w4)" "holds h (if wb then None else e) None None w4"
      by auto
    have "remove_if_there (manifest_path h) w3 = (Inr (), w4)" by (simp add: remove_if_there_def bind_io_def attempt_def w4(1) ret_def)
    with w2(2) w3(1) have "all_errors (restoring h old (wb, True)) w1 = all_errors rest w4" by simp
    with all_errors_same [OF rest w4(2)] show ?thesis by (simp add: undone_def None)
  next
    case (Some k)
    obtain b d m where k: "k = (b, d, m)" by (cases k)
    obtain w2 where w2: "holds h (if wb then Some b else e) (Some d1) (Some m1) w2"
      "all_errors (restoring h old (wb, True)) w1 = all_errors ([atomic (pt_service (host_paths h)) d 420 (ho_rnd h 4), atomic (manifest_path h) m 384 (ho_rnd h 5)] @ rest) w2"
    proof (cases wb)
      case True
      from writes(1) [OF w1, of 3 b 493] obtain w2 where "atomic (pt_executable (host_paths h)) b 493 (ho_rnd h 3) w1 = (Inr (), w2)"
        "holds h (Some b) (Some d1) (Some m1) w2" by auto
      with that [of w2] True show thesis by (simp add: restoring_def Some k Let_def rest_def)
    next
      case False
      with that [of w1] w1 show thesis by (simp add: restoring_def Some k Let_def rest_def)
    qed
    from writes(2) [OF w2(1), of 4 d 420] obtain w3 where w3: "atomic (pt_service (host_paths h)) d 420 (ho_rnd h 4) w2 = (Inr (), w3)"
      "holds h (if wb then Some b else e) (Some d) (Some m1) w3" by auto
    from writes(3) [OF w3(2), of 5 m 384] obtain w4 where w4: "atomic (manifest_path h) m 384 (ho_rnd h 5) w3 = (Inr (), w4)"
      "holds h (if wb then Some b else e) (Some d) (Some m) w4" by auto
    from w2(2) w3(1) w4(1) have "all_errors (restoring h old (wb, True)) w1 = all_errors rest w4" by simp
    with all_errors_same [OF rest w4(2)] show ?thesis by (simp add: undone_def Some k)
  qed
  then show ?thesis
    by (auto simp: roll_back_install_def st stop_with_def split: prod.splits)
qed

definition writes_binary :: "host \<Rightarrow> manifest option \<Rightarrow> string \<Rightarrow> bool" where
  "writes_binary h old binary = (case old of None \<Rightarrow> True | Some m \<Rightarrow> mf_executable_sha m \<noteq> ho_sha h binary)"

definition manifest_text :: "host \<Rightarrow> config \<Rightarrow> path \<Rightarrow> service_plan \<Rightarrow> string \<Rightarrow> string" where
  "manifest_text h c path plan binary = marshal_indent (manifest_json (new_manifest h c path binary (sp_definition plan)))"

lemma failure_message:
  "''installation failed; restored previous owned files where possible'' \<noteq> ''installed and started; daemon is degraded''"
  "''installation failed; restored previous owned files where possible'' \<noteq> ''installed, enabled at boot, and running''"
  by simp_all

lemma replace_outcome:
  assumes t: "tools_quiet h" and w: "holds h e s m w"
    and run: "replace_files h c path plan old kept binary w = (((p, msg), err), w')"
  shows "let wb = writes_binary h old binary; e1 = (if wb then Some binary else e) in
     msg = ''installation failed; restored previous owned files where possible'' \<and> err \<noteq> None
       \<and> (case undone kept wb e1 of (e', s', m') \<Rightarrow> holds h e' s' m' w')
     \<or> msg \<noteq> ''installation failed; restored previous owned files where possible''
       \<and> holds h e1 (Some (sp_definition plan)) (Some (manifest_text h c path plan binary)) w'"
proof -
  define wb where "wb = writes_binary h old binary"
  define e1 where "e1 = (if wb then Some binary else e)"
  define mtext where "mtext = manifest_text h c path plan binary"
  obtain w1 where w1: "(if wb then atomic (pt_executable (host_paths h)) binary 493 (ho_rnd h 0) else ret ()) w = (Inr (), w1)" "holds h e1 s m w1"
  proof (cases wb)
    case True
    with writes(1) [OF w, of 0 binary 493] that show thesis by (auto simp: e1_def)
  next
    case False
    with w that [of w] show thesis by (simp add: e1_def ret_def)
  qed
  from writes(2) [OF w1(2), of 1 "sp_definition plan" 420] obtain w2 where
    w2: "atomic (pt_service (host_paths h)) (sp_definition plan) 420 (ho_rnd h 1) w1 = (Inr (), w2)" "holds h e1 (Some (sp_definition plan)) m w2" by auto
  from writes(3) [OF w2(2), of 2 mtext 384] obtain w3 where
    w3: "atomic (manifest_path h) mtext 384 (ho_rnd h 2) w2 = (Inr (), w3)" "holds h e1 (Some (sp_definition plan)) (Some mtext) w3" by auto
  let ?written = "holds h e1 (Some (sp_definition plan)) (Some mtext)"
  have undoing: "\<exists>err u'. roll_back_install h plan kept (wb, True) cause u
      = (((plan, ''installation failed; restored previous owned files where possible''), Some err), u')
    \<and> (case undone kept wb e1 of (e', s', m') \<Rightarrow> holds h e' s' m' u')" if "?written u" for u cause
    by (rule rollback_undoes [OF t that]) (simp add: e1_def)
  obtain x4 w4 where a4: "activate h w3 = (x4, w4)" by (cases "activate h w3")
  have h4: "?written w4" by (rule holds_same [OF watch_activate [OF t] w3(2) a4])
  obtain x5 w5 where a5: "must (native h ''start'') w4 = (x5, w5)" by (cases "must (native h ''start'') w4")
  have h5: "?written w5" by (rule holds_same [OF watch_must [OF watch_native [OF t]] h4 a5])
  obtain x6 w6 where a6: "await_daemon h (rt_control_socket (c_runtime c)) path w5 = (x6, w6)"
    by (cases "await_daemon h (rt_control_socket (c_runtime c)) path w5")
  have h6: "?written w6" by (rule holds_same [OF watch_await [OF t] h5 a6 [unfolded await_daemon_def]])
  have rf: "replace_files h c path plan old kept binary w =
      (case x4 of Inl e \<Rightarrow> roll_back_install h plan kept (wb, True) e w4
       | Inr _ \<Rightarrow> (case x5 of Inl e \<Rightarrow> roll_back_install h plan kept (wb, True) e w5
       | Inr _ \<Rightarrow> (case x6 of Inl e \<Rightarrow> if error_is e err_degraded then stop_with (plan, ''installed and started; daemon is degraded'') e w6
            else roll_back_install h plan kept (wb, True) e w6
       | Inr _ \<Rightarrow> finish (plan, ''installed, enabled at boot, and running'') w6)))"
    unfolding replace_files_def Let_def writes_binary_def [symmetric] wb_def [symmetric] manifest_text_def [symmetric] mtext_def [symmetric]
      step_or_roll_back_def
    by (simp only: w1(1) w2(1) w3(1) a4 a5 a6 prod.case sum.case) (auto split: sum.split)
  have rolled: "msg = ''installation failed; restored previous owned files where possible'' \<and> err \<noteq> None
      \<and> (case undone kept wb e1 of (e', s', m') \<Rightarrow> holds h e' s' m' w')"
    if u: "?written u" and r: "roll_back_install h plan kept (wb, True) cause u = (((p, msg), err), w')" for u cause
    using undoing [OF u, of cause] unfolding r by (elim exE conjE) simp
  have "msg = ''installation failed; restored previous owned files where possible'' \<and> err \<noteq> None
       \<and> (case undone kept wb e1 of (e', s', m') \<Rightarrow> holds h e' s' m' w')
     \<or> msg \<noteq> ''installation failed; restored previous owned files where possible'' \<and> ?written w'"
  proof (cases x4)
    case (Inl c1)
    with run [unfolded rf] rolled [OF h4] show ?thesis by simp
  next
    case a: (Inr _)
    show ?thesis
    proof (cases x5)
      case (Inl c1)
      with a run [unfolded rf] rolled [OF h5] show ?thesis by simp
    next
      case b: (Inr _)
      show ?thesis
      proof (cases x6)
        case (Inl c1)
        show ?thesis
        proof (cases "error_is c1 err_degraded")
          case True
          with a b Inl run [unfolded rf] h6 show ?thesis by (simp add: stop_with_def) (metis failure_message(1))
        next
          case False
          with a b Inl run [unfolded rf] rolled [OF h6] show ?thesis by simp
        qed
      next
        case (Inr _)
        with a b run [unfolded rf] h6 show ?thesis by (simp add: finish_def) (metis failure_message(2))
      qed
    qed
  qed
  then show ?thesis unfolding Let_def wb_def [symmetric] e1_def [symmetric] mtext_def [symmetric] .
qed


text \<open>A machine to apply the properties to: no tool is there, and no daemon answers.\<close>

definition sample_host :: host where
  "sample_host = \<lparr>ho_os = Some Linux, ho_exec = (\<lambda>i p a w. (\<lparr>oc_out = [], oc_err = Some (New ''exit status 1''), oc_exit = True, oc_ctx = None\<rparr>, w)),
     ho_sha = (\<lambda>s. s), ho_ask = (\<lambda>p. throw (Os ECONNREFUSED)), ho_self = Inr ''/tmp/utlsproxy'', ho_stamp = ''0'', ho_rnd = (\<lambda>i. itoa (int i)),
     ho_order = (\<lambda>xs. xs), ho_polls = 1, ho_cancelled = (\<lambda>_. None)\<rparr>"

definition plain_file :: "string \<Rightarrow> node" where
  "plain_file b = \<lparr>n_type = Regular, n_data = b, n_perm = 420, n_uid = 0, n_gid = 0, n_ino = 9, n_xattrs = None\<rparr>"

lemma sample_host_paths:
  "pt_executable (host_paths sample_host) = ''/usr/local/bin/utlsproxy''" "pt_service (host_paths sample_host) = ''/etc/systemd/system/utlsproxy.service''"
  "manifest_path sample_host = ''/etc/utlsproxy/installation.json''"
  by (simp_all add: host_paths_def sample_host_def platform_paths_def manifest_path_def path_evals)

lemma sample_host_quiet: "tools_quiet sample_host"
  by (simp add: tools_quiet_def sample_host_def watch_same_def watch.stays_throw)

lemma no_sample_manifest:
  assumes "w_fs w ''/etc/utlsproxy/installation.json'' = None"
  shows "\<not> manifest_at sample_host (w_fs w) mf"
  using resolve_plain [of "w_fs w" "''/etc/utlsproxy/installation.json''"] assms
  by (simp add: manifest_at_def sample_host_paths)

theorem install_keeps_unowned_witness:
  "w_fs (snd (install sample_host (defaults Linux) ''/c'' False (bare_world\<lparr>w_fs := [''/usr/local/bin/utlsproxy'' \<mapsto> plain_file ''x'']\<rparr>)))
     ''/usr/local/bin/utlsproxy'' = Some (plain_file ''x'')"
proof -
  let ?w = "bare_world\<lparr>w_fs := [''/usr/local/bin/utlsproxy'' \<mapsto> plain_file ''x'']\<rparr>"
  have c: "calm ?w" by (simp add: calm_def)
  have no: "\<not> (\<exists>mf. manifest_at sample_host (w_fs ?w) mf \<and> owned_file sample_host (w_fs ?w) ''/usr/local/bin/utlsproxy'' (wanted sample_host mf ''/usr/local/bin/utlsproxy''))"
    using no_sample_manifest [of ?w] by simp
  from install_keeps_unowned [OF c _ _ no, of "plain_file ''x''" "defaults Linux" "''/c''" False] show ?thesis
    by (simp add: sample_host_paths)
qed

theorem uninstall_only_owned_witness:
  "w_fs (snd (uninstall sample_host False (bare_world\<lparr>w_fs := [''/usr/local/bin/utlsproxy'' \<mapsto> plain_file ''x'']\<rparr>))) ''/usr/local/bin/utlsproxy''
     = Some (plain_file ''x'')"
proof -
  let ?w = "bare_world\<lparr>w_fs := [''/usr/local/bin/utlsproxy'' \<mapsto> plain_file ''x'']\<rparr>"
  have c: "calm ?w" by (simp add: calm_def)
  have o: "set (ho_order sample_host xs) = set xs" for xs by (simp add: sample_host_def)
  have l: "''/usr/local/bin/utlsproxy'' \<noteq> manifest_lock sample_host" by (simp add: manifest_lock_def sample_host_paths)
  have no: "\<not> (\<exists>mf. manifest_at sample_host (w_fs ?w) mf \<and> P mf)" for P
    using no_sample_manifest [of ?w] by simp
  from uninstall_only_owned [OF c o l no, of False] show ?thesis by simp
qed




text \<open>A definition file that is not there is kept as an empty one.\<close>

lemma read_or_empty_missing: "quiet w \<Longrightarrow> w_fs w p = None \<Longrightarrow> read_or_empty p w = (Inr [], w)"
  using resolve_plain [of "w_fs w" p] by (simp add: read_or_empty_def bind_io_def attempt_def sys_read_def quiet_sys ret_def)

lemma quiet_read_or_empty: "quiet w \<Longrightarrow> \<exists>b. read_or_empty p w = (Inr b, w)"
  by (auto simp: read_or_empty_def bind_io_def attempt_def sys_read_def quiet_sys ret_def split: option.splits if_splits)

lemma back_up_missing:
  assumes q: "quiet w" and no: "w_fs w (pt_service (host_paths h)) = None" and run: "back_up h c w = (Inr (b, d, m), w')"
  shows "d = []"
proof -
  obtain b' where b: "read_or_empty (pt_executable (host_paths h)) w = (Inr b', w)" using quiet_read_or_empty [OF q] by blast
  obtain m' where m: "read_or_empty (manifest_path h) w = (Inr m', w)" using quiet_read_or_empty [OF q] by blast
  from run show ?thesis
    unfolding back_up_def Let_def by (auto simp: bind_io_ok b m read_or_empty_missing [OF q no] ret_def)
qed

text \<open>C40: an update that fails while the definition of the service is missing leaves the installation
  unusable.  The missing file is kept as an empty text, the rollback writes this text, and from then on,
  as the manifest does not name it, every installation fails and removing leaves the program there.\<close>

theorem lost_definition_blocks:
  assumes "tools_quiet h" and "\<And>xs. set (ho_order h xs) = set xs" and "quiet w" and "w_fs w (pt_service (host_paths h)) = None"
    and "back_up h c w = (Inr kept, w1)" and "holds h e None m w1"
    and "replace_files h c path plan old (Some kept) binary w1
      = (((p, ''installation failed; restored previous owned files where possible''), err), w2)"
  shows "data_at w2 (pt_service (host_paths h)) = Some []
    \<and> ((\<forall>mf. manifest_at h (w_fs w2) mf \<longrightarrow> mf_definition_sha mf \<noteq> ho_sha h [])
        \<longrightarrow> snd (fst (install h c' path' False w2)) \<noteq> None
          \<and> w_fs (snd (uninstall h False w2)) (pt_executable (host_paths h)) = w_fs w2 (pt_executable (host_paths h)))"
proof -
  let ?s = "pt_service (host_paths h)"
  obtain b d t where k: "kept = (b, d, t)" by (cases kept)
  with back_up_missing [OF assms(3,4)] assms(5) have d: "d = []" by simp
  from replace_outcome [OF assms(1,6,7)] k d have q: "quiet w2" and e: "data_at w2 ?s = Some []"
    by (auto simp: Let_def undone_def holds_def)
  then have c: "calm w2" and "\<exists>n. w_fs w2 ?s = Some n \<and> n_data n = []" by (auto simp: quiet_calm data_at_def)
  then obtain n where n: "w_fs w2 ?s = Some n" "n_data n = []" by blast
  have "snd (fst (install h c' path' False w2)) \<noteq> None \<and> w_fs (snd (uninstall h False w2)) (pt_executable (host_paths h)) = w_fs w2 (pt_executable (host_paths h))"
    if no: "\<forall>mf. manifest_at h (w_fs w2) mf \<longrightarrow> mf_definition_sha mf \<noteq> ho_sha h []"
  proof
    have "stuck h ?s n w2" using c n no by (auto simp: stuck_def owned_file_def wanted_def)
    from install_stuck [OF this, of c' path' False] show "snd (fst (install h c' path' False w2)) \<noteq> None" by simp
    have "\<not> (\<exists>mf. manifest_at h (w_fs w2) mf \<and> owned_file h (w_fs w2) (pt_executable (host_paths h)) (mf_executable_sha mf)
        \<and> owned_file h (w_fs w2) ?s (mf_definition_sha mf))"
      using n no by (auto simp: owned_file_def)
    from uninstall_unowned [OF c assms(2) target_outside(2) this] show
      "w_fs (snd (uninstall h False w2)) (pt_executable (host_paths h)) = w_fs w2 (pt_executable (host_paths h))" by simp
  qed
  with e show ?thesis by blast
qed

definition sample_update :: world where
  "sample_update = bare_world\<lparr>w_fs := [''/usr/local/bin/utlsproxy'' \<mapsto> plain_file ''old'', ''/etc/utlsproxy/installation.json'' \<mapsto> plain_file ''m'']\<rparr>"

definition sample_kept :: world where
  "sample_kept = snd (back_up sample_host (defaults Linux) sample_update)"

lemma sample_back_up: "back_up sample_host (defaults Linux) sample_update = (Inr (''old'', [], ''m''), sample_kept)"
proof -
  have "case fst (back_up sample_host (defaults Linux) sample_update) of Inr k \<Rightarrow> k = (''old'', [], ''m'') | Inl _ \<Rightarrow> False" by code_simp
  then have "fst (back_up sample_host (defaults Linux) sample_update) = Inr (''old'', [], ''m'')" by (auto split: sum.splits)
  then show ?thesis unfolding sample_kept_def by (metis prod.collapse)
qed

lemma sample_kept_holds: "holds sample_host (Some ''old'') None (Some ''m'') sample_kept"
proof -
  let ?h = "sample_host"
  have "w_sched sample_kept = []" by code_simp
  moreover have "list_all (\<lambda>t. Option.is_none (w_fs sample_kept t))
     [temp_of ?h (pt_executable (host_paths ?h)) 0, temp_of ?h (pt_service (host_paths ?h)) 1, temp_of ?h (manifest_path ?h) 2,
      temp_of ?h (pt_executable (host_paths ?h)) 3, temp_of ?h (pt_service (host_paths ?h)) 4, temp_of ?h (manifest_path ?h) 5]" by code_simp
  moreover have "data_at sample_kept (pt_executable (host_paths ?h)) = Some ''old''" by code_simp
  moreover have "data_at sample_kept (pt_service (host_paths ?h)) = None" by code_simp
  moreover have "data_at sample_kept (manifest_path ?h) = Some ''m''" by code_simp
  ultimately show ?thesis by (simp add: holds_def quiet_def temps_def Option.is_none_def)
qed

text \<open>Runs that roll back wherever they start.\<close>

definition rolls_back :: "service_plan \<Rightarrow> installing \<Rightarrow> bool" where
  "rolls_back plan k =
     (\<forall>w. \<exists>e w'. k w = (((plan, ''installation failed; restored previous owned files where possible''), Some e), w'))"

lemma rolls_back_run: "rolls_back plan (roll_back_install h plan kept wrote cause)"
  by (auto simp: rolls_back_def roll_back_install_def stop_with_def split: prod.split)

lemma rolls_back_step: "rolls_back plan k \<Longrightarrow> rolls_back plan (step_or_roll_back (roll_back_install h plan kept wrote) m k)"
  using rolls_back_run by (auto simp: rolls_back_def step_or_roll_back_def split: prod.split sum.split)

lemma rolls_back_here:
  assumes "\<And>w. \<exists>e w'. m w = (Inl e, w')"
  shows "rolls_back plan (step_or_roll_back (roll_back_install h plan kept wrote) m k)"
  unfolding rolls_back_def
proof
  fix w
  obtain e w' where "m w = (Inl e, w')" using assms by blast
  with rolls_back_run [of plan h kept wrote e] show "\<exists>e w'. step_or_roll_back (roll_back_install h plan kept wrote) m k w
      = (((plan, ''installation failed; restored previous owned files where possible''), Some e), w')"
    by (simp add: step_or_roll_back_def rolls_back_def)
qed

lemma replace_fails: "(\<And>w. \<exists>e w'. activate h w = (Inl e, w')) \<Longrightarrow> rolls_back plan (replace_files h c path plan old kept binary)"
  unfolding replace_files_def Let_def by (intro rolls_back_step rolls_back_here)

lemma ho_os_sample: "ho_os sample_host = Some Linux"
  by (simp add: sample_host_def)

lemma sample_activation: "\<exists>e w'. activate sample_host w = (Inl e, w')"
proof -
  have "\<exists>t e w'. service_run sample_host args w = (Inr (t, Some e), w')" for args
    by (auto simp: service_run_def bind_io_def attempt_def running_def ret_def sample_host_def split: sum.split prod.split)
  then obtain t e w' where "service_run sample_host [''daemon-reload''] w = (Inr (t, Some e), w')" by blast
  then show ?thesis by (simp add: activate_def must_def bind_io_def of_check_def throw_def sample_host_paths ho_os_sample)
qed

theorem lost_definition_blocks_witness:
  "data_at (snd (replace_files sample_host (defaults Linux) ''/c'' zero_plan None (Some (''old'', [], ''m'')) ''new'' sample_kept))
     ''/etc/systemd/system/utlsproxy.service'' = Some []"
proof -
  have q: "quiet sample_update" by (simp add: quiet_def sample_update_def)
  have no: "w_fs sample_update (pt_service (host_paths sample_host)) = None" by (simp add: sample_update_def sample_host_paths)
  have o: "set (ho_order sample_host xs) = set xs" for xs by (simp add: sample_host_def)
  obtain e w' where "replace_files sample_host (defaults Linux) ''/c'' zero_plan None (Some (''old'', [], ''m'')) ''new'' sample_kept
      = (((zero_plan, ''installation failed; restored previous owned files where possible''), Some e), w')"
    using replace_fails [of sample_host, OF sample_activation] unfolding rolls_back_def by metis
  from lost_definition_blocks [OF sample_host_quiet o q no sample_back_up sample_kept_holds this] this show ?thesis
    by (simp add: sample_host_paths)
qed

end
