(* ===== verification/ServiceText.thy ===== *)
theory ServiceText
  imports Service
begin

text \<open>
  The texts that define the service, read the way systemd and launchd read them: a command line of a
  unit file is split into words, which may be quoted, then doubled \<^verbatim>\<open>%\<close> and \<^verbatim>\<open>$\<close> are halved; the text
  of an XML element has its entities replaced.
\<close>

section \<open>A command line of a unit file\<close>

text \<open>The words of a command line; the first argument says whether a word is open and quoted.\<close>

definition backslash :: char where "backslash = CHR 0x5C"

fun words :: "bool option \<Rightarrow> string \<Rightarrow> string \<Rightarrow> string list option" where
  "words None acc [] = Some []"
| "words (Some False) acc [] = Some [acc]"
| "words (Some True) acc [] = None"
| "words None acc (c # cs) =
     (if c = CHR '' '' then words None [] cs else if c = quotation then words (Some True) [] cs else words (Some False) [c] cs)"
| "words (Some False) acc (c # cs) =
     (if c = CHR '' '' then map_option (Cons acc) (words None [] cs) else words (Some False) (acc @ [c]) cs)"
| "words (Some True) acc (c # cs) =
     (if c = quotation then map_option (Cons acc) (words None [] cs)
      else if c = backslash
      then (case cs of [] \<Rightarrow> None | d # ds \<Rightarrow> if d = backslash \<or> d = quotation then words (Some True) (acc @ [d]) ds else None)
      else words (Some True) (acc @ [c]) cs)"

fun halved :: "char \<Rightarrow> string \<Rightarrow> string option" where
  "halved x [] = Some []"
| "halved x [c] = (if c = x then None else Some [c])"
| "halved x (c # d # cs) = (if c = x then (if d = x then map_option (Cons x) (halved x cs) else None) else map_option (Cons c) (halved x (d # cs)))"

definition systemd_words :: "string \<Rightarrow> string list option" where
  "systemd_words l =
     Option.bind (words None [] l) (\<lambda>ws. those (map (\<lambda>w. Option.bind (halved (CHR ''%'') w) (halved (CHR ''$''))) ws))"

lemma halved_Cons: "c \<noteq> x \<Longrightarrow> halved x (c # cs) = map_option (Cons c) (halved x cs)"
  by (cases cs) auto

lemma replace_all_Cons: "replace_all (c # s) x r = (if c = x then r else [c]) @ replace_all s x r"
  by (simp add: replace_all_def)

lemma replace_all_Nil [simp]: "replace_all [] x r = []"
  by (simp add: replace_all_def)

lemma replace_all_append: "replace_all (s @ t) x r = replace_all s x r @ replace_all t x r"
  by (simp add: replace_all_def)

text \<open>What is doubled is halved again.\<close>

definition doubled :: "string \<Rightarrow> string" where
  "doubled s = replace_all (replace_all s (CHR ''%'') ''%%'') (CHR ''$'') ''$$''"

lemma doubled_Cons: "doubled (c # s) = (if c = CHR ''%'' then ''%%'' else if c = CHR ''$'' then ''$$'' else [c]) @ doubled s"
  by (simp add: doubled_def replace_all_Cons replace_all_append)

lemma halved_doubled: "Option.bind (halved (CHR ''%'') (doubled s)) (halved (CHR ''$'')) = Some s"
proof -
  have "halved (CHR ''%'') (doubled s) = Some (replace_all s (CHR ''$'') ''$$'')"
  proof (induction s)
    case Nil
    then show ?case by (simp add: doubled_def)
  next
    case (Cons c s)
    then show ?case by (auto simp: doubled_Cons replace_all_Cons halved_Cons)
  qed
  moreover have "halved (CHR ''$'') (replace_all s (CHR ''$'') ''$$'') = Some s"
    by (induction s) (auto simp: replace_all_Cons halved_Cons)
  ultimately show ?thesis by simp
qed

text \<open>What is quoted is one word.\<close>

lemma words_quoted:
  "words (Some True) acc (replace_all (replace_all s backslash [backslash, backslash]) quotation [backslash, quotation] @ quotation # rest)
   = map_option (Cons (acc @ s)) (words None [] rest)"
proof (induction s arbitrary: acc)
  case (Cons c s)
  have d: "backslash \<noteq> quotation" by (simp add: backslash_def quotation_def)
  with Cons [of "acc @ [c]"] show ?case
    by (cases "c = backslash"; cases "c = quotation") (simp_all add: replace_all_Cons replace_all_append)
qed simp

lemma words_arg: "words None acc (systemd_arg s @ rest) = map_option (Cons (doubled s)) (words None [] rest)"
  using words_quoted [of "[]" "doubled s" rest]
  by (simp add: systemd_arg_def Let_def doubled_def backslash_def) (simp add: quotation_def)

lemma serve_command: "systemd_words (systemd_arg e @ '' serve --config '' @ systemd_arg p) = Some [e, ''serve'', ''--config'', p]"
proof -
  have "words None [] ('' serve --config '' @ systemd_arg p) = Some [''serve'', ''--config'', doubled p]"
    using words_arg [of "[]" p "[]"] by (simp add: quotation_def)
  then have "words None [] (systemd_arg e @ '' serve --config '' @ systemd_arg p) = Some [doubled e, ''serve'', ''--config'', doubled p]"
    by (simp add: words_arg)
  then show ?thesis
    using halved_doubled [of e] halved_doubled [of p] by (simp add: systemd_words_def halved_Cons)
qed

text \<open>The lines of a text of lines.\<close>

lemma split_text_lines: "\<forall>l \<in> set ls. newline \<notin> set l \<Longrightarrow> split_on newline (text_lines ls) = ls @ [[]]"
proof (induction ls)
  case Nil
  then show ?case by (simp add: text_lines_def split_on_def)
next
  case (Cons l ls)
  then show ?case by (simp add: text_lines_def split_on_append)
qed

text \<open>The commands that start a service: the lines that begin with \<^verbatim>\<open>ExecStart=\<close>.\<close>

definition start_commands :: "string \<Rightarrow> string list" where
  "start_commands t = [drop 10 l. l \<leftarrow> split_on newline t, prefix ''ExecStart='' l]"

lemma no_newline:
  "newline \<notin> set (systemd_arg s) \<longleftrightarrow> newline \<notin> set s" "newline \<notin> set (stop_seconds c)"
proof -
  have r: "newline \<in> set (replace_all s x r) \<longleftrightarrow> (newline \<in> set s \<and> newline \<noteq> x) \<or> (x \<in> set s \<and> newline \<in> set r)" for s x r
    by (auto simp: replace_all_def split: if_splits)
  show "newline \<notin> set (systemd_arg s) \<longleftrightarrow> newline \<notin> set s"
    by (simp add: systemd_arg_def Let_def r quotation_def)
  show "newline \<notin> set (stop_seconds c)"
    using dec_set [of newline] by (auto simp: stop_seconds_def itoa_def is_digit_def code_def)
qed

lemma not_bad: "\<not> bad_path s \<Longrightarrow> newline \<notin> set s"
  by (auto simp: bad_path_def contains_any_def list_ex_iff)



section \<open>The text of an XML element\<close>

definition entities :: "(string \<times> char) list" where
  "entities = [(''&#34;'', quotation), (''&#39;'', CHR 0x27), (''&amp;'', CHR ''&''), (''&lt;'', CHR ''<''), (''&gt;'', CHR ''>''),
     (''&#x9;'', CHR 0x09), (''&#xA;'', CHR 0x0A), (''&#xD;'', CHR 0x0D)]"

function xml_text :: "string \<Rightarrow> string option" where
  "xml_text [] = Some []"
| "xml_text (c # cs) =
     (if c = CHR ''<'' then None
      else if c = CHR ''&''
      then (case find (\<lambda>(e, x). prefix e (c # cs)) entities of
          None \<Rightarrow> None
        | Some (e, x) \<Rightarrow> map_option (Cons x) (xml_text (drop (length e - 1) cs)))
      else map_option (Cons c) (xml_text cs))"
  by pat_completeness auto
termination
  by (relation "measure length") auto

definition plain_char :: "char \<Rightarrow> bool" where
  "plain_char c = (code c < 128 \<and> (32 \<le> code c \<or> code c \<in> {9, 10, 13}))"

lemma char_of_its_code: "code c = code d \<Longrightarrow> c = d"
  by simp

lemma special_chars: "code c = 39 \<longleftrightarrow> c = CHR 0x27" "code c = 9 \<longleftrightarrow> c = CHR 0x09" "code c = 10 \<longleftrightarrow> c = CHR 0x0A" "code c = 13 \<longleftrightarrow> c = CHR 0x0D"
proof -
  have "code (CHR 0x27) = 39" "code (CHR 0x09) = 9" "code (CHR 0x0A) = 10" "code (CHR 0x0D) = 13" by (simp_all add: code_def)
  then show "code c = 39 \<longleftrightarrow> c = CHR 0x27" "code c = 9 \<longleftrightarrow> c = CHR 0x09" "code c = 10 \<longleftrightarrow> c = CHR 0x0A" "code c = 13 \<longleftrightarrow> c = CHR 0x0D"
    by (metis char_of_its_code)+
qed

lemma xml_char_text: "plain_char c \<Longrightarrow> xml_text (xml_char c @ t) = map_option (Cons c) (xml_text t)"
  unfolding xml_char_def special_chars
  by (auto simp: plain_char_def special_chars entities_def quotation_def)

definition markup :: "char set" where
  "markup = {CHR ''<'', CHR ''>'', quotation, CHR 0x27}"

lemma markup_ascii: "x \<in> markup \<Longrightarrow> code x < 128"
  by (auto simp: markup_def quotation_def code_def)

lemma replacement_safe: "set (utf8_encode 0xFFFD) \<inter> markup = {}"
proof -
  have u: "utf8_encode 0xFFFD = [char_of (239 :: nat), char_of (191 :: nat), char_of (189 :: nat)]" by (simp add: utf8_encode_def)
  have "\<forall>x \<in> set (utf8_encode 0xFFFD). 128 \<le> code x" unfolding u by simp
  then show ?thesis unfolding disjoint_iff by (meson leD markup_ascii)
qed

lemma if_safe: "(b \<Longrightarrow> set x \<inter> markup = {}) \<Longrightarrow> (\<not> b \<Longrightarrow> set y \<inter> markup = {}) \<Longrightarrow> set (if b then x else y) \<inter> markup = {}"
  by simp

lemma xml_char_safe: "set (xml_char c) \<inter> markup = {}"
  unfolding xml_char_def special_chars
  by (intro if_safe replacement_safe; simp add: quotation_def markup_def)

text \<open>The first \<open>n\<close> bytes are there and none is ASCII.\<close>

definition high :: "string \<Rightarrow> nat \<Rightarrow> bool" where
  "high s n = (\<forall>i < n. i < length s \<and> 128 \<le> code (s ! i))"

lemma high_Suc: "byte_in a b s n \<Longrightarrow> 128 \<le> a \<Longrightarrow> high s n \<Longrightarrow> high s (Suc n)"
  by (auto simp: high_def byte_in_def less_Suc_eq)

lemma high_0: "high s 0"
  by (simp add: high_def)

lemma high_two: "byte_in a b s 0 \<Longrightarrow> byte_in a' b' s 1 \<Longrightarrow> 128 \<le> a \<Longrightarrow> 128 \<le> a' \<Longrightarrow> high s 2"
  using high_Suc [OF _ _ high_0, of a b s] high_Suc [of a' b' s 1] by (simp add: numeral_2_eq_2)

lemma high_more: "byte_in a b s 2 \<Longrightarrow> 128 \<le> a \<Longrightarrow> high s 2 \<Longrightarrow> high s 3" "byte_in a b s 3 \<Longrightarrow> 128 \<le> a \<Longrightarrow> high s 3 \<Longrightarrow> high s 4"
  using high_Suc [of a b s 2] high_Suc [of a b s 3] by simp_all

lemma high_if: "(b \<Longrightarrow> high s x) \<Longrightarrow> (\<not> b \<Longrightarrow> high s y) \<Longrightarrow> high s (if b then x else y)"
  by simp

lemma utf8_run_high: "high s (utf8_run s)"
  unfolding utf8_run_def
proof (intro high_if high_0, goal_cases)
  case 1
  then show ?case by (elim conjE) (erule (1) high_two; simp)
next
  case 2
  then have "high s 2" by (elim conjE disjE) (erule (1) high_two; simp)+
  with 2 show ?case by (elim conjE) (erule high_more(1); simp)
next
  case 3
  then have "high s 2" by (elim conjE disjE) (erule (1) high_two; simp)+
  with 3 have "high s 3" by (elim conjE) (erule high_more(1); simp)
  with 3 show ?case by (elim conjE) (erule high_more(2); simp)
qed

lemma utf8_rest_high: "x \<in> set (take (utf8_run (c # cs) - 1) cs) \<Longrightarrow> 128 \<le> code x"
proof -
  assume "x \<in> set (take (utf8_run (c # cs) - 1) cs)"
  then obtain i where "i < utf8_run (c # cs) - 1" "i < length cs" "x = cs ! i" by (auto simp: in_set_conv_nth)
  with utf8_run_high [of "c # cs", unfolded high_def, rule_format, of "Suc i"] show ?thesis by simp
qed

lemma escaped_safe: "set (escaped s) \<inter> markup = {}"
proof (induction s rule: escaped.induct)
  case (2 c cs)
  have high: "128 \<le> code x \<Longrightarrow> x \<notin> markup" for x using markup_ascii [of x] by auto
  have "set (c # take (utf8_run (c # cs) - 1) cs) \<inter> markup = {}" if "\<not> code c < 128"
    using that high utf8_rest_high [of _ c cs] by auto
  note own = this
  show ?case
  proof (cases "code c < 128")
    case True
    with 2(1) xml_char_safe [of c] show ?thesis by (simp add: Int_Un_distrib2)
  next
    case False
    show ?thesis
    proof (cases "utf8_run (c # cs) = 0")
      case True
      with False 2(2) [OF False refl True] replacement_safe show ?thesis by (simp add: Let_def Int_Un_distrib2)
    next
      case n: False
      have s: "set (if not_a_char (c # take (utf8_run (c # cs) - 1) cs) then utf8_encode 0xFFFD else c # take (utf8_run (c # cs) - 1) cs) \<inter> markup = {}"
        by (intro if_safe replacement_safe own False)
      from False n 2(3) [OF False refl n refl] show ?thesis
        unfolding escaped.simps Let_def set_append by (simp only: if_False Int_Un_distrib2 s set_append) simp
    qed
  qed
qed simp

lemma escaped_plain: "list_all plain_char s \<Longrightarrow> xml_text (escaped s) = Some s"
  by (induction s) (simp_all add: xml_char_text plain_char_def)

text \<open>\<^verbatim>\<open>escaped\<close> keeps a text inside its element.  Nothing it returns can open or close an element or
  an attribute, and a text of ASCII characters that XML allows is read back as it was.\<close>

theorem escaped_round_trip:
  "set (escaped s) \<inter> markup = {} \<and> (list_all plain_char s \<longrightarrow> xml_text (escaped s) = Some s)"
  using escaped_safe escaped_plain by blast

theorem escaped_round_trip_witness: "xml_text (escaped ''/a <b>&c'') = Some ''/a <b>&c''"
  using escaped_round_trip [of "''/a <b>&c''"] by (simp add: plain_char_def code_def)

end
