(* ===== verification/ConfigPrint.thy ===== *)
theory ConfigPrint
  imports Load JsonPrint
begin

text \<open>
  Printing a configuration: \<^verbatim>\<open>Duration.MarshalJSON\<close>, that is \<^verbatim>\<open>time.Duration.String\<close>, and the
  members of the structure in their order.  The lemma: what is printed of a configuration of ASCII
  texts, natural numbers and whole seconds is read back as it was.
\<close>

section \<open>Printing\<close>

text \<open>\<^verbatim>\<open>fmtFrac\<close>: the last digits as a fraction without trailing zeros, and what is before them.\<close>

fun frac_text :: "nat \<Rightarrow> nat \<Rightarrow> string \<Rightarrow> string \<times> nat" where
  "frac_text 0 v acc = ((if acc = [] then [] else CHR ''.'' # acc), v)"
| "frac_text (Suc p) v acc = frac_text p (v div 10) (if acc \<noteq> [] \<or> v mod 10 \<noteq> 0 then digit_char (v mod 10) # acc else [])"

definition clock_text :: "nat \<Rightarrow> string \<Rightarrow> string" where
  "clock_text s f =
     (if s div 60 = 0 then dec (s mod 60) @ f @ ''s''
      else if s div 60 div 60 = 0 then dec (s div 60 mod 60) @ ''m'' @ dec (s mod 60) @ f @ ''s''
      else dec (s div 60 div 60) @ ''h'' @ dec (s div 60 mod 60) @ ''m'' @ dec (s mod 60) @ f @ ''s'')"

definition duration_text :: "int \<Rightarrow> string" where
  "duration_text d =
     (let u = nat \<bar>d\<bar>;
          t = (if u = 0 then ''0s''
               else if u < 1000 then dec u @ ''ns''
               else if u < 1000000 then (case frac_text 3 u [] of (f, v) \<Rightarrow> dec v @ f @ [CHR 0xC2, CHR 0xB5, CHR ''s''])
               else if u < 1000000000 then (case frac_text 6 u [] of (f, v) \<Rightarrow> dec v @ f @ ''ms'')
               else (case frac_text 9 u [] of (f, v) \<Rightarrow> clock_text v f))
      in if d < 0 then CHR ''-'' # t else t)"

definition dns_json :: "dns_cfg \<Rightarrow> json" where
  "dns_json d =
     Obj [(''mode'', Str (dns_mode d)), (''servers'', Arr (map Str (dns_servers d))), (''refresh_interval'', Str (duration_text (dns_refresh d))),
       (''timeout'', Str (duration_text (dns_timeout d))), (''cache_size'', Num (itoa (dns_cache_size d)))]"

definition runtime_json :: "runtime_cfg \<Rightarrow> json" where
  "runtime_json r =
     Obj [(''state_dir'', Str (rt_state_dir r)), (''control_socket'', Str (rt_control_socket r)), (''max_connections'', Num (itoa (rt_max_connections r))),
       (''handshake_timeout'', Str (duration_text (rt_handshake r))), (''idle_timeout'', Str (duration_text (rt_idle r))),
       (''shutdown_timeout'', Str (duration_text (rt_shutdown r)))]"

definition config_json :: "config \<Rightarrow> json" where
  "config_json c =
     Obj [(''version'', Num (itoa (c_version c))), (''listen'', Arr (map Str (c_listen c))), (''domains'', Arr (map Str (c_domains c))),
       (''upstream'', Obj [(''port'', Num (itoa (up_port (c_upstream c)))), (''profile'', Str (up_profile (c_upstream c))),
          (''alpn_mode'', Str (up_alpn_mode (c_upstream c)))]),
       (''dns'', dns_json (c_dns c)),
       (''ca'', Obj [(''cert'', Str (c_ca_cert c)), (''key'', Str (c_ca_key c))]),
       (''hosts'', Obj [(''address'', Str (c_hosts_address c))]),
       (''access'', Obj [(''client_cidrs'', Arr (map Str (c_client_cidrs c)))]),
       (''runtime'', runtime_json (c_runtime c)),
       (''log'', Obj [(''level'', Str (c_log_level c)), (''format'', Str (c_log_format c))])]"

section \<open>Durations are read back\<close>

text \<open>A number, a unit, and what is empty or begins with a digit.\<close>

definition digit_next :: "string \<Rightarrow> bool" where
  "digit_next r = (r = [] \<or> is_digit (hd r))"

lemma digit_next_dec [simp]: "digit_next []" "digit_next (dec n @ r)"
proof -
  have "is_digit (hd (dec n))" using dec_set [of "hd (dec n)" n] by simp
  then show "digit_next []" "digit_next (dec n @ r)" by (simp_all add: digit_next_def hd_append)
qed

lemma unit_letters: "unit_char (CHR ''s'')" "unit_char (CHR ''m'')" "unit_char (CHR ''h'')" "\<not> is_digit (CHR ''s'')" "\<not> is_digit (CHR ''m'')" "\<not> is_digit (CHR ''h'')"
  by (simp_all add: unit_char_def is_digit_def code_def)

lemma part_of_clock:
  assumes c: "(c, unit) \<in> {(CHR ''s'', 1000000000), (CHR ''m'', 60000000000), (CHR ''h'', 3600000000000)}" and r: "digit_next r" and n: "n * unit \<le> 2 ^ 63"
  shows "duration_part orig (dec n @ c # r) = Inr (n * unit, r)"
proof -
  have d: "\<not> is_digit c" "unit_char c" "c \<noteq> CHR ''.''" "map_of units [c] = Some unit" "0 < unit" using c unit_letters by (auto simp: units_def)
  have "\<forall>x \<in> set (dec n). is_digit x" using dec_set by blast
  then have i: "takeWhile is_digit (dec n @ c # r) = dec n" using d(1) by (simp add: takeWhile_append)
  have u: "takeWhile unit_char r = []" using r by (cases r) (auto simp: digit_next_def unit_char_def)
  have m: "n \<le> 2 ^ 63 div unit" using n d(5) by (simp add: less_eq_div_iff_mult_less_eq)
  moreover have "n \<le> 2 ^ 63" using n d(5) by (metis le_trans mult_le_mono2 nat_mult_1_right less_one linorder_not_less)
  ultimately show ?thesis
    using d i u n by (simp add: duration_part_def Let_def)
qed

lemma sum_of_clock:
  assumes "(c, unit) \<in> {(CHR ''s'', 1000000000), (CHR ''m'', 60000000000), (CHR ''h'', 3600000000000)}" "digit_next r" "t + n * unit \<le> 2 ^ 63"
  shows "duration_sum orig (dec n @ c # r) t = duration_sum orig r (t + n * unit)"
  using part_of_clock [OF assms(1,2), of n orig] assms(3) by (subst duration_sum.simps) (simp add: Let_def)

lemma frac_none: "frac_text p (v * 10 ^ p) [] = ([], v)"
  by (induction p arbitrary: v) (auto simp: mult.assoc [symmetric] mult.commute)

lemma clock_parts: "(s :: nat) = s div 60 div 60 * 3600 + s div 60 mod 60 * 60 + s mod 60"
proof -
  have "s = s div 60 * 60 + s mod 60" "s div 60 = s div 60 div 60 * 60 + s div 60 mod 60" by simp_all
  then show ?thesis by linarith
qed

lemma clock_sum:
  assumes s: "s * 1000000000 < 2 ^ 63"
  shows "duration_sum orig (clock_text s []) 0 = Inr (s * 1000000000)"
proof -
  define h m r where "h = s div 60 div 60" and "m = s div 60 mod 60" and "r = s mod 60"
  have parts: "s = h * 3600 + m * 60 + r" using clock_parts [of s] by (simp only: h_def m_def r_def)
  then have le: "h * 3600000000000 + m * 60000000000 + r * 1000000000 < 2 ^ 63" "s * 1000000000 = h * 3600000000000 + m * 60000000000 + r * 1000000000"
    using s by simp_all
  note units = insertI1 insertI1 [THEN insertI2] insertI1 [THEN insertI2, THEN insertI2]
  have dn: "digit_next (dec n @ u)" "digit_next []" for n u by simp_all
  have sec: "duration_sum orig (dec r @ ''s'') t = Inr (t + r * 1000000000)" if "t + r * 1000000000 \<le> 2 ^ 63" for t
    using sum_of_clock [OF units(1) dn(2) that, of orig] by (simp add: duration_sum.simps)
  have min: "duration_sum orig (dec m @ ''m'' @ dec r @ ''s'') t = Inr (t + m * 60000000000 + r * 1000000000)"
    if "t + m * 60000000000 + r * 1000000000 \<le> 2 ^ 63" for t
    using sum_of_clock [OF units(2) dn(1), of t m orig r "''s''"] sec [of "t + m * 60000000000"] that by simp
  have hour: "duration_sum orig (dec h @ ''h'' @ dec m @ ''m'' @ dec r @ ''s'') 0 = Inr (h * 3600000000000 + m * 60000000000 + r * 1000000000)"
    using sum_of_clock [OF units(3) dn(1), of 0 h orig m "''m'' @ dec r @ ''s''"] min [of "h * 3600000000000"] le(1) by simp
  consider "s div 60 = 0" | "s div 60 \<noteq> 0" "h = 0" | "s div 60 \<noteq> 0" "h \<noteq> 0" by blast
  then show ?thesis
  proof cases
    case 1
    then have "h = 0" "m = 0" by (simp_all add: h_def m_def)
    with 1 sec [of 0] le show ?thesis by (simp add: clock_text_def r_def [symmetric])
  next
    case 2
    with min [of 0] le show ?thesis by (simp add: clock_text_def r_def [symmetric] m_def [symmetric] h_def [symmetric])
  next
    case 3
    with hour le show ?thesis by (simp add: clock_text_def r_def [symmetric] m_def [symmetric] h_def [symmetric])
  qed
qed

lemma dec_zero: "dec 0 = ''0''"
  by (simp add: dec.simps digit_char_def char_evals)

lemma duration_seconds: "0 \<le> k \<Longrightarrow> duration_text (k * second) = clock_text (nat k) []"
proof -
  assume "0 \<le> k"
  then have k: "k * second = int (nat k * 1000000000)" by (simp add: second_def)
  have f: "frac_text 9 (m * 1000000000) [] = ([], m)" for m using frac_none [of 9 m] by simp
  have "duration_text (int (m * 1000000000)) = clock_text m []" for m
  proof (cases m)
    case 0
    then show ?thesis by (simp add: duration_text_def clock_text_def dec_zero Let_def)
  next
    case (Suc i)
    have "nat \<bar>int (m * 1000000000)\<bar> = m * 1000000000" by (simp only: abs_of_nat nat_int)
    then show ?thesis using Suc f [of m] by (simp only: duration_text_def Let_def prod.case) simp
  qed
  then show ?thesis unfolding k .
qed

lemma whole_seconds:
  assumes "0 \<le> k" and "k * second < 2 ^ 63"
  shows "parse_duration (duration_text (k * second)) = Inr (k * second)"
proof -
  define s where "s = nat k"
  have k: "k * second = int (s * 1000000000)" using assms(1) by (simp add: s_def second_def)
  have "int (s * 1000000000) < int (2 ^ 63)" using assms(2) unfolding k by simp
  then have s: "s * 1000000000 < 2 ^ 63" by (simp only: of_nat_less_iff)
  obtain c r where c: "clock_text s [] = c # r" "is_digit c" "r \<noteq> []"
  proof -
    have "\<exists>c r. dec n @ u = c # r \<and> is_digit c \<and> r \<noteq> []" if "u \<noteq> []" for n u
    proof -
      obtain c ds where "dec n = c # ds" by (cases "dec n") auto
      with dec_set [of c n] that show ?thesis by auto
    qed
    moreover have "\<exists>n u. clock_text s [] = dec n @ u \<and> u \<noteq> []"
      unfolding clock_text_def by (simp only: split: if_split) (blast intro: append_is_Nil_conv [THEN iffD1] list.distinct)
    ultimately show thesis using that by metis
  qed
  have "c \<noteq> CHR ''-''" "c \<noteq> CHR ''+''" using c(2) by (auto simp: is_digit_def code_def)
  with c clock_sum [OF s, of "clock_text s []"] s show ?thesis
    unfolding duration_seconds [OF assms(1)] s_def [symmetric] by (simp add: parse_duration_def Let_def k)
qed

section \<open>A configuration is read back\<close>

text \<open>What a file can hold: ASCII texts, numbers that are not negative, and whole seconds.\<close>

definition whole :: "int \<Rightarrow> bool" where
  "whole d = (0 \<le> d \<and> d < 2 ^ 63 \<and> d mod second = 0)"

definition count :: "int \<Rightarrow> bool" where
  "count n = (0 \<le> n \<and> n < 2 ^ 63)"

definition storable :: "config \<Rightarrow> bool" where
  "storable c =
     (count (c_version c) \<and> list_all ascii (c_listen c) \<and> list_all ascii (c_domains c)
      \<and> count (up_port (c_upstream c)) \<and> ascii (up_profile (c_upstream c)) \<and> ascii (up_alpn_mode (c_upstream c))
      \<and> ascii (dns_mode (c_dns c)) \<and> list_all ascii (dns_servers (c_dns c)) \<and> whole (dns_refresh (c_dns c)) \<and> whole (dns_timeout (c_dns c))
      \<and> count (dns_cache_size (c_dns c)) \<and> ascii (c_ca_cert c) \<and> ascii (c_ca_key c) \<and> ascii (c_hosts_address c) \<and> list_all ascii (c_client_cidrs c)
      \<and> ascii (rt_state_dir (c_runtime c)) \<and> ascii (rt_control_socket (c_runtime c)) \<and> count (rt_max_connections (c_runtime c))
      \<and> whole (rt_handshake (c_runtime c)) \<and> whole (rt_idle (c_runtime c)) \<and> whole (rt_shutdown (c_runtime c))
      \<and> ascii (c_log_level c) \<and> ascii (c_log_format c))"

lemma whole_div: "whole d \<Longrightarrow> d = d div second * second"
  by (metis add.right_neutral div_mult_mod_eq whole_def)

lemma whole_duration: "whole d \<Longrightarrow> parse_duration (duration_text d) = Inr d"
proof -
  assume w: "whole d"
  note d = whole_div [OF w]
  have "0 \<le> d div second" using w by (simp add: whole_def second_def pos_imp_zdiv_nonneg_iff)
  from whole_seconds [OF this] w d show ?thesis by (simp add: whole_def)
qed

lemma ascii_text_append [simp]: "ascii (s @ t) \<longleftrightarrow> ascii s \<and> ascii t"
  by (simp add: ascii_def)

lemma ascii_dec [simp]: "ascii (dec n)"
  using dec_set by (force simp: ascii_def list_all_iff is_digit_def)

lemma whole_ascii: "whole d \<Longrightarrow> ascii (duration_text d)"
proof -
  assume w: "whole d"
  note d = whole_div [OF w]
  have u: "code (CHR ''s'') < 128" "code (CHR ''m'') < 128" "code (CHR ''h'') < 128" by (simp_all add: code_def)
  have a: "ascii (c # t) \<longleftrightarrow> code c < 128 \<and> ascii t" "ascii []" for c t by (simp_all add: ascii_def)
  have "0 \<le> d div second" using w by (simp add: whole_def second_def pos_imp_zdiv_nonneg_iff)
  from duration_seconds [OF this] d have "duration_text d = clock_text (nat (d div second)) []" by simp
  then show ?thesis by (simp add: clock_text_def u a)
qed

lemma dec_head_digit: "is_digit (hd (dec n))"
  using dec_set [of "hd (dec n)" n] by simp

lemma parts_of_dec: "literal_parts (dec n) = (n, 0)"
proof -
  have d: "\<forall>c \<in> set (dec n). is_digit c" using dec_set by blast
  then have "\<forall>c \<in> set (dec n). c \<noteq> CHR ''e'' \<and> c \<noteq> CHR ''E'' \<and> c \<noteq> CHR ''.''" by (auto simp: is_digit_def code_def)
  then have t: "takeWhile (\<lambda>c. c \<noteq> CHR ''e'' \<and> c \<noteq> CHR ''E'') (dec n) = dec n" "takeWhile (\<lambda>c. c \<noteq> CHR ''.'') (dec n) = dec n"
    "dropWhile (\<lambda>c. c \<noteq> CHR ''.'') (dec n) = []"
    by (auto simp: takeWhile_eq_all_conv dropWhile_eq_Nil_conv)
  have "hd (dec n) \<noteq> CHR ''-''" using dec_head_digit [of n] by (auto simp: is_digit_def code_def)
  then show ?thesis by (simp add: literal_parts_def Let_def cut_def dec_val_def [of "[]"] t del: takeWhile_eq_all_conv dropWhile_eq_Nil_conv)
qed

lemma count_num: "count n \<Longrightarrow> itoa n = dec (nat n)" "count n \<Longrightarrow> atoi (itoa n) = Some n" "count n \<Longrightarrow> float_range (itoa n)"
proof -
  assume c: "count n"
  then show i: "itoa n = dec (nat n)" by (simp add: itoa_def count_def)
  have h: "hd (dec (nat n)) \<noteq> CHR ''-''" "hd (dec (nat n)) \<noteq> CHR ''+''" using dec_head_digit [of "nat n"] by (auto simp: is_digit_def code_def)
  show "atoi (itoa n) = Some n" unfolding i using c h dec_digits [of "nat n"] by (simp add: atoi_def count_def nat_less_iff)
  have "n < 2 ^ 1024 - 2 ^ 970" using c by (simp add: count_def)
  then show "float_range (itoa n)" unfolding i using c by (simp add: float_range_def parts_of_dec count_def)
qed

lemma print_ascii: "storable c \<Longrightarrow> printable (config_json c)"
proof -
  assume s: "storable c"
  have n: "\<exists>m. itoa k = dec m" if "count k" for k using count_num(1) [OF that] by blast
  have t: "list_all printable (map Str xs) = list_all ascii xs" for xs by (induction xs) simp_all
  have k: "ascii x" if "x \<in> set [''version'', ''listen'', ''domains'', ''upstream'', ''port'', ''profile'', ''alpn_mode'', ''dns'', ''mode'', ''servers'',
     ''refresh_interval'', ''timeout'', ''cache_size'', ''ca'', ''cert'', ''key'', ''hosts'', ''address'', ''access'', ''client_cidrs'', ''runtime'',
     ''state_dir'', ''control_socket'', ''max_connections'', ''handshake_timeout'', ''idle_timeout'', ''shutdown_timeout'', ''log'', ''level'', ''format'']" for x
  proof -
    have "list_all ascii [''version'', ''listen'', ''domains'', ''upstream'', ''port'', ''profile'', ''alpn_mode'', ''dns'', ''mode'', ''servers'',
     ''refresh_interval'', ''timeout'', ''cache_size'', ''ca'', ''cert'', ''key'', ''hosts'', ''address'', ''access'', ''client_cidrs'', ''runtime'',
     ''state_dir'', ''control_socket'', ''max_connections'', ''handshake_timeout'', ''idle_timeout'', ''shutdown_timeout'', ''log'', ''level'', ''format'']"
      by (simp add: ascii_def code_def)
    with that show ?thesis by (simp only: list_all_iff)
  qed
  note k' = k [unfolded set_simps]
  show ?thesis
    using s unfolding storable_def config_json_def dns_json_def runtime_json_def
    by (simp add: t n whole_ascii k')
qed

lemma clean_config: "storable c \<Longrightarrow> clean (config_json c)"
proof -
  assume s: "storable c"
  have t: "list_all clean (map Str xs)" for xs by (induction xs) simp_all
  show ?thesis
    using s unfolding storable_def config_json_def dns_json_def runtime_json_def by (simp add: t count_num(3))
qed

lemma exact_config: "exact_fields (config_json c) config_type = None"
  by (simp add: config_json_def dns_json_def runtime_json_def config_type_def)

lemma dec_texts: "dec_elems old (map Str xs) = (xs, True)"
  by (induction xs arbitrary: old) simp_all

lemma decode_printed:
  assumes "storable c"
  shows "decode_config os (config_json c) = Inr c"
  using assms unfolding storable_def
  by (simp add: decode_config_def config_json_def dns_json_def runtime_json_def dec_struct_def field_of_def tables dec_string_def dec_int_def dec_strings_def
      dec_duration_def dec_texts count_num(2) whole_duration dec_result_def)

lemma json_text_line: "printable v \<Longrightarrow> json_text (marshal_indent v @ [newline]) = Some v"
  using print_parse_all(1) [of v "[newline]" 0]
  by (simp add: json_text_def marshal_indent_def value_at_def no_number_def skip_ws_def json_space_def code_def is_digit_def)

definition config_text :: "config \<Rightarrow> string" where
  "config_text c = marshal_indent (config_json c)"

lemma printed_read:
  assumes "storable c"
  shows "read_config os (config_text c @ [newline]) = Inr c"
proof -
  note t = json_text_line [OF print_ascii [OF assms]]
  have "check_json (config_text c @ [newline]) = None"
    using t clean_config [OF assms] by (auto simp: check_json_iff config_text_def)
  moreover have "unmarshal (config_text c @ [newline]) = Inr (config_json c)"
    using t by (simp add: unmarshal_def config_text_def) (simp add: config_json_def dns_json_def runtime_json_def image_constant_conv)
  ultimately show ?thesis
    by (simp add: read_config_def exact_config decode_printed [OF assms])
qed

text \<open>A printed configuration is read back.  Of a configuration of ASCII texts, numbers of 63 bits and
  durations in whole seconds, the text that \<^verbatim>\<open>config init\<close> writes passes \<^verbatim>\<open>CheckJSON\<close> and
  \<^verbatim>\<open>exactFields\<close> and decodes to the configuration.\<close>

theorem config_round_trip:
  assumes "storable c"
  shows "read_config os (config_text c @ [newline]) = Inr c"
  using assms by (rule printed_read)

theorem config_round_trip_witness: "read_config Linux (config_text (defaults Linux) @ [newline]) = Inr (defaults Linux)"
proof (rule config_round_trip)
  have "storable (defaults Linux)" by code_simp
  then show "storable (defaults Linux)" .
qed

end
