(* ===== verification/Flags.thy ===== *)
theory Flags
  imports Config Durations
begin

text \<open>
  The command line of \<^verbatim>\<open>internal/cli/cli.go\<close>: what the program uses of Go's \<^verbatim>\<open>flag\<close> package
  (one dash or two, a value after \<^verbatim>\<open>=\<close> or as the next argument, switches), the options of every
  command, and splitting the arguments into command, subcommand, name and options.
\<close>

section \<open>Options\<close>

record options =
  op_config :: path
  op_json :: bool
  op_effective :: bool
  op_socket :: path
  op_output :: path
  op_dir :: path
  op_cert :: path
  op_name :: string
  op_validity :: int
  op_listen :: string
  op_profile :: string
  op_alpn :: string
  op_dns :: string
  op_log_file :: path
  op_domain :: string
  op_address :: string
  op_dry :: bool
  op_local :: bool
  op_remove_hosts :: bool
  op_keep_hosts :: bool

definition default_options :: "paths \<Rightarrow> options" where
  "default_options p =
     \<lparr>op_config = pt_config p, op_json = False, op_effective = False, op_socket = [], op_output = [], op_dir = [], op_cert = [],
      op_name = ''utlsproxy Local CA'', op_validity = 10 * 365 * 24 * 3600 * second, op_listen = [], op_profile = [], op_alpn = [], op_dns = [],
      op_log_file = [], op_domain = [], op_address = [], op_dry = False, op_local = False, op_remove_hosts = False, op_keep_hosts = False\<rparr>"

section \<open>The flag package\<close>

text \<open>A flag: whether it is a switch, and how its value changes the options.\<close>

type_synonym flag = "bool \<times> (string \<Rightarrow> options \<Rightarrow> options option)"

definition parse_bool :: "string \<Rightarrow> bool option" where
  "parse_bool s =
     (if s \<in> set [''1'', ''t'', ''T'', ''TRUE'', ''true'', ''True''] then Some True
      else if s \<in> set [''0'', ''f'', ''F'', ''FALSE'', ''false'', ''False''] then Some False
      else None)"

definition text_flag :: "((string \<Rightarrow> string) \<Rightarrow> options \<Rightarrow> options) \<Rightarrow> flag" where
  "text_flag upd = (False, \<lambda>v os. Some (upd (\<lambda>_. v) os))"

definition switch :: "((bool \<Rightarrow> bool) \<Rightarrow> options \<Rightarrow> options) \<Rightarrow> flag" where
  "switch upd = (True, \<lambda>v os. map_option (\<lambda>b. upd (\<lambda>_. b) os) (parse_bool v))"

definition duration_flag :: "((int \<Rightarrow> int) \<Rightarrow> options \<Rightarrow> options) \<Rightarrow> flag" where
  "duration_flag upd = (False, \<lambda>v os. case parse_duration v of Inl _ \<Rightarrow> None | Inr d \<Rightarrow> Some (upd (\<lambda>_. d) os))"

definition err_help :: go_error where
  "err_help = New ''flag: help requested''"

text \<open>What an argument is: no flag, the end of the flags, or a flag with its text.\<close>

datatype argument = Plain_argument | End_of_flags | Flag_argument string

definition argument_of :: "string \<Rightarrow> argument" where
  "argument_of s =
     (if length s < 2 \<or> hd s \<noteq> CHR ''-'' then Plain_argument
      else if s = ''--'' then End_of_flags
      else Flag_argument (if s ! 1 = CHR ''-'' then drop 2 s else drop 1 s))"

definition flag_parts :: "string \<Rightarrow> string \<times> string option" where
  "flag_parts n = (case cut n (CHR ''='') of (name, value, found) \<Rightarrow> (name, if found then Some value else None))"

definition bad_value :: "bool \<Rightarrow> string \<Rightarrow> string \<Rightarrow> go_error" where
  "bad_value is_switch name v =
     New (if is_switch then ''invalid boolean value '' @ quote v @ '' for -'' @ name @ '': parse error''
          else ''invalid value '' @ quote v @ '' for flag -'' @ name @ '': parse error'')"

text \<open>\<^verbatim>\<open>FlagSet.Parse\<close>: the options, the names of the flags that were given, and the arguments left.\<close>

fun parse_flags :: "(string \<times> flag) list \<Rightarrow> string list \<Rightarrow> options \<Rightarrow> string list \<Rightarrow> (options \<times> string list \<times> string list) res" where
  "parse_flags fs [] os given = Inr (os, given, [])"
| "parse_flags fs (s # rest) os given =
     (case argument_of s of
       Plain_argument \<Rightarrow> Inr (os, given, s # rest)
     | End_of_flags \<Rightarrow> Inr (os, given, rest)
     | Flag_argument n \<Rightarrow>
         if n = [] \<or> hd n = CHR ''-'' \<or> hd n = CHR ''='' then Inl (New (''bad flag syntax: '' @ s))
         else
           (case flag_parts n of
             (name, value) \<Rightarrow>
               (case map_of fs name of
                 None \<Rightarrow> if name = ''help'' \<or> name = ''h'' then Inl err_help else Inl (New (''flag provided but not defined: -'' @ name))
               | Some (is_switch, put) \<Rightarrow>
                   if value = None \<and> \<not> is_switch
                   then
                     (case rest of
                       [] \<Rightarrow> Inl (New (''flag needs an argument: -'' @ name))
                     | v # rest' \<Rightarrow>
                         (case put v os of
                           None \<Rightarrow> Inl (bad_value is_switch name v)
                         | Some os' \<Rightarrow> parse_flags fs rest' os' (name # given)))
                   else
                     (let v = (case value of Some v \<Rightarrow> v | None \<Rightarrow> ''true'') in
                      case put v os of
                        None \<Rightarrow> Inl (bad_value is_switch name v)
                      | Some os' \<Rightarrow> parse_flags fs rest os' (name # given)))))"

section \<open>The flags of the commands\<close>

definition common_flags :: "(string \<times> flag) list" where
  "common_flags = [(''config'', text_flag op_config_update), (''json'', switch op_json_update)]"

definition ca_usage :: go_error where
  "ca_usage = New ''use ca init, inspect, trust, trust-status or untrust''"

definition ca_flags :: "string \<Rightarrow> ((string \<times> flag) list) res" where
  "ca_flags sub =
     (if sub = ''init''
      then Inr [(''dir'', text_flag op_dir_update), (''name'', text_flag op_name_update), (''validity'', duration_flag op_validity_update)]
      else if sub \<in> set [''inspect'', ''trust'', ''untrust'', ''trust-status'']
      then Inr ((''cert'', text_flag op_cert_update) # (if sub = ''trust'' \<or> sub = ''untrust'' then [(''dry-run'', switch op_dry_update)] else []))
      else Inl ca_usage)"

definition command_flags :: "string \<Rightarrow> string \<Rightarrow> ((string \<times> flag) list) res" where
  "command_flags cmd sub =
     (if cmd = ''config''
      then Inr [(''output'', text_flag op_output_update), (''effective'', switch op_effective_update), (''local'', switch op_local_update)]
      else if cmd = ''ca'' then ca_flags sub
      else if cmd = ''serve''
      then Inr [(''listen'', text_flag op_listen_update), (''profile'', text_flag op_profile_update), (''alpn-mode'', text_flag op_alpn_update),
        (''dns'', text_flag op_dns_update), (''log-file'', text_flag op_log_file_update)]
      else if cmd \<in> set [''status'', ''connections'', ''reload''] then Inr [(''socket'', text_flag op_socket_update)]
      else if cmd = ''doctor'' then Inr [(''domain'', text_flag op_domain_update)]
      else if cmd = ''test'' then Inr [(''profile'', text_flag op_profile_update), (''dns'', text_flag op_dns_update)]
      else if cmd = ''hosts'' then Inr [(''address'', text_flag op_address_update), (''dry-run'', switch op_dry_update)]
      else if cmd = ''install-service'' then Inr [(''dry-run'', switch op_dry_update)]
      else if cmd = ''uninstall-service''
      then Inr [(''dry-run'', switch op_dry_update), (''remove-hosts'', switch op_remove_hosts_update), (''keep-hosts'', switch op_keep_hosts_update)]
      else if cmd \<in> set [''profiles'', ''service'', ''version''] then Inr []
      else Inl (New (''unknown command '' @ quote cmd)))"

text \<open>The variables of \<^verbatim>\<open>test\<close> begin with the defaults of its flags.\<close>

definition command_defaults :: "paths \<Rightarrow> string \<Rightarrow> options" where
  "command_defaults p cmd =
     (if cmd = ''test'' then (default_options p)\<lparr>op_profile := ''chrome-133'', op_dns := ''auto''\<rparr> else default_options p)"

section \<open>Splitting the arguments\<close>

datatype request =
    Show_help
  | Command string string string "string list"

definition help_word :: "string \<Rightarrow> bool" where
  "help_word s = (s = ''--help'' \<or> s = ''-h'')"

definition split_arguments :: "string list \<Rightarrow> request res" where
  "split_arguments args =
     (case args of
       [] \<Rightarrow> Inr Show_help
     | cmd # rest \<Rightarrow>
         if cmd = ''help'' \<or> help_word cmd then Inr Show_help
         else if cmd \<in> set [''config'', ''ca'', ''profiles'', ''hosts'', ''service'']
         then
           (case rest of
             [] \<Rightarrow> Inl (New (cmd @ '' requires a subcommand''))
           | sub # rest' \<Rightarrow>
               if help_word sub then Inr Show_help
               else if cmd = ''profiles'' \<and> sub = ''show''
               then (case rest' of [] \<Rightarrow> Inl (New ''profiles show requires NAME'') | name # rest'' \<Rightarrow> Inr (Command cmd sub name rest''))
               else Inr (Command cmd sub [] rest'))
         else Inr (Command cmd [] [] rest))"

text \<open>A command that is understood: command, subcommand, name, options and the flags given.\<close>

record invocation =
  iv_cmd :: string
  iv_sub :: string
  iv_name :: string
  iv_options :: options
  iv_given :: "string list"

definition parse_command :: "paths \<Rightarrow> string \<Rightarrow> string \<Rightarrow> string \<Rightarrow> string list \<Rightarrow> invocation res" where
  "parse_command p cmd sub name rest =
     (case command_flags cmd sub of
       Inl e \<Rightarrow> Inl e
     | Inr fs \<Rightarrow>
         (case parse_flags (fs @ common_flags) rest (command_defaults p cmd) [] of
           Inl e \<Rightarrow> Inl e
         | Inr (os, given, left) \<Rightarrow>
             if left \<noteq> [] then Inl (New (''unexpected arguments: '' @ show_strings left))
             else Inr \<lparr>iv_cmd = cmd, iv_sub = sub, iv_name = name, iv_options = os, iv_given = given\<rparr>))"

definition understand :: "paths \<Rightarrow> string list \<Rightarrow> invocation option res" where
  "understand p args =
     (case split_arguments args of
       Inl e \<Rightarrow> Inl e
     | Inr Show_help \<Rightarrow> Inr None
     | Inr (Command cmd sub name rest) \<Rightarrow> map_sum id Some (parse_command p cmd sub name rest))"

end
