(* ===== verification/Cli.thy ===== *)
theory Cli
  imports Startup Flags ConfigPrint HostsApply TrustStores Service Logging
begin

text \<open>
  \<^verbatim>\<open>internal/cli/cli.go\<close>: the commands and how they put the components together, and the exit
  codes.  What a command prints is a list of values: texts, or the structures that are shown as JSON
  or in prose.  Writing to the standard output does not fail; messages to the standard error are left
  out.  The surroundings are the record \<open>surroundings\<close>; a context that times out is an error of the call
  under way.  The temporary comparison (\<^verbatim>\<open>test\<close>) is a field of it, filled in TemporaryTest.
\<close>

section \<open>Errors and exit codes\<close>

text \<open>An error with an exit code (\<^verbatim>\<open>coded\<close>), any other error, or a join that contains such.\<close>

datatype cli_error =
    Coded nat go_error
  | Plain_error go_error
  | Joined "cli_error list"

fun cli_is :: "go_error \<Rightarrow> cli_error \<Rightarrow> bool" where
  "cli_is t (Coded n e) = error_is e t"
| "cli_is t (Plain_error e) = error_is e t"
| "cli_is t (Joined es) = list_ex (cli_is t) es"

text \<open>\<^verbatim>\<open>errors.As\<close>: the first coded error.\<close>

fun code_of :: "cli_error \<Rightarrow> nat option" where
  "code_of (Coded n e) = Some n"
| "code_of (Plain_error e) = None"
| "code_of (Joined es) = (case filter (\<lambda>c. c \<noteq> None) (map code_of es) of [] \<Rightarrow> None | c # _ \<Rightarrow> c)"

definition invalid :: "go_error \<Rightarrow> cli_error" where
  "invalid e = Coded 2 e"

definition exit_code :: "cli_error option \<Rightarrow> nat" where
  "exit_code r =
     (case r of
       None \<Rightarrow> 0
     | Some e \<Rightarrow>
         if cli_is err_help e then 0
         else
           case code_of e of
             Some n \<Rightarrow> n
           | None \<Rightarrow> if cli_is (Os EPERM) e then 4 else if cli_is err_degraded e then 5 else 1)"

section \<open>What is printed\<close>

record probe_report =
  pb_domain :: string
  pb_upstream :: string
  pb_profile :: string
  pb_mods :: "string list"
  pb_version :: nat
  pb_alpn :: string

record doctor_report =
  dc_path :: path
  dc_dns :: dns_state
  dc_daemon :: string
  dc_error :: "string option"
  dc_probe :: "probe_report option"

text \<open>What an outside service sees of a client, and two clients compared.\<close>

record fingerprint =
  fp_http :: string
  fp_ja3 :: string
  fp_ja4 :: string
  fp_hash :: string

record comparison =
  cm_profile :: string
  cm_direct :: fingerprint
  cm_proxied :: fingerprint
  cm_changed :: bool
  cm_preserved :: bool

datatype shown =
    Help_text
  | Line_text string
  | Version_shown bool
  | Profiles_json "profile list"
  | Profile_json profile
  | Action_json string string bool
  | Config_json config
  | Info_shown bool info
  | Report_shown bool report
  | Plan_json service_plan
  | Hosts_json plan
  | Status_shown bool status_report
  | Reply_json string
  | Doctor_json doctor_report
  | Comparison_shown bool comparison

text \<open>A command: what it prints and its error.\<close>

type_synonym cli = "world \<Rightarrow> (shown list \<times> cli_error option) \<times> world"

definition ends :: "shown list \<Rightarrow> cli" where
  "ends xs w = ((xs, None), w)"

definition fails :: "cli_error \<Rightarrow> cli" where
  "fails e w = (([], Some e), w)"

definition ends_with :: "shown list \<Rightarrow> cli_error option \<Rightarrow> cli" where
  "ends_with xs e w = ((xs, e), w)"

definition says :: "shown list \<Rightarrow> cli \<Rightarrow> cli" where
  "says xs k w = (case k w of ((ys, e), w') \<Rightarrow> ((xs @ ys, e), w'))"

text \<open>Do \<open>m\<close>; an error ends the command as \<open>f\<close> says.\<close>

definition does :: "(go_error \<Rightarrow> cli_error) \<Rightarrow> 'a io \<Rightarrow> ('a \<Rightarrow> cli) \<Rightarrow> cli" where
  "does f m k w = (case m w of (Inl e, w') \<Rightarrow> (([], Some (f e)), w') | (Inr x, w') \<Rightarrow> k x w')"

text \<open>An operation with a report, which is handed on with its error.\<close>

definition reports :: "'r run \<Rightarrow> ('r \<Rightarrow> go_error option \<Rightarrow> cli) \<Rightarrow> cli" where
  "reports m k w = (case m w of ((r, e), w') \<Rightarrow> k r e w')"

definition afterwards :: "(world \<Rightarrow> world) \<Rightarrow> cli \<Rightarrow> cli" where
  "afterwards c k w = (case k w of (r, w') \<Rightarrow> (r, c w'))"

section \<open>The surroundings\<close>

record 'x surroundings =
  st_host :: host
  st_crypto :: crypto
  st_lib :: trust_lib
  st_ascii :: "string \<Rightarrow> string res"
  st_version :: string
  st_draw :: draw
  st_now :: int
  st_stamp :: string
  st_rnd :: string
  st_status :: "path \<Rightarrow> status_report io"
  st_ask :: "path \<Rightarrow> string \<Rightarrow> path \<Rightarrow> string io"
  st_addrs :: "string list res"
  st_reach :: "string \<Rightarrow> go_error option"
  st_found :: refresh_env
  st_lookup :: "string \<Rightarrow> resolver \<Rightarrow> (dns_error + addr list) \<times> resolver"
  st_net :: "'x net_env"
  st_dialled :: "go_error option"
  st_tcp :: "string \<Rightarrow> go_error option"
  st_live :: "server \<Rightarrow> string list \<Rightarrow> unit io"
  st_test :: "string \<Rightarrow> string \<Rightarrow> bool \<Rightarrow> cli"

definition system :: "'x surroundings \<Rightarrow> goos" where
  "system E = (case ho_os (st_host E) of Some g \<Rightarrow> g | None \<Rightarrow> Linux)"

section \<open>Loading with options\<close>

definition with_options :: "invocation \<Rightarrow> config \<Rightarrow> config" where
  "with_options v c0 =
     (let os = iv_options v; given = (\<lambda>f. f \<in> set (iv_given v));
          c1 = (if given ''listen'' then c0\<lparr>c_listen := [op_listen os]\<rparr> else c0);
          c2 = (if given ''profile'' then c1\<lparr>c_upstream := (c_upstream c1)\<lparr>up_profile := op_profile os\<rparr>\<rparr> else c1);
          c3 = (if given ''alpn-mode'' then c2\<lparr>c_upstream := (c_upstream c2)\<lparr>up_alpn_mode := op_alpn os\<rparr>\<rparr> else c2)
      in if given ''dns''
         then (if op_dns os = ''auto'' then c3\<lparr>c_dns := (c_dns c3)\<lparr>dns_mode := ''auto'', dns_servers := []\<rparr>\<rparr>
               else c3\<lparr>c_dns := (c_dns c3)\<lparr>dns_mode := ''manual'', dns_servers := split_on (CHR '','') (op_dns os)\<rparr>\<rparr>)
         else c3)"

definition load_with_options :: "'x surroundings \<Rightarrow> invocation \<Rightarrow> config io" where
  "load_with_options E v =
     bind_io (load_config (system E) (st_ascii E) (op_config (iv_options v))) (\<lambda>c.
     case validate (st_ascii E) (with_options v c) of (c', Some e) \<Rightarrow> throw e | (c', None) \<Rightarrow> ret c')"

section \<open>Commands\<close>

definition profiles_command :: "invocation \<Rightarrow> cli" where
  "profiles_command v =
     (if iv_sub v = ''list'' then ends [Profiles_json profile_list]
      else if iv_sub v = ''show''
      then (case get_profile (iv_name v) of Inl e \<Rightarrow> fails (invalid e) | Inr p \<Rightarrow> ends [Profile_json p])
      else fails (invalid (New ''use profiles list or profiles show NAME'')))"

definition service_command :: "'x surroundings \<Rightarrow> invocation \<Rightarrow> cli" where
  "service_command E v =
     does Plain_error (native (st_host E) (iv_sub v)) (\<lambda>(text, e).
     ends_with [if op_json (iv_options v) then Action_json (iv_sub v) text (e = None) else Line_text text]
       (map_option (if iv_sub v = ''status'' then Coded 3 else Plain_error) e))"

definition local_paths :: "path \<Rightarrow> config \<Rightarrow> config" where
  "local_paths base c =
     (let state_dir = path_join base ''state'' in
      c\<lparr>c_listen := [''127.0.0.1:8443''], c_ca_cert := path_join (path_join base ''ca'') ''ca.crt'',
        c_ca_key := path_join (path_join base ''ca'') ''ca.key'',
        c_runtime := (c_runtime c)\<lparr>rt_state_dir := state_dir, rt_control_socket := path_join state_dir ''control.sock''\<rparr>\<rparr>)"

definition created_text :: "path \<Rightarrow> string" where
  "created_text p = ''Created '' @ p @ [newline] @ ''Edit domains and settings before running.'' @ [newline]"

definition config_init :: "'x surroundings \<Rightarrow> options \<Rightarrow> cli" where
  "config_init E os =
     does Plain_error (path_abs (if op_output os = [] then op_config os else op_output os)) (\<lambda>full.
     let c = (if op_local os then local_paths (path_dir full) (defaults (system E)) else defaults (system E)) in
     case validate (st_ascii E) c of
       (c', Some e) \<Rightarrow> fails (invalid e)
     | (c', None) \<Rightarrow>
         does Plain_error (sys_mkdir_all (path_dir full) 448) (\<lambda>_.
         does Plain_error (exclusive full (config_text c' @ [newline]) 384) (\<lambda>_.
         ends [Line_text (created_text full)])))"

text \<open>The default certificate and key of the \<^verbatim>\<open>ca\<close> commands.\<close>

definition ca_pair :: "'x surroundings \<Rightarrow> invocation \<Rightarrow> (path \<times> path) io" where
  "ca_pair E v =
     (if ''config'' \<in> set (iv_given v)
      then bind_io (load_config (system E) (st_ascii E) (op_config (iv_options v))) (\<lambda>c. ret (c_ca_cert c, c_ca_key c))
      else let p = platform_paths (system E) in ret (path_join (pt_ca p) ''ca.crt'', path_join (pt_ca p) ''ca.key''))"

definition trust_command :: "'x surroundings \<Rightarrow> invocation \<Rightarrow> path \<Rightarrow> cli" where
  "trust_command E v default_cert =
     (let os = iv_options v; file = (if op_cert os = [] then default_cert else op_cert os) in
      does Plain_error (new_manager (st_lib E) (ho_exec (st_host E)) (st_now E) (ho_os (st_host E))) (\<lambda>M.
      reports (execute (st_lib E) M (st_now E) (st_rnd E) (iv_sub v) file (op_dry os)) (\<lambda>r e.
      ends_with [Report_shown (op_json os) r]
        (map_option (\<lambda>e. if error_is e err_not_trusted \<and> iv_sub v = ''trust-status'' then Coded 5 e else Plain_error e) e))))"

definition ca_dir :: "options \<Rightarrow> path \<times> path \<Rightarrow> path res" where
  "ca_dir os pair =
     (if op_dir os \<noteq> [] then Inr (op_dir os)
      else if path_dir (fst pair) \<noteq> path_dir (snd pair) \<or> path_base (fst pair) \<noteq> ''ca.crt'' \<or> path_base (snd pair) \<noteq> ''ca.key''
      then Inl (New ''ca init needs a directory containing ca.crt and ca.key; specify --dir'')
      else Inr (path_dir (fst pair)))"

definition ca_hint :: string where
  "ca_hint = ''Use ca trust --cert with this public certificate for explicit system trust, or curl --cacert for a temporary test. Never import ca.key.''"

definition ca_command :: "'x surroundings \<Rightarrow> invocation \<Rightarrow> cli" where
  "ca_command E v =
     (let os = iv_options v; sub = iv_sub v in
      does invalid (ca_pair E v) (\<lambda>pair.
      if sub \<in> set [''trust'', ''untrust'', ''trust-status''] then trust_command E v (fst pair)
      else if sub = ''init''
      then
        (case ca_dir os pair of
          Inl e \<Rightarrow> fails (invalid e)
        | Inr dir \<Rightarrow>
            does Plain_error (path_abs dir) (\<lambda>full.
            does Plain_error (ca_init (st_crypto E) (st_draw E) full (op_name os) (op_validity os)) (\<lambda>i.
            ends (Info_shown (op_json os) i # (if op_json os then [] else [Line_text ca_hint])))))
      else if sub = ''inspect''
      then
        does Plain_error (inspect (st_crypto E) (if op_cert os = [] then fst pair else op_cert os)) (\<lambda>i.
        ends [Info_shown (op_json os) i])
      else fails (invalid ca_usage)))"

subsection \<open>The hosts file\<close>

definition hosts_file :: path where
  "hosts_file = ''/etc/hosts''"

text \<open>\<^verbatim>\<open>Prepare\<close> where a plan with an error is an error.\<close>

definition prepared :: "string list \<Rightarrow> string \<Rightarrow> bool \<Rightarrow> plan io" where
  "prepared domains address remove =
     bind_io (prepare hosts_file domains address remove) (\<lambda>(p, e). bind_io (of_check e) (\<lambda>_. ret p))"

definition lan_hint :: string where
  "lan_hint = ''LAN target: only TCP reachability can be checked; verify the remote domain allowlist and CA trust on each client.''"

definition hosts_updated :: "path \<Rightarrow> string" where
  "hosts_updated backup = ''Hosts updated. Backup: '' @ backup @ [newline] @ ''Refresh browser connections; OS/browser DNS caches may need refreshing.'' @ [newline]"

definition is_local :: "addr list \<Rightarrow> string \<Rightarrow> bool" where
  "is_local own address = (case parse_addr address of None \<Rightarrow> False | Some ip \<Rightarrow> is_loopback ip \<or> ip \<in> set own)"

definition write_hosts :: "'x surroundings \<Rightarrow> string list \<Rightarrow> path \<Rightarrow> string \<Rightarrow> bool \<Rightarrow> bool \<Rightarrow> cli" where
  "write_hosts E domains state_dir address remove dry =
     does Plain_error (prepared domains address remove) (\<lambda>p.
     says [Line_text (p_diff p)]
       (if dry \<or> \<not> p_changed p then ends []
        else
          does Plain_error get_euid (\<lambda>u.
          if u \<noteq> 0 then fails (Plain_error (Os EPERM))
          else
            does Plain_error (apply_plan (ho_sha (st_host E)) (st_stamp E) (st_rnd E) p state_dir) (\<lambda>backup.
            ends [Line_text (hosts_updated backup)]))))"

definition change_hosts :: "'x surroundings \<Rightarrow> config option \<Rightarrow> string \<Rightarrow> bool \<Rightarrow> bool \<Rightarrow> cli" where
  "change_hosts E target address remove dry =
     (case target of
       None \<Rightarrow> write_hosts E [] (pt_state (platform_paths (system E))) address remove dry
     | Some c \<Rightarrow>
         (case local_addresses (st_addrs E) of
           Inl e \<Rightarrow> fails (Plain_error e)
         | Inr own \<Rightarrow>
             says (if is_local own address then [] else [Line_text lan_hint])
               (write_hosts E (c_domains c) (rt_state_dir (c_runtime c)) address remove dry)))"

text \<open>The daemon that must serve a destination on this machine: ready, listening there, allowing every
  domain, and reaching the server of every domain.\<close>

definition offered_protocols :: "string list" where
  "offered_protocols = [''h2'', ''http/1.1'']"

definition listens_on :: "config \<Rightarrow> string \<Rightarrow> bool" where
  "listens_on c address =
     list_ex (\<lambda>l. case parse_addr_port l of
         None \<Rightarrow> False
       | Some (a, port) \<Rightarrow> port = 443 \<and> (Some a = parse_addr address \<or> is_unspecified a)) (c_listen c)"

fun reach_all :: "'x surroundings \<Rightarrow> config \<Rightarrow> string list \<Rightarrow> resolver \<Rightarrow> go_error option" where
  "reach_all E c [] r = None"
| "reach_all E c (d # ds) r =
     (case dial_upstream (st_lookup E) (st_net E) c d offered_protocols r of
       (Inl e, _, _) \<Rightarrow> Some (Wrapf (''hosts preflight '' @ d) e)
     | (Inr u, _, r') \<Rightarrow> reach_all E c ds r')"

definition resolver_for :: "'x surroundings \<Rightarrow> config \<Rightarrow> resolver" where
  "resolver_for E c = new_resolver (re_now (st_found E)) (re_later (st_found E)) (re_found (st_found E)) (c_dns c)"

definition daemon_serves :: "'x surroundings \<Rightarrow> config \<Rightarrow> string \<Rightarrow> status_report \<Rightarrow> go_error option" where
  "daemon_serves E c address s =
     (if ss_health s \<noteq> ''ready'' then Some (New ''hosts apply requires a ready daemon'')
      else if \<not> listens_on (ss_config s) address then Some (New ''daemon must listen on the hosts destination at port 443'')
      else
        case find (\<lambda>d. \<not> allows_domain (ss_config s) d) (c_domains c) of
          Some d \<Rightarrow> Some (New (''daemon does not allow '' @ d @ ''; reload first''))
        | None \<Rightarrow> reach_all E (ss_config s) (c_domains c) (resolver_for E (ss_config s)))"

definition hosts_preflight :: "'x surroundings \<Rightarrow> config \<Rightarrow> string \<Rightarrow> unit io" where
  "hosts_preflight E c address =
     bind_io (of_res (local_addresses (st_addrs E))) (\<lambda>own.
     if \<not> is_local own address then of_check (st_reach E (join_host_port address ''443''))
     else
       bind_io (st_status E (rt_control_socket (c_runtime c))) (\<lambda>s.
       of_check (daemon_serves E c address s)))"

definition zero_hosts_plan :: plan where
  "zero_hosts_plan = \<lparr>p_path = [], p_changed = False, p_managed = [], p_conflicts = [], p_diff = [], p_before = [], p_after = []\<rparr>"

definition hosts_status :: "config \<Rightarrow> string \<Rightarrow> bool \<Rightarrow> cli" where
  "hosts_status c address json =
     does Plain_error (attempt (prepare hosts_file (c_domains c) address False)) (\<lambda>r.
     let (p, e) = (case r of Inl e \<Rightarrow> (zero_hosts_plan, Some e) | Inr q \<Rightarrow> q) in
     ends_with
       (if json then [Hosts_json p]
        else Line_text (p_diff p) # (if p_managed p \<noteq> [] then [Line_text (''Managed entries: '' @ join '', '' (p_managed p))] else []))
       (map_option Plain_error e))"

definition good_address :: "string \<Rightarrow> bool" where
  "good_address address = (case parse_addr address of None \<Rightarrow> False | Some ip \<Rightarrow> is4 ip \<and> \<not> is_unspecified ip \<and> \<not> is_multicast ip)"

definition hosts_command :: "'x surroundings \<Rightarrow> invocation \<Rightarrow> config \<Rightarrow> cli" where
  "hosts_command E v c =
     (let os = iv_options v; address = (if op_address os = [] then c_hosts_address c else op_address os) in
      if \<not> good_address address then fails (invalid (New ''--address must be unicast IPv4''))
      else if iv_sub v = ''status'' then hosts_status c address (op_json os)
      else if iv_sub v \<noteq> ''apply'' then fails (invalid (New ''use hosts status, apply or remove''))
      else
        does Plain_error (if op_dry os then ret () else hosts_preflight E c address) (\<lambda>_.
        change_hosts E (Some c) address False (op_dry os)))"

subsection \<open>The service\<close>

definition uninstall_command :: "'x surroundings \<Rightarrow> options \<Rightarrow> cli" where
  "uninstall_command E os =
     (if op_remove_hosts os \<and> op_keep_hosts os then fails (invalid (New ''choose only one of --remove-hosts and --keep-hosts''))
      else
        does Plain_error (prepared [] [] True) (\<lambda>p.
        if p_managed p \<noteq> [] \<and> \<not> op_remove_hosts os \<and> \<not> op_keep_hosts os
        then fails (invalid (New ''managed hosts entries exist; specify --remove-hosts or --keep-hosts''))
        else
          (let finally = reports (uninstall (st_host E) (op_dry os)) (\<lambda>text e. ends_with [Line_text text] (map_option Plain_error e)) in
           if op_remove_hosts os
           then (\<lambda>w. case change_hosts E None [] True (op_dry os) w of
               ((xs, Some e), w') \<Rightarrow> ((xs, Some e), w')
             | ((xs, None), w') \<Rightarrow> says xs finally w')
           else finally)))"

definition install_command :: "'x surroundings \<Rightarrow> options \<Rightarrow> config \<Rightarrow> cli" where
  "install_command E os c =
     reports (install (st_host E) c (op_config os) (op_dry os)) (\<lambda>(p, text) e.
     ends_with ((if op_dry os \<or> op_json os then [Plan_json p] else []) @ [Line_text text]) (map_option Plain_error e))"

subsection \<open>The daemon\<close>

definition inspect_daemon :: "'x surroundings \<Rightarrow> string \<Rightarrow> path \<Rightarrow> bool \<Rightarrow> cli" where
  "inspect_daemon E cmd socket json =
     (if cmd = ''status''
      then
        does (Coded 3) (st_status E socket) (\<lambda>s.
        ends_with [Status_shown json s] (if ss_health s \<noteq> ''ready'' then Some (Plain_error err_degraded) else None))
      else
        does (Coded 3) (if cmd = ''reload'' then st_ask E socket ''POST'' ''/v1/reload'' else st_ask E socket ''GET'' ''/v1/connections'') (\<lambda>text.
        ends [Reply_json text]))"

definition probe_of :: "config \<Rightarrow> string \<Rightarrow> 'x upstream \<Rightarrow> probe_report" where
  "probe_of c host u =
     \<lparr>pb_domain = host, pb_upstream = us_address u, pb_profile = up_profile (c_upstream c), pb_mods = us_mods u,
      pb_version = cs_version (us_state u), pb_alpn = cs_protocol (us_state u)\<rparr>"

definition doctor :: "'x surroundings \<Rightarrow> config \<Rightarrow> path \<Rightarrow> string \<Rightarrow> cli" where
  "doctor E c path name =
     (let r = resolver_for E c in
      does Plain_error (attempt (st_status E (rt_control_socket (c_runtime c)))) (\<lambda>d.
      let report = \<lparr>dc_path = path, dc_dns = fst (dns_status r),
            dc_daemon = (case d of Inr s \<Rightarrow> ss_health s | Inl _ \<Rightarrow> ''not running at configured socket''), dc_error = None, dc_probe = None\<rparr>;
          verdict = (\<lambda>r. if st_error (fst (dns_status r)) \<noteq> [] then Some (Plain_error err_degraded) else None)
      in if name = [] then ends_with [Doctor_json report] (verdict r)
         else
           (case domain (st_ascii E) name of
             Inl e \<Rightarrow> fails (invalid (New ''doctor --domain requires an exact configured domain''))
           | Inr host \<Rightarrow>
               if \<not> allows_domain c host then fails (invalid (New ''doctor --domain requires an exact configured domain''))
               else
                 (case dial_upstream (st_lookup E) (st_net E) c host offered_protocols r of
                   (Inl e, _, r') \<Rightarrow> ends_with [Doctor_json (report\<lparr>dc_error := Some (error_text e)\<rparr>)] (Some (Plain_error e))
                 | (Inr u, _, r') \<Rightarrow> ends_with [Doctor_json (report\<lparr>dc_probe := Some (probe_of c host u)\<rparr>)] (verdict r')))))"

definition serve_command :: "'x surroundings \<Rightarrow> options \<Rightarrow> config \<Rightarrow> cli" where
  "serve_command E os c =
     (let daemon =
        does Plain_error (path_abs (op_config os)) (\<lambda>full.
        does Plain_error (new_server (st_crypto E) (st_now E) (st_found E) c full (st_version E) (level_of c)) (\<lambda>s.
        reports (run_server (st_dialled E) (st_tcp E) (st_live E s) c) (\<lambda>_ e. ends_with [] (map_option Plain_error e))))
      in if op_log_file os = [] then daemon
         else does Plain_error (rotator_open (op_log_file os)) (\<lambda>log. afterwards (\<lambda>w. snd (snd (rotator_close log w))) daemon))"

section \<open>The program\<close>

text \<open>The commands that work with the configuration.\<close>

definition configured :: "'x surroundings \<Rightarrow> invocation \<Rightarrow> config \<Rightarrow> cli" where
  "configured E v c =
     (let cmd = iv_cmd v; sub = iv_sub v; os = iv_options v in
      if cmd \<in> set [''status'', ''connections'', ''reload''] then inspect_daemon E cmd (rt_control_socket (c_runtime c)) (op_json os)
      else if cmd = ''hosts'' then hosts_command E v c
      else if cmd = ''config'' \<and> sub = ''show'' then ends [Config_json c]
      else
        does Plain_error (ca_load (st_crypto E) (st_now E) (c_ca_cert c) (c_ca_key c)) (\<lambda>_.
        if cmd = ''config''
        then (if sub \<noteq> ''validate'' then fails (invalid (New ''use config init, validate or show''))
              else ends [Line_text ''Configuration and CA are valid.''])
        else if cmd = ''doctor'' then doctor E c (op_config os) (op_domain os)
        else if cmd = ''install-service'' then install_command E os c
        else if cmd = ''serve'' then serve_command E os c
        else fails (invalid (New (''unsupported command '' @ cmd)))))"

definition run_command :: "'x surroundings \<Rightarrow> invocation \<Rightarrow> cli" where
  "run_command E v =
     (let cmd = iv_cmd v; sub = iv_sub v; os = iv_options v in
      if cmd = ''version'' then ends [Version_shown (op_json os)]
      else if cmd = ''test'' then st_test E (op_profile os) (op_dns os) (op_json os)
      else if cmd = ''profiles'' then profiles_command v
      else if cmd = ''service'' then service_command E v
      else if cmd = ''config'' \<and> sub = ''init'' then config_init E os
      else if cmd = ''ca'' then ca_command E v
      else if cmd = ''hosts'' \<and> sub = ''remove'' then change_hosts E None [] True (op_dry os)
      else if cmd = ''uninstall-service'' then uninstall_command E os
      else if cmd \<in> set [''status'', ''connections'', ''reload''] \<and> op_socket os \<noteq> [] then inspect_daemon E cmd (op_socket os) (op_json os)
      else does invalid (load_with_options E v) (configured E v))"

definition run_cli :: "'x surroundings \<Rightarrow> string list \<Rightarrow> cli" where
  "run_cli E args =
     (case understand (platform_paths (system E)) args of
       Inl e \<Rightarrow> fails (invalid e)
     | Inr None \<Rightarrow> ends [Help_text]
     | Inr (Some v) \<Rightarrow> run_command E v)"

definition execute_cli :: "'x surroundings \<Rightarrow> string list \<Rightarrow> world \<Rightarrow> (shown list \<times> nat) \<times> world" where
  "execute_cli E args w = (case run_cli E args w of ((xs, e), w') \<Rightarrow> ((xs, exit_code e), w'))"

end
