(* ===== verification/CliSafety.thy ===== *)
theory CliSafety
  imports Cli TrustSafety ServiceSafety
begin

text \<open>
  What holds of the commands as wholes: a dry run changes nothing, the hosts file is only pointed at a
  daemon that serves it, removing the service needs a decision about the hosts entries, and the
  configuration \<^verbatim>\<open>config init\<close> writes is the one that is loaded.
\<close>

section \<open>Commands inside a frame\<close>

definition leaves_alone :: "path \<Rightarrow> cli \<Rightarrow> bool" where
  "leaves_alone p k = (\<forall>w. untouched p w (snd (k w)))"

lemma leaves_alone_ends [simp]: "leaves_alone p (ends xs)" "leaves_alone p (fails e)" "leaves_alone p (ends_with xs e')"
  by (simp_all add: leaves_alone_def ends_def fails_def ends_with_def untouched_refl)

lemma leaves_alone_says: "leaves_alone p k \<Longrightarrow> leaves_alone p (says xs k)"
  by (auto simp: leaves_alone_def says_def split: prod.split) (metis snd_conv)

lemma leaves_alone_does:
  assumes m: "stays (untouched p) m" and k: "\<And>x. leaves_alone p (k x)"
  shows "leaves_alone p (does f m k)"
  unfolding leaves_alone_def
proof
  fix w
  obtain x w' where mw: "m w = (x, w')" by (cases "m w")
  from unt.stays_run [OF m mw] have u: "untouched p w w'" .
  show "untouched p w (snd (does f m k w))"
  proof (cases x)
    case (Inl e)
    with mw u show ?thesis by (simp add: does_def)
  next
    case (Inr y)
    from k [of y] have "untouched p w' (snd (k y w'))" by (simp add: leaves_alone_def)
    with mw u Inr show ?thesis by (simp add: does_def) (rule untouched_trans)
  qed
qed

text \<open>Operations with a report.\<close>

definition quiet_run :: "path \<Rightarrow> 'r run \<Rightarrow> bool" where
  "quiet_run p k = (\<forall>w. untouched p w (snd (k w)))"

lemma quiet_run_ends [simp]: "quiet_run p (stop_with r e)" "quiet_run p (finish r)"
  by (simp_all add: quiet_run_def stop_with_def finish_def untouched_refl)

lemma quiet_run_try:
  assumes m: "stays (untouched p) m" and k: "\<And>x. quiet_run p (k x)"
  shows "quiet_run p (try_step f r m k)"
  unfolding quiet_run_def
proof
  fix w
  obtain x w' where mw: "m w = (x, w')" by (cases "m w")
  from unt.stays_run [OF m mw] have u: "untouched p w w'" .
  show "untouched p w (snd (try_step f r m k w))"
  proof (cases x)
    case (Inl e)
    with mw u show ?thesis by (simp add: try_step_def stop_with_def)
  next
    case (Inr y)
    from k [of y] have "untouched p w' (snd (k y w'))" by (simp add: quiet_run_def)
    with mw u Inr show ?thesis by (simp add: try_step_def) (rule untouched_trans)
  qed
qed

lemma leaves_alone_reports:
  assumes m: "quiet_run p m" and k: "\<And>r e. leaves_alone p (k r e)"
  shows "leaves_alone p (reports m k)"
  unfolding leaves_alone_def
proof
  fix w
  obtain r e w' where mw: "m w = ((r, e), w')" by (metis prod.collapse)
  with m have "untouched p w w'" by (simp add: quiet_run_def) (metis snd_conv)
  moreover have "untouched p w' (snd (k r e w'))" using k by (simp add: leaves_alone_def)
  ultimately show "untouched p w (snd (reports m k w))" by (simp add: reports_def mw) (rule untouched_trans)
qed

section \<open>Reading commands\<close>

lemma stays_load_config [frame_intros]: "stays (untouched p) (load_config os to_ascii q)"
  unfolding load_config_def by (intro unt.stays_rules frame_intros)

lemma stays_load_options [frame_intros]: "stays (untouched p) (load_with_options E v)"
  unfolding load_with_options_def by (intro unt.stays_rules frame_intros)

lemma stays_ca_pair [frame_intros]: "stays (untouched p) (ca_pair E v)"
  unfolding ca_pair_def Let_def by (intro unt.stays_rules frame_intros)

lemma stays_of_check [frame_intros]: "stays (untouched p) (of_check e)"
  unfolding of_check_def by (intro unt.stays_rules)

lemma stays_prepare [frame_intros]: "stays (untouched p) (prepare q domains address remove)"
  unfolding prepare_def by (intro unt.stays_rules frame_intros)

lemma stays_prepared [frame_intros]: "stays (untouched p) (prepared domains address remove)"
  unfolding prepared_def by (intro unt.stays_rules frame_intros)

lemma stays_load_pair [frame_intros]: "stays (untouched p) (load_pair C a b)"
  unfolding load_pair_def by (intro unt.stays_rules frame_intros)

lemma stays_ca_load [frame_intros]: "stays (untouched p) (ca_load C now a b)"
  unfolding ca_load_def by (intro unt.stays_rules frame_intros)

lemma stays_new_manager [frame_intros]: "stays (untouched p) (new_manager T exec now os)"
  unfolding new_manager_def by (auto split: option.split goos.split intro!: unt.stays_rules frame_intros)

section \<open>Dry runs\<close>

text \<open>Only the flag \<^verbatim>\<open>--dry-run\<close> asks for a dry run.\<close>

definition keeps_dry :: "flag \<Rightarrow> bool" where
  "keeps_dry f = (\<forall>v os os'. snd f v os = Some os' \<longrightarrow> op_dry os' = op_dry os)"

lemma keeps_dry_flags [simp]:
  "(\<And>g os. op_dry (upd g os) = op_dry os) \<Longrightarrow> keeps_dry (text_flag upd)"
  "(\<And>g os. op_dry (upd' g os) = op_dry os) \<Longrightarrow> keeps_dry (switch upd')"
  "(\<And>g os. op_dry (upd'' g os) = op_dry os) \<Longrightarrow> keeps_dry (duration_flag upd'')"
  by (auto simp: keeps_dry_def text_flag_def switch_def duration_flag_def split: sum.splits)

lemma parse_keeps_dry:
  "parse_flags fs args os given = Inr (os', given', left) \<Longrightarrow> list_all (\<lambda>f. keeps_dry (snd f)) fs \<Longrightarrow> op_dry os' = op_dry os"
proof (induction fs args os given rule: parse_flags.induct)
  case (2 fs s rest os given)
  have put: "op_dry os2 = op_dry os1" if "map_of fs name = Some (b, put)" "put v os1 = Some os2" for name b put v os1 os2
    using that 2(4) map_of_SomeD [OF that(1)] by (auto simp: list_all_iff keeps_dry_def)
  show ?case
    using 2(3,4) 2(1,2) put
    by (auto simp: Let_def split: argument.splits prod.splits option.splits if_splits list.splits)
qed simp

lemma if_InrE: "(if b then x else y) = Inr z \<Longrightarrow> (b \<Longrightarrow> x = Inr z \<Longrightarrow> P) \<Longrightarrow> (\<not> b \<Longrightarrow> y = Inr z \<Longrightarrow> P) \<Longrightarrow> P"
  by (simp split: if_split_asm)

lemma Inr_flipE: "Inr x = Inr z \<Longrightarrow> (z = x \<Longrightarrow> P) \<Longrightarrow> P"
  by simp

definition dry_command :: "string \<Rightarrow> string \<Rightarrow> bool" where
  "dry_command cmd sub =
     (cmd = ''ca'' \<and> (sub = ''trust'' \<or> sub = ''untrust'') \<or> cmd = ''hosts'' \<or> cmd = ''install-service'' \<or> cmd = ''uninstall-service'')"

lemma command_keeps_dry:
  assumes "command_flags cmd sub = Inr fs"
  shows "dry_command cmd sub \<or> list_all (\<lambda>f. keeps_dry (snd f)) fs"
  using assms [symmetric] unfolding command_flags_def ca_flags_def
  by (simp add: dry_command_def split: if_split_asm)

lemma dry_commands:
  assumes "parse_command p cmd sub name rest = Inr v" "op_dry (iv_options v)"
  shows "dry_command (iv_cmd v) (iv_sub v)"
proof (rule ccontr)
  assume no: "\<not> ?thesis"
  from assms(1) obtain fs os given where f: "command_flags cmd sub = Inr fs" and
    p: "parse_flags (fs @ common_flags) rest (command_defaults p cmd) [] = Inr (os, given, [])" and
    v: "v = \<lparr>iv_cmd = cmd, iv_sub = sub, iv_name = name, iv_options = os, iv_given = given\<rparr>"
    by (auto simp: parse_command_def split: sum.splits prod.splits if_splits)
  have "list_all (\<lambda>f. keeps_dry (snd f)) fs" using command_keeps_dry [OF f] no v by simp
  then have "list_all (\<lambda>f. keeps_dry (snd f)) (fs @ common_flags)" by (simp add: common_flags_def)
  from parse_keeps_dry [OF p this] have "op_dry os = op_dry (command_defaults p cmd)" .
  with assms(2) v show False by (simp add: command_defaults_def default_options_def split: if_splits)
qed

lemma dry_trust:
  assumes os: "ho_os (st_host E) = Some Linux" and dry: "op_dry (iv_options v)"
  shows "leaves_alone p (trust_command E v file)"
  unfolding leaves_alone_def
proof
  fix w
  let ?m = "new_manager (st_lib E) (ho_exec (st_host E)) (st_now E) (ho_os (st_host E))"
  obtain x w1 where m: "?m w = (x, w1)" by (cases "?m w")
  have u: "untouched p w w1" using unt.stays_run [OF stays_new_manager m] .
  show "untouched p w (snd (trust_command E v file w))"
  proof (cases x)
    case (Inl e)
    with m u show ?thesis by (simp add: trust_command_def Let_def does_def)
  next
    case (Inr M)
    with m os obtain l where M: "M = manager_of Linux (linux_ops (st_lib E) (st_now E) l)"
      by (auto simp: new_manager_def io_ok of_res_Inr ret_def)
    have i: "stays (untouched p) (bk_inspect (mg_backend M) c)" for c
      using linux_inspect_reads [of p] by (simp add: M manager_of_def linux_ops_def)
    let ?run = "execute (st_lib E) M (st_now E) (st_rnd E) (iv_sub v) (if op_cert (iv_options v) = [] then file else op_cert (iv_options v)) True"
    obtain r e w2 where r: "?run w1 = ((r, e), w2)" by (metis prod.collapse)
    have "untouched p w1 w2" using execute_stays [of p M "iv_sub v" True] i r by (auto simp: run_stays_def) (metis snd_conv)
    with u have "untouched p w w2" by (rule untouched_trans)
    with m r Inr dry show ?thesis by (simp add: trust_command_def Let_def does_def reports_def ends_with_def)
  qed
qed

lemma dry_write_hosts: "leaves_alone p (write_hosts E domains state_dir address remove True)"
  unfolding write_hosts_def by (intro leaves_alone_does leaves_alone_says frame_intros) simp

lemma dry_change_hosts: "leaves_alone p (change_hosts E target address remove True)"
  unfolding change_hosts_def by (auto split: option.split sum.split intro: leaves_alone_says dry_write_hosts)

lemma dry_install: "quiet_run p (install h c path True)"
  unfolding install_def by (intro quiet_run_try frame_intros) (auto split: prod.split option.split)

lemma dry_uninstall: "quiet_run p (uninstall h True)"
  unfolding uninstall_def uninstall_locked_def if_True
  by (intro quiet_run_try unt.stays_rules frame_intros) (auto split: sum.split)

lemma dry_uninstall_command:
  assumes "op_dry os"
  shows "leaves_alone p (uninstall_command E os)"
proof -
  define ending where "ending = reports (uninstall (st_host E) True) (\<lambda>text e. ends_with [Line_text text] (map_option Plain_error e))"
  have f: "leaves_alone p ending" unfolding ending_def by (intro leaves_alone_reports dry_uninstall) simp
  have c: "leaves_alone p (change_hosts E None [] True True)" by (rule dry_change_hosts)
  have "leaves_alone p (\<lambda>w. case change_hosts E None [] True True w of
       ((xs, Some e), w') \<Rightarrow> ((xs, Some e), w') | ((xs, None), w') \<Rightarrow> says xs ending w')"
    unfolding leaves_alone_def
  proof
    fix w
    obtain xs e w' where k: "change_hosts E None [] True True w = ((xs, e), w')" by (metis prod.collapse)
    with c have u: "untouched p w w'" by (simp add: leaves_alone_def) (metis snd_conv)
    have "untouched p w' (snd (says xs ending w'))" using leaves_alone_says [OF f] by (simp add: leaves_alone_def)
    with u have "untouched p w (snd (says xs ending w'))" by (rule untouched_trans)
    with k u show "untouched p w (snd (case change_hosts E None [] True True w of
       ((xs, Some e), w') \<Rightarrow> ((xs, Some e), w') | ((xs, None), w') \<Rightarrow> says xs ending w'))" by (cases e) simp_all
  qed
  with f assms show ?thesis
    unfolding uninstall_command_def Let_def by (auto simp: ending_def intro!: leaves_alone_does frame_intros)
qed

text \<open>C19: a dry run changes nothing.  On Linux, whatever fails and whatever other processes do, a command line with
  \<^verbatim>\<open>--dry-run\<close> leaves every file to the other processes: \<^verbatim>\<open>ca trust\<close> and \<^verbatim>\<open>untrust\<close>,
  \<^verbatim>\<open>hosts apply\<close> and \<^verbatim>\<open>remove\<close>, \<^verbatim>\<open>install-service\<close> and \<^verbatim>\<open>uninstall-service\<close>.\<close>

theorem dry_runs_change_nothing:
  assumes "ho_os (st_host E) = Some Linux" and "understand (platform_paths Linux) args = Inr (Some v)" and "op_dry (iv_options v)"
  shows "untouched p w (snd (execute_cli E args w))"
proof -
  have sys: "system E = Linux" using assms(1) by (simp add: system_def)
  from assms(2) obtain cmd sub name rest where pc: "parse_command (platform_paths Linux) cmd sub name rest = Inr v"
    by (auto simp: understand_def map_sum_def split: sum.splits request.splits)
  consider (trust) "iv_cmd v = ''ca''" "iv_sub v = ''trust'' \<or> iv_sub v = ''untrust''" | (hosts) "iv_cmd v = ''hosts''"
    | (install) "iv_cmd v = ''install-service''" | (uninstall) "iv_cmd v = ''uninstall-service''"
    using dry_commands [OF pc assms(3)] unfolding dry_command_def by blast
  then have "leaves_alone p (run_command E v)"
  proof cases
    case trust
    note c = trust(1) and s = trust(2)
    have "leaves_alone p (ca_command E v)"
      unfolding ca_command_def Let_def using s
      by (intro leaves_alone_does frame_intros) (auto intro: dry_trust [OF assms(1,3)])
    with c show ?thesis by (simp add: run_command_def Let_def)
  next
    case hosts
    note c = this
    have "leaves_alone p (hosts_command E v c)" for c
      unfolding hosts_command_def Let_def using assms(3)
      by (auto simp: hosts_status_def split: sum.split intro!: leaves_alone_does dry_change_hosts unt.stays_rules frame_intros)
    then have "leaves_alone p (does invalid (load_with_options E v) (configured E v))"
      using c by (intro leaves_alone_does frame_intros) (simp add: configured_def Let_def)
    with c assms(3) dry_change_hosts [of p E None] show ?thesis by (simp add: run_command_def Let_def)
  next
    case install
    note c = this
    have "leaves_alone p (install_command E os c)" if "op_dry os" for os c
      unfolding install_command_def using that by (auto intro!: leaves_alone_reports dry_install)
    then have "leaves_alone p (does invalid (load_with_options E v) (configured E v))"
      using c assms(3) by (intro leaves_alone_does frame_intros) (auto simp: configured_def Let_def intro!: leaves_alone_does frame_intros)
    with c show ?thesis by (simp add: run_command_def Let_def)
  next
    case uninstall
    note c = this
    with dry_uninstall_command [OF assms(3)] show ?thesis by (simp add: run_command_def Let_def)
  qed
  then have "leaves_alone p (run_cli E args)" by (simp add: run_cli_def sys assms(2))
  then show ?thesis by (auto simp: leaves_alone_def execute_cli_def split: prod.split) (metis snd_conv)
qed


text \<open>A machine to run commands on: no tool, no daemon.\<close>

definition sample_surroundings :: "nat surroundings" where
  "sample_surroundings =
     \<lparr>st_host = sample_host, st_crypto = sample_crypto, st_lib = sample_lib, st_ascii = Inr, st_version = ''1'', st_draw = sample_draw, st_now = 0,
      st_stamp = ''0'', st_rnd = ''0'', st_status = (\<lambda>p. throw (Os ECONNREFUSED)), st_ask = (\<lambda>p m u. throw (Os ECONNREFUSED)), st_addrs = Inr [],
      st_reach = (\<lambda>a. Some (Os ECONNREFUSED)), st_found = \<lparr>re_now = 0, re_later = 0, re_found = (\<lparr>d_source = [], d_routing = [], d_groups = []\<rparr>, None)\<rparr>,
      st_lookup = sample_ask, st_net = sample_net, st_dialled = None, st_tcp = (\<lambda>a. None), st_live = (\<lambda>s ls. ret ()), st_test = (\<lambda>p d j. ends [])\<rparr>"

lemma sample_system: "ho_os (st_host sample_surroundings) = Some Linux" "system sample_surroundings = Linux"
  by (simp_all add: sample_surroundings_def sample_host_def system_def)

lemmas flag_evals = understand_def split_arguments_def parse_command_def command_flags_def ca_flags_def common_flags_def argument_of_def
  flag_parts_def cut_def switch_def text_flag_def parse_bool_def help_word_def command_defaults_def default_options_def

theorem dry_runs_change_nothing_witness:
  "untouched ''/usr/local/bin/utlsproxy'' bare_world (snd (execute_cli sample_surroundings [''uninstall-service'', ''--dry-run''] bare_world))"
proof -
  obtain v where v: "understand (platform_paths Linux) [''uninstall-service'', ''--dry-run''] = Inr (Some v)" "op_dry (iv_options v)"
    by (simp add: flag_evals)
  show ?thesis by (rule dry_runs_change_nothing [OF sample_system(1) v])
qed

section \<open>The hosts entries\<close>

lemma reach_all_none: "reach_all E c ds r = None \<Longrightarrow> d \<in> set ds \<Longrightarrow> \<exists>r u t r'. dial_upstream (st_lookup E) (st_net E) c d offered_protocols r = (Inr u, t, r')"
proof (induction ds arbitrary: r)
  case (Cons e ds)
  then show ?case by (cases "d = e") (auto split: prod.splits sum.splits)
qed simp

definition destination_ready :: "'x surroundings \<Rightarrow> config \<Rightarrow> string \<Rightarrow> world \<Rightarrow> bool" where
  "destination_ready E c address w =
     (\<exists>own. local_addresses (st_addrs E) = Inr own \<and>
       (if is_local own address
        then \<exists>s w'. st_status E (rt_control_socket (c_runtime c)) w = (Inr s, w') \<and> ss_health s = ''ready'' \<and> listens_on (ss_config s) address
          \<and> (\<forall>d \<in> set (c_domains c). allows_domain (ss_config s) d
              \<and> (\<exists>r u t r'. dial_upstream (st_lookup E) (st_net E) (ss_config s) d offered_protocols r = (Inr u, t, r')))
        else st_reach E (join_host_port address ''443'') = None))"

lemma daemon_serves_none:
  "daemon_serves E c address s = None \<Longrightarrow> ss_health s = ''ready'' \<and> listens_on (ss_config s) address
     \<and> (\<forall>d \<in> set (c_domains c). allows_domain (ss_config s) d
         \<and> (\<exists>r u t r'. dial_upstream (st_lookup E) (st_net E) (ss_config s) d offered_protocols r = (Inr u, t, r')))"
  using reach_all_none by (fastforce simp: daemon_serves_def find_None_iff split: if_splits option.splits)

lemma preflight_ready: "hosts_preflight E c address w = (Inr (), w') \<Longrightarrow> destination_ready E c address w"
proof -
  assume run: "hosts_preflight E c address w = (Inr (), w')"
  then obtain own where own: "local_addresses (st_addrs E) = Inr own" by (auto simp: hosts_preflight_def io_ok of_res_Inr)
  show ?thesis
  proof (cases "is_local own address")
    case True
    with run own obtain s w1 where "st_status E (rt_control_socket (c_runtime c)) w = (Inr s, w1)" "daemon_serves E c address s = None"
      by (auto simp: hosts_preflight_def io_ok of_res_Inr of_check_def ret_def throw_def split: option.splits)
    with True own daemon_serves_none show ?thesis unfolding destination_ready_def by auto
  next
    case False
    with run own show ?thesis
      by (auto simp: destination_ready_def hosts_preflight_def io_ok of_res_Inr of_check_def throw_def split: option.splits)
  qed
qed

lemma stays_preflight:
  "(\<And>s. stays (untouched p) (st_status E s)) \<Longrightarrow> stays (untouched p) (hosts_preflight E c address)"
  unfolding hosts_preflight_def by (intro unt.stays_rules frame_intros)

text \<open>C20: the hosts file is only pointed at a destination that is ready.  Whatever \<^verbatim>\<open>hosts apply\<close> does to any file,
  it did after it loaded the configuration and found, for a destination of this machine, a daemon that is ready, listens there
  at port 443, allows every domain of the configuration and has a server it reaches for each of them; for another machine,
  that its port 443 was reached.  Otherwise every file is left to the others.\<close>

theorem hosts_apply_guarded:
  assumes "\<And>s. stays (untouched p) (st_status E s)"
    and "understand (platform_paths (system E)) args = Inr (Some v)" and "iv_cmd v = ''hosts''" and "iv_sub v = ''apply''" and "\<not> op_dry (iv_options v)"
  shows "untouched p w (snd (execute_cli E args w))
    \<or> (\<exists>c w1. load_with_options E v w = (Inr c, w1)
        \<and> destination_ready E c (if op_address (iv_options v) = [] then c_hosts_address c else op_address (iv_options v)) w1)"
proof -
  have out: "snd (execute_cli E args w) = snd (run_command E v w)"
    using assms(2) by (simp add: execute_cli_def run_cli_def split: prod.split)
  have "configured E v = hosts_command E v" using assms(3) by (intro ext) (simp add: configured_def Let_def)
  then have run: "run_command E v = does invalid (load_with_options E v) (hosts_command E v)"
    using assms(3,4) by (simp add: run_command_def Let_def)
  obtain x w1 where l: "load_with_options E v w = (x, w1)" by (cases "load_with_options E v w")
  have u1: "untouched p w w1" using unt.stays_run [OF stays_load_options l] .
  show ?thesis
  proof (cases x)
    case (Inl e)
    with l u1 out run show ?thesis by (simp add: does_def)
  next
    case (Inr c)
    define a where "a = (if op_address (iv_options v) = [] then c_hosts_address c else op_address (iv_options v))"
    obtain y w2 where f: "hosts_preflight E c a w1 = (y, w2)" by (cases "hosts_preflight E c a w1")
    have u2: "untouched p w1 w2" using unt.stays_run [OF stays_preflight [OF assms(1)] f] .
    show ?thesis
    proof (cases y)
      case Inl
      with f u2 assms(4,5) have "untouched p w1 (snd (hosts_command E v c w1))"
        by (simp add: hosts_command_def Let_def a_def [symmetric] fails_def does_def untouched_refl)
      with u1 have "untouched p w (snd (hosts_command E v c w1))" by (rule untouched_trans)
      with l Inr out run show ?thesis by (simp add: does_def)
    next
      case (Inr _)
      with f preflight_ready [of E c a w1 w2] l \<open>x = Inr c\<close> show ?thesis by (auto simp: a_def)
    qed
  qed
qed

theorem hosts_apply_guarded_witness:
  "untouched ''/etc/hosts'' bare_world (snd (execute_cli sample_surroundings [''hosts'', ''apply''] bare_world))"
proof -
  obtain v where v: "understand (platform_paths (system sample_surroundings)) [''hosts'', ''apply''] = Inr (Some v)" "iv_cmd v = ''hosts''" "iv_sub v = ''apply''"
    "\<not> op_dry (iv_options v)"
    by (simp add: flag_evals)
  have s: "stays (untouched ''/etc/hosts'') (st_status sample_surroundings s)" for s
    by (simp add: sample_surroundings_def unt.stays_throw)
  have no: "\<not> destination_ready sample_surroundings c a w" for c a w
    by (auto simp: destination_ready_def sample_surroundings_def throw_def local_addresses_def)
  from hosts_apply_guarded [OF s v, of bare_world] no show ?thesis by blast
qed

section \<open>Removing the service\<close>

lemma usage_code: "t \<noteq> ''flag: help requested'' \<Longrightarrow> exit_code (Some (invalid (New t))) = 2"
  by (simp add: exit_code_def invalid_def err_help_def)

text \<open>Removing the service needs a decision about the hosts entries.  While the hosts file has entries of the program,
  \<^verbatim>\<open>uninstall-service\<close> with neither \<^verbatim>\<open>--remove-hosts\<close> nor \<^verbatim>\<open>--keep-hosts\<close>, and at any time with
  both, exits with 2 and leaves every file to the others.\<close>

theorem uninstall_needs_choice:
  assumes "understand (platform_paths (system E)) args = Inr (Some v)" and "iv_cmd v = ''uninstall-service''"
    and "op_remove_hosts (iv_options v) = op_keep_hosts (iv_options v)"
    and "\<not> op_keep_hosts (iv_options v) \<Longrightarrow> \<exists>pl w1. prepared [] [] True w = (Inr pl, w1) \<and> p_managed pl \<noteq> []"
  shows "snd (fst (execute_cli E args w)) = 2 \<and> untouched p w (snd (execute_cli E args w))"
proof -
  have run: "run_cli E args = uninstall_command E (iv_options v)"
    using assms(1,2) by (simp add: run_cli_def run_command_def Let_def)
  show ?thesis
  proof (cases "op_keep_hosts (iv_options v)")
    case True
    with assms(3) run show ?thesis by (simp add: execute_cli_def uninstall_command_def fails_def usage_code untouched_refl)
  next
    case False
    with assms(4) obtain pl w1 where pl: "prepared [] [] True w = (Inr pl, w1)" "p_managed pl \<noteq> []" by blast
    with False assms(3) run have "execute_cli E args w = (([], 2), w1)"
      by (simp add: execute_cli_def uninstall_command_def does_def fails_def usage_code Let_def)
    with unt.stays_run [OF stays_prepared pl(1)] show ?thesis by simp
  qed
qed

definition sample_managed :: string where
  "sample_managed = Begin_line @ [newline] @ ''127.0.0.1 a.b'' @ [newline] @ End_line @ [newline]"

lemma sample_managed_plan:
  "case plan_of ''/etc/hosts'' sample_managed [] [] True of Inr (pl, e) \<Rightarrow> e = None \<and> p_managed pl \<noteq> [] | Inl _ \<Rightarrow> False"
  by code_simp

lemma sample_prepared:
  "\<exists>pl w1. prepared [] [] True (bare_world\<lparr>w_fs := [''/etc/hosts'' \<mapsto> plain_file sample_managed]\<rparr>) = (Inr pl, w1) \<and> p_managed pl \<noteq> []"
proof -
  let ?w = "bare_world\<lparr>w_fs := [''/etc/hosts'' \<mapsto> plain_file sample_managed]\<rparr>"
  have r: "resolve max_links (w_fs ?w) ''/etc/hosts'' = Some ''/etc/hosts''" by (rule resolve_plain) (simp add: plain_file_def)
  have q: "quiet ?w" by (simp add: quiet_def)
  have l: "length sample_managed \<le> max_hosts" by (simp add: sample_managed_def max_hosts_def Begin_line_def End_line_def)
  obtain pl where pl: "plan_of ''/etc/hosts'' sample_managed [] [] True = Inr (pl, None)" "p_managed pl \<noteq> []"
    using sample_managed_plan by (auto split: sum.splits prod.splits)
  have e: "sys_eval_symlinks ''/etc/hosts'' ?w = (Inr ''/etc/hosts'', ?w)"
    using r by (simp add: sys_eval_symlinks_def quiet_sys [OF q])
  have g: "regular ''/etc/hosts'' ?w = (Inr (), ?w)"
    by (simp add: regular_def sys_lstat_def bind_io_def quiet_sys [OF q] guard_def ret_def) (simp add: plain_file_def)
  have d: "sys_read ''/etc/hosts'' ?w = (Inr sample_managed, ?w)"
    using r by (simp add: sys_read_def quiet_sys [OF q]) (simp add: plain_file_def)
  have "prepare ''/etc/hosts'' [] [] True ?w = (Inr (pl, None), ?w)"
    using l by (simp add: prepare_def bind_io_def e g d guard_def ret_def pl(1))
  then have "prepared [] [] True ?w = (Inr pl, ?w)"
    by (simp add: prepared_def hosts_file_def bind_io_def of_check_def ret_def)
  with pl(2) show ?thesis by blast
qed

theorem uninstall_needs_choice_witness:
  "snd (fst (execute_cli sample_surroundings [''uninstall-service''] (bare_world\<lparr>w_fs := [''/etc/hosts'' \<mapsto> plain_file sample_managed]\<rparr>))) = 2"
proof -
  obtain v where v: "understand (platform_paths (system sample_surroundings)) [''uninstall-service''] = Inr (Some v)" "iv_cmd v = ''uninstall-service''"
    "op_remove_hosts (iv_options v) = op_keep_hosts (iv_options v)" "\<not> op_keep_hosts (iv_options v)"
    by (simp add: flag_evals)
  from uninstall_needs_choice [OF v(1,2,3)] sample_prepared show ?thesis by blast
qed

section \<open>Arguments that are understood\<close>

text \<open>The options with those of the named flags put back to their defaults.\<close>

definition masked :: "string list \<Rightarrow> options \<Rightarrow> options \<Rightarrow> options" where
  "masked names d os =
     \<lparr>op_config = (if ''config'' \<in> set names then op_config d else op_config os), op_json = (if ''json'' \<in> set names then op_json d else op_json os),
       op_effective = (if ''effective'' \<in> set names then op_effective d else op_effective os), op_socket = (if ''socket'' \<in> set names then op_socket d else op_socket os),
       op_output = (if ''output'' \<in> set names then op_output d else op_output os), op_dir = (if ''dir'' \<in> set names then op_dir d else op_dir os),
       op_cert = (if ''cert'' \<in> set names then op_cert d else op_cert os), op_name = (if ''name'' \<in> set names then op_name d else op_name os),
       op_validity = (if ''validity'' \<in> set names then op_validity d else op_validity os), op_listen = (if ''listen'' \<in> set names then op_listen d else op_listen os),
       op_profile = (if ''profile'' \<in> set names then op_profile d else op_profile os), op_alpn = (if ''alpn-mode'' \<in> set names then op_alpn d else op_alpn os),
       op_dns = (if ''dns'' \<in> set names then op_dns d else op_dns os), op_log_file = (if ''log-file'' \<in> set names then op_log_file d else op_log_file os),
       op_domain = (if ''domain'' \<in> set names then op_domain d else op_domain os), op_address = (if ''address'' \<in> set names then op_address d else op_address os),
       op_dry = (if ''dry-run'' \<in> set names then op_dry d else op_dry os), op_local = (if ''local'' \<in> set names then op_local d else op_local os),
       op_remove_hosts = (if ''remove-hosts'' \<in> set names then op_remove_hosts d else op_remove_hosts os), op_keep_hosts = (if ''keep-hosts'' \<in> set names then op_keep_hosts d else op_keep_hosts os)\<rparr>"

definition masks :: "string \<times> flag \<Rightarrow> bool" where
  "masks f = (\<forall>names d v os os'. fst f \<in> set names \<longrightarrow> snd (snd f) v os = Some os' \<longrightarrow> masked names d os' = masked names d os)"

lemma masks_kinds:
  "(\<And>names d v os. n \<in> set names \<Longrightarrow> masked names d (upd (\<lambda>_. v) os) = masked names d os) \<Longrightarrow> masks (n, text_flag upd)"
  "(\<And>names d v os. n \<in> set names \<Longrightarrow> masked names d (upd' (\<lambda>_. v) os) = masked names d os) \<Longrightarrow> masks (n, switch upd')"
  "(\<And>names d v os. n \<in> set names \<Longrightarrow> masked names d (upd'' (\<lambda>_. v) os) = masked names d os) \<Longrightarrow> masks (n, duration_flag upd'')"
  by (auto simp: masks_def text_flag_def switch_def duration_flag_def split: sum.splits)

lemma masked_updates:
  "''config'' \<in> set names \<Longrightarrow> masked names d (op_config_update (\<lambda>_. x) os) = masked names d os"
  "''json'' \<in> set names \<Longrightarrow> masked names d (op_json_update (\<lambda>_. b) os) = masked names d os"
  "''effective'' \<in> set names \<Longrightarrow> masked names d (op_effective_update (\<lambda>_. b) os) = masked names d os"
  "''socket'' \<in> set names \<Longrightarrow> masked names d (op_socket_update (\<lambda>_. x) os) = masked names d os"
  "''output'' \<in> set names \<Longrightarrow> masked names d (op_output_update (\<lambda>_. x) os) = masked names d os"
  "''dir'' \<in> set names \<Longrightarrow> masked names d (op_dir_update (\<lambda>_. x) os) = masked names d os"
  "''cert'' \<in> set names \<Longrightarrow> masked names d (op_cert_update (\<lambda>_. x) os) = masked names d os"
  "''name'' \<in> set names \<Longrightarrow> masked names d (op_name_update (\<lambda>_. x) os) = masked names d os"
  "''validity'' \<in> set names \<Longrightarrow> masked names d (op_validity_update (\<lambda>_. i) os) = masked names d os"
  "''listen'' \<in> set names \<Longrightarrow> masked names d (op_listen_update (\<lambda>_. x) os) = masked names d os"
  "''profile'' \<in> set names \<Longrightarrow> masked names d (op_profile_update (\<lambda>_. x) os) = masked names d os"
  "''alpn-mode'' \<in> set names \<Longrightarrow> masked names d (op_alpn_update (\<lambda>_. x) os) = masked names d os"
  "''dns'' \<in> set names \<Longrightarrow> masked names d (op_dns_update (\<lambda>_. x) os) = masked names d os"
  "''log-file'' \<in> set names \<Longrightarrow> masked names d (op_log_file_update (\<lambda>_. x) os) = masked names d os"
  "''domain'' \<in> set names \<Longrightarrow> masked names d (op_domain_update (\<lambda>_. x) os) = masked names d os"
  "''address'' \<in> set names \<Longrightarrow> masked names d (op_address_update (\<lambda>_. x) os) = masked names d os"
  "''dry-run'' \<in> set names \<Longrightarrow> masked names d (op_dry_update (\<lambda>_. b) os) = masked names d os"
  "''local'' \<in> set names \<Longrightarrow> masked names d (op_local_update (\<lambda>_. b) os) = masked names d os"
  "''remove-hosts'' \<in> set names \<Longrightarrow> masked names d (op_remove_hosts_update (\<lambda>_. b) os) = masked names d os"
  "''keep-hosts'' \<in> set names \<Longrightarrow> masked names d (op_keep_hosts_update (\<lambda>_. b) os) = masked names d os"
  by (simp_all add: masked_def cong: if_cong)

lemma masks_flags [simp]:
  "masks (''config'', text_flag op_config_update)"
  "masks (''json'', switch op_json_update)"
  "masks (''effective'', switch op_effective_update)"
  "masks (''socket'', text_flag op_socket_update)"
  "masks (''output'', text_flag op_output_update)"
  "masks (''dir'', text_flag op_dir_update)"
  "masks (''cert'', text_flag op_cert_update)"
  "masks (''name'', text_flag op_name_update)"
  "masks (''validity'', duration_flag op_validity_update)"
  "masks (''listen'', text_flag op_listen_update)"
  "masks (''profile'', text_flag op_profile_update)"
  "masks (''alpn-mode'', text_flag op_alpn_update)"
  "masks (''dns'', text_flag op_dns_update)"
  "masks (''log-file'', text_flag op_log_file_update)"
  "masks (''domain'', text_flag op_domain_update)"
  "masks (''address'', text_flag op_address_update)"
  "masks (''dry-run'', switch op_dry_update)"
  "masks (''local'', switch op_local_update)"
  "masks (''remove-hosts'', switch op_remove_hosts_update)"
  "masks (''keep-hosts'', switch op_keep_hosts_update)"
  by (simp_all add: masks_kinds masked_updates)

lemma command_masks: "command_flags cmd sub = Inr fs \<Longrightarrow> list_all masks (fs @ common_flags)"
proof -
  assume a: "command_flags cmd sub = Inr fs"
  have "list_all masks fs" using a [symmetric] unfolding command_flags_def ca_flags_def by (simp split: if_split_asm)
  then show ?thesis by (simp add: common_flags_def)
qed

lemma parse_given:
  "parse_flags fs args os given = Inr (os', given', left) \<Longrightarrow> list_all masks fs \<Longrightarrow>
     set given' \<subseteq> set given \<union> set (map fst fs) \<and> set given \<subseteq> set given' \<and> masked given' d os' = masked given' d os"
proof (induction fs args os given rule: parse_flags.induct)
  case (2 fs s rest os given)
  show ?case
  proof (cases "argument_of s")
    case (Flag_argument n)
    obtain name val where n: "flag_parts n = (name, val)" by (cases "flag_parts n")
    from 2(3) Flag_argument n obtain sw put where m: "map_of fs name = Some (sw, put)"
      and run: "\<not> (n = [] \<or> hd n = CHR ''-'' \<or> hd n = CHR ''='')"
      by (auto split: option.splits if_splits)
    have name: "name \<in> set (map fst fs)" using map_of_SomeD [OF m] by force
    have mask: "masked names d os2 = masked names d os" if "put v os = Some os2" "name \<in> set names" for v os2 names
      using map_of_SomeD [OF m] 2(4) that by (auto simp: list_all_iff masks_def)
    from 2(3) Flag_argument n m run have "\<exists>args2 v os2. put v os = Some os2 \<and> parse_flags fs args2 os2 (name # given) = Inr (os', given', left)
       \<and> (set given' \<subseteq> set (name # given) \<union> set (map fst fs) \<and> set (name # given) \<subseteq> set given' \<and> masked given' d os' = masked given' d os2)"
      using 2(1,2,4) by (auto simp: Let_def split: option.splits if_splits list.splits)
    then obtain v os2 where "put v os = Some os2"
      and ih: "set given' \<subseteq> set (name # given) \<union> set (map fst fs)" "set (name # given) \<subseteq> set given'" "masked given' d os' = masked given' d os2"
      by blast
    with mask [of v os2 given'] name show ?thesis by auto
  qed (use 2(3) in auto)
qed auto

text \<open>C29: an understood command line is well formed: the flags it was given are flags of its command, and only they
  decide its options; with the options of these flags put back, all options have the defaults of the command.\<close>

theorem understood_wellformed:
  assumes "understand p args = Inr (Some v)"
  shows "\<exists>fs. command_flags (iv_cmd v) (iv_sub v) = Inr fs \<and> set (iv_given v) \<subseteq> set (map fst (fs @ common_flags))
    \<and> masked (iv_given v) (command_defaults p (iv_cmd v)) (iv_options v) = command_defaults p (iv_cmd v)"
proof -
  from assms obtain cmd sub name rest where pc: "parse_command p cmd sub name rest = Inr v"
    by (auto simp: understand_def map_sum_def split: sum.splits request.splits)
  then obtain fs os given where f: "command_flags cmd sub = Inr fs"
    and run: "parse_flags (fs @ common_flags) rest (command_defaults p cmd) [] = Inr (os, given, [])"
    and v: "v = \<lparr>iv_cmd = cmd, iv_sub = sub, iv_name = name, iv_options = os, iv_given = given\<rparr>"
    by (auto simp: parse_command_def split: sum.splits prod.splits if_splits)
  have "masked names d d = d" for names d by (simp add: masked_def)
  with parse_given [OF run command_masks [OF f], of "command_defaults p cmd"] f v show ?thesis by simp
qed

theorem understood_wellformed_witness:
  "\<exists>v. understand (platform_paths Linux) [''ca'', ''trust'', ''--dry-run''] = Inr (Some v) \<and> set (iv_given v) \<subseteq> set [''cert'', ''dry-run'', ''config'', ''json'']"
proof -
  obtain v where v: "understand (platform_paths Linux) [''ca'', ''trust'', ''--dry-run''] = Inr (Some v)" "iv_cmd v = ''ca''" "iv_sub v = ''trust''"
    by (simp add: flag_evals)
  from understood_wellformed [OF v(1)] v show ?thesis
    by (auto simp: command_flags_def ca_flags_def common_flags_def)
qed

section \<open>The configuration of config init\<close>

lemma abs_clean: "is_abs q \<Longrightarrow> is_abs (path_clean q)"
  by (simp add: path_clean_def Let_def is_abs_def)

lemma abs_join: "is_abs a \<Longrightarrow> is_abs (path_join a b)"
  by (auto simp: path_join_def is_abs_def intro!: abs_clean [unfolded is_abs_def])

lemma abs_dir: "is_abs q \<Longrightarrow> is_abs (path_dir q)"
proof -
  assume q: "is_abs q"
  then have "cut_last q (CHR ''/'') \<noteq> None" by (cases q) (auto simp: is_abs_def cut_last_def)
  then obtain d b where db: "cut_last q (CHR ''/'') = Some (d, b)" by auto
  from cut_last_split [OF db] q have "is_abs (d @ ''/'')" by (cases d) (auto simp: is_abs_def)
  with db show ?thesis by (simp add: path_dir_def abs_clean)
qed

lemma ascii_in: "ascii s \<longleftrightarrow> (\<forall>c \<in> set s. code c < 128)"
  by (simp add: ascii_def list_all_iff)

lemma ascii_text_join: "ascii sep \<Longrightarrow> list_all ascii xs \<Longrightarrow> ascii (join sep xs)"
  by (induction sep xs rule: join.induct) (simp_all add: ascii_def)

lemma ascii_steps: "list_all ascii acc \<Longrightarrow> list_all ascii cs \<Longrightarrow> list_all ascii (foldl (clean_step r) acc cs)"
proof (induction cs arbitrary: acc)
  case (Cons c cs)
  have "list_all ascii (clean_step r acc c)"
    using Cons.prems by (auto simp: clean_step_def list_all_iff dest: in_set_butlastD)
  with Cons show ?case by simp
qed simp

lemma ascii_split: "ascii s \<Longrightarrow> list_all ascii (split_on c s)"
proof (induction s)
  case (Cons x s)
  obtain u us where "split_by (\<lambda>x. x = c) s = u # us" by (cases "split_by (\<lambda>x. x = c) s") auto
  with Cons show ?case by (simp add: split_on_def ascii_def)
qed (simp add: split_on_def ascii_def)

lemma ascii_clean: "ascii q \<Longrightarrow> ascii (path_clean q)"
proof -
  assume q: "ascii q"
  have s: "ascii ''/''" "ascii ''.''" "ascii []" by (simp_all add: ascii_def code_def)
  have "list_all ascii (foldl (clean_step (is_abs q)) [] (split_on (CHR ''/'') q))"
    by (rule ascii_steps) (simp_all add: ascii_split q)
  with ascii_text_join [OF s(1)] s show ?thesis by (simp add: path_clean_def Let_def)
qed

lemma ascii_dir: "ascii q \<Longrightarrow> ascii (path_dir q)"
proof -
  assume q: "ascii q"
  have s: "ascii ''/''" "ascii []" by (simp_all add: ascii_def code_def)
  show ?thesis
  proof (cases "cut_last q (CHR ''/'')")
    case (Some a)
    then obtain d b where db: "cut_last q (CHR ''/'') = Some (d, b)" by (cases a) auto
    from cut_last_split [OF db] q s have "ascii (d @ ''/'')" by (auto simp: ascii_def)
    with db show ?thesis by (simp add: path_dir_def ascii_clean)
  qed (simp add: path_dir_def ascii_clean s)
qed

lemma ascii_path_join: "ascii a \<Longrightarrow> ascii b \<Longrightarrow> ascii (path_join a b)"
proof -
  assume a: "ascii a" and b: "ascii b"
  have s: "ascii ''/''" by (simp add: ascii_def code_def)
  have "ascii (a @ ''/'' @ b)" unfolding ascii_text_append using a b s by (intro conjI)
  moreover have "ascii []" by (simp add: ascii_def)
  ultimately show ?thesis using a b unfolding path_join_def by (simp add: ascii_clean del: append_Cons append_Nil)
qed

lemma storable_defaults: "storable (defaults os)"
proof -
  have "storable (defaults Linux) \<and> storable (defaults Darwin)" by code_simp
  then show ?thesis by (cases os) simp_all
qed

lemma storable_local: "ascii base \<Longrightarrow> storable (local_paths base (defaults os))"
proof -
  assume b: "ascii base"
  have t: "ascii ''127.0.0.1:8443''" "ascii ''ca''" "ascii ''ca.crt''" "ascii ''ca.key''" "ascii ''state''" "ascii ''control.sock''"
    by (simp_all add: ascii_def code_def)
  have "ascii (path_join base ''ca'')" "ascii (path_join base ''state'')" using ascii_path_join b t by blast+
  then have j: "ascii (path_join (path_join base ''ca'') ''ca.crt'')" "ascii (path_join (path_join base ''ca'') ''ca.key'')"
    "ascii (path_join base ''state'')" "ascii (path_join (path_join base ''state'') ''control.sock'')"
    using ascii_path_join t by blast+
  from storable_defaults [of os] j t(1) show ?thesis
    unfolding storable_def local_paths_def Let_def by simp
qed

text \<open>What \<^verbatim>\<open>config init\<close> writes at a path.\<close>

definition first_config :: "'x surroundings \<Rightarrow> bool \<Rightarrow> path \<Rightarrow> config" where
  "first_config E local_ca full = (if local_ca then local_paths (path_dir full) (defaults (system E)) else defaults (system E))"

lemma first_storable: "ascii full \<Longrightarrow> storable (first_config E l full)"
  by (simp add: first_config_def storable_defaults storable_local ascii_dir)

lemma first_absolute: "is_abs full \<Longrightarrow> abs_paths base (first_config E l full) = first_config E l full"
proof -
  assume "is_abs full"
  then have j: "is_abs (path_join (path_join (path_dir full) ''ca'') ''ca.crt'')" "is_abs (path_join (path_join (path_dir full) ''ca'') ''ca.key'')"
    "is_abs (path_join (path_dir full) ''state'')" "is_abs (path_join (path_join (path_dir full) ''state'') ''control.sock'')"
    by (simp_all add: abs_join abs_dir)
  have d: "abs_paths base (defaults os) = defaults os" for os
    by (cases os; simp add: abs_paths_def abs_from_def defaults_def platform_paths_def Let_def is_abs_def path_evals)
  show ?thesis
    by (simp add: first_config_def d) (simp add: abs_paths_def abs_from_def local_paths_def Let_def j)
qed

lemma first_unchanged:
  assumes "st_ascii E ''tls.peet.ws'' = Inr ''tls.peet.ws''" and "validate (st_ascii E) (first_config E l full) = (c, None)"
  shows "c = first_config E l full"
proof -
  from defaults_accepted [of "st_ascii E", OF assms(1)] have "domain (st_ascii E) ''tls.peet.ws'' = Inr ''tls.peet.ws''"
    unfolding validate_iff by (auto simp: defaults_def Let_def dest: arg_cong [of _ _ c_domains])
  moreover have "c_domains (first_config E l full) = [''tls.peet.ws'']"
    by (simp add: first_config_def local_paths_def defaults_def Let_def)
  moreover obtain ds where "c = (first_config E l full)\<lparr>c_domains := ds\<rparr>"
    "list_all2 (\<lambda>s d. domain (st_ascii E) s = Inr d) (c_domains (first_config E l full)) ds"
    using assms(2) unfolding validate_iff by blast
  ultimately have "c = (first_config E l full)\<lparr>c_domains := c_domains (first_config E l full)\<rparr>"
    by (auto simp: list_all2_Cons1)
  then show ?thesis by simp
qed

lemma quiet_untouched: "untouched p w w' \<Longrightarrow> quiet w \<Longrightarrow> quiet w'"
  by (auto simp: untouched_def quiet_def)

lemma config_init_success:
  assumes q: "quiet w" and run: "config_init E os w = ((xs, None), w')"
    and full: "path_abs (if op_output os = [] then op_config os else op_output os) w = (Inr full, w)"
    and ascii: "st_ascii E ''tls.peet.ws'' = Inr ''tls.peet.ws''"
  shows "quiet w' \<and> (\<exists>n. w_fs w' full = Some n \<and> n_type n = Regular \<and> n_data n = config_text (first_config E (op_local os) full) @ [newline])
    \<and> validate (st_ascii E) (first_config E (op_local os) full) = (first_config E (op_local os) full, None)"
proof -
  let ?c = "first_config E (op_local os) full"
  obtain c e where v: "validate (st_ascii E) ?c = (c, e)" by (cases "validate (st_ascii E) ?c")
  with run full have "e = None"
    by (auto simp: config_init_def does_def Let_def first_config_def fails_def split: option.splits)
  with v first_unchanged [OF ascii] have v: "validate (st_ascii E) ?c = (?c, None)" by simp
  with run full obtain w1 where m: "sys_mkdir_all (path_dir full) 448 w = (Inr (), w1)" and e: "exclusive full (config_text ?c @ [newline]) 384 w1 = (Inr (), w')"
    by (auto simp: config_init_def does_def Let_def first_config_def ends_def split: sum.splits prod.splits)
  note c1 = calm_mkdir_all [OF m quiet_calm [OF q]]
  note c2 = exclusive_ok [OF conjunct1 [OF c1] e]
  have "untouched (path_dir full @ ''x'') w w1" by (rule unt.stays_run [where m = "sys_mkdir_all (path_dir full) 448", OF _ m]) (rule stays_mkdir_all, simp)
  then have "quiet w1" using q by (rule quiet_untouched)
  moreover have "untouched (full @ ''x'') w1 w'" by (rule unt.stays_run [where m = "exclusive full (config_text ?c @ [newline]) 384", OF _ e]) (rule stays_exclusive, simp)
  ultimately have "quiet w'" using quiet_untouched by blast
  with v c2 show ?thesis by (auto simp: new_node_def)
qed

text \<open>C28: the configuration \<^verbatim>\<open>config init\<close> writes is the configuration that is loaded.  Undisturbed, after a
  \<^verbatim>\<open>config init\<close> without an error, with or without \<^verbatim>\<open>--local\<close>, loading its file gives the defaults of
  the platform, or these with the paths beside the file; a path of ASCII characters and a text below the limit of
  \<^verbatim>\<open>Load\<close> assumed, and that the conversion to ASCII leaves the default domain alone.\<close>

theorem config_init_loads:
  assumes "quiet w" and "understand (platform_paths (system E)) args = Inr (Some v)" and "iv_cmd v = ''config''" and "iv_sub v = ''init''"
    and "path_abs (if op_output (iv_options v) = [] then op_config (iv_options v) else op_output (iv_options v)) w = (Inr full, w)"
    and "is_abs full" and "ascii full" and "length (config_text (first_config E (op_local (iv_options v)) full)) < max_config"
    and "st_ascii E ''tls.peet.ws'' = Inr ''tls.peet.ws''"
    and "run_cli E args w = ((xs, None), w')"
  shows "load_config (system E) (st_ascii E) full w' = (Inr (first_config E (op_local (iv_options v)) full), w')"
proof -
  let ?c = "first_config E (op_local (iv_options v)) full"
  have run: "run_cli E args = config_init E (iv_options v)" using assms(2,3,4) by (simp add: run_cli_def run_command_def Let_def)
  note ok = config_init_success [OF assms(1) assms(10) [unfolded run] assms(5,9)]
  then obtain n where n: "w_fs w' full = Some n" "n_type n = Regular" "n_data n = config_text ?c @ [newline]" by blast
  have r: "resolve max_links (w_fs w') full = Some full" by (rule resolve_plain) (simp add: n)
  have rd: "sys_read full w' = (Inr (config_text ?c @ [newline]), w')"
    using n r ok by (simp add: sys_read_def quiet_sys)
  show ?thesis
    using rd assms(8) config_round_trip [OF first_storable [OF assms(7), of E "op_local (iv_options v)"], of "system E"] ok
      first_absolute [OF assms(6), of _ E "op_local (iv_options v)"]
    by (simp add: load_config_def bind_io_def guard_def ret_def of_res_def path_abs_def)
qed

lemma sample_first: "first_config sample_surroundings False full = defaults Linux"
  by (simp add: first_config_def sample_system)

lemma default_texts:
  "duration_text (30 * second) = ''30s''" "duration_text (3 * second) = ''3s''" "duration_text (15 * second) = ''15s''" "duration_text (300 * second) = ''5m0s''"
  "duration_text (10 * second) = ''10s''" "itoa 1 = ''1''" "itoa 443 = ''443''" "itoa 1024 = ''1024''"
  by (simp_all add: duration_seconds clock_text_def dec.simps digit_char_def char_evals itoa_def)

lemma sample_short: "length (config_text (defaults Linux)) < max_config"
  by (simp add: config_text_def config_json_def marshal_indent_def dns_json_def runtime_json_def defaults_def Let_def platform_paths_def path_evals
      default_texts literal_def escape_text.simps escape_char_def code_def line_def max_config_def)

lemma sample_mkdir:
  "\<exists>w1. sys_mkdir_all ''/c'' 448 bare_world = (Inr (), w1) \<and> quiet w1 \<and> w_fs w1 ''/c/d'' = None \<and> (\<exists>n. w_fs w1 ''/c'' = Some n \<and> n_type n = Directory)"
  by (simp add: sys_mkdir_all_def sys_def tick_def apply_edits_def put_node_def new_node_def quiet_def)

lemma quiet_exclusive: "quiet w \<Longrightarrow> w_fs w p = None \<Longrightarrow> \<exists>w'. exclusive p b m w = (Inr (), w')"
  by (simp add: exclusive_def io_defs write_all_def attempt_def deferring_def sys_create_excl_def sys_write_def sys_close_def sys_sync_def
      sys_remove_def tick_def apply_edits_def fault_errno_def put_node_def append_data_def new_node_def quiet_def)

theorem config_init_loads_witness:
  "fst (load_config Linux Inr ''/c/d'' (snd (execute_cli sample_surroundings [''config'', ''init'', ''--output'', ''/c/d''] bare_world))) = Inr (defaults Linux)"
proof -
  let ?args = "[''config'', ''init'', ''--output'', ''/c/d'']"
  obtain v where v: "understand (platform_paths (system sample_surroundings)) ?args = Inr (Some v)" "iv_cmd v = ''config''" "iv_sub v = ''init''"
    and o: "op_output (iv_options v) = ''/c/d''" "op_local (iv_options v) = False"
    by (simp add: flag_evals)
  have a: "path_abs ''/c/d'' w = (Inr ''/c/d'', w)" for w by (simp add: path_abs_def path_evals)
  have d: "path_dir ''/c/d'' = ''/c''" by (simp add: path_evals)
  have st: "st_ascii sample_surroundings = Inr" by (simp add: sample_surroundings_def)
  have val: "validate Inr (defaults Linux) = (defaults Linux, None)" by (rule defaults_accepted) simp
  obtain w1 where m: "sys_mkdir_all ''/c'' 448 bare_world = (Inr (), w1)" "quiet w1" "w_fs w1 ''/c/d'' = None" using sample_mkdir by blast
  obtain w2 where e: "exclusive ''/c/d'' (config_text (defaults Linux) @ [newline]) 384 w1 = (Inr (), w2)" using quiet_exclusive [OF m(2,3)] by blast
  have run: "run_cli sample_surroundings ?args bare_world = (([Line_text (created_text ''/c/d'')], None), w2)"
    using v o by (simp add: run_cli_def run_command_def Let_def config_init_def does_def a d st sample_system(2) val m(1) e ends_def)
  have out: "snd (execute_cli sample_surroundings ?args bare_world) = w2" by (simp add: execute_cli_def run)
  have q: "quiet bare_world" by (simp add: quiet_def)
  have full: "path_abs (if op_output (iv_options v) = [] then op_config (iv_options v) else op_output (iv_options v)) bare_world = (Inr ''/c/d'', bare_world)"
    by (simp add: o a)
  have p: "is_abs ''/c/d''" "ascii ''/c/d''" by (simp_all add: is_abs_def ascii_def code_def)
  have len: "length (config_text (first_config sample_surroundings (op_local (iv_options v)) ''/c/d'')) < max_config"
    by (simp add: o sample_first sample_short)
  have id: "st_ascii sample_surroundings ''tls.peet.ws'' = Inr ''tls.peet.ws''" by (simp add: st)
  from config_init_loads [OF q v full p len id run] show ?thesis
    by (simp add: out o sample_first sample_system(2) st)
qed

end
