(* ===== verification/Spec2Isabelle.thy ===== *)
theory Spec2Isabelle
  imports HostsApply Logging Daemon Load TrustSafety Control Startup ServiceSafety ServiceText ConfigPrint CliSafety
begin

text \<open>
  A model of utlsproxy, a local proxy that ends the TLS connections of its clients with
  certificates of its own authority and opens connections to the real servers with the TLS
  fingerprint of a browser.  Source paths are relative to \<^verbatim>\<open>src/internal/\<close>.

  \<^bold>\<open>The program.\<close>  The daemon (\<^verbatim>\<open>proxy/server.go\<close>) accepts clients the configuration allows,
  reads the name a client asks for, takes a certificate for it from the authority (\<^verbatim>\<open>ca\<close>), resolves
  it at the servers the system uses (\<^verbatim>\<open>dns\<close>), connects and checks the server
  (\<^verbatim>\<open>proxy/upstream.go\<close>, \<^verbatim>\<open>profiles\<close>), finishes the handshake with the client with
  the protocol the server chose, and copies bytes both ways.  It is asked and reloaded over a
  control socket (\<^verbatim>\<open>control\<close>).  Commands change the system for it: the hosts file
  (\<^verbatim>\<open>hosts\<close>), the trust store (\<^verbatim>\<open>trust\<close>) and the native service (\<^verbatim>\<open>service\<close>).
  All files are written through \<^verbatim>\<open>fsutil\<close>.

  \<^bold>\<open>Ground.\<close>  \<open>Prelude\<close>: errors as values, rule collections, the interfaces \<open>codec\<close>,
  \<open>transition_system\<close>, \<open>bounded_cache\<close>.  \<open>GoStrings\<close>, \<open>Paths\<close>, \<open>Netip\<close>, \<open>Durations\<close>, \<open>Json\<close>,
  \<open>Decode\<close>, \<open>JsonPrint\<close>: what the program uses of Go's \<^verbatim>\<open>strings\<close>, \<^verbatim>\<open>strconv\<close>,
  \<^verbatim>\<open>path/filepath\<close>, \<^verbatim>\<open>net/netip\<close>, \<^verbatim>\<open>time.ParseDuration\<close> and
  \<^verbatim>\<open>encoding/json\<close>.  \<open>World\<close>: system calls on a store of files, with a schedule of
  failures and of edits by other processes; the frames (\<open>io_frame\<close>) say what a command leaves alone.
  A world is \<open>calm\<close> when nobody else writes, though calls may fail, and \<open>quiet\<close> when no call fails
  either.  \<open>Tools\<close>: running other programs, and operations with a report.

  \<^bold>\<open>Components.\<close>
    \<^item> \<open>FsUtil\<close> (\<^verbatim>\<open>fsutil/fsutil.go\<close>): every function; the lemmas say what a failure leaves.
    \<^item> \<open>Hosts\<close>, \<open>HostsApply\<close> (\<^verbatim>\<open>hosts/hosts.go\<close>): the managed block, planning, the shown
      difference, applying with a backup; the block is characterised by the lines of the file.
    \<^item> \<open>Profiles\<close> (\<^verbatim>\<open>profiles/profiles.go\<close>): the registry and the restriction to the offer.
    \<^item> \<open>Config\<close>, \<open>Load\<close> (\<^verbatim>\<open>config/config.go\<close>): defaults, reading, validating, decisions.
      \<open>CheckJSON\<close> is the walk over tokens, compared with the grammar of \<open>Json\<close>.
    \<^item> \<open>Discovery\<close>, \<open>Resolve\<close>, \<open>Resolver\<close> (\<^verbatim>\<open>dns/\<close>): finding the servers of the system, one
      query with its aliases, and the caching resolver as interleaved critical sections.
    \<^item> \<open>CA\<close> (\<^verbatim>\<open>ca/ca.go\<close>): creating, loading, inspecting, issuing with a cache.
    \<^item> \<open>Logging\<close> (\<^verbatim>\<open>logging/rotate.go\<close>): the rotating file refines an abstract log.
    \<^item> \<open>Upstream\<close> (\<^verbatim>\<open>proxy/upstream.go\<close>), \<open>Relay\<close>, \<open>Server\<close>, \<open>Daemon\<close>
      (\<^verbatim>\<open>proxy/server.go\<close>): dialling, copying, the state of the daemon, and the daemon as a
      transition system whose steps are the critical sections of the code.
    \<^item> \<open>Trust\<close>, \<open>TrustStores\<close>, \<open>TrustSafety\<close> (\<^verbatim>\<open>trust/trust.go\<close>,
      \<^verbatim>\<open>trust/platform.go\<close>): \<^verbatim>\<open>Execute\<close> over an abstract store (\<open>trust_backend\<close>), the
      two stores, and what holds of both.
    \<^item> \<open>Control\<close> (\<^verbatim>\<open>control/control.go\<close>): the control socket and requests to it.
    \<^item> \<open>Service\<close>, \<open>ServiceSafety\<close>, \<open>ServiceText\<close> (\<^verbatim>\<open>service/service.go\<close>): the texts of the
      service, the service manager, installing and removing.
    \<^item> \<open>Startup\<close> (\<^verbatim>\<open>Run\<close> of \<^verbatim>\<open>proxy/server.go\<close>): the locks and sockets around the life of
      the daemon, and the routes of the control socket.
    \<^item> \<open>ConfigPrint\<close> (\<^verbatim>\<open>config/config.go\<close>): printing a configuration and reading it back.
    \<^item> \<open>Flags\<close>, \<open>Cli\<close>, \<open>CliSafety\<close> (\<^verbatim>\<open>cli/cli.go\<close>): the arguments, every command over the
      models of the components, the exit codes, and what holds of whole command lines: dry runs, the check
      before the hosts file is changed, the decision before the service is removed, \<^verbatim>\<open>config init\<close>.

  \<^bold>\<open>Parameters and laws.\<close>  Code that is not the program's is an argument: cryptography (\<open>crypto\<close>,
  with the laws \<open>crypto_ok\<close>, and \<open>trust_lib_ok\<close> for PEM blocks), the uTLS presets, the DNS library,
  the network, \<^verbatim>\<open>idna\<close> (\<open>to_ascii\<close>), SHA-256, other programs (\<open>tools_spare\<close>,
  \<open>tools_quiet\<close>: they leave the files of the program alone), the answer of a daemon over HTTP, the
  order in which a map is ranged over, randomness and the clock.  The command line has all of them in
  one record, \<open>surroundings\<close>; the life of the daemon between the opening and the closing of its sockets is
  an argument of \<open>run_server\<close>, its steps are those of \<open>Daemon\<close>.  A writer of \<open>Relay\<close> is \<open>fair_writer\<close>
  when it never claims to have written more than it was given.  Every law is met by a concrete
  instance in a witness.

  \<^bold>\<open>Bounds and fuel.\<close>  The grammar of \<open>Json\<close> and the walk of \<^verbatim>\<open>CheckJSON\<close> take as fuel the
  length of the text and twice its length plus one; \<open>parse_enough\<close> and the property
  \<open>check_json_ends\<close> show that this is enough.  An alias chain has at most 9 hops and a path at most 40
  links, as in the code and the kernel.  The search of a bundle has the length of the text as fuel,
  each round takes at least one byte.  The rounds of \<^verbatim>\<open>awaitDaemon\<close> are an argument, the
  number that fits into its 15 seconds.  Counters that grow by one per connection or refresh are \<open>nat\<close>;
  modes, addresses, sequence numbers of the DNS and 64-bit durations are words or written out with their bounds.

  \<^bold>\<open>Simplifications.\<close>  The text of an error that ends with the output of a program stands before its
  cause here; \<^verbatim>\<open>time.Now\<close> is read once per execution where the code reads it several times;
  \<^verbatim>\<open>float64\<close> of a duration has no limit on the exponent; lower case and white space are those of
  ASCII; a context that ends is an error of the call that is under way.

  \<^bold>\<open>Not modelled.\<close>  \<^verbatim>\<open>cli/temporary_test_command.go\<close>, a comparison of fingerprints with an
  outside service over \<^verbatim>\<open>net/http\<close> while a daemon runs in the same process: a parameter of the command
  line.  The text of what the commands print in prose or as JSON, apart from the configuration, receipts
  and manifests, whose texts are read again; messages on the standard error and the records written to the
  log; the build information of \<^verbatim>\<open>version\<close>; the signals of \<^verbatim>\<open>serve\<close>; \<^verbatim>\<open>cmd/\<close>, which only calls
  \<^verbatim>\<open>Execute\<close>.
\<close>

end
